(* ===== verification/Ct_Prelude.thy ===== *)
theory Ct_Prelude
  imports Main "HOL-Library.Word"
begin

text \<open>
  What every component of the model shares: the C integer types, the fatal errors
  (\<open>ct_fatal\<close>, which never returns, is a value of a sum type), the small monad of actions
  that read and write a state and may stop with a fatal error, the rules that carry an
  invariant through such an action, and a few generic lemmas on words and lists.
\<close>

unbundle bit_operations_syntax

section \<open>C integers\<close>

type_synonym u8 = "8 word"
type_synonym u16 = "16 word"
type_synonym u32 = "32 word"
type_synonym u64 = "64 word"

text \<open>Casts: the C conversions between unsigned widths truncate or zero-extend.\<close>

abbreviation to8 :: "'a::len word \<Rightarrow> u8" where "to8 \<equiv> ucast"
abbreviation to16 :: "'a::len word \<Rightarrow> u16" where "to16 \<equiv> ucast"
abbreviation to32 :: "'a::len word \<Rightarrow> u32" where "to32 \<equiv> ucast"
abbreviation to64 :: "'a::len word \<Rightarrow> u64" where "to64 \<equiv> ucast"

text \<open>\<open>hi << 8 | lo\<close>, the value of two bytes.\<close>

definition word16 :: "u8 \<Rightarrow> u8 \<Rightarrow> u16" where
  "word16 lo hi = to16 lo OR push_bit 8 (to16 hi)"

text \<open>\<open>(uint32_t)bank << 16 | a\<close>, a 24-bit address.\<close>

definition addr24 :: "u8 \<Rightarrow> u16 \<Rightarrow> u32" where
  "addr24 bank a = push_bit 16 (to32 bank) OR to32 a"

section \<open>Fatal errors\<close>

text \<open>One constructor per \<open>ct_fatal\<close> message of the modelled code, with its arguments.\<close>

datatype (plugins only: code) fatal =
    Math_write_bad_register u16
  | Math_read_bad_register u16
  | Wram_port_bad_register u16
  | Bus_hook_outside u16
  | Read_unhooked u32
  | Read_open_bus u32
  | Write_rom u32
  | Write_unhooked u32
  | Write_open_bus u32
  | Decimal_adc u32
  | Decimal_sbc u32
  | Interp_decimal u32
  | Entry_state u32 u8 u8 u8
  | Runtime_state u32 u8 u8
  | Returned_to u32 u16 u16
  | Returned_to_long u32 u8 u16 u32
  | Step_budget u32
  | Instruction_cap u32
  | Op_unsupported u32 u8
  | Bad_mode
  | Sta_immediate u32
  | Wrong_return_kind u32
  | Jump_table_range u32 u16
  | Call_depth u32
  | Rts_from_jsl u32
  | Rtl_from_jsr u32
  | Brk_executed u32
  | Cop_executed u32
  | Stp_executed u32
  | Wai_executed u32
  | Emulation_mode
  | Emulation_op u32 u8
  | Step_while_waiting
  | Interrupt_in_emulation
  | No_cycle_count u32 u8
  | Overlay_nesting
  | Htime_end_of_line u16
  | Ppu_counters u16
  | Apu_boundary
  | Mvn_stub u8 u8 u8 u8
  | Mvn_stub_index8
  | Menu_scheduler
  | Overlay_changed u32
  | Interrupt_not_returned u32
  | Out_of_fuel

section \<open>Actions: state, result, fatal error\<close>

type_synonym ('s, 'a) act = "'s \<Rightarrow> fatal + 'a \<times> 's"

definition ret :: "'a \<Rightarrow> ('s, 'a) act" where
  "ret x = (\<lambda>s. Inr (x, s))"

definition die :: "fatal \<Rightarrow> ('s, 'a) act" where
  "die e = (\<lambda>s. Inl e)"

definition bnd :: "('s, 'a) act \<Rightarrow> ('a \<Rightarrow> ('s, 'b) act) \<Rightarrow> ('s, 'b) act" where
  "bnd m f = (\<lambda>s. case m s of Inl e \<Rightarrow> Inl e | Inr (x, s') \<Rightarrow> f x s')"

definition thn :: "('s, 'a) act \<Rightarrow> ('s, 'b) act \<Rightarrow> ('s, 'b) act" where
  "thn m k = bnd m (\<lambda>_. k)"

definition gets :: "('s \<Rightarrow> 'a) \<Rightarrow> ('s, 'a) act" where
  "gets f = (\<lambda>s. Inr (f s, s))"

definition modify :: "('s \<Rightarrow> 's) \<Rightarrow> ('s, unit) act" where
  "modify f = (\<lambda>s. Inr ((), f s))"

definition whenM :: "bool \<Rightarrow> ('s, unit) act \<Rightarrow> ('s, unit) act" where
  "whenM b m = (if b then m else ret ())"

lemma act_apply [simp]:
  "ret x s = Inr (x, s)" "die e s = Inl e" "gets f s = Inr (f s, s)" "modify g s = Inr ((), g s)"
  by (simp_all add: ret_def die_def gets_def modify_def)

lemma bnd_apply: "bnd m f s = (case m s of Inl e \<Rightarrow> Inl e | Inr (x, s') \<Rightarrow> f x s')"
  by (simp add: bnd_def)

lemma thn_apply: "thn m k s = (case m s of Inl e \<Rightarrow> Inl e | Inr (x, s') \<Rightarrow> k s')"
  by (simp add: thn_def bnd_def)

lemma whenM_simps [simp]: "whenM True m = m" "whenM False m = ret ()"
  by (simp_all add: whenM_def)

lemma bnd_laws [simp]:
  "bnd (ret x) f = f x" "bnd m ret = m" "bnd (die e) f = die e"
  by (auto simp: bnd_def ret_def die_def fun_eq_iff split: sum.splits)

lemma bnd_assoc: "bnd (bnd m f) g = bnd m (\<lambda>x. bnd (f x) g)"
  by (auto simp: bnd_def fun_eq_iff split: sum.splits)

lemma bnd_Inr: "bnd m f s = Inr r \<longleftrightarrow> (\<exists>x s'. m s = Inr (x, s') \<and> f x s' = Inr r)"
  by (auto simp: bnd_def split: sum.splits)

lemma bnd_ok [simp]: "m s = Inr (x, s') \<Longrightarrow> bnd m f s = f x s'"
  by (simp add: bnd_def)

lemma thn_ok [simp]: "m s = Inr (x, s') \<Longrightarrow> thn m k s = k s'"
  by (simp add: thn_def)

lemma bnd_fails [simp]: "m s = Inl e \<Longrightarrow> bnd m f s = Inl e" "m s = Inl e \<Longrightarrow> thn m k s = Inl e"
  by (simp_all add: thn_def bnd_def)

lemma bnd_gets: "bnd (gets f) k s = k (f s) s"
  by (simp add: bnd_def gets_def)

lemma thn_modify: "thn (modify g) k s = k (g s)"
  by (simp add: thn_def bnd_def modify_def)

section \<open>Invariants of actions\<close>

text \<open>
  \<open>hoare P m Q\<close>: from a state satisfying \<open>P\<close>, if \<open>m\<close> returns, its result and final state
  satisfy \<open>Q\<close>. \<open>keeps P m\<close>: \<open>m\<close> keeps the invariant \<open>P\<close>. Both say nothing of runs that
  stop with a fatal error.
\<close>

definition hoare :: "('s \<Rightarrow> bool) \<Rightarrow> ('s, 'a) act \<Rightarrow> ('a \<Rightarrow> 's \<Rightarrow> bool) \<Rightarrow> bool" where
  "hoare P m Q \<longleftrightarrow> (\<forall>s x s'. P s \<longrightarrow> m s = Inr (x, s') \<longrightarrow> Q x s')"

abbreviation keeps :: "('s \<Rightarrow> bool) \<Rightarrow> ('s, 'a) act \<Rightarrow> bool" where
  "keeps P m \<equiv> hoare P m (\<lambda>_. P)"

named_theorems keeps_intro \<open>rules that carry an invariant through an action\<close>

lemma hoareI: "(\<And>s x s'. P s \<Longrightarrow> m s = Inr (x, s') \<Longrightarrow> Q x s') \<Longrightarrow> hoare P m Q"
  by (auto simp: hoare_def)

lemma hoareD: "hoare P m Q \<Longrightarrow> P s \<Longrightarrow> m s = Inr (x, s') \<Longrightarrow> Q x s'"
  by (auto simp: hoare_def)

lemma hoare_weaken: "hoare P m Q \<Longrightarrow> (\<And>x s. Q x s \<Longrightarrow> R x s) \<Longrightarrow> hoare P m R"
  by (auto simp: hoare_def)

lemma keeps_ret [keeps_intro]: "keeps P (ret x)"
  by (simp add: hoare_def)

lemma keeps_die [keeps_intro]: "hoare P (die e) Q"
  by (simp add: hoare_def)

lemma keeps_gets [keeps_intro]: "keeps P (gets f)"
  by (simp add: hoare_def)

lemma keeps_modify: "(\<And>s. P s \<Longrightarrow> P (f s)) \<Longrightarrow> keeps P (modify f)"
  by (simp add: hoare_def)

lemma hoare_bnd: "hoare P m R \<Longrightarrow> (\<And>x. hoare (R x) (f x) Q) \<Longrightarrow> hoare P (bnd m f) Q"
  by (fastforce simp: hoare_def bnd_Inr)

lemma keeps_bnd [keeps_intro]: "keeps P m \<Longrightarrow> (\<And>x. keeps P (f x)) \<Longrightarrow> keeps P (bnd m f)"
  by (rule hoare_bnd)

lemma keeps_thn [keeps_intro]: "keeps P m \<Longrightarrow> keeps P k \<Longrightarrow> keeps P (thn m k)"
  unfolding thn_def by (rule keeps_bnd)

lemma keeps_if [keeps_intro]: "keeps P m \<Longrightarrow> keeps P k \<Longrightarrow> keeps P (if b then m else k)"
  by simp

lemma keeps_when [keeps_intro]: "keeps P m \<Longrightarrow> keeps P (whenM b m)"
  by (simp add: whenM_def keeps_ret)

section \<open>Words\<close>

lemma to8_word16 [simp]: "to8 (word16 lo hi) = lo"
  by (rule bit_word_eqI) (auto simp: word16_def bit_simps dest: bit_imp_le_length)

lemma to8_drop_word16 [simp]: "to8 (drop_bit 8 (word16 lo hi)) = hi"
  by (rule bit_word_eqI) (auto simp: word16_def bit_simps dest: bit_imp_le_length)

lemma word16_split [simp]: "word16 (to8 v) (to8 (drop_bit 8 v)) = v"
  by (rule bit_word_eqI) (auto simp: word16_def bit_simps dest: bit_imp_le_length)

lemma bank_addr24 [simp]: "to8 (drop_bit 16 (addr24 b l)) = b"
  by (rule bit_word_eqI) (auto simp: addr24_def bit_simps dest: bit_imp_le_length)

lemma lo_addr24 [simp]: "to16 (addr24 b l) = l"
  by (rule bit_word_eqI) (auto simp: addr24_def bit_simps dest: bit_imp_le_length)

lemma mask24_nth: "bit (0xFFFFFF::int) n \<longleftrightarrow> n < 24"
proof -
  have "(0xFFFFFF::int) = mask 24" by (simp add: mask_eq_exp_minus_1)
  then show ?thesis by (metis bit_mask_iff possible_bit_int)
qed

lemma addr24_split: "addr24 (to8 (drop_bit 16 a)) (to16 a) = a AND 0xFFFFFF"
  by (rule bit_word_eqI) (auto simp: addr24_def bit_simps mask24_nth dest: bit_imp_le_length)

lemma addr24_mask [simp]: "addr24 b l AND 0xFFFFFF = addr24 b l"
  by (rule bit_word_eqI) (auto simp: addr24_def bit_simps mask24_nth dest: bit_imp_le_length)

lemma unat_zext [simp]:
  "unat (to16 (b :: u8)) = unat b" "unat (to32 (b :: u8)) = unat b" "unat (to32 (w :: u16)) = unat w"
  "unat (to64 (b :: u8)) = unat b" "unat (to64 (w :: u16)) = unat w" "unat (to64 (x :: u32)) = unat x"
  using unsigned_less[of b, where ?'a = nat] unsigned_less[of w, where ?'a = nat]
    unsigned_less[of x, where ?'a = nat]
  by (simp_all add: unsigned_ucast_eq take_bit_eq_mod)

lemma unat_addr24: "unat (addr24 b l) = unat b * 65536 + unat l"
proof -
  have "push_bit 16 (to32 b) AND to32 l = 0"
    by (rule bit_word_eqI) (auto simp: bit_simps dest: bit_imp_le_length)
  then have "addr24 b l = push_bit 16 (to32 b) + to32 l"
    unfolding addr24_def by (simp add: disjunctive_add_eq_or)
  moreover have "unat b < 256" "unat l < 65536" using unsigned_less[of b, where ?'a=nat] unsigned_less[of l, where ?'a=nat] by simp_all
  ultimately show ?thesis
    by (simp add: unat_word_ariths push_bit_eq_mult unat_zext)
qed

lemma unat_word16: "unat (word16 lo hi) = unat hi * 256 + unat lo"
proof -
  have "push_bit 8 (to16 hi) AND to16 lo = 0"
    by (rule bit_word_eqI) (auto simp: bit_simps dest: bit_imp_le_length)
  then have "word16 lo hi = push_bit 8 (to16 hi) + to16 lo"
    unfolding word16_def by (simp add: disjunctive_add_eq_or or.commute)
  moreover have "unat lo < 256" "unat hi < 256" using unsigned_less[of lo, where ?'a=nat] unsigned_less[of hi, where ?'a=nat] by simp_all
  ultimately show ?thesis
    by (simp add: unat_word_ariths push_bit_eq_mult unat_zext)
qed

lemma unat_bounds: "unat (b :: u8) < 256" "unat (l :: u16) < 65536"
  using unsigned_less[of b, where ?'a=nat] unsigned_less[of l, where ?'a=nat] by simp_all

lemma unat_addr24_minus:
  "C \<le> addr24 b l \<Longrightarrow> unat (addr24 b l - C) = unat b * 65536 + unat l - unat C"
  by (simp add: unat_sub unat_addr24)

lemma bit_iff_odd_div: "bit (x :: 'a::len word) n \<longleftrightarrow> odd (unat x div 2 ^ n)"
proof -
  have "bit x n \<longleftrightarrow> bit (unat x) n" by (simp add: bit_unsigned_iff)
  then show ?thesis by (simp only: bit_iff_odd)
qed

lemma and_high_part: "(x :: u32) AND 0x7E00 = 0 \<longleftrightarrow> unat x mod 0x8000 < 0x200"
proof -
  have m: "(0x7E00::u32) = push_bit 9 (mask 6)" by (simp add: push_bit_eq_mult mask_eq_exp_minus_1)
  have "x AND 0x7E00 = push_bit 9 (take_bit 6 (drop_bit 9 x))"
    unfolding m by (rule bit_word_eqI) (auto simp: bit_simps)
  moreover have "push_bit 9 (take_bit 6 (drop_bit 9 x)) = 0 \<longleftrightarrow> take_bit 6 (drop_bit 9 x) = 0"
  proof
    assume "push_bit 9 (take_bit 6 (drop_bit 9 x)) = 0"
    then have "drop_bit 9 (push_bit 9 (take_bit 6 (drop_bit 9 x))) = 0" by simp
    moreover have "drop_bit 9 (push_bit 9 (take_bit 6 (drop_bit 9 x))) = take_bit 6 (drop_bit 9 x)"
      by (rule bit_word_eqI) (auto simp: bit_simps)
    ultimately show "take_bit 6 (drop_bit 9 x) = 0" by simp
  qed simp
  moreover have "unat (take_bit 6 (drop_bit 9 x)) = (unat x div 512) mod 64"
    by (simp add: unsigned_take_bit_eq unsigned_drop_bit_eq take_bit_eq_mod drop_bit_eq_div unat_mod unat_div)
  ultimately have "x AND 0x7E00 = 0 \<longleftrightarrow> (unat x div 512) mod 64 = 0"
    by (metis unat_eq_zero)
  also have "\<dots> \<longleftrightarrow> unat x mod 0x8000 < 0x200"
  proof -
    have "unat x mod (512 * 64) = 512 * (unat x div 512 mod 64) + unat x mod 512"
      by (rule mod_mult2_eq)
    moreover have "unat x mod 512 < 512" by simp
    ultimately show ?thesis by (simp del: mod_mult2_eq) linarith
  qed
  finally show ?thesis .
qed

lemma odd_div_iff: "(n::nat) < 2 * k \<Longrightarrow> odd (n div k) \<longleftrightarrow> k \<le> n"
proof -
  assume n: "n < 2 * k"
  then have "n div k < 2" by (simp add: less_mult_imp_div_less)
  moreover have "n div k = 0 \<longleftrightarrow> n < k" using n by (auto simp: div_eq_0_iff)
  ultimately show ?thesis by (cases "n div k = 0") (auto simp: less_2_cases_iff)
qed

lemma u8_ge_80: "(b :: u8) \<ge> 0x80 \<longleftrightarrow> bit b 7"
  using unat_bounds(1)[of b] odd_div_iff[of "unat b" 128] by (simp add: word_le_nat_alt bit_iff_odd_div)

lemma u16_ge_8000: "(l :: u16) \<ge> 0x8000 \<longleftrightarrow> bit l 15"
  using unat_bounds(2)[of l] odd_div_iff[of "unat l" 32768] by (simp add: word_le_nat_alt bit_iff_odd_div)

lemma unat_of_nat32: "m < 4294967296 \<Longrightarrow> unat (word_of_nat m :: u32) = m"
  by (simp add: unat_of_nat)

end
