(* ===== verification/Ct_Hwlog.thy ===== *)
theory Ct_Hwlog
  imports Ct_Prelude
begin

text \<open>
  \<open>runtime/hwlog.c\<close>: notes on hardware behaviour that is stubbed on purpose, each kept once,
  at most 64 of them, and the report \<open>hw_needed_write\<close> writes. The notes array is the list
  of its used entries; messages arrive formatted and are cut to the 159 characters the
  buffer holds.
\<close>

definition MAX_NOTES :: nat where "MAX_NOTES = 64"

definition hw_note :: "string \<Rightarrow> string list \<Rightarrow> string list" where
  "hw_note msg notes =
     (let buf = take 159 msg in
      if buf \<in> set notes then notes
      else if length notes < MAX_NOTES then notes @ [buf] else notes)"

definition hw_note_count :: "string list \<Rightarrow> nat" where
  "hw_note_count notes = length notes"

definition hw_note_text :: "string list \<Rightarrow> nat \<Rightarrow> string" where
  "hw_note_text notes i = (if i < length notes then notes ! i else [])"

definition nl :: string where "nl = [CHR 0x0A]"

definition hw_needed_text :: "string \<Rightarrow> string option \<Rightarrow> string list \<Rightarrow> string" where
  "hw_needed_text tool stop notes =
     ''# Needed hardware'' @ nl @ nl @
     ''Written by `'' @ tool @ '' --needed-hw`. Do not edit by hand.'' @ nl @ nl @
     (case stop of
        Some m \<Rightarrow> ''Running from reset in the system-mode interpreter stops at:'' @ nl @ nl @
                  ''- '' @ m @ nl @ nl
      | None \<Rightarrow> ''The run finished without a fatal error.'' @ nl @ nl) @
     (if notes = [] then []
      else ''Stubbed on purpose (documented, first occurrence each):'' @ nl @ nl @
           concat (map (\<lambda>n. ''- '' @ n @ nl) notes))"

text \<open>\<open>%04X\<close> of a 16-bit register number.\<close>

definition hex_digit :: "u16 \<Rightarrow> char" where
  "hex_digit d = ''0123456789ABCDEF'' ! unat (d AND 0xF)"

definition hex4 :: "u16 \<Rightarrow> string" where
  "hex4 r = [hex_digit (drop_bit 12 r), hex_digit (drop_bit 8 r), hex_digit (drop_bit 4 r),
             hex_digit r]"

definition wf_notes :: "string list \<Rightarrow> bool" where
  "wf_notes notes \<longleftrightarrow> distinct notes \<and> length notes \<le> MAX_NOTES \<and> (\<forall>n\<in>set notes. length n < 160)"

lemma wf_notes_hw_note [simp]: "wf_notes notes \<Longrightarrow> wf_notes (hw_note msg notes)"
  by (auto simp: wf_notes_def hw_note_def Let_def)

lemma hw_note_idem [simp]: "take 159 msg \<in> set notes \<Longrightarrow> hw_note msg notes = notes"
  by (simp add: hw_note_def)

lemma hw_note_keeps: "\<exists>more. hw_note msg notes = notes @ more"
  by (auto simp: hw_note_def Let_def)

end
