(* ===== verification/Ct_Bus.thy ===== *)
theory Ct_Bus
  imports Ct_Hwlog
begin

text \<open>
  \<open>runtime/bus.h\<close> and \<open>runtime/bus.c\<close>: the 24-bit bus. The state is the record
  \<open>bus_state\<close>, extended by the later components with their own fields, so every operation
  here works on any extension of it. Arrays are functions of their index; \<open>decode_addr\<close> is
  shown to stay inside them. The table of register hooks (\<open>hw_rd\<close>, \<open>hw_wr\<close>) is a record of
  two functions from a register to an optional handler (\<open>None\<close> is the C \<open>NULL\<close>) and is
  passed to the operations that call through it; handlers read and write the whole state,
  as the C functions do with its globals. The hook \<open>ct_wram_write_hook\<close>, set by tests only,
  is the C \<open>NULL\<close> here.
\<close>

section \<open>State\<close>

definition CT_ROM_SIZE :: u32 where "CT_ROM_SIZE = 0x400000"
definition CT_WRAM_SIZE :: u32 where "CT_WRAM_SIZE = 0x20000"
definition CT_SRAM_SIZE :: u32 where "CT_SRAM_SIZE = 0x2000"
definition HW_BASE :: u32 where "HW_BASE = 0x2000"
definition HW_SIZE :: u32 where "HW_SIZE = 0x4000"
definition CT_BUS_LOG :: u32 where "CT_BUS_LOG = 64"
definition CT_BUS_WRITE :: u32 where "CT_BUS_WRITE = 0x80"
definition CT_BUS_FETCH :: u32 where "CT_BUS_FETCH = 0x40"

record alu_unit =
  wrmpya :: u8
  wrmpyb :: u8
  wrdivb :: u8
  wrdiv :: u16
  rddiv :: u16
  rdmpy :: u16

record bus_state =
  rom :: "u32 \<Rightarrow> u8"
  wram :: "u32 \<Rightarrow> u8"
  sram :: "u32 \<Rightarrow> u8"
  alu :: alu_unit
  wram_port_addr :: u32
  bus_mdr :: u8
  memsel :: u8
  ct_wram_gen :: "u32 \<Rightarrow> u32"
  ct_wram_watch_lo :: u32
  ct_wram_watch_len :: u32
  ct_wram_hit :: bool
  ct_bus_clocks :: u32
  ct_bus_n :: u32
  ct_bus_log :: "u32 \<Rightarrow> u8"
  ct_bus_fetch :: u8
  ct_bus_wram_off :: "u32 \<Rightarrow> u32"
  ct_bus_wram_old :: "u32 \<Rightarrow> u8"
  ct_bus_wram_new :: "u32 \<Rightarrow> u8"
  hw_notes :: "string list"

text \<open>Static storage before anything runs: all zero.\<close>

definition alu_zero :: alu_unit where
  "alu_zero = \<lparr>wrmpya = 0, wrmpyb = 0, wrdivb = 0, wrdiv = 0, rddiv = 0, rdmpy = 0\<rparr>"

definition bus_zero :: bus_state where
  "bus_zero = \<lparr>rom = (\<lambda>_. 0), wram = (\<lambda>_. 0), sram = (\<lambda>_. 0), alu = alu_zero, wram_port_addr = 0,
     bus_mdr = 0, memsel = 0, ct_wram_gen = (\<lambda>_. 0), ct_wram_watch_lo = 0, ct_wram_watch_len = 0,
     ct_wram_hit = False, ct_bus_clocks = 0, ct_bus_n = 0, ct_bus_log = (\<lambda>_. 0), ct_bus_fetch = 0,
     ct_bus_wram_off = (\<lambda>_. 0), ct_bus_wram_old = (\<lambda>_. 0), ct_bus_wram_new = (\<lambda>_. 0), hw_notes = []\<rparr>"

type_synonym 's hw_read_fn = "u16 \<Rightarrow> ('s, u8) act"
type_synonym 's hw_write_fn = "u16 \<Rightarrow> u8 \<Rightarrow> ('s, unit) act"

record 's hooks =
  hw_rd :: "u16 \<Rightarrow> 's hw_read_fn option"
  hw_wr :: "u16 \<Rightarrow> 's hw_write_fn option"

section \<open>Multiply/divide unit, $4202-$4217\<close>

definition math_write :: "('a bus_state_scheme) hw_write_fn" where
  "math_write reg v = (
     if reg = 0x4202 then modify (\<lambda>s. s\<lparr>alu := (alu s)\<lparr>wrmpya := v\<rparr>\<rparr>)
     else if reg = 0x4203 then
       modify (\<lambda>s. s\<lparr>alu := (alu s)\<lparr>wrmpyb := v, rdmpy := to16 (wrmpya (alu s)) * to16 v\<rparr>\<rparr>)
     else if reg = 0x4204 then
       modify (\<lambda>s. s\<lparr>alu := (alu s)\<lparr>wrdiv := (wrdiv (alu s) AND 0xFF00) OR to16 v\<rparr>\<rparr>)
     else if reg = 0x4205 then
       modify (\<lambda>s. s\<lparr>alu := (alu s)\<lparr>wrdiv := (wrdiv (alu s) AND 0x00FF) OR push_bit 8 (to16 v)\<rparr>\<rparr>)
     else if reg = 0x4206 then
       modify (\<lambda>s. s\<lparr>alu := (alu s)\<lparr>
           wrdivb := v,
           rddiv := (if v = 0 then 0xFFFF else wrdiv (alu s) div to16 v),
           rdmpy := (if v = 0 then wrdiv (alu s) else wrdiv (alu s) mod to16 v)\<rparr>\<rparr>)
     else die (Math_write_bad_register reg))"

definition math_read :: "('a bus_state_scheme) hw_read_fn" where
  "math_read reg = (
     if reg = 0x4214 then gets (\<lambda>s. to8 (rddiv (alu s)))
     else if reg = 0x4215 then gets (\<lambda>s. to8 (drop_bit 8 (rddiv (alu s))))
     else if reg = 0x4216 then gets (\<lambda>s. to8 (rdmpy (alu s)))
     else if reg = 0x4217 then gets (\<lambda>s. to8 (drop_bit 8 (rdmpy (alu s))))
     else die (Math_read_bad_register reg))"

section \<open>Open bus, ignored writes\<close>

definition bus_open_bus :: "('a bus_state_scheme) hw_read_fn" where
  "bus_open_bus reg = gets bus_mdr"

definition bus_readonly_write :: "('a bus_state_scheme) hw_write_fn" where
  "bus_readonly_write reg v = modify (\<lambda>s. s\<lparr>hw_notes := hw_note
     (''write $'' @ hex4 reg @ '' ignored: read-only register, hardware ignores it'') (hw_notes s)\<rparr>)"

definition bus_unused_write :: "('a bus_state_scheme) hw_write_fn" where
  "bus_unused_write reg v = modify (\<lambda>s. s\<lparr>hw_notes := hw_note
     (''write $'' @ hex4 reg @ '' ignored: unused address'') (hw_notes s)\<rparr>)"

section \<open>WRAM writes and the WRAM data port, $2180-$2183\<close>

text \<open>
  A CPU write to WRAM: the page's write counter, the overlay watch (unsigned subtraction),
  the instruction's write journal, the write.
\<close>

definition wram_journal :: "u32 \<Rightarrow> u8 \<Rightarrow> 'a bus_state_scheme \<Rightarrow> 'a bus_state_scheme" where
  "wram_journal off v s =
     (if ct_bus_n s \<ge> 1 \<and> ct_bus_n s \<le> CT_BUS_LOG
      then s\<lparr>ct_bus_wram_off := (ct_bus_wram_off s)(ct_bus_n s - 1 := off + 1),
             ct_bus_wram_old := (ct_bus_wram_old s)(ct_bus_n s - 1 := wram s off),
             ct_bus_wram_new := (ct_bus_wram_new s)(ct_bus_n s - 1 := v)\<rparr>
      else s)"

definition wram_store :: "u32 \<Rightarrow> u8 \<Rightarrow> 'a bus_state_scheme \<Rightarrow> 'a bus_state_scheme" where
  "wram_store off v s =
     (let s1 = s\<lparr>ct_wram_gen := (ct_wram_gen s)(drop_bit 8 off := ct_wram_gen s (drop_bit 8 off) + 1)\<rparr>;
          s2 = (if off - ct_wram_watch_lo s1 < ct_wram_watch_len s1
                then s1\<lparr>ct_wram_hit := True\<rparr> else s1);
          s3 = wram_journal off v s2
      in s3\<lparr>wram := (wram s3)(off := v)\<rparr>)"

definition wram_port_read :: "('a bus_state_scheme) hw_read_fn" where
  "wram_port_read reg =
     bnd (gets (\<lambda>s. wram s (wram_port_addr s AND (CT_WRAM_SIZE - 1)))) (\<lambda>v.
     thn (modify (\<lambda>s. s\<lparr>wram_port_addr := (wram_port_addr s + 1) AND 0x1FFFF\<rparr>)) (ret v))"

definition wram_port_write :: "('a bus_state_scheme) hw_write_fn" where
  "wram_port_write reg v = (
     if reg = 0x2180 then
       modify (\<lambda>s. let s1 = wram_store (wram_port_addr s AND (CT_WRAM_SIZE - 1)) v s
                   in s1\<lparr>wram_port_addr := (wram_port_addr s1 + 1) AND 0x1FFFF\<rparr>)
     else if reg = 0x2181 then
       modify (\<lambda>s. s\<lparr>wram_port_addr := (wram_port_addr s AND 0x1FF00) OR to32 v\<rparr>)
     else if reg = 0x2182 then
       modify (\<lambda>s. s\<lparr>wram_port_addr := (wram_port_addr s AND 0x100FF) OR push_bit 8 (to32 v)\<rparr>)
     else if reg = 0x2183 then
       modify (\<lambda>s. s\<lparr>wram_port_addr := (wram_port_addr s AND 0x0FFFF) OR push_bit 16 (to32 (v AND 1))\<rparr>)
     else die (Wram_port_bad_register reg))"

section \<open>$420D MEMSEL\<close>

definition memsel_write :: "('a bus_state_scheme) hw_write_fn" where
  "memsel_write reg v = modify (\<lambda>s. s\<lparr>memsel := v AND 1\<rparr>)"

definition bus_fastrom :: "'a bus_state_scheme \<Rightarrow> bool" where
  "bus_fastrom s \<longleftrightarrow> memsel s \<noteq> 0"

section \<open>Setup\<close>

definition bus_hook ::
  "u16 \<Rightarrow> 's hw_read_fn option \<Rightarrow> 's hw_write_fn option \<Rightarrow> 's hooks \<Rightarrow> fatal + 's hooks" where
  "bus_hook reg rd wr h =
     (if to32 reg < HW_BASE \<or> to32 reg \<ge> HW_BASE + HW_SIZE then Inl (Bus_hook_outside reg)
      else Inr \<lparr>hw_rd = (hw_rd h)(to16 (to32 reg - HW_BASE) := rd),
               hw_wr = (hw_wr h)(to16 (to32 reg - HW_BASE) := wr)\<rparr>)"

text \<open>A \<open>for\<close> loop over registers that hooks each one, stopping at the first error.\<close>

fun hook_all ::
  "u16 list \<Rightarrow> (u16 \<Rightarrow> 's hw_read_fn option) \<Rightarrow> 's hw_write_fn option \<Rightarrow> 's hooks \<Rightarrow> fatal + 's hooks" where
  "hook_all [] rd wr h = Inr h"
| "hook_all (r # rs) rd wr h =
     (case bus_hook r (rd r) wr h of Inl e \<Rightarrow> Inl e | Inr h' \<Rightarrow> hook_all rs rd wr h')"

definition regs :: "nat \<Rightarrow> nat \<Rightarrow> u16 list" where
  "regs a b = map word_of_nat [a..<Suc b]"

text \<open>
  The built-in hooks of \<open>bus_setup\<close>, in its order, as a list of loops; \<open>snes_hw_init\<close>'s
  follow them (they come from another component and are an argument).
\<close>

definition setup_loops ::
  "(u16 list \<times> (u16 \<Rightarrow> ('a bus_state_scheme) hw_read_fn option) \<times> ('a bus_state_scheme) hw_write_fn option) list" where
  "setup_loops =
     [(regs 0x4202 0x4206, \<lambda>_. Some bus_open_bus, Some math_write),
      (regs 0x4210 0x421F,
         \<lambda>r. if r \<ge> 0x4214 \<and> r \<le> 0x4217 then Some math_read else None, Some bus_readonly_write),
      ([0x2180], \<lambda>_. Some wram_port_read, Some wram_port_write),
      (regs 0x2181 0x2183, \<lambda>_. Some bus_open_bus, Some wram_port_write),
      (regs 0x2184 0x21FF, \<lambda>_. Some bus_open_bus, Some bus_unused_write),
      ([0x420E], \<lambda>_. Some bus_open_bus, Some bus_unused_write),
      ([0x420F], \<lambda>_. Some bus_open_bus, Some bus_unused_write),
      (regs 0x4220 0x42FF, \<lambda>_. Some bus_open_bus, Some bus_unused_write),
      (regs 0x4380 0x43FF, \<lambda>_. Some bus_open_bus, Some bus_unused_write),
      ([0x420D], \<lambda>_. Some bus_open_bus, Some memsel_write),
      (filter (\<lambda>r. r = 0x4200 \<or> r = 0x4201 \<or> r \<ge> 0x4207) (regs 0x4200 0x420A),
         \<lambda>_. Some bus_open_bus, None)]"

fun run_loops ::
  "(u16 list \<times> (u16 \<Rightarrow> 's hw_read_fn option) \<times> 's hw_write_fn option) list
   \<Rightarrow> 's hooks \<Rightarrow> fatal + 's hooks" where
  "run_loops [] h = Inr h"
| "run_loops ((rs, rd, wr) # ls) h =
     (case hook_all rs rd wr h of Inl e \<Rightarrow> Inl e | Inr h' \<Rightarrow> run_loops ls h')"

definition no_hooks :: "'s hooks" where
  "no_hooks = \<lparr>hw_rd = (\<lambda>_. None), hw_wr = (\<lambda>_. None)\<rparr>"

definition bus_setup ::
  "(('a bus_state_scheme) hooks \<Rightarrow> fatal + ('a bus_state_scheme) hooks)
   \<Rightarrow> fatal + ('a bus_state_scheme) hooks" where
  "bus_setup snes_hw_init =
     (case run_loops setup_loops no_hooks of Inl e \<Rightarrow> Inl e | Inr h \<Rightarrow> snes_hw_init h)"

text \<open>\<open>bus_reset\<close>; \<open>snes_hw_reset\<close> is the adapter's.\<close>

definition bus_reset ::
  "('a bus_state_scheme, unit) act \<Rightarrow> ('a bus_state_scheme, unit) act" where
  "bus_reset snes_hw_reset =
     thn (modify (\<lambda>s. s\<lparr>wram := (\<lambda>_. 0),
            ct_wram_gen := (\<lambda>p. if p < drop_bit 8 CT_WRAM_SIZE then ct_wram_gen s p + 1 else ct_wram_gen s p),
            sram := (\<lambda>_. 0), alu := alu_zero, wram_port_addr := 0, memsel := 0, bus_mdr := 0\<rparr>))
       snes_hw_reset"

section \<open>HiROM map\<close>

datatype region = R_WRAM | R_SRAM | R_ROM | R_HW | R_OPEN

definition decode_addr :: "u32 \<Rightarrow> region \<times> u32" where
  "decode_addr a =
     (let bank = to8 (drop_bit 16 a); lo = to16 a in
      if bank = 0x7E \<or> bank = 0x7F then (R_WRAM, a - 0x7E0000)
      else if bank \<ge> 0xC0 then (R_ROM, a - 0xC00000)
      else if bank \<ge> 0x40 \<and> bank \<le> 0x7D then (R_ROM, a - 0x400000)
      else if lo < 0x2000 then (R_WRAM, to32 lo)
      else if lo < 0x6000 then (R_HW, to32 lo)
      else if lo < 0x8000 then
        (if bank AND 0x7F \<ge> 0x20 then (R_SRAM, to32 lo AND (CT_SRAM_SIZE - 1)) else (R_OPEN, 0))
      else (R_ROM, push_bit 16 (to32 (bank AND 0x3F)) OR to32 lo))"

section \<open>Accesses\<close>

definition bus_access_clocks :: "u32 \<Rightarrow> 'a bus_state_scheme \<Rightarrow> u32" where
  "bus_access_clocks a s =
     (if a AND 0x408000 \<noteq> 0 then (if a AND 0x800000 \<noteq> 0 \<and> bus_fastrom s then 6 else 8)
      else if (a + 0x6000) AND 0x4000 \<noteq> 0 then 8
      else if (a - 0x4000) AND 0x7E00 \<noteq> 0 then 6
      else 12)"

text \<open>The clocks and log entry every access makes first; \<open>flag\<close> marks writes and fetches.\<close>

definition log_access :: "u32 \<Rightarrow> u8 \<Rightarrow> 'a bus_state_scheme \<Rightarrow> 'a bus_state_scheme" where
  "log_access ck entry s =
     (let s1 = s\<lparr>ct_bus_clocks := ct_bus_clocks s + ck\<rparr>;
          s2 = (if ct_bus_n s1 < CT_BUS_LOG
                then s1\<lparr>ct_bus_log := (ct_bus_log s1)(ct_bus_n s1 := entry),
                        ct_bus_wram_off := (ct_bus_wram_off s1)(ct_bus_n s1 := 0)\<rparr>
                else s1)
      in s2\<lparr>ct_bus_n := ct_bus_n s2 + 1\<rparr>)"

definition set_mdr :: "u8 \<Rightarrow> 'a bus_state_scheme \<Rightarrow> 'a bus_state_scheme" where
  "set_mdr v s = s\<lparr>bus_mdr := v\<rparr>"

definition read8 :: "('a bus_state_scheme) hooks \<Rightarrow> u32 \<Rightarrow> ('a bus_state_scheme, u8) act" where
  "read8 h a0 s0 =
     (let ck = bus_access_clocks (a0 AND 0xFFFFFF) s0;
          s = log_access ck (to8 ck OR ct_bus_fetch s0) s0;
          a = a0 AND 0xFFFFFF
      in case decode_addr a of
           (R_WRAM, off) \<Rightarrow> Inr (wram s off, set_mdr (wram s off) s)
         | (R_SRAM, off) \<Rightarrow> Inr (sram s off, set_mdr (sram s off) s)
         | (R_ROM, off) \<Rightarrow> Inr (rom s off, set_mdr (rom s off) s)
         | (R_HW, off) \<Rightarrow>
             (case hw_rd h (to16 (off - HW_BASE)) of
                Some f \<Rightarrow> bnd (f (to16 off)) (\<lambda>v. thn (modify (set_mdr v)) (ret v)) s
              | None \<Rightarrow> Inl (Read_unhooked a))
         | (R_OPEN, off) \<Rightarrow> Inl (Read_open_bus a))"

definition bus_peek :: "u32 \<Rightarrow> 'a bus_state_scheme \<Rightarrow> u8" where
  "bus_peek a s =
     (case decode_addr (a AND 0xFFFFFF) of
        (R_WRAM, off) \<Rightarrow> wram s off
      | (R_SRAM, off) \<Rightarrow> sram s off
      | (R_ROM, off) \<Rightarrow> rom s off
      | _ \<Rightarrow> bus_mdr s)"

definition write8 :: "('a bus_state_scheme) hooks \<Rightarrow> u32 \<Rightarrow> u8 \<Rightarrow> ('a bus_state_scheme, unit) act" where
  "write8 h a0 v s0 =
     (let ck = bus_access_clocks (a0 AND 0xFFFFFF) s0;
          s = set_mdr v (log_access ck (to8 (ck OR CT_BUS_WRITE)) s0);
          a = a0 AND 0xFFFFFF
      in case decode_addr a of
           (R_WRAM, off) \<Rightarrow> Inr ((), wram_store off v s)
         | (R_SRAM, off) \<Rightarrow> Inr ((), s\<lparr>sram := (sram s)(off := v)\<rparr>)
         | (R_ROM, off) \<Rightarrow> Inl (Write_rom a)
         | (R_HW, off) \<Rightarrow>
             (case hw_wr h (to16 (off - HW_BASE)) of
                Some f \<Rightarrow> f (to16 off) v s
              | None \<Rightarrow> Inl (Write_unhooked a))
         | (R_OPEN, off) \<Rightarrow> Inl (Write_open_bus a))"

definition read16 :: "('a bus_state_scheme) hooks \<Rightarrow> u32 \<Rightarrow> ('a bus_state_scheme, u16) act" where
  "read16 h a = bnd (read8 h a) (\<lambda>lo. bnd (read8 h ((a + 1) AND 0xFFFFFF)) (\<lambda>hi. ret (word16 lo hi)))"

definition write16 :: "('a bus_state_scheme) hooks \<Rightarrow> u32 \<Rightarrow> u16 \<Rightarrow> ('a bus_state_scheme, unit) act" where
  "write16 h a v = thn (write8 h a (to8 v)) (write8 h ((a + 1) AND 0xFFFFFF) (to8 (drop_bit 8 v)))"

definition write16_rmw :: "('a bus_state_scheme) hooks \<Rightarrow> u32 \<Rightarrow> u16 \<Rightarrow> ('a bus_state_scheme, unit) act" where
  "write16_rmw h a v = thn (write8 h ((a + 1) AND 0xFFFFFF) (to8 (drop_bit 8 v))) (write8 h a (to8 v))"

section \<open>The map and the access speeds\<close>

text \<open>
  The speed table of the header comment (and of hardware): 8 clocks for WRAM, SRAM and
  SlowROM, 6 for FastROM, $2000-$3FFF and $4200-$5FFF, 12 for $4000-$41FF; by bank and
  address in it.
\<close>

definition access_speed :: "u8 \<Rightarrow> u16 \<Rightarrow> bool \<Rightarrow> u32" where
  "access_speed b l fast =
     (let hi = (if b \<ge> 0x80 \<and> fast then 6 else 8) in
      if b AND 0x40 \<noteq> 0 \<or> l \<ge> 0x8000 then hi
      else if l < 0x2000 then 8 else if l < 0x4000 then 6 else if l < 0x4200 then 12
      else if l < 0x6000 then 6 else 8)"

lemma and_addr_bits:
  "addr24 b l AND 0x408000 \<noteq> 0 \<longleftrightarrow> bit b 6 \<or> bit l 15"
  "addr24 b l AND 0x800000 \<noteq> 0 \<longleftrightarrow> bit b 7"
proof -
  have m: "(0x408000::u32) = push_bit 22 1 OR push_bit 15 1" "(0x800000::u32) = push_bit 23 1"
    "\<And>x::u32. push_bit 22 1 = (2^22::u32)" "push_bit 15 1 = (2^15::u32)" "push_bit 23 1 = (2^23::u32)"
    by (simp_all add: push_bit_eq_mult)
  have e: "addr24 b l AND 0x408000 = 0 \<longleftrightarrow> addr24 b l AND 2^22 = 0 \<and> addr24 b l AND 2^15 = 0"
    unfolding m by (simp only: bit.conj_disj_distrib or_eq_0_iff)
  show "addr24 b l AND 0x408000 \<noteq> 0 \<longleftrightarrow> bit b 6 \<or> bit l 15"
    unfolding e and_exp_eq_0_iff_not_bit by (auto simp: addr24_def bit_simps dest: bit_imp_le_length)
  show "addr24 b l AND 0x800000 \<noteq> 0 \<longleftrightarrow> bit b 7"
    unfolding m(2,5) and_exp_eq_0_iff_not_bit by (auto simp: addr24_def bit_simps dest: bit_imp_le_length)
qed


lemma low_half_clocks:
  assumes "\<not> bit b 6" "\<not> bit l 15"
  shows "(addr24 b l + 0x6000) AND 0x4000 \<noteq> 0 \<longleftrightarrow> l < 0x2000 \<or> l \<ge> 0x6000"
    and "(addr24 b l - 0x4000) AND 0x7E00 \<noteq> 0 \<longleftrightarrow> \<not> (l \<ge> 0x4000 \<and> l < 0x4200)"
proof -
  have B: "unat b < 256" and L: "unat l < 0x8000"
    using unat_bounds(1)[of b] unat_bounds(2)[of l] assms(2) u16_ge_8000[of l] by (simp_all add: word_le_nat_alt)
  have x: "x AND 0x4000 \<noteq> 0 \<longleftrightarrow> bit x 14" for x :: u32
    using and_exp_eq_0_iff_not_bit[of x 14] by simp
  have p: "unat (addr24 b l + 0x6000) = unat b * 65536 + unat l + 0x6000"
    using B L by (simp add: unat_word_ariths unat_addr24)
  have "odd ((unat b * 65536 + unat l + 24576) div 16384) \<longleftrightarrow> unat l < 0x2000 \<or> unat l \<ge> 0x6000"
  proof -
    have "(unat b * 65536 + unat l + 24576) div 16384 = 4 * unat b + (unat l + 24576) div 16384"
    proof -
      have e: "unat b * 65536 + unat l + 24576 = (unat l + 24576) + (4 * unat b) * 16384" by simp
      show ?thesis unfolding e by (subst div_mult_self1) simp_all
    qed
    moreover have "(unat l + 24576) div 16384 =
        (if unat l < 0x2000 then 1 else if unat l < 0x6000 then 2 else 3)"
      using L by (auto intro!: div_nat_eqI)
    ultimately show ?thesis by (auto split: if_splits)
  qed
  then show "(addr24 b l + 0x6000) AND 0x4000 \<noteq> 0 \<longleftrightarrow> l < 0x2000 \<or> l \<ge> 0x6000"
    by (simp add: x bit_iff_odd_div p word_less_nat_alt word_le_nat_alt)
  have m: "unat (addr24 b l - 0x4000) mod 0x8000 = (unat l + 0x4000) mod 0x8000"
  proof (cases "(0x4000::u32) \<le> addr24 b l")
    case True
    then have "unat (addr24 b l - 0x4000) = unat b * 65536 + unat l - 0x4000"
      by (simp add: unat_addr24_minus)
    moreover have "0x4000 \<le> unat b * 65536 + unat l"
      using True by (simp add: word_le_nat_alt unat_addr24)
    ultimately have "unat (addr24 b l - 0x4000) + 0x8000 = (unat l + 0x4000) + (2 * unat b) * 0x8000"
      by simp
    then have "(unat (addr24 b l - 0x4000) + 0x8000) mod 0x8000 = (unat l + 0x4000) mod 0x8000"
      by (simp only: mod_mult_self1)
    then show ?thesis by (simp only: mod_add_self2)
  next
    case False
    then have "unat (addr24 b l - 0x4000) = unat b * 65536 + unat l + 2 ^ 32 - 0x4000"
      by (simp add: unat_sub_if' word_le_nat_alt unat_addr24)
    then have "unat (addr24 b l - 0x4000) + 0x8000 = (unat l + 0x4000) + (2 * unat b + 0x20000) * 0x8000"
      by simp
    then have "(unat (addr24 b l - 0x4000) + 0x8000) mod 0x8000 = (unat l + 0x4000) mod 0x8000"
      by (simp only: mod_mult_self1)
    then show ?thesis by (simp only: mod_add_self2)
  qed
  have "\<not> ((unat l + 0x4000) mod 0x8000 < 0x200) \<longleftrightarrow> \<not> (unat l \<ge> 0x4000 \<and> unat l < 0x4200)"
    using L by (cases "unat l < 0x4000") (auto simp: mod_if)
  then show "(addr24 b l - 0x4000) AND 0x7E00 \<noteq> 0 \<longleftrightarrow> \<not> (l \<ge> 0x4000 \<and> l < 0x4200)"
    by (simp add: and_high_part m word_less_nat_alt word_le_nat_alt)
qed

lemma access_clocks_addr24: "bus_access_clocks (addr24 b l) s = access_speed b l (bus_fastrom s)"
proof -
  have x: "b AND 0x40 \<noteq> 0 \<longleftrightarrow> bit b 6"
    using and_exp_eq_0_iff_not_bit[of b 6] by simp
  show ?thesis
  proof (cases "bit b 6 \<or> bit l 15")
    case True
    then show ?thesis
      by (auto simp: bus_access_clocks_def access_speed_def and_addr_bits x u16_ge_8000 u8_ge_80)
  next
    case False
    then have n: "\<not> bit b 6" "\<not> bit l 15" by simp_all
    have L: "unat l < 0x8000" using n(2) u16_ge_8000[of l] by (simp add: word_le_nat_alt)
    have e: "bus_access_clocks (addr24 b l) s =
        (if l < 0x2000 \<or> l \<ge> 0x6000 then 8 else if \<not> (l \<ge> 0x4000 \<and> l < 0x4200) then 6 else 12)"
      using n by (simp add: bus_access_clocks_def and_addr_bits low_half_clocks[OF n])
    show ?thesis
      unfolding e access_speed_def x u16_ge_8000 using n L
      by (auto simp: word_less_nat_alt word_le_nat_alt)
  qed
qed

lemma decode_in_bounds:
  assumes "decode_addr (addr24 b l) = (r, off)"
  shows "case r of R_WRAM \<Rightarrow> off < CT_WRAM_SIZE | R_SRAM \<Rightarrow> off < CT_SRAM_SIZE
    | R_ROM \<Rightarrow> off < CT_ROM_SIZE | R_HW \<Rightarrow> HW_BASE \<le> off \<and> off < HW_BASE + HW_SIZE | R_OPEN \<Rightarrow> True"
proof -
  have B: "unat b < 256" "unat l < 65536" using unat_bounds(1)[of b] unat_bounds(2)[of l] by simp_all
  have sr: "to32 l AND (CT_SRAM_SIZE - 1) < CT_SRAM_SIZE"
    using word_and_le1[of "to32 l" "CT_SRAM_SIZE - 1"]
    by (simp add: CT_SRAM_SIZE_def word_le_nat_alt word_less_nat_alt)
  have rm: "push_bit 16 (to32 (b AND 0x3F)) OR to32 l < CT_ROM_SIZE"
  proof -
    have "b AND 0x3F \<le> 0x3F" by (rule word_and_le1)
    then have "unat (b AND 0x3F) \<le> 63" by (simp add: word_le_nat_alt)
    then show ?thesis
      using B unat_addr24[of "b AND 0x3F" l] by (simp add: addr24_def CT_ROM_SIZE_def word_less_nat_alt)
  qed
  show ?thesis
    using assms B sr rm
    by (auto simp: decode_addr_def Let_def CT_WRAM_SIZE_def HW_BASE_def HW_SIZE_def CT_ROM_SIZE_def
        word_less_nat_alt word_le_nat_alt unat_addr24_minus unat_addr24
        split: if_splits)
qed

section \<open>RAM behind the bus\<close>

text \<open>
  RAM addresses, the cell each reaches (WRAM and SRAM are mirrored, so two addresses can
  reach one cell), and a write seen as a state update. The contract \<open>byte_ram\<close> is what the
  clients of the bus rely on; the bus is shown to provide it.
\<close>

definition ram_addr :: "u32 \<Rightarrow> bool" where
  "ram_addr a \<longleftrightarrow> fst (decode_addr (a AND 0xFFFFFF)) \<in> {R_WRAM, R_SRAM}"

definition cell_of :: "u32 \<Rightarrow> region \<times> u32" where
  "cell_of a = decode_addr (a AND 0xFFFFFF)"

definition poke :: "('a bus_state_scheme) hooks \<Rightarrow> u32 \<Rightarrow> u8 \<Rightarrow> 'a bus_state_scheme \<Rightarrow> 'a bus_state_scheme" where
  "poke h a v s = (case write8 h a v s of Inl e \<Rightarrow> s | Inr (_, s') \<Rightarrow> s')"

lemma log_access_mem [simp]:
  "wram (log_access ck e s) = wram s" "sram (log_access ck e s) = sram s" "rom (log_access ck e s) = rom s"
  by (simp_all add: log_access_def Let_def)

lemma set_mdr_mem [simp]:
  "wram (set_mdr v s) = wram s" "sram (set_mdr v s) = sram s" "rom (set_mdr v s) = rom s"
  "bus_mdr (set_mdr v s) = v"
  by (simp_all add: set_mdr_def)

lemma wram_store_mem [simp]:
  "wram (wram_store off v s) = (wram s)(off := v)" "sram (wram_store off v s) = sram s"
  "rom (wram_store off v s) = rom s" "bus_mdr (wram_store off v s) = bus_mdr s"
  by (simp_all add: wram_store_def wram_journal_def Let_def)

lemma write8_ram:
  "ram_addr a \<Longrightarrow> write8 h a v s = Inr ((), poke h a v s)"
  by (auto simp: ram_addr_def write8_def poke_def Let_def split: prod.splits region.splits)

lemma read8_ram: "ram_addr a \<Longrightarrow> \<exists>s'. read8 h a s = Inr (bus_peek a s, s') \<and> wram s' = wram s \<and> sram s' = sram s \<and> rom s' = rom s"
  by (auto simp: ram_addr_def read8_def bus_peek_def Let_def split: prod.splits region.splits)

lemma peek_poke:
  assumes "ram_addr a" "ram_addr b"
  shows "bus_peek b (poke h a v s) = (if cell_of a = cell_of b then v else bus_peek b s)"
  using assms
  by (auto simp: ram_addr_def cell_of_def write8_def poke_def bus_peek_def Let_def split: prod.splits region.splits)

lemma peek_eq: "wram s' = wram s \<Longrightarrow> sram s' = sram s \<Longrightarrow> rom s' = rom s \<Longrightarrow> ram_addr a \<Longrightarrow> bus_peek a s' = bus_peek a s"
  by (auto simp: ram_addr_def bus_peek_def split: prod.splits region.splits)

lemma read8_mdr: "read8 h a s = Inr (v, s') \<Longrightarrow> bus_mdr s' = v"
  by (auto simp: read8_def Let_def bnd_Inr thn_def split: prod.splits region.splits option.splits)

text \<open>What an access that returns has done.\<close>

lemma read8_cases:
  assumes "read8 h a s = Inr (v, s')"
  obtains (mem) t where "t = log_access (bus_access_clocks (a AND 0xFFFFFF) s)
      (to8 (bus_access_clocks (a AND 0xFFFFFF) s) OR ct_bus_fetch s) s" "s' = set_mdr v t" "v = bus_peek a s"
  | (hw) t f r reg u where "t = log_access (bus_access_clocks (a AND 0xFFFFFF) s)
      (to8 (bus_access_clocks (a AND 0xFFFFFF) s) OR ct_bus_fetch s) s"
      "hw_rd h r = Some f" "f reg t = Inr (v, u)" "s' = set_mdr v u"
proof -
  obtain r off where d: "decode_addr (a AND 0xFFFFFF) = (r, off)" by fastforce
  let ?t = "log_access (bus_access_clocks (a AND 0xFFFFFF) s) (to8 (bus_access_clocks (a AND 0xFFFFFF) s) OR ct_bus_fetch s) s"
  show thesis
  proof (cases "r = R_HW")
    case False
    then have "s' = set_mdr v ?t" "v = bus_peek a s"
      using assms d by (cases r; simp add: read8_def bus_peek_def Let_def)+
    then show thesis using mem by blast
  next
    case True
    then obtain f where f: "hw_rd h (to16 (off - HW_BASE)) = Some f"
      using assms d by (cases "hw_rd h (to16 (off - HW_BASE))") (simp_all add: read8_def Let_def)
    moreover obtain u where "f (to16 off) ?t = Inr (v, u)" "s' = set_mdr v u"
      using assms d True f by (auto simp: read8_def Let_def bnd_Inr thn_def)
    ultimately show thesis using hw by metis
  qed
qed

lemma write8_cases:
  assumes "write8 h a v s = Inr (x, s')"
  obtains (wram) t off where "t = set_mdr v (log_access (bus_access_clocks (a AND 0xFFFFFF) s)
      (to8 (bus_access_clocks (a AND 0xFFFFFF) s OR CT_BUS_WRITE)) s)" "s' = wram_store off v t"
  | (sram) t off where "t = set_mdr v (log_access (bus_access_clocks (a AND 0xFFFFFF) s)
      (to8 (bus_access_clocks (a AND 0xFFFFFF) s OR CT_BUS_WRITE)) s)" "s' = t\<lparr>sram := (sram t)(off := v)\<rparr>"
  | (hw) t f r reg where "t = set_mdr v (log_access (bus_access_clocks (a AND 0xFFFFFF) s)
      (to8 (bus_access_clocks (a AND 0xFFFFFF) s OR CT_BUS_WRITE)) s)" "hw_wr h r = Some f" "f reg v t = Inr (x, s')"
proof -
  obtain r off where d: "decode_addr (a AND 0xFFFFFF) = (r, off)" by fastforce
  let ?t = "set_mdr v (log_access (bus_access_clocks (a AND 0xFFFFFF) s)
      (to8 (bus_access_clocks (a AND 0xFFFFFF) s OR CT_BUS_WRITE)) s)"
  show thesis
  proof (cases r)
    case R_WRAM
    then show thesis using assms d wram[of ?t off] by (simp add: write8_def Let_def)
  next
    case R_SRAM
    then show thesis using assms d sram[of ?t off] by (simp add: write8_def Let_def)
  next
    case R_HW
    then obtain f where f: "hw_wr h (to16 (off - HW_BASE)) = Some f"
      using assms d by (cases "hw_wr h (to16 (off - HW_BASE))") (simp_all add: write8_def Let_def)
    then show thesis using assms d R_HW hw[of ?t] by (simp add: write8_def Let_def)
  qed (use assms d in \<open>simp_all add: write8_def Let_def\<close>)
qed

locale byte_ram =
  fixes rd :: "u32 \<Rightarrow> 's \<Rightarrow> u8" and wr :: "u32 \<Rightarrow> u8 \<Rightarrow> 's \<Rightarrow> 's"
    and ok :: "u32 \<Rightarrow> bool" and cell :: "u32 \<Rightarrow> 'c"
  assumes rd_wr: "ok a \<Longrightarrow> ok b \<Longrightarrow> rd b (wr a v s) = (if cell a = cell b then v else rd b s)"
begin

lemma rd_wr_same [simp]: "ok a \<Longrightarrow> rd a (wr a v s) = v"
  by (simp add: rd_wr)

lemma rd_wr_other [simp]: "ok a \<Longrightarrow> ok b \<Longrightarrow> cell a \<noteq> cell b \<Longrightarrow> rd b (wr a v s) = rd b s"
  by (simp add: rd_wr)

lemma wr_order: "ok a \<Longrightarrow> ok b \<Longrightarrow> ok c \<Longrightarrow> cell a \<noteq> cell b \<Longrightarrow>
    rd c (wr a v (wr b w s)) = rd c (wr b w (wr a v s))"
  by (auto simp: rd_wr)

lemma word_roundtrip:
  "ok a \<Longrightarrow> ok b \<Longrightarrow> cell a \<noteq> cell b \<Longrightarrow>
    word16 (rd a (wr b (to8 (drop_bit 8 v)) (wr a (to8 v) s))) (rd b (wr b (to8 (drop_bit 8 v)) (wr a (to8 v) s))) = v"
  by (simp add: rd_wr)

end

interpretation bus_ram: byte_ram bus_peek "poke h" ram_addr cell_of for h
  by unfold_locales (rule peek_poke)

text \<open>Neighbouring RAM bytes are different cells: an offset keeps the address's low bit.\<close>

lemma addr24_step:
  "(addr24 b l + 1) AND 0xFFFFFF = (if l = 0xFFFF then addr24 (b + 1) 0 else addr24 b (l + 1))"
proof -
  have B: "unat b < 256" "unat l < 65536" using unat_bounds(1)[of b] unat_bounds(2)[of l] by simp_all
  have m: "unat (x AND 0xFFFFFF) = unat x mod 0x1000000" for x :: u32
  proof -
    have "x AND 0xFFFFFF = take_bit 24 x"
      by (rule bit_word_eqI) (auto simp: bit_simps mask24_nth)
    then show ?thesis by (simp add: unsigned_take_bit_eq take_bit_eq_mod unat_mod)
  qed
  have u: "unat (addr24 b l + 1) = unat b * 65536 + unat l + 1"
    using B by (simp add: unat_word_ariths unat_addr24)
  show ?thesis
  proof (cases "l = 0xFFFF")
    case True
    have "unat (b + 1) = (unat b + 1) mod 256" by (simp add: unat_word_ariths)
    then have "unat (addr24 (b + 1) 0) = (unat b + 1) mod 256 * 65536" by (simp add: unat_addr24)
    moreover have "(65536 + unat b * 65536) mod 16777216 = (unat b + 1) mod 256 * 65536"
    proof -
      have e: "65536 + unat b * 65536 = (unat b + 1) * 65536" "(16777216::nat) = 256 * 65536" by simp_all
      show ?thesis unfolding e by (rule mod_mult_mult2)
    qed
    ultimately show ?thesis using True by (simp add: word_unat_eq_iff m u)
  next
    case False
    then have "unat l \<noteq> 65535" by (simp add: word_unat_eq_iff)
    then have l: "unat l + 1 < 65536" using B by simp
    then have "unat (l + 1) = unat l + 1" by (simp add: unat_word_ariths)
    then have "unat (addr24 b (l + 1)) = unat b * 65536 + unat l + 1" by (simp add: unat_addr24)
    moreover have "unat b * 65536 + unat l + 1 < 16777216" using B l by simp
    ultimately show ?thesis using False by (simp add: word_unat_eq_iff m u)
  qed
qed

lemma addr24_step_parity: "bit ((x + 1) AND 0xFFFFFF) 0 \<longleftrightarrow> \<not> bit (x AND 0xFFFFFF :: u32) 0"
  by (simp add: bit_0 even_and_iff)

lemma ram_cell_parity:
  assumes "ram_addr a" shows "bit (snd (cell_of a)) 0 \<longleftrightarrow> bit (a AND 0xFFFFFF) 0"
proof -
  have e: "even (to32 (to16 x)) \<longleftrightarrow> even x" for x :: u32
  proof -
    have "bit (to32 (to16 x)) 0 = bit x 0" by (simp add: bit_simps del: bit_0)
    then show ?thesis by (simp add: bit_0)
  qed
  show ?thesis
    using assms
    by (auto simp: ram_addr_def cell_of_def decode_addr_def Let_def CT_SRAM_SIZE_def even_and_iff e bit_0 split: if_splits)
qed

lemma adjacent_cells:
  assumes "ram_addr a" "ram_addr ((a + 1) AND 0xFFFFFF)"
  shows "cell_of a \<noteq> cell_of ((a + 1) AND 0xFFFFFF)"
proof -
  have "((a + 1) AND 0xFFFFFF) AND 0xFFFFFF = (a + 1) AND 0xFFFFFF" by (simp add: and.assoc)
  then have "bit (snd (cell_of ((a + 1) AND 0xFFFFFF))) 0 \<longleftrightarrow> \<not> bit (a AND 0xFFFFFF) 0"
    using ram_cell_parity[OF assms(2)] addr24_step_parity[of a] by metis
  then show ?thesis using ram_cell_parity[OF assms(1)] by metis
qed

section \<open>Properties\<close>

lemma ram_read16:
  assumes "ram_addr a" "ram_addr ((a + 1) AND 0xFFFFFF)"
  shows "\<exists>s'. read16 h a s = Inr (word16 (bus_peek a s) (bus_peek ((a + 1) AND 0xFFFFFF) s), s')
           \<and> wram s' = wram s \<and> sram s' = sram s \<and> rom s' = rom s"
proof -
  let ?b = "(a + 1) AND 0xFFFFFF"
  obtain s1 where 1: "read8 h a s = Inr (bus_peek a s, s1)" "wram s1 = wram s" "sram s1 = sram s" "rom s1 = rom s"
    using read8_ram[OF assms(1)] by blast
  obtain s2 where 2: "read8 h ?b s1 = Inr (bus_peek ?b s1, s2)" "wram s2 = wram s1" "sram s2 = sram s1" "rom s2 = rom s1"
    using read8_ram[OF assms(2)] by blast
  have "bus_peek ?b s1 = bus_peek ?b s" using 1 assms(2) by (intro peek_eq) simp_all
  then show ?thesis using 1 2 by (simp add: read16_def)
qed

text \<open>C21. 16-bit memory accesses round-trip through RAM: after \<open>write16\<close> or the
  read-modify-write's \<open>write16_rmw\<close> (high byte first), \<open>read16\<close> gives the value written, and
  a byte at any other RAM cell is what it was.\<close>

theorem word_write_read:
  assumes "ram_addr a" "ram_addr ((a + 1) AND 0xFFFFFF)"
    and "w = write16 h a v \<or> w = write16_rmw h a v"
  shows "\<exists>s1 s2. w s = Inr ((), s1) \<and> read16 h a s1 = Inr (v, s2) \<and>
    (\<forall>b. ram_addr b \<and> cell_of b \<noteq> cell_of a \<and> cell_of b \<noteq> cell_of ((a + 1) AND 0xFFFFFF) \<longrightarrow> bus_peek b s2 = bus_peek b s)"
proof -
  let ?b = "(a + 1) AND 0xFFFFFF"
  let ?lo = "to8 v" and ?hi = "to8 (drop_bit 8 v)"
  let ?s1 = "if w = write16 h a v then poke h ?b ?hi (poke h a ?lo s) else poke h a ?lo (poke h ?b ?hi s)"
  have w: "w s = Inr ((), ?s1)"
    using assms by (auto simp: write16_def write16_rmw_def write8_ram)
  have ne: "cell_of a \<noteq> cell_of ?b" by (rule adjacent_cells[OF assms(1,2)])
  have p: "bus_peek a ?s1 = ?lo" "bus_peek ?b ?s1 = ?hi"
    using assms(1,2) ne by (simp_all add: bus_ram.rd_wr)
  have o: "bus_peek b ?s1 = bus_peek b s" if "ram_addr b" "cell_of b \<noteq> cell_of a" "cell_of b \<noteq> cell_of ?b" for b
    using that assms(1,2) by (auto simp: bus_ram.rd_wr)
  obtain s2 where 2: "read16 h a ?s1 = Inr (word16 (bus_peek a ?s1) (bus_peek ?b ?s1), s2)"
    "wram s2 = wram ?s1" "sram s2 = sram ?s1" "rom s2 = rom ?s1"
    using ram_read16[OF assms(1,2)] by blast
  have "bus_peek b s2 = bus_peek b ?s1" if "ram_addr b" for b
    using 2 that by (intro peek_eq)
  then show ?thesis using w 2(1) p o by (intro exI[of _ ?s1] exI[of _ s2]) (simp del: if_split)
qed

theorem word_write_read_witness:
  "\<exists>s1 s2. write16_rmw no_hooks 0x7E01FF 0xBEEF bus_zero = Inr ((), s1) \<and>
     read16 no_hooks 0x7E01FF s1 = Inr (0xBEEF, s2) \<and> bus_peek 0x306123 s2 = bus_peek 0x306123 bus_zero"
proof -
  have r: "ram_addr 0x7E01FF" "ram_addr ((0x7E01FF + 1) AND 0xFFFFFF)" "ram_addr 0x306123"
    "cell_of 0x306123 \<noteq> cell_of 0x7E01FF" "cell_of 0x306123 \<noteq> cell_of ((0x7E01FF + 1) AND 0xFFFFFF)"
    by (simp_all add: ram_addr_def cell_of_def decode_addr_def Let_def)
  show ?thesis
    using word_write_read[OF r(1,2), where h = no_hooks and v = "0xBEEF" and s = bus_zero and w = "write16_rmw no_hooks 0x7E01FF 0xBEEF"] r(3-5)
    by blast
qed

text \<open>C26. No address of the 24-bit map reaches outside the array it selects, and a hardware
  register's index is within the hook table.\<close>

theorem map_in_bounds:
  "case decode_addr (a AND 0xFFFFFF) of
     (R_WRAM, off) \<Rightarrow> off < CT_WRAM_SIZE
   | (R_SRAM, off) \<Rightarrow> off < CT_SRAM_SIZE
   | (R_ROM, off) \<Rightarrow> off < CT_ROM_SIZE
   | (R_HW, off) \<Rightarrow> HW_BASE \<le> off \<and> off - HW_BASE < HW_SIZE
   | (R_OPEN, off) \<Rightarrow> True"
proof -
  obtain r off where d: "decode_addr (a AND 0xFFFFFF) = (r, off)" by fastforce
  then have "decode_addr (addr24 (to8 (drop_bit 16 a)) (to16 a)) = (r, off)" by (simp add: addr24_split)
  from decode_in_bounds[OF this] show ?thesis
    unfolding d by (cases r) (auto simp: HW_BASE_def HW_SIZE_def word_less_nat_alt word_le_nat_alt unat_sub)
qed

text \<open>Every access takes the clocks of the documented speed table: by bank and address,
  with FastROM only in banks $80-$FF.\<close>

theorem access_clocks_table:
  "bus_access_clocks (a AND 0xFFFFFF) s = access_speed (to8 (drop_bit 16 a)) (to16 a) (bus_fastrom s)"
  using access_clocks_addr24[of "to8 (drop_bit 16 a)" "to16 a" s] by (simp add: addr24_split)

definition math_ops :: "(u16 \<times> u8) list \<Rightarrow> ('a bus_state_scheme, unit) act" where
  "math_ops rvs = foldr (\<lambda>(r, v) m. thn (math_write r v) m) rvs (ret ())"

definition math_word :: "u16 \<Rightarrow> 'a bus_state_scheme \<Rightarrow> u16" where
  "math_word r s = (case bnd (math_read r) (\<lambda>lo. bnd (math_read (r + 1)) (\<lambda>hi. ret (word16 lo hi))) s of
     Inr (v, _) \<Rightarrow> v | Inl _ \<Rightarrow> 0)"

lemma math_words:
  "math_word 0x4214 s = rddiv (alu s)" "math_word 0x4216 s = rdmpy (alu s)"
  by (simp_all add: math_word_def math_read_def bnd_def)

lemma dividend_bytes: "((w AND 0xFF00 OR to16 lo) AND 0x00FF) OR push_bit 8 (to16 hi) = word16 lo hi"
proof -
  have m: "(0xFF00::u16) = push_bit 8 (mask 8)" "(0x00FF::u16) = mask 8"
    by (simp_all add: push_bit_eq_mult mask_eq_exp_minus_1)
  show ?thesis unfolding m
    by (rule bit_word_eqI) (auto simp: word16_def bit_simps dest: bit_imp_le_length)
qed

text \<open>The multiply/divide unit: after the two factors are written, the product registers
  hold the full 16-bit product; after dividend and divisor, the quotient and remainder of the
  division, and for divisor 0 the quotient $FFFF and the dividend as remainder.\<close>

theorem math_unit_results:
  "\<exists>s1 s2. math_ops [(0x4202, a), (0x4203, b)] s = Inr ((), s1) \<and>
     unat (math_word 0x4216 s1) = unat a * unat b \<and>
     math_ops [(0x4204, lo), (0x4205, hi), (0x4206, d)] s1 = Inr ((), s2) \<and>
     (if d = 0 then math_word 0x4214 s2 = 0xFFFF \<and> math_word 0x4216 s2 = word16 lo hi
      else unat (word16 lo hi) = unat (math_word 0x4214 s2) * unat d + unat (math_word 0x4216 s2)
           \<and> unat (math_word 0x4216 s2) < unat d)"
proof -
  obtain s1 where 1: "math_ops [(0x4202, a), (0x4203, b)] s = Inr ((), s1)" "rdmpy (alu s1) = to16 a * to16 b"
    by (simp add: math_ops_def math_write_def thn_def bnd_def)
  obtain s2 where 2: "math_ops [(0x4204, lo), (0x4205, hi), (0x4206, d)] s1 = Inr ((), s2)"
    "rddiv (alu s2) = (if d = 0 then 0xFFFF else word16 lo hi div to16 d)"
    "rdmpy (alu s2) = (if d = 0 then word16 lo hi else word16 lo hi mod to16 d)"
    by (simp add: math_ops_def math_write_def thn_def bnd_def dividend_bytes)
  have "unat a * unat b < 65536"
    using mult_strict_mono[OF unat_bounds(1)[of a] unat_bounds(1)[of b]] by simp
  then have p: "unat (to16 a * to16 b) = unat a * unat b" by (simp add: unat_word_ariths)
  have "unat d \<noteq> 0" if "d \<noteq> 0" using that by (simp add: unat_eq_zero)
  then show ?thesis
    using 1 2 p by (auto simp: math_words unat_div unat_mod intro!: exI[of _ s1] exI[of _ s2])
qed

lemma watch_test:
  fixes off lo len :: u32
  assumes "unat lo + unat len \<le> 0x20000" "unat off < 0x20000"
  shows "off - lo < len \<longleftrightarrow> unat lo \<le> unat off \<and> unat off < unat lo + unat len"
  using assms by (auto simp: word_less_nat_alt unat_sub_if' split: if_splits)

text \<open>C27. What a WRAM write does beside storing the byte: its page's write counter (and no
  other) goes up by one, and the overlay hit flag is raised exactly when the offset lies in
  the watched range.\<close>

theorem wram_store_tracks:
  assumes "unat (ct_wram_watch_lo s) + unat (ct_wram_watch_len s) \<le> unat CT_WRAM_SIZE"
    and "off < CT_WRAM_SIZE"
  shows "wram (wram_store off v s) = (wram s)(off := v) \<and>
    (\<forall>p. ct_wram_gen (wram_store off v s) p = ct_wram_gen s p + of_bool (unat p = unat off div 256)) \<and>
    (ct_wram_hit (wram_store off v s) \<longleftrightarrow> ct_wram_hit s \<or>
      unat (ct_wram_watch_lo s) \<le> unat off \<and> unat off < unat (ct_wram_watch_lo s) + unat (ct_wram_watch_len s))"
proof -
  have g: "p = drop_bit 8 off \<longleftrightarrow> unat p = unat off div 256" for p :: u32
    by (simp add: word_unat_eq_iff unsigned_drop_bit_eq drop_bit_eq_div unat_div)
  have w: "off - ct_wram_watch_lo s < ct_wram_watch_len s \<longleftrightarrow>
      unat (ct_wram_watch_lo s) \<le> unat off \<and> unat off < unat (ct_wram_watch_lo s) + unat (ct_wram_watch_len s)"
    using assms by (intro watch_test) (simp_all add: CT_WRAM_SIZE_def word_less_nat_alt)
  have "ct_wram_gen (wram_store off v s) p = ct_wram_gen s p + of_bool (p = drop_bit 8 off)" for p
    by (simp add: wram_store_def wram_journal_def Let_def)
  then have "ct_wram_gen (wram_store off v s) p = ct_wram_gen s p + of_bool (unat p = unat off div 256)" for p
    unfolding g .
  moreover have "ct_wram_hit (wram_store off v s) \<longleftrightarrow> ct_wram_hit s \<or> off - ct_wram_watch_lo s < ct_wram_watch_len s"
    by (simp add: wram_store_def wram_journal_def Let_def)
  ultimately show ?thesis using w by simp
qed

theorem wram_store_tracks_witness:
  "ct_wram_hit (wram_store 0x1103 7 (bus_zero\<lparr>ct_wram_watch_lo := 0x1100, ct_wram_watch_len := 16\<rparr>))
   \<and> \<not> ct_wram_hit (wram_store 0x1110 7 (bus_zero\<lparr>ct_wram_watch_lo := 0x1100, ct_wram_watch_len := 16\<rparr>))"
  using wram_store_tracks[where s = "bus_zero\<lparr>ct_wram_watch_lo := 0x1100, ct_wram_watch_len := 16\<rparr>" and off = "0x1103" and v = 7]
    wram_store_tracks[where s = "bus_zero\<lparr>ct_wram_watch_lo := 0x1100, ct_wram_watch_len := 16\<rparr>" and off = "0x1110" and v = 7]
  by (simp add: CT_WRAM_SIZE_def bus_zero_def)

definition over_hooks ::
  "u16 list \<Rightarrow> (u16 \<Rightarrow> 's hw_read_fn option) \<Rightarrow> 's hw_write_fn option \<Rightarrow> 's hooks \<Rightarrow> 's hooks" where
  "over_hooks rs rd wr h =
     \<lparr>hw_rd = (\<lambda>i. if i + 0x2000 \<in> set rs then rd (i + 0x2000) else hw_rd h i),
      hw_wr = (\<lambda>i. if i + 0x2000 \<in> set rs then wr else hw_wr h i)\<rparr>"

lemma over_hooks_at:
  "hw_rd (over_hooks rs rd wr h) i = (if i + 0x2000 \<in> set rs then rd (i + 0x2000) else hw_rd h i)"
  "hw_wr (over_hooks rs rd wr h) i = (if i + 0x2000 \<in> set rs then wr else hw_wr h i)"
  by (simp_all add: over_hooks_def)

lemma hook_all_table:
  "\<forall>r\<in>set rs. 0x2000 \<le> r \<and> r < 0x6000 \<Longrightarrow> hook_all rs rd wr h = Inr (over_hooks rs rd wr h)"
proof (induction rs arbitrary: h)
  case (Cons r rs)
  have i: "to16 (to32 r - HW_BASE) = r - 0x2000"
  proof -
    have "0x2000 \<le> r" using Cons.prems by simp
    then have "unat (to32 r - HW_BASE) = unat r - 0x2000"
      by (simp add: HW_BASE_def unat_sub word_le_nat_alt)
    moreover have "unat r - 0x2000 < 65536" using unat_bounds(2)[of r] by simp
    ultimately show ?thesis using \<open>0x2000 \<le> r\<close>
      by (simp add: word_unat_eq_iff unsigned_ucast_eq take_bit_eq_mod unat_mod unat_sub)
  qed
  have e: "(j = r - 0x2000) = (j + 0x2000 = r)" for j :: u16 by auto
  have "bus_hook r (rd r) wr h = Inr \<lparr>hw_rd = (hw_rd h)(r - 0x2000 := rd r), hw_wr = (hw_wr h)(r - 0x2000 := wr)\<rparr>"
    using Cons.prems unfolding bus_hook_def i by (simp add: HW_BASE_def HW_SIZE_def word_less_nat_alt word_le_nat_alt)
  then show ?case using Cons by (auto simp: over_hooks_def fun_eq_iff e)
qed (simp add: over_hooks_def)

lemma set_regs: "b < 65535 \<Longrightarrow> r \<in> set (regs a b) \<longleftrightarrow> a \<le> unat r \<and> unat r \<le> b"
proof
  assume b: "b < 65535"
  { assume "r \<in> set (regs a b)"
    then obtain k where "r = word_of_nat k" "a \<le> k" "k \<le> b" by (auto simp: regs_def)
    then show "a \<le> unat r \<and> unat r \<le> b" using b by (simp add: unat_of_nat) }
  { assume "a \<le> unat r \<and> unat r \<le> b"
    then have "unat r \<in> set [a..<Suc b]" by auto
    then have "word_of_nat (unat r) \<in> set (regs a b)" unfolding regs_def by (metis image_eqI set_map)
    then show "r \<in> set (regs a b)" by simp }
qed

text \<open>The table of \<open>bus_setup\<close> by register.\<close>

definition setup_rd :: "nat \<Rightarrow> ('a bus_state_scheme) hw_read_fn option" where
  "setup_rd r =
     (if r = 0x2180 then Some wram_port_read
      else if 0x4214 \<le> r \<and> r \<le> 0x4217 then Some math_read
      else if (0x2181 \<le> r \<and> r \<le> 0x21FF) \<or> (0x4200 \<le> r \<and> r \<le> 0x420A) \<or> (0x420D \<le> r \<and> r \<le> 0x420F) \<or>
        (0x4220 \<le> r \<and> r \<le> 0x42FF) \<or> (0x4380 \<le> r \<and> r \<le> 0x43FF) then Some bus_open_bus
      else None)"

definition setup_wr :: "nat \<Rightarrow> ('a bus_state_scheme) hw_write_fn option" where
  "setup_wr r =
     (if 0x2180 \<le> r \<and> r \<le> 0x2183 then Some wram_port_write
      else if 0x4202 \<le> r \<and> r \<le> 0x4206 then Some math_write
      else if r = 0x420D then Some memsel_write
      else if 0x4210 \<le> r \<and> r \<le> 0x421F then Some bus_readonly_write
      else if (0x2184 \<le> r \<and> r \<le> 0x21FF) \<or> r = 0x420E \<or> r = 0x420F \<or>
        (0x4220 \<le> r \<and> r \<le> 0x42FF) \<or> (0x4380 \<le> r \<and> r \<le> 0x43FF) then Some bus_unused_write
      else None)"

text \<open>The bus's own register hooks: setting up succeeds (no register is outside the
  window), and each register of the window has the handlers its address range calls for,
  all others none.\<close>

theorem bus_setup_table:
  "\<exists>h :: ('a bus_state_scheme) hooks. bus_setup Inr = Inr h \<and>
     (\<forall>i < 0x4000. hw_rd h i = setup_rd (unat i + 0x2000) \<and> hw_wr h i = setup_wr (unat i + 0x2000))"
proof -
  have in_range: "\<forall>r\<in>set (regs a b). 0x2000 \<le> r \<and> r < 0x6000" if "0x2000 \<le> a" "b < 0x6000" for a b
    using that by (auto simp: set_regs word_le_nat_alt word_less_nat_alt)
  have loop: "hook_all (regs a b) rd wr h = Inr (over_hooks (regs a b) rd wr h)" if "0x2000 \<le> a" "b < 0x6000"
    for a b rd wr and h :: "('a bus_state_scheme) hooks"
    by (rule hook_all_table[OF in_range[OF that]])
  have floop: "hook_all (filter P (regs a b)) rd wr h = Inr (over_hooks (filter P (regs a b)) rd wr h)"
    if "0x2000 \<le> a" "b < 0x6000" for P a b rd wr and h :: "('a bus_state_scheme) hooks"
    using in_range[OF that] by (intro hook_all_table) auto
  have one: "hook_all [r] rd wr h = Inr (over_hooks [r] rd wr h)" if "0x2000 \<le> r" "r < 0x6000"
    for r rd wr and h :: "('a bus_state_scheme) hooks"
    using that by (intro hook_all_table) simp
  have plus: "unat (i + 0x2000 :: u16) = unat i + 0x2000" if "i < 0x4000" for i
    using that by (simp add: unat_word_ariths word_less_nat_alt)
  have eqs: "(i + 0x2000 = (r :: u16)) = (unat i + 0x2000 = unat r)" if "i < 0x4000" for i r
    using plus[OF that] by (simp add: word_unat_eq_iff)
  have cmp: "(0x4214 \<le> (i + 0x2000 :: u16)) = (0x4214 \<le> unat i + 0x2000)" "((i + 0x2000 :: u16) \<le> 0x4217) = (unat i + 0x2000 \<le> 0x4217)"
    "(0x4207 \<le> (i + 0x2000 :: u16)) = (0x4207 \<le> unat i + 0x2000)" if "i < 0x4000" for i
    using plus[OF that] by (simp_all add: word_le_nat_alt)
  obtain h where h: "run_loops setup_loops no_hooks = Inr (h :: ('a bus_state_scheme) hooks)"
    "\<And>i. i < 0x4000 \<Longrightarrow> hw_rd h i = setup_rd (unat i + 0x2000)"
    "\<And>i. i < 0x4000 \<Longrightarrow> hw_wr h i = setup_wr (unat i + 0x2000)"
  proof -
    obtain h :: "('a bus_state_scheme) hooks" where h: "h = foldl (\<lambda>h (rs, rd, wr). over_hooks rs rd wr h) no_hooks setup_loops"
      by blast
    have "run_loops setup_loops no_hooks = Inr h"
      unfolding h setup_loops_def by (simp add: loop floop one del: hook_all.simps filter.simps)
    moreover have "hw_rd h i = setup_rd (unat i + 0x2000)" if "i < 0x4000" for i
      unfolding h setup_loops_def using that
      by (simp add: over_hooks_at set_regs plus eqs cmp no_hooks_def setup_rd_def)
    moreover have "hw_wr h i = setup_wr (unat i + 0x2000)" if "i < 0x4000" for i
      unfolding h setup_loops_def using that
      by (simp add: over_hooks_at set_regs plus eqs cmp no_hooks_def setup_wr_def)
    ultimately show thesis using that by blast
  qed
  then show ?thesis by (auto simp: bus_setup_def)
qed

theorem bus_setup_table_witness:
  "\<exists>h :: (unit bus_state_scheme) hooks. bus_setup Inr = Inr h \<and> hw_rd h 0x180 = Some wram_port_read \<and>
     hw_wr h 0x220D = Some memsel_write \<and> hw_rd h 0x3000 = None"
proof -
  obtain h :: "(unit bus_state_scheme) hooks" where h: "bus_setup Inr = Inr h"
    "\<And>i. i < 0x4000 \<Longrightarrow> hw_rd h i = setup_rd (unat i + 0x2000) \<and> hw_wr h i = setup_wr (unat i + 0x2000)"
    using bus_setup_table by blast
  then show ?thesis
    using h(2)[of "0x180"] h(2)[of "0x220D"] h(2)[of "0x3000"] by (intro exI[of _ h]) (simp add: setup_rd_def setup_wr_def)
qed

end
