(* ===== verification/Ct_Cpu.thy ===== *)
theory Ct_Cpu
  imports Ct_Prelude
begin

text \<open>
  \<open>runtime/cpu.h\<close> and \<open>runtime/cpu.c\<close>: the 65816 register file, its power-on state, the
  condition under which generated code that runs other code gets control back, and the
  well-formedness invariant of the registers: flags are bits, 8-bit index registers have a
  zero high byte, emulation mode forces 8-bit registers and a page-1 stack.
\<close>

record cpu =
  rA :: u16
  rX :: u16
  rY :: u16
  rS :: u16
  rDP :: u16
  rDB :: u8
  rPB :: u8
  rPC :: u16
  fl_n :: u8
  fl_v :: u8
  fl_m :: u8
  fl_x :: u8
  fl_d :: u8
  fl_i :: u8
  fl_z :: u8
  fl_c :: u8
  fl_e :: u8

definition cpu_init :: cpu where
  "cpu_init = \<lparr>rA = 0, rX = 0, rY = 0, rS = 0x01FF, rDP = 0, rDB = 0, rPB = 0, rPC = 0,
     fl_n = 0, fl_v = 0, fl_m = 1, fl_x = 0, fl_d = 0, fl_i = 1, fl_z = 0, fl_c = 0, fl_e = 0\<rparr>"

text \<open>\<open>ct_exec_until\<close>; \<open>back = ~0u\<close> marks \<open>ct_interp_rest\<close>.\<close>

record exec_until =
  eu_back :: u32
  eu_s :: u16

definition ct_exec_done :: "cpu \<Rightarrow> exec_until \<Rightarrow> bool" where
  "ct_exec_done c u = (if eu_back u = 0xFFFFFFFF then rS c > eu_s u else rS c \<ge> eu_s u)"

text \<open>
  The invariant. In C the flags are \<open>uint8_t\<close> fields that the code only ever sets to 0 or 1.
\<close>

definition is_bit :: "u8 \<Rightarrow> bool" where
  "is_bit b \<longleftrightarrow> b = 0 \<or> b = 1"

definition wf_cpu :: "cpu \<Rightarrow> bool" where
  "wf_cpu c \<longleftrightarrow>
     is_bit (fl_n c) \<and> is_bit (fl_v c) \<and> is_bit (fl_m c) \<and> is_bit (fl_x c) \<and> is_bit (fl_d c) \<and>
     is_bit (fl_i c) \<and> is_bit (fl_z c) \<and> is_bit (fl_c c) \<and> is_bit (fl_e c) \<and>
     (fl_x c \<noteq> 0 \<longrightarrow> rX c AND 0xFF00 = 0 \<and> rY c AND 0xFF00 = 0) \<and>
     (fl_e c \<noteq> 0 \<longrightarrow> fl_m c = 1 \<and> fl_x c = 1 \<and> rS c AND 0xFF00 = 0x0100)"

lemma is_bit_simps [simp]:
  "is_bit 0" "is_bit 1" "is_bit (of_bool b)"
  by (simp_all add: is_bit_def)

lemma is_bit_and1 [simp]: "is_bit (x AND 1)"
  by (simp add: is_bit_def and_one_eq mod2_eq_if)

lemma wf_cpu_init: "wf_cpu cpu_init"
  by (simp add: wf_cpu_def cpu_init_def)

end
