(* ===== verification/Ct_Cycles.thy ===== *)
theory Ct_Cycles
  imports Ct_Bus Ct_Cpu
begin

text \<open>
  \<open>runtime/cycles.h\<close> and \<open>runtime/cycles.c\<close>: the cycle model. The count per opcode
  (\<open>cyc_base\<close>, \<open>cyc_pen\<close>) and the cycle-by-cycle templates (\<open>tmpl\<close>) are tables the C
  code fills by assignments in order; here each table is the list of those assignments and
  a lookup takes the last one for an opcode. The state is the record of the instruction
  begun last (\<open>cur\<close>) and the two facts recorded while it executes.
\<close>

section \<open>State\<close>

record cyc_cur =
  cu_pending :: bool
  cu_compiled :: bool
  cu_at :: u32
  cu_op :: u8
  cu_m16 :: bool
  cu_x16 :: bool
  cu_dl :: bool
  cu_native :: bool
  cu_interrupt :: bool
  cu_speed :: u32
  cu_size :: u32

record cyc_state = bus_state +
  ct_cyc_cross :: bool
  ct_cyc_taken :: bool
  cur :: cyc_cur

definition cur_zero :: cyc_cur where
  "cur_zero = \<lparr>cu_pending = False, cu_compiled = False, cu_at = 0, cu_op = 0, cu_m16 = False,
     cu_x16 = False, cu_dl = False, cu_native = False, cu_interrupt = False, cu_speed = 0, cu_size = 0\<rparr>"

definition cyc_zero :: cyc_state where
  "cyc_zero = bus_state.extend bus_zero
     \<lparr>ct_cyc_cross = False, ct_cyc_taken = False, cur = cur_zero\<rparr>"

section \<open>The count per opcode\<close>

definition P_M :: u8 where "P_M = 1"
definition P_M2 :: u8 where "P_M2 = 2"
definition P_X :: u8 where "P_X = 4"
definition P_DL :: u8 where "P_DL = 8"
definition P_IDX :: u8 where "P_IDX = 16"
definition P_BR :: u8 where "P_BR = 32"
definition P_RTI :: u8 where "P_RTI = 128"

lemmas penalty_defs = P_M_def P_M2_def P_X_def P_DL_def P_IDX_def P_BR_def P_RTI_def

text \<open>The ALU group's addressing columns: opcode bits, cycles, penalties.\<close>

definition cyc_col :: "(nat \<times> nat \<times> u8) list" where
  "cyc_col =
     [(0x01, 6, P_DL), (0x03, 4, 0), (0x05, 3, P_DL), (0x07, 6, P_DL), (0x09, 2, 0),
      (0x0D, 4, 0), (0x0F, 5, 0), (0x11, 5, P_DL OR P_IDX), (0x12, 5, P_DL), (0x13, 7, 0),
      (0x15, 4, P_DL), (0x17, 6, P_DL), (0x19, 4, P_IDX), (0x1D, 4, P_IDX), (0x1F, 5, 0)]"

definition rmw_ops :: "nat list" where
  "rmw_ops = [0x00, 0x20, 0x40, 0x60, 0xE0, 0xC0]"

definition cyc_two :: "nat list" where
  "cyc_two =
     [0x0A, 0x2A, 0x4A, 0x6A, 0x1A, 0x3A,
      0xE8, 0xC8, 0xCA, 0x88,
      0xAA, 0xA8, 0x8A, 0x98, 0x9B, 0xBB, 0xBA, 0x9A, 0x5B, 0x7B, 0x1B, 0x3B,
      0x18, 0x38, 0x58, 0x78, 0xD8, 0xF8, 0xB8, 0xFB, 0xEA, 0x42]"

definition branch_ops :: "nat list" where
  "branch_ops = [0x10, 0x30, 0x50, 0x70, 0x90, 0xB0, 0xD0, 0xF0, 0x80]"

text \<open>The assignments \<open>cyc(op, base, pen)\<close> of \<open>build_cycle_table\<close>, in order.\<close>

definition cyc_alu_rows :: "(nat \<times> nat \<times> u8) list" where
  "cyc_alu_rows =
     concat (map (\<lambda>hi. map (\<lambda>(lo, base, pen). (32 * hi + lo, base, pen OR P_M)) cyc_col) [0..<8]) @
     [(0x91, 6, P_DL OR P_M), (0x99, 5, P_M), (0x9D, 5, P_M)]"

definition cyc_rmw_rows :: "(nat \<times> nat \<times> u8) list" where
  "cyc_rmw_rows =
     concat (map (\<lambda>r. [(r + 0x06, 5, P_DL OR P_M2), (r + 0x0E, 6, P_M2),
                       (r + 0x16, 6, P_DL OR P_M2), (r + 0x1E, 7, P_M2)]) rmw_ops)"

definition cyc_data_rows :: "(nat \<times> nat \<times> u8) list" where
  "cyc_data_rows =
     [(0x04, 5, P_DL OR P_M2), (0x0C, 6, P_M2),
      (0x14, 5, P_DL OR P_M2), (0x1C, 6, P_M2),
      (0x89, 2, P_M), (0x24, 3, P_DL OR P_M), (0x2C, 4, P_M),
      (0x34, 4, P_DL OR P_M), (0x3C, 4, P_M OR P_IDX),
      (0xA2, 2, P_X), (0xA6, 3, P_DL OR P_X), (0xAE, 4, P_X),
      (0xB6, 4, P_DL OR P_X), (0xBE, 4, P_X OR P_IDX),
      (0xA0, 2, P_X), (0xA4, 3, P_DL OR P_X), (0xAC, 4, P_X),
      (0xB4, 4, P_DL OR P_X), (0xBC, 4, P_X OR P_IDX),
      (0x86, 3, P_DL OR P_X), (0x8E, 4, P_X), (0x96, 4, P_DL OR P_X),
      (0x84, 3, P_DL OR P_X), (0x8C, 4, P_X), (0x94, 4, P_DL OR P_X),
      (0x64, 3, P_DL OR P_M), (0x74, 4, P_DL OR P_M),
      (0x9C, 4, P_M), (0x9E, 5, P_M),
      (0xE0, 2, P_X), (0xE4, 3, P_DL OR P_X), (0xEC, 4, P_X),
      (0xC0, 2, P_X), (0xC4, 3, P_DL OR P_X), (0xCC, 4, P_X),
      (0xEB, 3, 0),
      (0x48, 3, P_M), (0xDA, 3, P_X), (0x5A, 3, P_X),
      (0x68, 4, P_M), (0xFA, 4, P_X), (0x7A, 4, P_X),
      (0x8B, 3, 0), (0xAB, 4, 0), (0x0B, 4, 0), (0x2B, 5, 0),
      (0x4B, 3, 0), (0x08, 3, 0), (0x28, 4, 0),
      (0xF4, 5, 0), (0xD4, 6, P_DL), (0x62, 6, 0),
      (0xC2, 3, 0), (0xE2, 3, 0)]"

definition cyc_flow_rows :: "(nat \<times> nat \<times> u8) list" where
  "cyc_flow_rows =
     [(0x82, 4, 0),
      (0x4C, 3, 0), (0x5C, 4, 0), (0x6C, 5, 0), (0x7C, 6, 0), (0xDC, 6, 0),
      (0x20, 6, 0), (0xFC, 8, 0), (0x22, 8, 0),
      (0x60, 6, 0), (0x6B, 6, 0), (0x40, 6, P_RTI),
      (0x54, 7, 0), (0x44, 7, 0),
      (0xCB, 3, 0), (0xDB, 3, 0)]"

definition cyc_rows :: "(nat \<times> nat \<times> u8) list" where
  "cyc_rows = cyc_alu_rows @ cyc_rmw_rows @ map (\<lambda>op. (op, 2, 0)) cyc_two @ cyc_data_rows @
     map (\<lambda>op. (op, 2, P_BR)) branch_ops @ cyc_flow_rows"

definition cyc_entry :: "nat \<Rightarrow> nat \<times> u8" where
  "cyc_entry op = (case map_of (rev cyc_rows) op of Some e \<Rightarrow> e | None \<Rightarrow> (0, 0))"

definition cyc_base :: "u8 \<Rightarrow> nat" where "cyc_base op = fst (cyc_entry (unat op))"
definition cyc_pen :: "u8 \<Rightarrow> u8" where "cyc_pen op = snd (cyc_entry (unat op))"

section \<open>Instruction sizes\<close>

text \<open>Bytes with M=X=1.\<close>

definition op_size_table :: "nat list" where
  "op_size_table =
    [2, 2, 2, 2, 2, 2, 2, 2, 1, 2, 1, 1, 3, 3, 3, 4,
     2, 2, 2, 2, 2, 2, 2, 2, 1, 3, 1, 1, 3, 3, 3, 4,
     3, 2, 4, 2, 2, 2, 2, 2, 1, 2, 1, 1, 3, 3, 3, 4,
     2, 2, 2, 2, 2, 2, 2, 2, 1, 3, 1, 1, 3, 3, 3, 4,
     1, 2, 2, 2, 3, 2, 2, 2, 1, 2, 1, 1, 3, 3, 3, 4,
     2, 2, 2, 2, 3, 2, 2, 2, 1, 3, 1, 1, 4, 3, 3, 4,
     1, 2, 3, 2, 2, 2, 2, 2, 1, 2, 1, 1, 3, 3, 3, 4,
     2, 2, 2, 2, 2, 2, 2, 2, 1, 3, 1, 1, 3, 3, 3, 4,
     2, 2, 3, 2, 2, 2, 2, 2, 1, 2, 1, 1, 3, 3, 3, 4,
     2, 2, 2, 2, 2, 2, 2, 2, 1, 3, 1, 1, 3, 3, 3, 4,
     2, 2, 2, 2, 2, 2, 2, 2, 1, 2, 1, 1, 3, 3, 3, 4,
     2, 2, 2, 2, 2, 2, 2, 2, 1, 3, 1, 1, 3, 3, 3, 4,
     2, 2, 2, 2, 2, 2, 2, 2, 1, 2, 1, 1, 3, 3, 3, 4,
     2, 2, 2, 2, 2, 2, 2, 2, 1, 3, 1, 1, 3, 3, 3, 4,
     2, 2, 2, 2, 2, 2, 2, 2, 1, 2, 1, 1, 3, 3, 3, 4,
     2, 2, 2, 2, 3, 2, 2, 2, 1, 3, 1, 1, 3, 3, 3, 4]"

definition op_size :: "u8 \<Rightarrow> nat" where "op_size op = op_size_table ! unat op"

definition cur_size :: "cyc_cur \<Rightarrow> nat" where
  "cur_size k =
     (let size = op_size (cu_op k);
          size1 = (if cu_m16 k \<and> cu_op k AND 0x1F = 0x09 then size + 1 else size)
      in if cu_x16 k \<and> (cu_op k = 0xA0 \<or> cu_op k = 0xA2 \<or> cu_op k = 0xC0 \<or> cu_op k = 0xE0)
         then size1 + 1 else size1)"

section \<open>Beginning an instruction\<close>

definition cyc_master_per_cycle :: "u8 \<Rightarrow> u16 \<Rightarrow> 'a bus_state_scheme \<Rightarrow> u32" where
  "cyc_master_per_cycle pb pc s =
     (let in_rom = (pb \<ge> 0xC0 \<or> (pb AND 0x7F < 0x40 \<and> pc \<ge> 0x8000))
      in if pb AND 0x80 \<noteq> 0 \<and> in_rom \<and> bus_fastrom s then 6 else 8)"

definition cyc_begin :: "cpu \<Rightarrow> u32 \<Rightarrow> u8 \<Rightarrow> 'a cyc_state_scheme \<Rightarrow> 'a cyc_state_scheme" where
  "cyc_begin c at op s = s\<lparr>
     cur := (cur s)\<lparr>cu_pending := True, cu_at := at, cu_op := op, cu_m16 := fl_m c = 0,
       cu_x16 := fl_x c = 0, cu_dl := rDP c AND 0xFF \<noteq> 0, cu_native := fl_e c = 0,
       cu_speed := cyc_master_per_cycle (to8 (drop_bit 16 at)) (to16 at) s,
       cu_compiled := False, cu_interrupt := False\<rparr>,
     ct_cyc_cross := False, ct_cyc_taken := False, ct_bus_clocks := 0, ct_bus_n := 0\<rparr>"

definition cyc_in_progress :: "'a cyc_state_scheme \<Rightarrow> bool" where
  "cyc_in_progress s \<longleftrightarrow> cu_pending (cur s) \<or> cu_interrupt (cur s)"

definition cyc_done :: "'a cyc_state_scheme \<Rightarrow> 'a cyc_state_scheme" where
  "cyc_done s = s\<lparr>cur := (cur s)\<lparr>cu_interrupt := False\<rparr>\<rparr>"

definition cyc_begin_interrupt :: "cpu \<Rightarrow> 'a cyc_state_scheme \<Rightarrow> 'a cyc_state_scheme" where
  "cyc_begin_interrupt c s =
     (let s1 = cyc_begin c (addr24 (rPB c) (rPC c)) 0 s
      in s1\<lparr>cur := (cur s1)\<lparr>cu_pending := False, cu_interrupt := True\<rparr>\<rparr>)"

definition cyc_begin_compiled :: "cpu \<Rightarrow> u32 \<Rightarrow> u8 \<Rightarrow> 'a cyc_state_scheme \<Rightarrow> 'a cyc_state_scheme" where
  "cyc_begin_compiled c at op s =
     (let s1 = cyc_begin c at op s;
          k = (cur s1)\<lparr>cu_compiled := True\<rparr>
      in s1\<lparr>cur := k\<lparr>cu_size := word_of_nat (cur_size k)\<rparr>\<rparr>)"

definition elapsed_fetches :: "cyc_cur \<Rightarrow> u32" where
  "elapsed_fetches k = (if cu_compiled k then cu_size k - 1 else 0)"

definition cyc_elapsed :: "'a cyc_state_scheme \<Rightarrow> u32" where
  "cyc_elapsed s =
     (if \<not> cu_pending (cur s) then 0
      else cu_speed (cur s) * (1 + elapsed_fetches (cur s)) + ct_bus_clocks s)"

section \<open>Cycle by cycle\<close>

text \<open>
  A template lists an opcode's cycles in order: \<open>F\<close> opcode fetch, \<open>O\<close> operand fetch, \<open>D\<close> data
  access, \<open>I\<close> internal cycle; lower case letters are conditional ones.
\<close>

definition tmpl_col :: "(nat \<times> string) list" where
  "tmpl_col =
     [(0x01, ''FOdIDDDm''), (0x03, ''FOIDm''), (0x05, ''FOdDm''), (0x07, ''FOdDDDDm''),
      (0x09, ''FOp''), (0x0D, ''FOODm''), (0x0F, ''FOOODm''), (0x11, ''FOdDDxDm''),
      (0x12, ''FOdDDDm''), (0x13, ''FOIDDIDm''), (0x15, ''FOdIDm''), (0x17, ''FOdDDDDm''),
      (0x19, ''FOOxDm''), (0x1D, ''FOOxDm''), (0x1F, ''FOOODm'')]"

definition tmpl_two :: "nat list" where
  "tmpl_two =
     [0x0A, 0x2A, 0x4A, 0x6A, 0x1A, 0x3A, 0xE8, 0xC8, 0xCA, 0x88,
      0xAA, 0xA8, 0x8A, 0x98, 0x9B, 0xBB, 0xBA, 0x9A, 0x5B, 0x7B, 0x1B, 0x3B,
      0x18, 0x38, 0x58, 0x78, 0xD8, 0xF8, 0xB8, 0xFB, 0xEA]"

definition tmpl_alu_rows :: "(nat \<times> string) list" where
  "tmpl_alu_rows =
     concat (map (\<lambda>hi. map (\<lambda>(lo, t). (32 * hi + lo, t)) tmpl_col) [0..<8]) @
     [(0x91, ''FOdDDIDm''), (0x99, ''FOOIDm''), (0x9D, ''FOOIDm'')]"

definition tmpl_rmw_rows :: "(nat \<times> string) list" where
  "tmpl_rmw_rows =
     concat (map (\<lambda>r. [(r + 0x06, ''FOdDmImD''), (r + 0x0E, ''FOODmImD''),
                       (r + 0x16, ''FOdIDmImD''), (r + 0x1E, ''FOOIDmImD'')]) rmw_ops)"

definition tmpl_data_rows :: "(nat \<times> string) list" where
  "tmpl_data_rows =
     [(0x42, ''FO''),
      (0x04, ''FOdDmImD''), (0x14, ''FOdDmImD''),
      (0x0C, ''FOODmImD''), (0x1C, ''FOODmImD''),
      (0x89, ''FOp''), (0x24, ''FOdDm''), (0x2C, ''FOODm''),
      (0x34, ''FOdIDm''), (0x3C, ''FOOxDm''),
      (0xA2, ''FOq''), (0xA0, ''FOq''),
      (0xA6, ''FOdDw''), (0xA4, ''FOdDw''),
      (0xAE, ''FOODw''), (0xAC, ''FOODw''),
      (0xB6, ''FOdIDw''), (0xB4, ''FOdIDw''),
      (0xBE, ''FOOxDw''), (0xBC, ''FOOxDw''),
      (0x86, ''FOdDw''), (0x84, ''FOdDw''),
      (0x8E, ''FOODw''), (0x8C, ''FOODw''),
      (0x96, ''FOdIDw''), (0x94, ''FOdIDw''),
      (0x64, ''FOdDm''), (0x74, ''FOdIDm''),
      (0x9C, ''FOODm''), (0x9E, ''FOOIDm''),
      (0xE0, ''FOq''), (0xC0, ''FOq''),
      (0xE4, ''FOdDw''), (0xC4, ''FOdDw''),
      (0xEC, ''FOODw''), (0xCC, ''FOODw''),
      (0xEB, ''FII''),
      (0x48, ''FIDm''), (0xDA, ''FIDw''), (0x5A, ''FIDw''),
      (0x68, ''FIIDm''), (0xFA, ''FIIDw''), (0x7A, ''FIIDw''),
      (0x8B, ''FID''), (0x4B, ''FID''), (0x08, ''FID''),
      (0xAB, ''FIID''), (0x28, ''FIID''),
      (0x0B, ''FIDD''), (0x2B, ''FIIDD''),
      (0xF4, ''FOODD''), (0xD4, ''FOdDDDD''), (0x62, ''FOOIDD''),
      (0xC2, ''FOI''), (0xE2, ''FOI'')]"

definition tmpl_flow_rows :: "(nat \<times> string) list" where
  "tmpl_flow_rows =
     [(0x82, ''FOOI''),
      (0x4C, ''FOO''), (0x5C, ''FOOO''), (0x6C, ''FOODD''),
      (0x7C, ''FOOIDD''), (0xDC, ''FOODDD''),
      (0x20, ''FOOIDD''), (0xFC, ''FODDOIDD''), (0x22, ''FOODIODD''),
      (0x60, ''FIIDDI''), (0x6B, ''FIIDDD''), (0x40, ''FIIDDDn''),
      (0x54, ''FOODDII''), (0x44, ''FOODDII''),
      (0xCB, ''FII''), (0xDB, ''FII'')]"

definition tmpl_rows :: "(nat \<times> string) list" where
  "tmpl_rows = tmpl_alu_rows @ tmpl_rmw_rows @ map (\<lambda>op. (op, ''FI'')) tmpl_two @ tmpl_data_rows @
     map (\<lambda>op. (op, ''FOb'')) branch_ops @ tmpl_flow_rows"

definition tmpl :: "u8 \<Rightarrow> string option" where
  "tmpl op = map_of (rev tmpl_rows) (unat op)"

definition tmpl_int :: string where "tmpl_int = ''FIDDDDDD''"

datatype cyc_kind = CY_READ | CY_WRITE | CY_IDLE

text \<open>Whether a template letter's cycle happens, and its kind of cycle.\<close>

definition cyc_use :: "'a cyc_state_scheme \<Rightarrow> char \<Rightarrow> bool \<times> char" where
  "cyc_use s t =
     (let k = cur s in
      if t = CHR ''d'' then (cu_dl k, CHR ''I'')
      else if t = CHR ''x'' then (ct_cyc_cross s \<or> cu_x16 k, CHR ''I'')
      else if t = CHR ''b'' then (ct_cyc_taken s, CHR ''I'')
      else if t = CHR ''m'' then (cu_m16 k, CHR ''D'')
      else if t = CHR ''w'' then (cu_x16 k, CHR ''D'')
      else if t = CHR ''n'' then (cu_native k, CHR ''D'')
      else if t = CHR ''p'' then (cu_m16 k, CHR ''O'')
      else if t = CHR ''q'' then (cu_x16 k, CHR ''O'')
      else (True, t))"

definition logged :: "'a bus_state_scheme \<Rightarrow> nat" where
  "logged s = (if ct_bus_n s < CT_BUS_LOG then unat (ct_bus_n s) else unat CT_BUS_LOG)"

definition log_is_fetch :: "'a bus_state_scheme \<Rightarrow> nat \<Rightarrow> bool" where
  "log_is_fetch s k \<longleftrightarrow> to32 (ct_bus_log s (word_of_nat k)) AND CT_BUS_FETCH \<noteq> 0"

text \<open>The next log entry of the wanted kind, from a cursor; \<open>logged s\<close> if there is none.\<close>

function next_entry :: "'a bus_state_scheme \<Rightarrow> bool \<Rightarrow> nat \<Rightarrow> nat" where
  "next_entry s fetch k =
     (if k < logged s \<and> log_is_fetch s k \<noteq> fetch then next_entry s fetch (Suc k) else k)"
  by pat_completeness auto
termination
  by (relation "measure (\<lambda>(s, fetch, k). logged s - k)") auto

declare next_entry.simps [simp del]

type_synonym cycle = "u8 \<times> cyc_kind \<times> int"

fun cyc_loop ::
  "'a cyc_state_scheme \<Rightarrow> nat \<Rightarrow> u32 \<Rightarrow> string \<Rightarrow> nat \<Rightarrow> nat \<Rightarrow> cycle list \<Rightarrow> cycle list" where
  "cyc_loop s mx lim [] fe da out = out"
| "cyc_loop s mx lim (t # ts) fe da out =
     (if length out \<ge> mx then out
      else let (use, c) = cyc_use s t in
        if \<not> use then cyc_loop s mx lim ts fe da out
        else if c = CHR ''F'' \<or> (c = CHR ''O'' \<and> cu_compiled (cur s)) then
          cyc_loop s mx lim ts fe da (out @ [(to8 (cu_speed (cur s)), CY_READ, - 1)])
        else if c = CHR ''I'' then
          cyc_loop s mx lim ts fe da (out @ [(6, CY_IDLE, - 1)])
        else
          let fetch = (c = CHR ''O'');
              k = next_entry s fetch (if fetch then fe else da) in
          if k \<ge> logged s then
            (if lim \<noteq> 0xFFFFFFFF then out
             else cyc_loop s mx lim ts (if fetch then k else fe) (if fetch then da else k)
                    (out @ [(6, CY_READ, - 1)]))
          else
            let e = ct_bus_log s (word_of_nat k);
                out' = out @ [(e AND 0x3F,
                               if to32 e AND CT_BUS_WRITE \<noteq> 0 then CY_WRITE else CY_READ, int k)] in
            if word_of_nat k = lim then out'
            else cyc_loop s mx lim ts (if fetch then Suc k else fe) (if fetch then da else Suc k) out')"

definition cyc_cycles :: "'a cyc_state_scheme \<Rightarrow> nat \<Rightarrow> u32 \<Rightarrow> cycle list" where
  "cyc_cycles s mx lim =
     (case (if cu_interrupt (cur s) then Some tmpl_int else tmpl (cu_op (cur s))) of
        None \<Rightarrow> []
      | Some t \<Rightarrow> cyc_loop s mx lim t 0 0 [])"

section \<open>Charging an instruction\<close>

definition pen_count :: "'a cyc_state_scheme \<Rightarrow> nat" where
  "pen_count s =
     (let k = cur s; pen = cyc_pen (cu_op k) in
      cyc_base (cu_op k)
      + (if pen AND P_M \<noteq> 0 \<and> cu_m16 k then 1 else 0)
      + (if pen AND P_M2 \<noteq> 0 \<and> cu_m16 k then 2 else 0)
      + (if pen AND P_X \<noteq> 0 \<and> cu_x16 k then 1 else 0)
      + (if pen AND P_DL \<noteq> 0 \<and> cu_dl k then 1 else 0)
      + (if pen AND P_IDX \<noteq> 0 \<and> (ct_cyc_cross s \<or> cu_x16 k) then 1 else 0)
      + (if pen AND P_BR \<noteq> 0 \<and> ct_cyc_taken s then 1 else 0)
      + (if pen AND P_RTI \<noteq> 0 \<and> cu_native k then 1 else 0))"

definition model_clocks :: "'a cyc_state_scheme \<Rightarrow> fatal + u32" where
  "model_clocks s =
     (let k = cur s; n = pen_count s in
      if n = 0 then Inl (No_cycle_count (cu_at k) (cu_op k))
      else
        let fetches = (if cu_compiled k then cu_size k - 1 else 0);
            used = 1 + fetches + ct_bus_n s;
            clocks = cu_speed k * (1 + fetches) + ct_bus_clocks s
        in Inr (if word_of_nat n > used then clocks + (word_of_nat n - used) * 6 else clocks))"

text \<open>\<open>cyc_check\<close>: the report it would print, the template's clocks and the count's.\<close>

definition cyc_check :: "'a cyc_state_scheme \<Rightarrow> fatal + (u32 \<times> u32) option" where
  "cyc_check s =
     (if cu_interrupt (cur s) \<or> tmpl (cu_op (cur s)) = None \<or> ct_bus_n s > CT_BUS_LOG then Inr None
      else
        let total = sum_list (map (\<lambda>(clk, _, _). to32 clk) (cyc_cycles s 128 0xFFFFFFFF)) in
        case model_clocks s of Inl e \<Rightarrow> Inl e
        | Inr want \<Rightarrow> Inr (if total \<noteq> want then Some (total, want) else None))"

text \<open>\<open>cyc_finish\<close>; its diagnostic \<open>cyc_check\<close> (under \<open>CT_CYC_CHECK\<close>) does not change the result.\<close>

definition cyc_finish :: "('a cyc_state_scheme, u32) act" where
  "cyc_finish s =
     (if \<not> cu_pending (cur s) then Inr (0, s)
      else
        let s1 = s\<lparr>cur := (cur s)\<lparr>cu_pending := False, cu_interrupt := False\<rparr>\<rparr> in
        case model_clocks s1 of Inl e \<Rightarrow> Inl e | Inr n \<Rightarrow> Inr (n, s1))"

end
