(* ===== verification/Ct_Ops.thy ===== *)
theory Ct_Ops
  imports Ct_Cycles
begin

text \<open>
  \<open>runtime/ops.h\<close>: the instruction semantics generated code is made of. The machine is the
  bus and cycle state with the CPU registers; a C function on \<open>CPU *\<close> alone is a function on
  the register record, one that also reaches the bus is an action on the machine. The trace
  hook (set by tests only) and the \<open>CT_TEST_BUILD\<close> cap are left out; the tick hook is an
  argument. Where C leaves the order of two reads open (\<open>read8(a) | read8(b) << 8\<close>) the model
  reads left to right.
\<close>

record mach = cyc_state +
  cpu :: cpu
  ct_budget :: u64

abbreviation cpu_get :: "(cpu \<Rightarrow> 'b) \<Rightarrow> ('a mach_scheme, 'b) act" where
  "cpu_get f \<equiv> gets (\<lambda>s. f (cpu s))"

abbreviation cpu_do :: "(cpu \<Rightarrow> cpu) \<Rightarrow> ('a mach_scheme, unit) act" where
  "cpu_do f \<equiv> modify (\<lambda>s. s\<lparr>cpu := f (cpu s)\<rparr>)"

section \<open>Flags\<close>

definition set_nz8 :: "u8 \<Rightarrow> cpu \<Rightarrow> cpu" where
  "set_nz8 v c = c\<lparr>fl_n := drop_bit 7 v, fl_z := of_bool (v = 0)\<rparr>"

definition set_nz16 :: "u16 \<Rightarrow> cpu \<Rightarrow> cpu" where
  "set_nz16 v c = c\<lparr>fl_n := to8 (drop_bit 15 v), fl_z := of_bool (v = 0)\<rparr>"

definition get_p :: "cpu \<Rightarrow> u8" where
  "get_p c = to8 (push_bit 7 (to32 (fl_n c)) OR push_bit 6 (to32 (fl_v c)) OR push_bit 5 (to32 (fl_m c)) OR
     push_bit 4 (to32 (fl_x c)) OR push_bit 3 (to32 (fl_d c)) OR push_bit 2 (to32 (fl_i c)) OR
     push_bit 1 (to32 (fl_z c)) OR to32 (fl_c c))"

definition index_width :: "cpu \<Rightarrow> cpu" where
  "index_width c = (if fl_x c \<noteq> 0 then c\<lparr>rX := rX c AND 0xFF, rY := rY c AND 0xFF\<rparr> else c)"

definition set_p :: "u8 \<Rightarrow> cpu \<Rightarrow> cpu" where
  "set_p p c =
     (let c1 = c\<lparr>fl_n := drop_bit 7 p AND 1, fl_v := drop_bit 6 p AND 1, fl_m := drop_bit 5 p AND 1,
                 fl_x := drop_bit 4 p AND 1, fl_d := drop_bit 3 p AND 1, fl_i := drop_bit 2 p AND 1,
                 fl_z := drop_bit 1 p AND 1, fl_c := p AND 1\<rparr>;
          c2 = (if fl_e c1 \<noteq> 0 then c1\<lparr>fl_m := 1, fl_x := 1\<rparr> else c1)
      in index_width c2)"

definition op_xce :: "cpu \<Rightarrow> cpu" where
  "op_xce c =
     (let c1 = c\<lparr>fl_c := fl_e c, fl_e := fl_c c\<rparr> in
      if fl_e c1 \<noteq> 0
      then (let c2 = index_width (c1\<lparr>fl_m := 1, fl_x := 1\<rparr>) in c2\<lparr>rS := 0x0100 OR (rS c2 AND 0xFF)\<rparr>)
      else c1)"

definition op_rep :: "u8 \<Rightarrow> cpu \<Rightarrow> cpu" where
  "op_rep v c = set_p (get_p c AND NOT v) c"

definition op_sep :: "u8 \<Rightarrow> cpu \<Rightarrow> cpu" where
  "op_sep v c = set_p (get_p c OR v) c"

section \<open>Loop budget, instruction start, mode checks\<close>

definition ct_loop :: "u32 \<Rightarrow> ('a mach_scheme, unit) act" where
  "ct_loop at s =
     (if ct_budget s \<noteq> 0
      then (let s1 = s\<lparr>ct_budget := ct_budget s - 1\<rparr> in
            if ct_budget s1 = 0 then Inl (Step_budget at) else Inr ((), s1))
      else Inr ((), s))"

type_synonym 's tick_hook = "u32 \<Rightarrow> u8 \<Rightarrow> ('s, unit) act"

definition ct_insn ::
  "('a mach_scheme) tick_hook option \<Rightarrow> u32 \<Rightarrow> u8 \<Rightarrow> u8 \<Rightarrow> ('a mach_scheme, unit) act" where
  "ct_insn tick at op fetched =
     thn (case tick of None \<Rightarrow> ret () | Some f \<Rightarrow> f at op) (modify (set_mdr fetched))"

definition cpu_enter :: "u32 \<Rightarrow> u8 \<Rightarrow> u8 \<Rightarrow> cpu \<Rightarrow> fatal + unit" where
  "cpu_enter at m x c =
     (if fl_e c \<noteq> 0 \<or> fl_m c \<noteq> m \<or> fl_x c \<noteq> x then Inl (Entry_state at (fl_m c) (fl_x c) (fl_e c)) else Inr ())"

definition cpu_check_mx :: "u32 \<Rightarrow> u8 \<Rightarrow> u8 \<Rightarrow> cpu \<Rightarrow> fatal + unit" where
  "cpu_check_mx at m x c =
     (if fl_m c \<noteq> m \<or> fl_x c \<noteq> x then Inl (Runtime_state at (fl_m c) (fl_x c)) else Inr ())"

definition cpu_check_return :: "u32 \<Rightarrow> u16 \<Rightarrow> cpu \<Rightarrow> fatal + unit" where
  "cpu_check_return site expect c =
     (if rPC c \<noteq> expect then Inl (Returned_to site (rPC c) expect) else Inr ())"

definition cpu_check_return_long :: "u32 \<Rightarrow> u32 \<Rightarrow> cpu \<Rightarrow> fatal + unit" where
  "cpu_check_return_long site expect c =
     (if rPC c \<noteq> to16 expect \<or> rPB c \<noteq> to8 (drop_bit 16 expect)
      then Inl (Returned_to_long site (rPB c) (rPC c) expect) else Inr ())"

section \<open>Effective addresses\<close>

definition ea_dp :: "u8 \<Rightarrow> cpu \<Rightarrow> u32" where "ea_dp d c = to32 (rDP c + to16 d)"
definition ea_abs :: "u16 \<Rightarrow> cpu \<Rightarrow> u32" where "ea_abs a c = addr24 (rDB c) a"

definition crosses :: "u32 \<Rightarrow> u16 \<Rightarrow> bool" where
  "crosses b i \<longleftrightarrow> (b XOR (b + to32 i)) AND 0xFF00 \<noteq> 0"

definition set_cross :: "bool \<Rightarrow> ('a cyc_state_scheme, unit) act" where
  "set_cross x = modify (\<lambda>s. s\<lparr>ct_cyc_cross := x\<rparr>)"

definition ea_abs_x :: "u16 \<Rightarrow> ('a mach_scheme, u32) act" where
  "ea_abs_x a = bnd (gets cpu) (\<lambda>c. let b = addr24 (rDB c) a in
     thn (set_cross (crosses b (rX c))) (ret ((b + to32 (rX c)) AND 0xFFFFFF)))"

definition ea_abs_y :: "u16 \<Rightarrow> ('a mach_scheme, u32) act" where
  "ea_abs_y a = bnd (gets cpu) (\<lambda>c. let b = addr24 (rDB c) a in
     thn (set_cross (crosses b (rY c))) (ret ((b + to32 (rY c)) AND 0xFFFFFF)))"

definition ea_long_x :: "u32 \<Rightarrow> cpu \<Rightarrow> u32" where "ea_long_x a c = (a + to32 (rX c)) AND 0xFFFFFF"
definition ea_dp_x :: "u8 \<Rightarrow> cpu \<Rightarrow> u32" where "ea_dp_x d c = to32 (rDP c + to16 d + rX c)"
definition ea_dp_y :: "u8 \<Rightarrow> cpu \<Rightarrow> u32" where "ea_dp_y d c = to32 (rDP c + to16 d + rY c)"
definition ea_sr :: "u8 \<Rightarrow> cpu \<Rightarrow> u32" where "ea_sr d c = to32 (rS c + to16 d)"

text \<open>\<open>(uint16_t)(a + 1)\<close>, the next address within bank 0.\<close>

definition b0_next :: "u32 \<Rightarrow> u32" where "b0_next a = to32 (to16 (a + 1))"

definition read16_b0 :: "('a bus_state_scheme) hooks \<Rightarrow> u32 \<Rightarrow> ('a bus_state_scheme, u16) act" where
  "read16_b0 h a = bnd (read8 h a) (\<lambda>lo. bnd (read8 h (b0_next a)) (\<lambda>hi. ret (word16 lo hi)))"

definition write16_b0 :: "('a bus_state_scheme) hooks \<Rightarrow> u32 \<Rightarrow> u16 \<Rightarrow> ('a bus_state_scheme, unit) act" where
  "write16_b0 h a v = thn (write8 h a (to8 v)) (write8 h (b0_next a) (to8 (drop_bit 8 v)))"

definition write16_b0_rmw :: "('a bus_state_scheme) hooks \<Rightarrow> u32 \<Rightarrow> u16 \<Rightarrow> ('a bus_state_scheme, unit) act" where
  "write16_b0_rmw h a v = thn (write8 h (b0_next a) (to8 (drop_bit 8 v))) (write8 h a (to8 v))"

definition ea_dp_ind :: "('a mach_scheme) hooks \<Rightarrow> u8 \<Rightarrow> ('a mach_scheme, u32) act" where
  "ea_dp_ind h d = bnd (gets cpu) (\<lambda>c. bnd (read16_b0 h (ea_dp d c)) (\<lambda>p. ret (addr24 (rDB c) p)))"

definition ea_dp_x_ind :: "('a mach_scheme) hooks \<Rightarrow> u8 \<Rightarrow> ('a mach_scheme, u32) act" where
  "ea_dp_x_ind h d = bnd (gets cpu) (\<lambda>c. bnd (read16_b0 h (ea_dp_x d c)) (\<lambda>p. ret (addr24 (rDB c) p)))"

definition ea_dp_ind_y :: "('a mach_scheme) hooks \<Rightarrow> u8 \<Rightarrow> ('a mach_scheme, u32) act" where
  "ea_dp_ind_y h d = bnd (ea_dp_ind h d) (\<lambda>b. bnd (cpu_get rY) (\<lambda>y.
     thn (set_cross (crosses b y)) (ret ((b + to32 y) AND 0xFFFFFF))))"

definition ea_dp_ind_long :: "('a mach_scheme) hooks \<Rightarrow> u8 \<Rightarrow> ('a mach_scheme, u32) act" where
  "ea_dp_ind_long h d = bnd (gets cpu) (\<lambda>c. let p = ea_dp d c in
     bnd (read16_b0 h p) (\<lambda>lo. bnd (read8 h (to32 (to16 (p + 2)))) (\<lambda>b. ret (to32 lo OR push_bit 16 (to32 b)))))"

definition ea_dp_ind_long_y :: "('a mach_scheme) hooks \<Rightarrow> u8 \<Rightarrow> ('a mach_scheme, u32) act" where
  "ea_dp_ind_long_y h d = bnd (ea_dp_ind_long h d) (\<lambda>b. bnd (cpu_get rY) (\<lambda>y. ret ((b + to32 y) AND 0xFFFFFF)))"

definition ea_sr_ind_y :: "('a mach_scheme) hooks \<Rightarrow> u8 \<Rightarrow> ('a mach_scheme, u32) act" where
  "ea_sr_ind_y h d = bnd (gets cpu) (\<lambda>c. bnd (read16_b0 h (ea_sr d c)) (\<lambda>p.
     bnd (cpu_get rY) (\<lambda>y. ret ((addr24 (rDB c) p + to32 y) AND 0xFFFFFF))))"

definition read16_dp :: "('a mach_scheme) hooks \<Rightarrow> u8 \<Rightarrow> ('a mach_scheme, u16) act" where
  "read16_dp h d = bnd (gets cpu) (\<lambda>c. bnd (read8 h (ea_dp d c)) (\<lambda>lo.
     bnd (read8 h (to32 (rDP c + to16 d + 1))) (\<lambda>hi. ret (word16 lo hi))))"

definition write16_dp :: "('a mach_scheme) hooks \<Rightarrow> u8 \<Rightarrow> u16 \<Rightarrow> ('a mach_scheme, unit) act" where
  "write16_dp h d v = bnd (gets cpu) (\<lambda>c. thn (write8 h (ea_dp d c) (to8 v))
     (write8 h (to32 (rDP c + to16 d + 1)) (to8 (drop_bit 8 v))))"

section \<open>Stack\<close>

definition s_down :: "cpu \<Rightarrow> cpu" where
  "s_down c = c\<lparr>rS := (if fl_e c \<noteq> 0 then 0x0100 OR ((rS c - 1) AND 0xFF) else rS c - 1)\<rparr>"

definition s_up :: "cpu \<Rightarrow> cpu" where
  "s_up c = c\<lparr>rS := (if fl_e c \<noteq> 0 then 0x0100 OR ((rS c + 1) AND 0xFF) else rS c + 1)\<rparr>"

definition push8 :: "('a mach_scheme) hooks \<Rightarrow> u8 \<Rightarrow> ('a mach_scheme, unit) act" where
  "push8 h v = thn (bnd (cpu_get rS) (\<lambda>p. write8 h (to32 p) v)) (cpu_do s_down)"

definition pull8 :: "('a mach_scheme) hooks \<Rightarrow> ('a mach_scheme, u8) act" where
  "pull8 h = thn (cpu_do s_up) (bnd (cpu_get rS) (\<lambda>p. read8 h (to32 p)))"

definition push16 :: "('a mach_scheme) hooks \<Rightarrow> u16 \<Rightarrow> ('a mach_scheme, unit) act" where
  "push16 h v = thn (push8 h (to8 (drop_bit 8 v))) (push8 h (to8 v))"

definition pull16 :: "('a mach_scheme) hooks \<Rightarrow> ('a mach_scheme, u16) act" where
  "pull16 h = bnd (pull8 h) (\<lambda>lo. bnd (pull8 h) (\<lambda>hi. ret (word16 lo hi)))"

definition set_pc :: "u16 \<Rightarrow> ('a mach_scheme, unit) act" where
  "set_pc v = cpu_do (\<lambda>c. c\<lparr>rPC := v\<rparr>)"

definition set_pb :: "u8 \<Rightarrow> ('a mach_scheme, unit) act" where
  "set_pb v = cpu_do (\<lambda>c. c\<lparr>rPB := v\<rparr>)"

definition op_rts :: "('a mach_scheme) hooks \<Rightarrow> ('a mach_scheme, unit) act" where
  "op_rts h = bnd (pull16 h) (\<lambda>v. set_pc (v + 1))"

definition op_rti :: "('a mach_scheme) hooks \<Rightarrow> bool \<Rightarrow> u32 \<Rightarrow> ('a mach_scheme, unit) act" where
  "op_rti h exec_hook at =
     (if \<not> exec_hook then die (Op_unsupported at 0x40)
      else bnd (pull8 h) (\<lambda>p. thn (cpu_do (set_p p))
             (bnd (pull16 h) (\<lambda>v. thn (set_pc v) (bnd (pull8 h) set_pb)))))"

definition op_rtl :: "('a mach_scheme) hooks \<Rightarrow> ('a mach_scheme, unit) act" where
  "op_rtl h = bnd (pull16 h) (\<lambda>v. thn (set_pc (v + 1)) (bnd (pull8 h) set_pb))"

section \<open>Accumulator\<close>

definition a8 :: "cpu \<Rightarrow> u8" where "a8 c = to8 (rA c)"
definition set_a8 :: "u8 \<Rightarrow> cpu \<Rightarrow> cpu" where "set_a8 v c = c\<lparr>rA := (rA c AND 0xFF00) OR to16 v\<rparr>"

definition lda8 :: "u8 \<Rightarrow> cpu \<Rightarrow> cpu" where "lda8 v c = set_nz8 v (set_a8 v c)"
definition lda16 :: "u16 \<Rightarrow> cpu \<Rightarrow> cpu" where "lda16 v c = set_nz16 v (c\<lparr>rA := v\<rparr>)"
definition ldx16 :: "u16 \<Rightarrow> cpu \<Rightarrow> cpu" where "ldx16 v c = set_nz16 v (c\<lparr>rX := v\<rparr>)"
definition ldy16 :: "u16 \<Rightarrow> cpu \<Rightarrow> cpu" where "ldy16 v c = set_nz16 v (c\<lparr>rY := v\<rparr>)"
definition ldx8 :: "u8 \<Rightarrow> cpu \<Rightarrow> cpu" where "ldx8 v c = set_nz8 v (c\<lparr>rX := to16 v\<rparr>)"
definition ldy8 :: "u8 \<Rightarrow> cpu \<Rightarrow> cpu" where "ldy8 v c = set_nz8 v (c\<lparr>rY := to16 v\<rparr>)"

definition ora8 :: "u8 \<Rightarrow> cpu \<Rightarrow> cpu" where
  "ora8 v c = (let c1 = set_a8 (a8 c OR v) c in set_nz8 (a8 c1) c1)"
definition and8 :: "u8 \<Rightarrow> cpu \<Rightarrow> cpu" where
  "and8 v c = (let c1 = set_a8 (a8 c AND v) c in set_nz8 (a8 c1) c1)"
definition eor8 :: "u8 \<Rightarrow> cpu \<Rightarrow> cpu" where
  "eor8 v c = (let c1 = set_a8 (a8 c XOR v) c in set_nz8 (a8 c1) c1)"
definition ora16 :: "u16 \<Rightarrow> cpu \<Rightarrow> cpu" where
  "ora16 v c = (let c1 = c\<lparr>rA := rA c OR v\<rparr> in set_nz16 (rA c1) c1)"
definition and16 :: "u16 \<Rightarrow> cpu \<Rightarrow> cpu" where
  "and16 v c = (let c1 = c\<lparr>rA := rA c AND v\<rparr> in set_nz16 (rA c1) c1)"
definition eor16 :: "u16 \<Rightarrow> cpu \<Rightarrow> cpu" where
  "eor16 v c = (let c1 = c\<lparr>rA := rA c XOR v\<rparr> in set_nz16 (rA c1) c1)"

definition bit8 :: "u8 \<Rightarrow> bool \<Rightarrow> cpu \<Rightarrow> cpu" where
  "bit8 v imm c =
     (let c1 = c\<lparr>fl_z := of_bool (a8 c AND v = 0)\<rparr> in
      if imm then c1 else c1\<lparr>fl_n := drop_bit 7 v, fl_v := drop_bit 6 v AND 1\<rparr>)"

definition bit16 :: "u16 \<Rightarrow> bool \<Rightarrow> cpu \<Rightarrow> cpu" where
  "bit16 v imm c =
     (let c1 = c\<lparr>fl_z := of_bool (rA c AND v = 0)\<rparr> in
      if imm then c1 else c1\<lparr>fl_n := to8 (drop_bit 15 v), fl_v := to8 (drop_bit 14 v AND 1)\<rparr>)"

section \<open>Read-modify-write values\<close>

definition dec16 :: "u16 \<Rightarrow> cpu \<Rightarrow> u16 \<times> cpu" where "dec16 v c = (v - 1, set_nz16 (v - 1) c)"
definition inc16 :: "u16 \<Rightarrow> cpu \<Rightarrow> u16 \<times> cpu" where "inc16 v c = (v + 1, set_nz16 (v + 1) c)"
definition inc8 :: "u8 \<Rightarrow> cpu \<Rightarrow> u8 \<times> cpu" where "inc8 v c = (v + 1, set_nz8 (v + 1) c)"
definition dec8 :: "u8 \<Rightarrow> cpu \<Rightarrow> u8 \<times> cpu" where "dec8 v c = (v - 1, set_nz8 (v - 1) c)"

definition asl8 :: "u8 \<Rightarrow> cpu \<Rightarrow> u8 \<times> cpu" where
  "asl8 v c = (let r = push_bit 1 v in (r, set_nz8 r (c\<lparr>fl_c := drop_bit 7 v\<rparr>)))"
definition lsr8 :: "u8 \<Rightarrow> cpu \<Rightarrow> u8 \<times> cpu" where
  "lsr8 v c = (let r = drop_bit 1 v in (r, set_nz8 r (c\<lparr>fl_c := v AND 1\<rparr>)))"
definition rol8 :: "u8 \<Rightarrow> cpu \<Rightarrow> u8 \<times> cpu" where
  "rol8 v c = (let r = push_bit 1 v OR fl_c c in (r, set_nz8 r (c\<lparr>fl_c := drop_bit 7 v\<rparr>)))"
definition ror8 :: "u8 \<Rightarrow> cpu \<Rightarrow> u8 \<times> cpu" where
  "ror8 v c = (let r = drop_bit 1 v OR push_bit 7 (fl_c c) in (r, set_nz8 r (c\<lparr>fl_c := v AND 1\<rparr>)))"
definition asl16 :: "u16 \<Rightarrow> cpu \<Rightarrow> u16 \<times> cpu" where
  "asl16 v c = (let r = push_bit 1 v in (r, set_nz16 r (c\<lparr>fl_c := to8 (drop_bit 15 v)\<rparr>)))"
definition lsr16 :: "u16 \<Rightarrow> cpu \<Rightarrow> u16 \<times> cpu" where
  "lsr16 v c = (let r = drop_bit 1 v in (r, set_nz16 r (c\<lparr>fl_c := to8 (v AND 1)\<rparr>)))"
definition rol16 :: "u16 \<Rightarrow> cpu \<Rightarrow> u16 \<times> cpu" where
  "rol16 v c = (let r = push_bit 1 v OR to16 (fl_c c) in (r, set_nz16 r (c\<lparr>fl_c := to8 (drop_bit 15 v)\<rparr>)))"
definition ror16 :: "u16 \<Rightarrow> cpu \<Rightarrow> u16 \<times> cpu" where
  "ror16 v c = (let r = drop_bit 1 v OR push_bit 15 (to16 (fl_c c)) in (r, set_nz16 r (c\<lparr>fl_c := to8 (v AND 1)\<rparr>)))"

definition tsb8 :: "u8 \<Rightarrow> cpu \<Rightarrow> u8 \<times> cpu" where
  "tsb8 v c = (v OR a8 c, c\<lparr>fl_z := of_bool (a8 c AND v = 0)\<rparr>)"
definition trb8 :: "u8 \<Rightarrow> cpu \<Rightarrow> u8 \<times> cpu" where
  "trb8 v c = (v AND NOT (a8 c), c\<lparr>fl_z := of_bool (a8 c AND v = 0)\<rparr>)"
definition tsb16 :: "u16 \<Rightarrow> cpu \<Rightarrow> u16 \<times> cpu" where
  "tsb16 v c = (v OR rA c, c\<lparr>fl_z := of_bool (rA c AND v = 0)\<rparr>)"
definition trb16 :: "u16 \<Rightarrow> cpu \<Rightarrow> u16 \<times> cpu" where
  "trb16 v c = (v AND NOT (rA c), c\<lparr>fl_z := of_bool (rA c AND v = 0)\<rparr>)"

section \<open>Index registers, block move\<close>

definition tax16 :: "cpu \<Rightarrow> cpu" where "tax16 c = set_nz16 (rA c) (c\<lparr>rX := rA c\<rparr>)"
definition tay16 :: "cpu \<Rightarrow> cpu" where "tay16 c = set_nz16 (rA c) (c\<lparr>rY := rA c\<rparr>)"
definition iny16 :: "cpu \<Rightarrow> cpu" where "iny16 c = set_nz16 (rY c + 1) (c\<lparr>rY := rY c + 1\<rparr>)"
definition inx16 :: "cpu \<Rightarrow> cpu" where "inx16 c = set_nz16 (rX c + 1) (c\<lparr>rX := rX c + 1\<rparr>)"
definition dex16 :: "cpu \<Rightarrow> cpu" where "dex16 c = set_nz16 (rX c - 1) (c\<lparr>rX := rX c - 1\<rparr>)"

text \<open>One byte of \<open>mvn16\<close>'s loop, and the loop: at most 65536 rounds, counted by \<open>A\<close>.\<close>

definition mvn_byte :: "('a mach_scheme) hooks \<Rightarrow> u8 \<Rightarrow> u8 \<Rightarrow> ('a mach_scheme, unit) act" where
  "mvn_byte h dst src = bnd (gets cpu) (\<lambda>c.
     bnd (read8 h (addr24 src (rX c))) (\<lambda>v. thn (write8 h (addr24 dst (rY c)) v)
       (cpu_do (\<lambda>c. c\<lparr>rX := rX c + 1, rY := rY c + 1, rA := rA c - 1\<rparr>))))"

fun mvn_loop ::
  "nat \<Rightarrow> ('a mach_scheme) hooks \<Rightarrow> ('a mach_scheme) tick_hook option \<Rightarrow> u32 \<Rightarrow> u8 \<Rightarrow> u8 \<Rightarrow> ('a mach_scheme, unit) act" where
  "mvn_loop 0 h tick at dst src = die Out_of_fuel"
| "mvn_loop (Suc fuel) h tick at dst src =
     thn (mvn_byte h dst src) (bnd (cpu_get rA) (\<lambda>a.
       if a = 0xFFFF then ret () else thn (ct_insn tick at 0x54 src) (mvn_loop fuel h tick at dst src)))"

definition mvn16 ::
  "nat \<Rightarrow> ('a mach_scheme) hooks \<Rightarrow> ('a mach_scheme) tick_hook option \<Rightarrow> u32 \<Rightarrow> u8 \<Rightarrow> u8 \<Rightarrow> ('a mach_scheme, unit) act" where
  "mvn16 fuel h tick at dst src = thn (cpu_do (\<lambda>c. c\<lparr>rDB := dst\<rparr>)) (mvn_loop fuel h tick at dst src)"

definition op_tdc :: "cpu \<Rightarrow> cpu" where "op_tdc c = set_nz16 (rDP c) (c\<lparr>rA := rDP c\<rparr>)"

definition asl_a8 :: "cpu \<Rightarrow> cpu" where
  "asl_a8 c = (let v = a8 c; c1 = c\<lparr>fl_c := drop_bit 7 v\<rparr>; r = push_bit 1 v in set_nz8 r (set_a8 r c1))"
definition asl_a16 :: "cpu \<Rightarrow> cpu" where
  "asl_a16 c = (let c1 = c\<lparr>fl_c := to8 (drop_bit 15 (rA c)), rA := push_bit 1 (rA c)\<rparr> in set_nz16 (rA c1) c1)"
definition lsr_a8 :: "cpu \<Rightarrow> cpu" where
  "lsr_a8 c = (let v = a8 c; c1 = c\<lparr>fl_c := v AND 1\<rparr>; r = drop_bit 1 v in set_nz8 r (set_a8 r c1))"
definition lsr_a16 :: "cpu \<Rightarrow> cpu" where
  "lsr_a16 c = (let c1 = c\<lparr>fl_c := to8 (rA c AND 1), rA := drop_bit 1 (rA c)\<rparr> in set_nz16 (rA c1) c1)"

section \<open>Arithmetic\<close>

definition adc8 :: "u8 \<Rightarrow> u32 \<Rightarrow> cpu \<Rightarrow> fatal + cpu" where
  "adc8 b at c =
     (if fl_d c \<noteq> 0 then Inl (Decimal_adc at)
      else let a = a8 c; r = to32 a + to32 b + to32 (fl_c c);
               c1 = c\<lparr>fl_c := of_bool (r > 0xFF),
                      fl_v := to8 (drop_bit 7 (NOT (to32 a XOR to32 b) AND (to32 a XOR r)) AND 1)\<rparr>
           in Inr (set_nz8 (to8 r) (set_a8 (to8 r) c1)))"

definition adc16 :: "u16 \<Rightarrow> u32 \<Rightarrow> cpu \<Rightarrow> fatal + cpu" where
  "adc16 b at c =
     (if fl_d c \<noteq> 0 then Inl (Decimal_adc at)
      else let a = rA c; r = to32 a + to32 b + to32 (fl_c c);
               c1 = c\<lparr>fl_c := of_bool (r > 0xFFFF),
                      fl_v := to8 (drop_bit 15 (NOT (to32 a XOR to32 b) AND (to32 a XOR r)) AND 1),
                      rA := to16 r\<rparr>
           in Inr (set_nz16 (rA c1) c1))"

definition sbc8 :: "u8 \<Rightarrow> u32 \<Rightarrow> cpu \<Rightarrow> fatal + cpu" where
  "sbc8 b at c = (if fl_d c \<noteq> 0 then Inl (Decimal_sbc at) else adc8 (NOT b) at c)"

definition sbc16 :: "u16 \<Rightarrow> u32 \<Rightarrow> cpu \<Rightarrow> fatal + cpu" where
  "sbc16 b at c = (if fl_d c \<noteq> 0 then Inl (Decimal_sbc at) else adc16 (NOT b) at c)"

definition cmp8 :: "u8 \<Rightarrow> u8 \<Rightarrow> cpu \<Rightarrow> cpu" where
  "cmp8 r b c = set_nz8 (r - b) (c\<lparr>fl_c := of_bool (r \<ge> b)\<rparr>)"

definition cmp16 :: "u16 \<Rightarrow> u16 \<Rightarrow> cpu \<Rightarrow> cpu" where
  "cmp16 r b c = set_nz16 (r - b) (c\<lparr>fl_c := of_bool (r \<ge> b)\<rparr>)"

end
