(* ===== verification/Ct_Interp.thy ===== *)
theory Ct_Interp
  imports Ct_Ops
begin

text \<open>
  \<open>runtime/interp.c\<close> and \<open>runtime/interp.h\<close>: the 65816 interpreter, strict
  (\<open>interp_call\<close>) and system (\<open>interp_step\<close>). The state extends the machine with the
  interpreter's statics; the shadow call stack is a list, newest frame first, whose length is
  the C \<open>depth\<close>. The extern and jump tables of \<open>runtime/func_table.h\<close> are generated per game
  and passed as a record. The C \<open>switch\<close> of \<open>step\<close> is cut into the groups its comments name;
  each group is a function from the opcode to an optional action.
\<close>

section \<open>State\<close>

record shadow_frame =
  sf_site :: u32
  sf_ret :: u32
  sf_long :: bool

record interp_state = mach +
  sys :: bool
  waiting :: bool
  shadow :: "shadow_frame list"
  interp_budget :: int
  last_op :: u8

record 's ct_extern =
  ext_addr :: u32
  ext_kind :: nat
  ext_hook :: "('s, unit) act"

record 's interp_env =
  ct_externs :: "'s ct_extern list"
  ct_jumptables :: "(u32 \<times> u16) list"

abbreviation "depth s \<equiv> length (shadow s)"

section \<open>Fetches, operands\<close>

record EA =
  ea_a :: u32
  ea_bank0 :: bool

definition set_fetch :: "u8 \<Rightarrow> ('a bus_state_scheme, unit) act" where
  "set_fetch v = modify (\<lambda>s. s\<lparr>ct_bus_fetch := v\<rparr>)"

definition fetch8 :: "('a mach_scheme) hooks \<Rightarrow> ('a mach_scheme, u8) act" where
  "fetch8 h =
     thn (set_fetch (to8 CT_BUS_FETCH)) (bnd (gets cpu) (\<lambda>c.
     bnd (read8 h (addr24 (rPB c) (rPC c))) (\<lambda>v.
     thn (set_fetch 0) (thn (cpu_do (\<lambda>c. c\<lparr>rPC := rPC c + 1\<rparr>)) (ret v)))))"

definition fetch16 :: "('a mach_scheme) hooks \<Rightarrow> ('a mach_scheme, u16) act" where
  "fetch16 h = bnd (fetch8 h) (\<lambda>lo. bnd (fetch8 h) (\<lambda>hi. ret (word16 lo hi)))"

definition fetch24 :: "('a mach_scheme) hooks \<Rightarrow> ('a mach_scheme, u32) act" where
  "fetch24 h = bnd (fetch16 h) (\<lambda>lo. bnd (fetch8 h) (\<lambda>b. ret (addr24 b lo)))"

definition next_addr :: "EA \<Rightarrow> u32" where
  "next_addr e = (if ea_bank0 e then to32 (to16 (ea_a e + 1)) else (ea_a e + 1) AND 0xFFFFFF)"

definition rd :: "('a mach_scheme) hooks \<Rightarrow> EA \<Rightarrow> bool \<Rightarrow> ('a mach_scheme, u16) act" where
  "rd h e wide = bnd (read8 h (ea_a e)) (\<lambda>lo.
     if wide then bnd (read8 h (next_addr e)) (\<lambda>hi. ret (word16 lo hi)) else ret (to16 lo))"

definition wr :: "('a mach_scheme) hooks \<Rightarrow> EA \<Rightarrow> bool \<Rightarrow> u16 \<Rightarrow> ('a mach_scheme, unit) act" where
  "wr h e wide v = thn (write8 h (ea_a e) (to8 v))
     (whenM wide (write8 h (next_addr e) (to8 (drop_bit 8 v))))"

definition wr_rmw :: "('a mach_scheme) hooks \<Rightarrow> EA \<Rightarrow> bool \<Rightarrow> u16 \<Rightarrow> ('a mach_scheme, unit) act" where
  "wr_rmw h e wide v = thn (whenM wide (write8 h (next_addr e) (to8 (drop_bit 8 v))))
     (write8 h (ea_a e) (to8 v))"

definition rd_bank0_16 :: "('a mach_scheme) hooks \<Rightarrow> u16 \<Rightarrow> ('a mach_scheme, u16) act" where
  "rd_bank0_16 h a = bnd (read8 h (to32 a)) (\<lambda>lo. bnd (read8 h (to32 (a + 1))) (\<lambda>hi. ret (word16 lo hi)))"

definition rd_bank0_24 :: "('a mach_scheme) hooks \<Rightarrow> u16 \<Rightarrow> ('a mach_scheme, u32) act" where
  "rd_bank0_24 h a = bnd (rd_bank0_16 h a) (\<lambda>lo. bnd (read8 h (to32 (a + 2))) (\<lambda>b. ret (addr24 b lo)))"

section \<open>Externs, jump tables (strict mode)\<close>

definition extern_hook ::
  "('a interp_state_scheme) interp_env \<Rightarrow> u32 \<Rightarrow> nat
   \<Rightarrow> ('a interp_state_scheme, ('a interp_state_scheme, unit) act option) act" where
  "extern_hook env addr kind = bnd (gets sys) (\<lambda>y.
     if y then ret None
     else case find (\<lambda>e. ext_addr e = addr) (ct_externs env) of
            None \<Rightarrow> ret None
          | Some e \<Rightarrow> if ext_kind e \<noteq> kind then die (Wrong_return_kind addr) else ret (Some (ext_hook e)))"

definition table_index :: "('a interp_state_scheme) interp_env \<Rightarrow> u32 \<Rightarrow> ('a interp_state_scheme, unit) act" where
  "table_index env at = bnd (gets sys) (\<lambda>y. bnd (cpu_get rX) (\<lambda>x.
     if y then ret ()
     else case find (\<lambda>(site, _). site = at) (ct_jumptables env) of
            None \<Rightarrow> ret ()
          | Some (_, count) \<Rightarrow>
              if x AND 1 \<noteq> 0 \<or> to32 x \<ge> 2 * to32 count then die (Jump_table_range at x) else ret ()))"

section \<open>Flags, stack\<close>

definition nz :: "u16 \<Rightarrow> bool \<Rightarrow> cpu \<Rightarrow> cpu" where
  "nz v wide c =
     (if wide then c\<lparr>fl_n := to8 (drop_bit 15 v), fl_z := of_bool (v = 0)\<rparr>
      else c\<lparr>fl_n := to8 (drop_bit 7 v AND 1), fl_z := of_bool (v AND 0xFF = 0)\<rparr>)"

definition pack_p :: "cpu \<Rightarrow> u8" where
  "pack_p c = to8 (push_bit 7 (to32 (fl_n c)) OR push_bit 6 (to32 (fl_v c)) OR push_bit 5 (to32 (fl_m c)) OR
     push_bit 4 (to32 (fl_x c)) OR push_bit 3 (to32 (fl_d c)) OR
     push_bit 2 (to32 (fl_i c)) OR push_bit 1 (to32 (fl_z c)) OR to32 (fl_c c))"

definition unpack_p :: "u8 \<Rightarrow> cpu \<Rightarrow> cpu" where
  "unpack_p p c =
     (let c1 = c\<lparr>fl_n := drop_bit 7 p AND 1, fl_v := drop_bit 6 p AND 1, fl_m := drop_bit 5 p AND 1,
                 fl_x := drop_bit 4 p AND 1, fl_d := drop_bit 3 p AND 1, fl_i := drop_bit 2 p AND 1,
                 fl_z := drop_bit 1 p AND 1, fl_c := p AND 1\<rparr>;
          c2 = (if fl_e c1 \<noteq> 0 then c1\<lparr>fl_m := 1, fl_x := 1\<rparr> else c1)
      in if fl_x c2 \<noteq> 0 then c2\<lparr>rX := rX c2 AND 0xFF, rY := rY c2 AND 0xFF\<rparr> else c2)"

definition page1 :: "cpu \<Rightarrow> cpu" where
  "page1 c = (if fl_e c \<noteq> 0 then c\<lparr>rS := 0x0100 OR (rS c AND 0xFF)\<rparr> else c)"

definition push :: "('a mach_scheme) hooks \<Rightarrow> u8 \<Rightarrow> ('a mach_scheme, unit) act" where
  "push h v = thn (bnd (cpu_get rS) (\<lambda>p. write8 h (to32 p) v))
     (cpu_do (\<lambda>c. page1 (c\<lparr>rS := rS c - 1\<rparr>)))"

definition pull :: "('a mach_scheme) hooks \<Rightarrow> ('a mach_scheme, u8) act" where
  "pull h = thn (cpu_do (\<lambda>c. page1 (c\<lparr>rS := rS c + 1\<rparr>))) (bnd (cpu_get rS) (\<lambda>p. read8 h (to32 p)))"

definition pushw :: "('a mach_scheme) hooks \<Rightarrow> u16 \<Rightarrow> ('a mach_scheme, unit) act" where
  "pushw h v = thn (push h (to8 (drop_bit 8 v))) (push h (to8 v))"

definition pullw :: "('a mach_scheme) hooks \<Rightarrow> ('a mach_scheme, u16) act" where
  "pullw h = bnd (pull h) (\<lambda>lo. bnd (pull h) (\<lambda>hi. ret (word16 lo hi)))"

section \<open>Addressing\<close>

datatype (plugins only: code size) mode =
  M_IMM | M_DP | M_DPX | M_DPY | M_DPI | M_DPXI | M_DPIY | M_DPIL | M_DPILY
| M_SR | M_SRIY | M_ABS | M_ABSX | M_ABSY | M_LONG | M_LONGX

definition bank0 :: "u32 \<Rightarrow> EA" where "bank0 a = \<lparr>ea_a = a AND 0xFFFF, ea_bank0 = True\<rparr>"
definition full :: "u32 \<Rightarrow> EA" where "full a = \<lparr>ea_a = a AND 0xFFFFFF, ea_bank0 = False\<rparr>"

definition index_cross :: "u32 \<Rightarrow> u16 \<Rightarrow> ('a cyc_state_scheme, EA) act" where
  "index_cross b i = thn (modify (\<lambda>s. s\<lparr>ct_cyc_cross := (b XOR (b + to32 i)) AND 0xFF00 \<noteq> 0\<rparr>))
     (ret (full (b + to32 i)))"

fun ea :: "('a mach_scheme) hooks \<Rightarrow> mode \<Rightarrow> ('a mach_scheme, EA) act" where
  "ea h M_DP = bnd (gets cpu) (\<lambda>c. bnd (fetch8 h) (\<lambda>d. ret (bank0 (to32 (rDP c) + to32 d))))"
| "ea h M_DPX = bnd (gets cpu) (\<lambda>c. bnd (fetch8 h) (\<lambda>d. ret (bank0 (to32 (rDP c) + to32 d + to32 (rX c)))))"
| "ea h M_DPY = bnd (gets cpu) (\<lambda>c. bnd (fetch8 h) (\<lambda>d. ret (bank0 (to32 (rDP c) + to32 d + to32 (rY c)))))"
| "ea h M_DPI = bnd (gets cpu) (\<lambda>c. bnd (fetch8 h) (\<lambda>d.
     bnd (rd_bank0_16 h (rDP c + to16 d)) (\<lambda>p. ret (full (addr24 (rDB c) p)))))"
| "ea h M_DPXI = bnd (gets cpu) (\<lambda>c. bnd (fetch8 h) (\<lambda>d.
     bnd (rd_bank0_16 h (rDP c + to16 d + rX c)) (\<lambda>p. ret (full (addr24 (rDB c) p)))))"
| "ea h M_DPIY = bnd (gets cpu) (\<lambda>c. bnd (fetch8 h) (\<lambda>d.
     bnd (rd_bank0_16 h (rDP c + to16 d)) (\<lambda>p. index_cross (addr24 (rDB c) p) (rY c))))"
| "ea h M_DPIL = bnd (gets cpu) (\<lambda>c. bnd (fetch8 h) (\<lambda>d.
     bnd (rd_bank0_24 h (rDP c + to16 d)) (\<lambda>p. ret (full p))))"
| "ea h M_DPILY = bnd (gets cpu) (\<lambda>c. bnd (fetch8 h) (\<lambda>d.
     bnd (rd_bank0_24 h (rDP c + to16 d)) (\<lambda>p. ret (full (p + to32 (rY c))))))"
| "ea h M_SR = bnd (gets cpu) (\<lambda>c. bnd (fetch8 h) (\<lambda>d. ret (bank0 (to32 (rS c) + to32 d))))"
| "ea h M_SRIY = bnd (gets cpu) (\<lambda>c. bnd (fetch8 h) (\<lambda>d.
     bnd (rd_bank0_16 h (rS c + to16 d)) (\<lambda>p. ret (full (addr24 (rDB c) p + to32 (rY c))))))"
| "ea h M_ABS = bnd (gets cpu) (\<lambda>c. bnd (fetch16 h) (\<lambda>a. ret (full (addr24 (rDB c) a))))"
| "ea h M_ABSX = bnd (gets cpu) (\<lambda>c. bnd (fetch16 h) (\<lambda>a. index_cross (addr24 (rDB c) a) (rX c)))"
| "ea h M_ABSY = bnd (gets cpu) (\<lambda>c. bnd (fetch16 h) (\<lambda>a. index_cross (addr24 (rDB c) a) (rY c)))"
| "ea h M_LONG = bnd (fetch24 h) (\<lambda>a. ret (full a))"
| "ea h M_LONGX = bnd (gets cpu) (\<lambda>c. bnd (fetch24 h) (\<lambda>a. ret (full (a + to32 (rX c)))))"
| "ea h M_IMM = die Bad_mode"

definition operand :: "('a mach_scheme) hooks \<Rightarrow> mode \<Rightarrow> bool \<Rightarrow> ('a mach_scheme, u16) act" where
  "operand h md wide =
     (if md = M_IMM then (if wide then fetch16 h else bnd (fetch8 h) (\<lambda>v. ret (to16 v)))
      else bnd (ea h md) (\<lambda>e. rd h e wide))"

section \<open>Accumulator\<close>

definition get_a :: "cpu \<Rightarrow> u16" where
  "get_a c = (if fl_m c \<noteq> 0 then rA c AND 0xFF else rA c)"

definition set_a :: "u16 \<Rightarrow> cpu \<Rightarrow> cpu" where
  "set_a v c = (if fl_m c \<noteq> 0 then c\<lparr>rA := (rA c AND 0xFF00) OR (v AND 0xFF)\<rparr> else c\<lparr>rA := v\<rparr>)"

definition add :: "u16 \<Rightarrow> u16 \<Rightarrow> bool \<Rightarrow> u32 \<Rightarrow> cpu \<Rightarrow> fatal + u16 \<times> cpu" where
  "add a b wide at c =
     (if fl_d c \<noteq> 0 then Inl (Interp_decimal at)
      else let mask = (if wide then 0xFFFF else 0xFF :: u32); sign = (if wide then 0x8000 else 0x80 :: u32);
               r = to32 a + to32 b + to32 (fl_c c);
               c1 = c\<lparr>fl_c := of_bool (r > mask),
                      fl_v := of_bool ((to32 a XOR r) AND (to32 b XOR r) AND sign \<noteq> 0)\<rparr>;
               r1 = to16 (r AND mask)
           in Inr (r1, nz r1 wide c1))"

definition compare :: "u16 \<Rightarrow> u16 \<Rightarrow> bool \<Rightarrow> cpu \<Rightarrow> cpu" where
  "compare r v wide c =
     (let mask = (if wide then 0xFFFF else 0xFF :: u16); r1 = r AND mask; v1 = v AND mask
      in nz (r1 - v1) wide (c\<lparr>fl_c := of_bool (r1 \<ge> v1)\<rparr>))"

section \<open>Read-modify-write\<close>

datatype (plugins only: code size) rmw_op = RM_ASL | RM_ROL | RM_LSR | RM_ROR | RM_INC | RM_DEC

definition rmw :: "rmw_op \<Rightarrow> u16 \<Rightarrow> bool \<Rightarrow> cpu \<Rightarrow> u16 \<times> cpu" where
  "rmw op v wide c =
     (let mask = (if wide then 0xFFFF else 0xFF :: u16); top = (if wide then 0x8000 else 0x80 :: u16);
          (r, c1) = (case op of
             RM_ASL \<Rightarrow> (push_bit 1 v, c\<lparr>fl_c := of_bool (v AND top \<noteq> 0)\<rparr>)
           | RM_ROL \<Rightarrow> (push_bit 1 v OR to16 (fl_c c), c\<lparr>fl_c := of_bool (v AND top \<noteq> 0)\<rparr>)
           | RM_LSR \<Rightarrow> (drop_bit 1 v, c\<lparr>fl_c := to8 (v AND 1)\<rparr>)
           | RM_ROR \<Rightarrow> (drop_bit 1 v OR (if fl_c c \<noteq> 0 then top else 0), c\<lparr>fl_c := to8 (v AND 1)\<rparr>)
           | RM_INC \<Rightarrow> (v + 1, c)
           | RM_DEC \<Rightarrow> (v - 1, c));
          r1 = r AND mask
      in (r1, nz r1 wide c1))"

text \<open>Run a function of the registers that also gives a value.\<close>

definition cpu_val :: "(cpu \<Rightarrow> 'b \<times> cpu) \<Rightarrow> ('a mach_scheme, 'b) act" where
  "cpu_val f = (\<lambda>s. let (v, c) = f (cpu s) in Inr (v, s\<lparr>cpu := c\<rparr>))"

definition cpu_try :: "(cpu \<Rightarrow> fatal + 'b \<times> cpu) \<Rightarrow> ('a mach_scheme, 'b) act" where
  "cpu_try f = (\<lambda>s. case f (cpu s) of Inl e \<Rightarrow> Inl e | Inr (v, c) \<Rightarrow> Inr (v, s\<lparr>cpu := c\<rparr>))"

definition rmw_mem :: "('a mach_scheme) hooks \<Rightarrow> rmw_op \<Rightarrow> mode \<Rightarrow> ('a mach_scheme, unit) act" where
  "rmw_mem h op md = bnd (cpu_get (\<lambda>c. fl_m c = 0)) (\<lambda>wide. bnd (ea h md) (\<lambda>e.
     bnd (rd h e wide) (\<lambda>v. bnd (cpu_val (rmw op v wide)) (\<lambda>r. wr_rmw h e wide r))))"

definition rmw_acc :: "rmw_op \<Rightarrow> bool \<Rightarrow> cpu \<Rightarrow> cpu" where
  "rmw_acc op wide c = (let (r, c1) = rmw op (get_a c) wide c in set_a r c1)"

section \<open>Branches, block move\<close>

definition loop_tick :: "u32 \<Rightarrow> u16 \<Rightarrow> ('a interp_state_scheme, unit) act" where
  "loop_tick at new_pc s =
     (if new_pc > to16 at then Inr ((), s)
      else if interp_budget s \<noteq> 0
      then (let s1 = s\<lparr>interp_budget := interp_budget s - 1\<rparr> in
            if interp_budget s1 = 0 then Inl (Step_budget at) else Inr ((), s1))
      else Inr ((), s))"

definition add_pc :: "u16 \<Rightarrow> u32 \<Rightarrow> ('a interp_state_scheme, unit) act" where
  "add_pc off at = thn (cpu_do (\<lambda>c. c\<lparr>rPC := rPC c + off\<rparr>)) (bnd (cpu_get rPC) (loop_tick at))"

definition branch :: "('a interp_state_scheme) hooks \<Rightarrow> u32 \<Rightarrow> bool \<Rightarrow> ('a interp_state_scheme, unit) act" where
  "branch h at cnd = bnd (fetch8 h) (\<lambda>off.
     whenM cnd (thn (modify (\<lambda>s. s\<lparr>ct_cyc_taken := True\<rparr>)) (add_pc (scast off) at)))"

definition block_move :: "('a mach_scheme) hooks \<Rightarrow> u32 \<Rightarrow> u16 \<Rightarrow> ('a mach_scheme, unit) act" where
  "block_move h at stp =
     bnd (fetch8 h) (\<lambda>dst. bnd (fetch8 h) (\<lambda>src.
     thn (cpu_do (\<lambda>c. c\<lparr>rDB := dst\<rparr>)) (bnd (gets cpu) (\<lambda>c.
     bnd (read8 h (addr24 src (rX c))) (\<lambda>v. thn (write8 h (addr24 dst (rY c)) v)
     (cpu_do (\<lambda>c.
        let c1 = c\<lparr>rX := rX c + stp, rY := rY c + stp\<rparr>;
            c2 = (if fl_x c1 \<noteq> 0 then c1\<lparr>rX := rX c1 AND 0xFF, rY := rY c1 AND 0xFF\<rparr> else c1);
            c3 = c2\<lparr>rA := rA c2 - 1\<rparr>
        in if rA c3 \<noteq> 0xFFFF then c3\<lparr>rPC := to16 at\<rparr> else c3)))))))"

section \<open>ALU group\<close>

definition alu_columns :: "(nat \<times> mode) list" where
  "alu_columns =
     [(0x01, M_DPXI), (0x03, M_SR), (0x05, M_DP), (0x07, M_DPIL), (0x09, M_IMM), (0x0D, M_ABS),
      (0x0F, M_LONG), (0x11, M_DPIY), (0x12, M_DPI), (0x13, M_SRIY), (0x15, M_DPX), (0x17, M_DPILY),
      (0x19, M_ABSY), (0x1D, M_ABSX), (0x1F, M_LONGX)]"

definition alu_mode :: "u8 \<Rightarrow> mode option" where
  "alu_mode op =
     (case map_of alu_columns (unat (op AND 0x1F)) of
        None \<Rightarrow> None
      | Some md \<Rightarrow> if op AND 0x1F = 0x09 \<and> op = 0x89 then None else Some md)"

definition alu_op :: "('a mach_scheme) hooks \<Rightarrow> u8 \<Rightarrow> mode \<Rightarrow> u32 \<Rightarrow> ('a mach_scheme, unit) act" where
  "alu_op h op md at =
     bnd (cpu_get (\<lambda>c. fl_m c = 0)) (\<lambda>wide.
     if drop_bit 5 op = 4 then
       (if md = M_IMM then die (Sta_immediate at)
        else bnd (ea h md) (\<lambda>e. bnd (cpu_get get_a) (wr h e wide)))
     else bnd (operand h md wide) (\<lambda>v. bnd (cpu_get get_a) (\<lambda>a.
       if drop_bit 5 op = 0 then cpu_do (\<lambda>c. set_a (a OR v) (nz (a OR v) wide c))
       else if drop_bit 5 op = 1 then cpu_do (\<lambda>c. set_a (a AND v) (nz (a AND v) wide c))
       else if drop_bit 5 op = 2 then cpu_do (\<lambda>c. set_a (a XOR v) (nz (a XOR v) wide c))
       else if drop_bit 5 op = 3 then bnd (cpu_try (add a v wide at)) (\<lambda>r. cpu_do (set_a r))
       else if drop_bit 5 op = 5 then cpu_do (\<lambda>c. set_a v (nz v wide c))
       else if drop_bit 5 op = 6 then cpu_do (compare a v wide)
       else bnd (cpu_try (add a (NOT v AND (if wide then 0xFFFF else 0xFF)) wide at)) (\<lambda>r. cpu_do (set_a r)))))"

definition bit_test :: "('a mach_scheme) hooks \<Rightarrow> mode \<Rightarrow> ('a mach_scheme, unit) act" where
  "bit_test h md =
     bnd (cpu_get (\<lambda>c. fl_m c = 0)) (\<lambda>wide. bnd (operand h md wide) (\<lambda>v. cpu_do (\<lambda>c.
       let c1 = c\<lparr>fl_z := of_bool (get_a c AND v = 0)\<rparr> in
       if md \<noteq> M_IMM
       then c1\<lparr>fl_n := to8 (drop_bit (if wide then 15 else 7) v AND 1),
               fl_v := to8 (drop_bit (if wide then 14 else 6) v AND 1)\<rparr>
       else c1)))"

definition idx :: "cpu \<Rightarrow> u16 \<Rightarrow> u16" where
  "idx c v = (if fl_x c \<noteq> 0 then v AND 0xFF else v)"

text \<open>\<open>load_index\<close> with the register it points to as a field update.\<close>

definition load_index ::
  "('a mach_scheme) hooks \<Rightarrow> (u16 \<Rightarrow> cpu \<Rightarrow> cpu) \<Rightarrow> mode \<Rightarrow> ('a mach_scheme, unit) act" where
  "load_index h r md = bnd (cpu_get (\<lambda>c. fl_x c = 0)) (\<lambda>wide. bnd (operand h md wide) (\<lambda>v.
     cpu_do (\<lambda>c. nz v wide (r v c))))"

abbreviation set_x :: "u16 \<Rightarrow> cpu \<Rightarrow> cpu" where "set_x v c \<equiv> c\<lparr>rX := v\<rparr>"
abbreviation set_y :: "u16 \<Rightarrow> cpu \<Rightarrow> cpu" where "set_y v c \<equiv> c\<lparr>rY := v\<rparr>"

section \<open>The switch of \<open>step\<close>, group by group\<close>

definition rmw_acc_ops :: "(nat \<times> rmw_op) list" where
  "rmw_acc_ops = [(0x0A, RM_ASL), (0x2A, RM_ROL), (0x4A, RM_LSR), (0x6A, RM_ROR), (0x1A, RM_INC), (0x3A, RM_DEC)]"

definition rmw_mem_ops :: "(nat \<times> rmw_op \<times> mode) list" where
  "rmw_mem_ops =
     [(0x06, RM_ASL, M_DP), (0x0E, RM_ASL, M_ABS), (0x16, RM_ASL, M_DPX), (0x1E, RM_ASL, M_ABSX),
      (0x26, RM_ROL, M_DP), (0x2E, RM_ROL, M_ABS), (0x36, RM_ROL, M_DPX), (0x3E, RM_ROL, M_ABSX),
      (0x46, RM_LSR, M_DP), (0x4E, RM_LSR, M_ABS), (0x56, RM_LSR, M_DPX), (0x5E, RM_LSR, M_ABSX),
      (0x66, RM_ROR, M_DP), (0x6E, RM_ROR, M_ABS), (0x76, RM_ROR, M_DPX), (0x7E, RM_ROR, M_ABSX),
      (0xE6, RM_INC, M_DP), (0xEE, RM_INC, M_ABS), (0xF6, RM_INC, M_DPX), (0xFE, RM_INC, M_ABSX),
      (0xC6, RM_DEC, M_DP), (0xCE, RM_DEC, M_ABS), (0xD6, RM_DEC, M_DPX), (0xDE, RM_DEC, M_ABSX)]"

definition step_rmw :: "('a mach_scheme) hooks \<Rightarrow> u8 \<Rightarrow> bool \<Rightarrow> ('a mach_scheme, unit) act option" where
  "step_rmw h op m16 =
     (case map_of rmw_acc_ops (unat op) of
        Some r \<Rightarrow> Some (cpu_do (rmw_acc r m16))
      | None \<Rightarrow> map_option (\<lambda>(r, md). rmw_mem h r md) (map_of rmw_mem_ops (unat op)))"

definition step_tsb :: "('a mach_scheme) hooks \<Rightarrow> u8 \<Rightarrow> bool \<Rightarrow> ('a mach_scheme, unit) act option" where
  "step_tsb h op m16 =
     (if op = 0x04 \<or> op = 0x0C \<or> op = 0x14 \<or> op = 0x1C
      then Some (bnd (ea h (if op AND 0x08 \<noteq> 0 then M_ABS else M_DP)) (\<lambda>e.
             bnd (rd h e m16) (\<lambda>v. bnd (cpu_get get_a) (\<lambda>a.
             thn (cpu_do (\<lambda>c. c\<lparr>fl_z := of_bool (a AND v = 0)\<rparr>))
                 (wr_rmw h e m16 (if op AND 0x10 \<noteq> 0 then v AND NOT a else v OR a))))))
      else None)"

definition bit_ops :: "(nat \<times> mode) list" where
  "bit_ops = [(0x89, M_IMM), (0x24, M_DP), (0x2C, M_ABS), (0x34, M_DPX), (0x3C, M_ABSX)]"

definition step_bit :: "('a mach_scheme) hooks \<Rightarrow> u8 \<Rightarrow> ('a mach_scheme, unit) act option" where
  "step_bit h op = map_option (bit_test h) (map_of bit_ops (unat op))"

definition ldx_ops :: "(nat \<times> mode) list" where
  "ldx_ops = [(0xA2, M_IMM), (0xA6, M_DP), (0xAE, M_ABS), (0xB6, M_DPY), (0xBE, M_ABSY)]"
definition ldy_ops :: "(nat \<times> mode) list" where
  "ldy_ops = [(0xA0, M_IMM), (0xA4, M_DP), (0xAC, M_ABS), (0xB4, M_DPX), (0xBC, M_ABSX)]"
definition stx_ops :: "(nat \<times> mode) list" where
  "stx_ops = [(0x86, M_DP), (0x8E, M_ABS), (0x96, M_DPY)]"
definition sty_ops :: "(nat \<times> mode) list" where
  "sty_ops = [(0x84, M_DP), (0x8C, M_ABS), (0x94, M_DPX)]"
definition stz_ops :: "(nat \<times> mode) list" where
  "stz_ops = [(0x64, M_DP), (0x74, M_DPX), (0x9C, M_ABS), (0x9E, M_ABSX)]"
definition cpx_ops :: "(nat \<times> mode) list" where
  "cpx_ops = [(0xE0, M_IMM), (0xE4, M_DP), (0xEC, M_ABS)]"
definition cpy_ops :: "(nat \<times> mode) list" where
  "cpy_ops = [(0xC0, M_IMM), (0xC4, M_DP), (0xCC, M_ABS)]"

definition store_reg :: "('a mach_scheme) hooks \<Rightarrow> (cpu \<Rightarrow> u16) \<Rightarrow> bool \<Rightarrow> mode \<Rightarrow> ('a mach_scheme, unit) act" where
  "store_reg h f wide md = bnd (ea h md) (\<lambda>e. bnd (cpu_get f) (wr h e wide))"

definition compare_reg :: "('a mach_scheme) hooks \<Rightarrow> (cpu \<Rightarrow> u16) \<Rightarrow> bool \<Rightarrow> mode \<Rightarrow> ('a mach_scheme, unit) act" where
  "compare_reg h f wide md = bnd (operand h md wide) (\<lambda>v. cpu_do (\<lambda>c. compare (f c) v wide c))"

text \<open>The first alternative that knows the opcode.\<close>

fun first_some :: "'b option list \<Rightarrow> 'b option" where
  "first_some [] = None"
| "first_some (Some a # xs) = Some a"
| "first_some (None # xs) = first_some xs"

definition step_index :: "('a mach_scheme) hooks \<Rightarrow> u8 \<Rightarrow> bool \<Rightarrow> bool \<Rightarrow> ('a mach_scheme, unit) act option" where
  "step_index h op m16 x16 =
     (let k = unat op in first_some
       [map_option (load_index h set_x) (map_of ldx_ops k),
        map_option (load_index h set_y) (map_of ldy_ops k),
        map_option (store_reg h rX x16) (map_of stx_ops k),
        map_option (store_reg h rY x16) (map_of sty_ops k),
        map_option (store_reg h (\<lambda>_. 0) m16) (map_of stz_ops k),
        map_option (compare_reg h rX x16) (map_of cpx_ops k),
        map_option (compare_reg h rY x16) (map_of cpy_ops k)])"

text \<open>The groups that change registers only.\<close>

definition step_count :: "u8 \<Rightarrow> bool \<Rightarrow> (cpu \<Rightarrow> cpu) option" where
  "step_count op x16 =
     (if op = 0xE8 then Some (\<lambda>c. let v = idx c (rX c + 1) in nz v x16 (set_x v c))
      else if op = 0xC8 then Some (\<lambda>c. let v = idx c (rY c + 1) in nz v x16 (set_y v c))
      else if op = 0xCA then Some (\<lambda>c. let v = idx c (rX c - 1) in nz v x16 (set_x v c))
      else if op = 0x88 then Some (\<lambda>c. let v = idx c (rY c - 1) in nz v x16 (set_y v c))
      else None)"

definition step_transfer :: "u8 \<Rightarrow> bool \<Rightarrow> bool \<Rightarrow> (cpu \<Rightarrow> cpu) option" where
  "step_transfer op m16 x16 =
     (if op = 0xAA then Some (\<lambda>c. let v = idx c (rA c) in nz v x16 (set_x v c))
      else if op = 0xA8 then Some (\<lambda>c. let v = idx c (rA c) in nz v x16 (set_y v c))
      else if op = 0x8A then Some (\<lambda>c. let c1 = set_a (rX c) c in nz (get_a c1) m16 c1)
      else if op = 0x98 then Some (\<lambda>c. let c1 = set_a (rY c) c in nz (get_a c1) m16 c1)
      else if op = 0x9B then Some (\<lambda>c. nz (rX c) x16 (set_y (rX c) c))
      else if op = 0xBB then Some (\<lambda>c. nz (rY c) x16 (set_x (rY c) c))
      else if op = 0xBA then Some (\<lambda>c. let v = idx c (rS c) in nz v x16 (set_x v c))
      else if op = 0x9A then
        Some (\<lambda>c. c\<lparr>rS := (if fl_e c \<noteq> 0 then 0x0100 OR (rX c AND 0xFF) else rX c)\<rparr>)
      else if op = 0x5B then Some (\<lambda>c. nz (rA c) True (c\<lparr>rDP := rA c\<rparr>))
      else if op = 0x7B then Some (\<lambda>c. nz (rDP c) True (c\<lparr>rA := rDP c\<rparr>))
      else if op = 0x1B then
        Some (\<lambda>c. c\<lparr>rS := (if fl_e c \<noteq> 0 then 0x0100 OR (rA c AND 0xFF) else rA c)\<rparr>)
      else if op = 0x3B then Some (\<lambda>c. nz (rS c) True (c\<lparr>rA := rS c\<rparr>))
      else if op = 0xEB then
        Some (\<lambda>c. let v = drop_bit 8 (rA c) OR push_bit 8 (rA c) in nz (v AND 0xFF) False (c\<lparr>rA := v\<rparr>))
      else None)"

definition step_stack :: "('a mach_scheme) hooks \<Rightarrow> u8 \<Rightarrow> bool \<Rightarrow> bool \<Rightarrow> ('a mach_scheme, unit) act option" where
  "step_stack h op m16 x16 =
     (let push_reg = (\<lambda>r w. bnd (cpu_get r) (\<lambda>v. if w then pushw h v else push h (to8 v)));
          pull_val = (\<lambda>w. if w then pullw h else bnd (pull h) (\<lambda>v. ret (to16 v))) in
      if op = 0x48 then Some (push_reg rA m16)
      else if op = 0xDA then Some (push_reg rX x16)
      else if op = 0x5A then Some (push_reg rY x16)
      else if op = 0x68 then Some (bnd (pull_val m16) (\<lambda>v. cpu_do (\<lambda>c. let c1 = set_a v c in nz (get_a c1) m16 c1)))
      else if op = 0xFA then Some (bnd (pull_val x16) (\<lambda>v. cpu_do (\<lambda>c. nz v x16 (set_x v c))))
      else if op = 0x7A then Some (bnd (pull_val x16) (\<lambda>v. cpu_do (\<lambda>c. nz v x16 (set_y v c))))
      else if op = 0x8B then Some (bnd (cpu_get rDB) (push h))
      else if op = 0xAB then Some (bnd (pull h) (\<lambda>v. cpu_do (\<lambda>c. nz (to16 v) False (c\<lparr>rDB := v\<rparr>))))
      else if op = 0x0B then Some (bnd (cpu_get rDP) (pushw h))
      else if op = 0x2B then Some (bnd (pullw h) (\<lambda>v. cpu_do (\<lambda>c. nz v True (c\<lparr>rDP := v\<rparr>))))
      else if op = 0x4B then Some (bnd (cpu_get rPB) (push h))
      else if op = 0x08 then Some (bnd (cpu_get pack_p) (push h))
      else if op = 0x28 then Some (bnd (pull h) (\<lambda>v. cpu_do (unpack_p v)))
      else if op = 0xF4 then Some (bnd (fetch16 h) (pushw h))
      else if op = 0xD4 then Some (bnd (cpu_get rDP) (\<lambda>dp. bnd (fetch8 h) (\<lambda>d. bnd (rd_bank0_16 h (dp + to16 d)) (pushw h))))
      else if op = 0x62 then Some (bnd (fetch16 h) (\<lambda>off. bnd (cpu_get rPC) (\<lambda>pc. pushw h (pc + off))))
      else None)"

definition step_flags :: "('a mach_scheme) hooks \<Rightarrow> u8 \<Rightarrow> ('a mach_scheme, unit) act option" where
  "step_flags h op =
     (if op = 0x18 then Some (cpu_do (\<lambda>c. c\<lparr>fl_c := 0\<rparr>))
      else if op = 0x38 then Some (cpu_do (\<lambda>c. c\<lparr>fl_c := 1\<rparr>))
      else if op = 0x58 then Some (cpu_do (\<lambda>c. c\<lparr>fl_i := 0\<rparr>))
      else if op = 0x78 then Some (cpu_do (\<lambda>c. c\<lparr>fl_i := 1\<rparr>))
      else if op = 0xD8 then Some (cpu_do (\<lambda>c. c\<lparr>fl_d := 0\<rparr>))
      else if op = 0xF8 then Some (cpu_do (\<lambda>c. c\<lparr>fl_d := 1\<rparr>))
      else if op = 0xB8 then Some (cpu_do (\<lambda>c. c\<lparr>fl_v := 0\<rparr>))
      else if op = 0xC2 then Some (bnd (fetch8 h) (\<lambda>v. cpu_do (\<lambda>c. unpack_p (pack_p c AND NOT v) c)))
      else if op = 0xE2 then Some (bnd (fetch8 h) (\<lambda>v. cpu_do (\<lambda>c. unpack_p (pack_p c OR v) c)))
      else if op = 0xFB then Some (cpu_do (\<lambda>c.
        let c1 = c\<lparr>fl_c := fl_e c, fl_e := fl_c c\<rparr> in
        if fl_e c1 \<noteq> 0
        then c1\<lparr>fl_m := 1, fl_x := 1, rX := rX c1 AND 0xFF, rY := rY c1 AND 0xFF,
                rS := 0x0100 OR (rS c1 AND 0xFF)\<rparr>
        else c1))
      else None)"

definition branch_conds :: "(nat \<times> (cpu \<Rightarrow> bool)) list" where
  "branch_conds =
     [(0x10, \<lambda>c. fl_n c = 0), (0x30, \<lambda>c. fl_n c \<noteq> 0), (0x50, \<lambda>c. fl_v c = 0), (0x70, \<lambda>c. fl_v c \<noteq> 0),
      (0x90, \<lambda>c. fl_c c = 0), (0xB0, \<lambda>c. fl_c c \<noteq> 0), (0xD0, \<lambda>c. fl_z c = 0), (0xF0, \<lambda>c. fl_z c \<noteq> 0),
      (0x80, \<lambda>c. True)]"

definition step_branch :: "('a interp_state_scheme) hooks \<Rightarrow> u32 \<Rightarrow> u8 \<Rightarrow> ('a interp_state_scheme, unit) act option" where
  "step_branch h at op =
     (case map_of branch_conds (unat op) of
        Some p \<Rightarrow> Some (bnd (cpu_get p) (branch h at))
      | None \<Rightarrow> if op = 0x82 then Some (bnd (fetch16 h) (\<lambda>off. add_pc off at)) else None)"

definition push_frame :: "u32 \<Rightarrow> bool \<Rightarrow> ('a interp_state_scheme, unit) act" where
  "push_frame at lng = (\<lambda>s.
     if sys s then Inr ((), s)
     else if depth s = 256 then Inl (Call_depth at)
     else Inr ((), s\<lparr>shadow := \<lparr>sf_site = at, sf_ret = addr24 (rPB (cpu s)) (rPC (cpu s)), sf_long = lng\<rparr> # shadow s\<rparr>))"

definition far_pc :: "u32 \<Rightarrow> cpu \<Rightarrow> cpu" where
  "far_pc t c = c\<lparr>rPB := to8 (drop_bit 16 t), rPC := to16 t\<rparr>"

definition read_table :: "('a mach_scheme) hooks \<Rightarrow> u16 \<Rightarrow> ('a mach_scheme, u16) act" where
  "read_table h p = bnd (cpu_get rPB) (\<lambda>pb. bnd (read8 h (addr24 pb p)) (\<lambda>lo.
     bnd (read8 h (addr24 pb (p + 1))) (\<lambda>hi. ret (word16 lo hi))))"

definition op_jml :: "('a interp_state_scheme) interp_env \<Rightarrow> ('a interp_state_scheme) hooks \<Rightarrow> ('a interp_state_scheme, unit) act" where
  "op_jml env h = bnd (fetch24 h) (\<lambda>t. thn (cpu_do (far_pc t))
     (bnd (extern_hook env t 2) (\<lambda>k. case k of Some f \<Rightarrow> f | None \<Rightarrow> ret ())))"

definition op_jmp_table :: "('a interp_state_scheme) interp_env \<Rightarrow> ('a interp_state_scheme) hooks \<Rightarrow> u32 \<Rightarrow> ('a interp_state_scheme, unit) act" where
  "op_jmp_table env h at = thn (table_index env at) (bnd (fetch16 h) (\<lambda>a. bnd (cpu_get rX) (\<lambda>x.
     bnd (read_table h (a + x)) set_pc)))"

definition op_jsr :: "('a interp_state_scheme) interp_env \<Rightarrow> ('a interp_state_scheme) hooks \<Rightarrow> u32 \<Rightarrow> ('a interp_state_scheme, unit) act" where
  "op_jsr env h at = bnd (fetch16 h) (\<lambda>t. bnd (gets cpu) (\<lambda>c. thn (pushw h (rPC c - 1))
     (bnd (extern_hook env (addr24 (rPB c) t) 0) (\<lambda>k. case k of
        Some f \<Rightarrow> f
      | None \<Rightarrow> thn (push_frame at False) (set_pc t)))))"

definition op_jsr_table :: "('a interp_state_scheme) interp_env \<Rightarrow> ('a interp_state_scheme) hooks \<Rightarrow> u32 \<Rightarrow> ('a interp_state_scheme, unit) act" where
  "op_jsr_table env h at = bnd (fetch16 h) (\<lambda>a. bnd (gets cpu) (\<lambda>c. thn (pushw h (rPC c - 1))
     (thn (table_index env at) (thn (push_frame at False) (bnd (read_table h (a + rX c)) set_pc)))))"

definition op_jsl :: "('a interp_state_scheme) interp_env \<Rightarrow> ('a interp_state_scheme) hooks \<Rightarrow> u32 \<Rightarrow> ('a interp_state_scheme, unit) act" where
  "op_jsl env h at = bnd (fetch24 h) (\<lambda>t. thn (bnd (cpu_get rPB) (push h)) (bnd (cpu_get rPC) (\<lambda>pc.
     thn (pushw h (pc - 1)) (bnd (extern_hook env t 1) (\<lambda>k. case k of
        Some f \<Rightarrow> thn (set_pb (to8 (drop_bit 16 t))) f
      | None \<Rightarrow> thn (push_frame at True) (cpu_do (far_pc t)))))))"

text \<open>The strict checks of RTS and RTL against the newest frame.\<close>

definition op_rts_sys :: "('a interp_state_scheme) hooks \<Rightarrow> u32 \<Rightarrow> ('a interp_state_scheme, unit) act" where
  "op_rts_sys h at = bnd (pullw h) (\<lambda>v. thn (set_pc (v + 1)) (\<lambda>s.
     case shadow s of
       [] \<Rightarrow> Inr ((), s)
     | f # fs \<Rightarrow>
        if sys s then Inr ((), s)
        else if sf_long f then Inl (Rts_from_jsl at)
        else if rPC (cpu s) \<noteq> to16 (sf_ret f) then Inl (Returned_to (sf_site f) (rPC (cpu s)) (to16 (sf_ret f)))
        else Inr ((), s\<lparr>shadow := fs\<rparr>)))"

definition op_rtl_sys :: "('a interp_state_scheme) hooks \<Rightarrow> u32 \<Rightarrow> ('a interp_state_scheme, unit) act" where
  "op_rtl_sys h at = bnd (pullw h) (\<lambda>v. thn (set_pc (v + 1)) (thn (bnd (pull h) set_pb) (\<lambda>s.
     case shadow s of
       [] \<Rightarrow> Inr ((), s)
     | f # fs \<Rightarrow>
        if sys s then Inr ((), s)
        else if \<not> sf_long f then Inl (Rtl_from_jsr at)
        else if addr24 (rPB (cpu s)) (rPC (cpu s)) \<noteq> sf_ret f
        then Inl (Returned_to_long (sf_site f) (rPB (cpu s)) (rPC (cpu s)) (sf_ret f))
        else Inr ((), s\<lparr>shadow := fs\<rparr>))))"

definition step_jump ::
  "('a interp_state_scheme) interp_env \<Rightarrow> ('a interp_state_scheme) hooks \<Rightarrow> u32 \<Rightarrow> u8
   \<Rightarrow> ('a interp_state_scheme, unit) act option" where
  "step_jump env h at op =
     (if op = 0x4C then Some (bnd (fetch16 h) (\<lambda>t. thn (set_pc t) (loop_tick at t)))
      else if op = 0x5C then Some (op_jml env h)
      else if op = 0x6C then Some (bnd (fetch16 h) (\<lambda>a. bnd (rd_bank0_16 h a) set_pc))
      else if op = 0x7C then Some (op_jmp_table env h at)
      else if op = 0xDC then Some (bnd (fetch16 h) (\<lambda>a. bnd (rd_bank0_24 h a) (\<lambda>t. cpu_do (far_pc t))))
      else if op = 0x20 then Some (op_jsr env h at)
      else if op = 0xFC then Some (op_jsr_table env h at)
      else if op = 0x22 then Some (op_jsl env h at)
      else if op = 0x60 then Some (op_rts_sys h at)
      else if op = 0x6B then Some (op_rtl_sys h at)
      else None)"

definition op_rti_sys :: "('a interp_state_scheme) hooks \<Rightarrow> u32 \<Rightarrow> ('a interp_state_scheme, unit) act" where
  "op_rti_sys h at = bnd (gets sys) (\<lambda>y.
     if \<not> y then die (Op_unsupported at 0x40)
     else bnd (pull h) (\<lambda>p. thn (cpu_do (unpack_p p)) (bnd (pullw h) (\<lambda>v. thn (set_pc v)
            (bnd (cpu_get fl_e) (\<lambda>e. if e = 0 then bnd (pull h) set_pb else ret ()))))))"

definition op_wai :: "u32 \<Rightarrow> ('a interp_state_scheme, unit) act" where
  "op_wai at = bnd (gets sys) (\<lambda>y.
     if \<not> y then die (Wai_executed at) else modify (\<lambda>s. s\<lparr>waiting := True\<rparr>))"

definition step_misc :: "('a interp_state_scheme) hooks \<Rightarrow> u32 \<Rightarrow> u8 \<Rightarrow> ('a interp_state_scheme, unit) act option" where
  "step_misc h at op =
     (if op = 0x54 then Some (block_move h at 1)
      else if op = 0x44 then Some (block_move h at (- 1))
      else if op = 0x00 then Some (die (Brk_executed at))
      else if op = 0x02 then Some (die (Cop_executed at))
      else if op = 0xDB then Some (die (Stp_executed at))
      else if op = 0xCB then Some (op_wai at)
      else if op = 0x40 then Some (op_rti_sys h at)
      else if op = 0xEA then Some (ret ())
      else if op = 0x42 then Some (bnd (fetch8 h) (\<lambda>_. ret ()))
      else None)"

definition is_alu :: "u8 \<Rightarrow> bool" where
  "is_alu op \<longleftrightarrow> (op AND 3 = 1 \<or> op AND 3 = 3 \<or> op AND 0x1F = 0x12) \<and> alu_mode op \<noteq> None"

definition step ::
  "('a interp_state_scheme) interp_env \<Rightarrow> ('a interp_state_scheme) hooks \<Rightarrow> u32 \<Rightarrow> u8
   \<Rightarrow> ('a interp_state_scheme, unit) act" where
  "step env h at op = bnd (cpu_get (\<lambda>c. (fl_m c = 0, fl_x c = 0))) (\<lambda>(m16, x16).
     if is_alu op then alu_op h op (the (alu_mode op)) at
     else case first_some
       [step_rmw h op m16, step_tsb h op m16, step_bit h op, step_index h op m16 x16,
        map_option cpu_do (step_count op x16), map_option cpu_do (step_transfer op m16 x16),
        step_stack h op m16 x16, step_flags h op, step_branch h at op, step_jump env h at op,
        step_misc h at op] of
       Some a \<Rightarrow> a
     | None \<Rightarrow> die (Op_unsupported at op))"

section \<open>Strict mode\<close>

definition CT_INTERP_BUDGET :: int where "CT_INTERP_BUDGET = 3000000"
definition CT_INTERP_DISPATCH_CAP :: nat where "CT_INTERP_DISPATCH_CAP = 200000000"

definition pc_at :: "'a mach_scheme \<Rightarrow> u32" where
  "pc_at s = addr24 (rPB (cpu s)) (rPC (cpu s))"

text \<open>The dispatch loop; its argument is the remaining \<open>dispatch_cap\<close>, so it ends by itself.\<close>

fun call_loop ::
  "nat \<Rightarrow> ('a interp_state_scheme) interp_env \<Rightarrow> ('a interp_state_scheme) hooks \<Rightarrow> u16
   \<Rightarrow> ('a interp_state_scheme, unit) act" where
  "call_loop 0 env h s0 = die Out_of_fuel"
| "call_loop (Suc cap) env h s0 = bnd (gets pc_at) (\<lambda>at.
     if cap = 0 then die (Instruction_cap at)
     else bnd (fetch8 h) (\<lambda>op. thn (step env h at op) (bnd (cpu_get rS) (\<lambda>p.
       if (op = 0x60 \<or> op = 0x6B) \<and> p > s0 then ret () else call_loop cap env h s0))))"

definition interp_call ::
  "('a interp_state_scheme) interp_env \<Rightarrow> ('a interp_state_scheme) hooks \<Rightarrow> u32
   \<Rightarrow> ('a interp_state_scheme, unit) act" where
  "interp_call env h entry =
     thn (modify (\<lambda>s. s\<lparr>sys := False\<rparr>)) (bnd (gets cpu) (\<lambda>c.
     if fl_e c \<noteq> 0 then die Emulation_mode
     else thn (modify (\<lambda>s. s\<lparr>shadow := [], interp_budget := CT_INTERP_BUDGET\<rparr>))
         (thn (cpu_do (far_pc entry)) (call_loop CT_INTERP_DISPATCH_CAP env h (rS c)))))"

section \<open>System mode\<close>

definition emulation_ok :: "u8 \<Rightarrow> bool" where
  "emulation_ok op \<longleftrightarrow> op \<in> set
     [0x18, 0x38, 0x58, 0x78, 0xD8, 0xF8, 0xB8, 0xFB, 0xEA, 0xC2, 0xE2, 0xA9, 0xA2, 0xA0, 0x4C, 0x5C,
      0x10, 0x30, 0x50, 0x70, 0x90, 0xB0, 0xD0, 0xF0, 0x80]"

definition interp_step ::
  "('a interp_state_scheme) interp_env \<Rightarrow> ('a interp_state_scheme) hooks \<Rightarrow> ('a interp_state_scheme, u32) act" where
  "interp_step env h =
     thn (modify (\<lambda>s. s\<lparr>sys := True, shadow := [], interp_budget := 0\<rparr>)) (bnd (gets waiting) (\<lambda>w.
     if w then die Step_while_waiting
     else bnd (gets pc_at) (\<lambda>at. bnd (fetch8 h) (\<lambda>op. thn (modify (\<lambda>s. s\<lparr>last_op := op\<rparr>))
       (bnd (gets cpu) (\<lambda>c.
        if fl_e c \<noteq> 0 \<and> \<not> emulation_ok op then die (Emulation_op at op)
        else thn (modify (cyc_begin c at op)) (thn (step env h at op) cyc_finish)))))))"

definition interp_interrupt ::
  "('a interp_state_scheme) hooks \<Rightarrow> bool \<Rightarrow> ('a interp_state_scheme, u32) act" where
  "interp_interrupt h nmi = bnd (gets cpu) (\<lambda>c.
     if fl_e c \<noteq> 0 then die Interrupt_in_emulation
     else bnd (gets (cyc_master_per_cycle (rPB c) (rPC c))) (\<lambda>ftch.
       thn (modify (cyc_begin_interrupt c)) (bnd (gets ct_bus_clocks) (\<lambda>clocks0.
       thn (push h (rPB c)) (thn (pushw h (rPC c)) (thn (bnd (cpu_get pack_p) (push h))
       (thn (cpu_do (\<lambda>c. c\<lparr>fl_i := 1, fl_d := 0, rPB := 0\<rparr>))
       (let vec = (if nmi then 0xFFEA else 0xFFEE) :: u16 in
        bnd (read8 h (to32 vec)) (\<lambda>lo. bnd (read8 h (to32 (vec + 1))) (\<lambda>hi.
        thn (set_pc (word16 lo hi)) (thn (modify (\<lambda>s. s\<lparr>waiting := False\<rparr>))
        (bnd (gets ct_bus_clocks) (\<lambda>clocks. ret (ftch + 6 + (clocks - clocks0))))))))))))))) "

definition interp_last_op :: "'a interp_state_scheme \<Rightarrow> u8" where "interp_last_op s = last_op s"
definition interp_waiting :: "'a interp_state_scheme \<Rightarrow> bool" where "interp_waiting s = waiting s"

definition interp_wake :: "('a interp_state_scheme, unit) act" where
  "interp_wake = modify (\<lambda>s. s\<lparr>waiting := False\<rparr>)"

definition interp_reset :: "('a interp_state_scheme) hooks \<Rightarrow> ('a interp_state_scheme, unit) act" where
  "interp_reset h =
     thn (cpu_do (\<lambda>_. cpu_init\<lparr>fl_e := 1, fl_m := 1, fl_x := 1, fl_i := 1, fl_d := 0, rS := 0x01FF, rDP := 0, rDB := 0, rPB := 0\<rparr>))
       (bnd (read8 h 0xFFFC) (\<lambda>lo. bnd (read8 h 0xFFFD) (\<lambda>hi.
        thn (set_pc (word16 lo hi)) (modify (\<lambda>s. s\<lparr>waiting := False\<rparr>)))))"

section \<open>Generated code calling code that is not compiled\<close>

type_synonym 's exec_hook = "exec_until \<Rightarrow> ('s, unit) act"

definition ct_call_interp ::
  "('a interp_state_scheme) exec_hook option \<Rightarrow> ('a interp_state_scheme) interp_env \<Rightarrow> ('a interp_state_scheme) hooks
   \<Rightarrow> u32 \<Rightarrow> u32 \<Rightarrow> u32 \<Rightarrow> ('a interp_state_scheme, bool) act" where
  "ct_call_interp exec env h target back n =
     bnd (cpu_get rS) (\<lambda>p. let u = \<lparr>eu_back = back, eu_s = to16 (to32 p + n)\<rparr> in
     thn (cpu_do (far_pc target))
    (thn (case exec of Some f \<Rightarrow> f u | None \<Rightarrow> interp_call env h target)
         (gets (\<lambda>s. rS (cpu s) = eu_s u \<and> pc_at s = back))))"

text \<open>\<open>ct_interp_rest\<close>'s loop runs until the function's own return; \<open>fuel\<close> bounds the rounds.\<close>

fun rest_loop ::
  "nat \<Rightarrow> ('a interp_state_scheme) interp_env \<Rightarrow> ('a interp_state_scheme) hooks \<Rightarrow> exec_until
   \<Rightarrow> ('a interp_state_scheme, unit) act" where
  "rest_loop 0 env h u = die Out_of_fuel"
| "rest_loop (Suc fuel) env h u = bnd (gets pc_at) (\<lambda>at. thn (interp_call env h at)
     (bnd (cpu_get (\<lambda>c. ct_exec_done c u)) (\<lambda>fin. if fin then ret () else rest_loop fuel env h u)))"

definition ct_interp_rest ::
  "nat \<Rightarrow> ('a interp_state_scheme) exec_hook option \<Rightarrow> ('a interp_state_scheme) interp_env
   \<Rightarrow> ('a interp_state_scheme) hooks \<Rightarrow> u16 \<Rightarrow> ('a interp_state_scheme, unit) act" where
  "ct_interp_rest fuel exec env h s0 =
     (let u = \<lparr>eu_back = 0xFFFFFFFF, eu_s = s0\<rparr> in
      case exec of Some f \<Rightarrow> f u | None \<Rightarrow> rest_loop fuel env h u)"

end
