(* ===== verification/Ct_InterpWf.thy ===== *)
theory Ct_InterpWf
  imports Ct_Interp
begin

text \<open>
  The register invariant \<open>wf_cpu\<close> through the interpreter: flags stay bits, 8-bit index
  registers keep a zero high byte, emulation mode keeps its widths and its stack page. Triples
  on the registers alone carry it through every helper and every group of the opcode switch.
\<close>

section \<open>Handlers that leave the registers alone\<close>

definition hooks_keep_cpu :: "('a mach_scheme) hooks \<Rightarrow> bool" where
  "hooks_keep_cpu h \<longleftrightarrow>
     (\<forall>r f reg s x s'. hw_rd h r = Some f \<longrightarrow> f reg s = Inr (x, s') \<longrightarrow> cpu s' = cpu s) \<and>
     (\<forall>r f reg v s x s'. hw_wr h r = Some f \<longrightarrow> f reg v s = Inr (x, s') \<longrightarrow> cpu s' = cpu s)"

lemma log_access_cpu [simp]: "cpu (log_access ck e s) = cpu s"
  by (simp add: log_access_def Let_def)

lemma set_mdr_cpu [simp]: "cpu (set_mdr v s) = cpu s"
  by (simp add: set_mdr_def)

lemma wram_store_cpu [simp]: "cpu (wram_store off v s) = cpu s"
  by (simp add: wram_store_def wram_journal_def Let_def)

lemma read8_cpu: "hooks_keep_cpu h \<Longrightarrow> read8 h a s = Inr (v, s') \<Longrightarrow> cpu s' = cpu s"
  by (erule read8_cases) (auto simp: hooks_keep_cpu_def)

lemma write8_cpu: "hooks_keep_cpu h \<Longrightarrow> write8 h a v s = Inr (u, s') \<Longrightarrow> cpu s' = cpu s"
  by (erule write8_cases) (auto simp: hooks_keep_cpu_def)

section \<open>Triples on the registers\<close>

text \<open>\<open>ctri P m Q\<close>: the registers satisfy \<open>P\<close> before, \<open>Q\<close> of the result after.\<close>

definition ctri :: "(cpu \<Rightarrow> bool) \<Rightarrow> ('a mach_scheme, 'b) act \<Rightarrow> ('b \<Rightarrow> cpu \<Rightarrow> bool) \<Rightarrow> bool" where
  "ctri P m Q \<longleftrightarrow> hoare (\<lambda>s. P (cpu s)) m (\<lambda>v s. Q v (cpu s))"

named_theorems ctri_intro \<open>rules for the registers\<close>

lemma ctri_bnd: "ctri P m R \<Longrightarrow> (\<And>x. ctri (R x) (k x) Q) \<Longrightarrow> ctri P (bnd m k) Q"
  by (auto simp: ctri_def intro: hoare_bnd)

lemma ctri_thn: "ctri P m R \<Longrightarrow> (\<And>x. ctri (R x) k Q) \<Longrightarrow> ctri P (thn m k) Q"
  by (auto simp: ctri_def thn_def intro: hoare_bnd)

lemma ctri_keep_bnd [ctri_intro]: "ctri P m (\<lambda>_. P) \<Longrightarrow> (\<And>x. ctri P (k x) Q) \<Longrightarrow> ctri P (bnd m k) Q"
  by (rule ctri_bnd)

lemma ctri_keep_thn [ctri_intro]: "ctri P m (\<lambda>_. P) \<Longrightarrow> ctri P k Q \<Longrightarrow> ctri P (thn m k) Q"
  by (rule ctri_thn)

lemma ctri_ret [ctri_intro]: "(\<And>c. P c \<Longrightarrow> Q v c) \<Longrightarrow> ctri P (ret v) Q"
  by (auto simp: ctri_def hoare_def)

lemma ctri_die [ctri_intro]: "ctri P (die e) Q"
  by (simp add: ctri_def hoare_def)

lemma ctri_gets [ctri_intro]: "ctri P (gets f) (\<lambda>_. P)"
  by (simp add: ctri_def hoare_def)

lemma ctri_get_bnd: "(\<And>c. P c \<Longrightarrow> ctri (\<lambda>c'. c' = c) (k (f c)) Q) \<Longrightarrow> ctri P (bnd (cpu_get f) k) Q"
  by (auto simp: ctri_def hoare_def bnd_Inr)

lemma ctri_do [ctri_intro]: "(\<And>c. P c \<Longrightarrow> Q () (g c)) \<Longrightarrow> ctri P (cpu_do g) Q"
  by (auto simp: ctri_def hoare_def)

lemma ctri_state: "(\<And>s. cpu (f s) = cpu s) \<Longrightarrow> ctri P (modify f) (\<lambda>_. P)"
  by (auto simp: ctri_def hoare_def)

lemma ctri_if [ctri_intro]: "(b \<Longrightarrow> ctri P m Q) \<Longrightarrow> (\<not> b \<Longrightarrow> ctri P k Q) \<Longrightarrow> ctri P (if b then m else k) Q"
  by simp

lemma ctri_when [ctri_intro]: "ctri P m (\<lambda>_. P) \<Longrightarrow> ctri P (whenM b m) (\<lambda>_. P)"
  by (auto simp: whenM_def intro: ctri_ret)

lemma ctri_weaken: "ctri P m Q \<Longrightarrow> (\<And>c. P' c \<Longrightarrow> P c) \<Longrightarrow> (\<And>v c. Q v c \<Longrightarrow> Q' v c) \<Longrightarrow> ctri P' m Q'"
  by (fastforce simp: ctri_def hoare_def)

lemma ctri_post: "ctri P m Q \<Longrightarrow> (\<And>v c. Q v c \<Longrightarrow> Q' v c) \<Longrightarrow> ctri P m Q'"
  by (erule ctri_weaken)

lemma ctri_read8 [ctri_intro]: "hooks_keep_cpu h \<Longrightarrow> ctri P (read8 h a) (\<lambda>_. P)"
  by (auto simp: ctri_def hoare_def dest: read8_cpu)

lemma ctri_write8 [ctri_intro]: "hooks_keep_cpu h \<Longrightarrow> ctri P (write8 h a v) (\<lambda>_. P)"
  by (auto simp: ctri_def hoare_def dest: write8_cpu)

text \<open>Registers that agree but for PC (and A, DB, PB, DP): what fetching and addressing leave.\<close>

lemma ctri_fetch8:
  assumes "hooks_keep_cpu h" "\<And>c w. P c \<Longrightarrow> P (c\<lparr>rPC := w\<rparr>)"
  shows "ctri P (fetch8 h) (\<lambda>_. P)"
  unfolding fetch8_def set_fetch_def
  by (intro ctri_intro ctri_state assms) simp_all

lemma ctri_fetch16:
  assumes "hooks_keep_cpu h" "\<And>c w. P c \<Longrightarrow> P (c\<lparr>rPC := w\<rparr>)"
  shows "ctri P (fetch16 h) (\<lambda>_. P)"
  unfolding fetch16_def by (intro ctri_intro ctri_fetch8 assms)

lemma ctri_fetch24:
  assumes "hooks_keep_cpu h" "\<And>c w. P c \<Longrightarrow> P (c\<lparr>rPC := w\<rparr>)"
  shows "ctri P (fetch24 h) (\<lambda>_. P)"
  unfolding fetch24_def by (intro ctri_intro ctri_fetch8 ctri_fetch16 assms)

lemma ctri_rd_bank0 [ctri_intro]:
  assumes "hooks_keep_cpu h"
  shows "ctri P (rd_bank0_16 h a) (\<lambda>_. P)" "ctri P (rd_bank0_24 h a) (\<lambda>_. P)"
  unfolding rd_bank0_16_def rd_bank0_24_def by (intro ctri_intro assms; simp)+

lemma ctri_rdwr [ctri_intro]:
  assumes "hooks_keep_cpu h"
  shows "ctri P (wr h e wide v) (\<lambda>_. P)" "ctri P (wr_rmw h e wide v) (\<lambda>_. P)"
  unfolding wr_def wr_rmw_def by (intro ctri_intro assms)+

lemma ctri_rd:
  assumes "hooks_keep_cpu h"
  shows "ctri P (rd h e wide) (\<lambda>v c. P c \<and> (wide \<or> v AND 0xFF00 = 0))"
proof -
  have b: "to16 lo AND 0xFF00 = 0" for lo :: u8
  proof -
    have m: "(0xFF00::u16) = push_bit 8 (mask 8)" by (simp add: push_bit_eq_mult mask_eq_exp_minus_1)
    show ?thesis unfolding m by (rule bit_word_eqI) (auto simp: bit_simps dest: bit_imp_le_length)
  qed
  show ?thesis unfolding rd_def by (intro ctri_intro assms) (simp_all add: b)
qed

lemma ctri_index_cross [ctri_intro]: "ctri P (index_cross b i) (\<lambda>_. P)"
  unfolding index_cross_def by (intro ctri_intro ctri_state) simp_all

lemma ctri_ea:
  assumes "hooks_keep_cpu h" "\<And>c w. P c \<Longrightarrow> P (c\<lparr>rPC := w\<rparr>)"
  shows "ctri P (ea h md) (\<lambda>_. P)"
  using assms by (cases md) (simp_all, (intro ctri_intro ctri_fetch8 ctri_fetch16 ctri_fetch24; simp)+)

section \<open>The register invariant through the groups\<close>

text \<open>Well-formed with the widths and the mode given.\<close>

definition wfk :: "u8 \<Rightarrow> u8 \<Rightarrow> u8 \<Rightarrow> cpu \<Rightarrow> bool" where
  "wfk m x e c \<longleftrightarrow> wf_cpu c \<and> fl_m c = m \<and> fl_x c = x \<and> fl_e c = e"

lemma wfk_wf: "wfk m x e c \<Longrightarrow> wf_cpu c"
  by (simp add: wfk_def)

lemma wfk_self: "wf_cpu c \<Longrightarrow> wfk (fl_m c) (fl_x c) (fl_e c) c"
  by (simp add: wfk_def)

lemma bit_words [simp]:
  "is_bit (to8 (v AND 1 :: u16))" "is_bit (to8 (drop_bit 15 (v :: u16)))" "is_bit (drop_bit 7 (b :: u8))"
proof -
  have b: "is_bit w \<longleftrightarrow> unat w < 2" for w :: u8
    by (auto simp: is_bit_def word_unat_eq_iff less_2_cases_iff)
  have u: "unat (to8 (w :: u16)) = unat w" if "unat w < 256" for w
    using that by (simp add: unsigned_ucast_eq take_bit_eq_mod)
  have "unat v < 65536" by (rule unat_bounds)
  then have "unat v div 2 ^ 15 < 2" by (simp add: less_mult_imp_div_less)
  then have "unat (drop_bit 15 v) < 2" by (simp add: unsigned_drop_bit_eq drop_bit_eq_div unat_div)
  then show "is_bit (to8 (drop_bit 15 v))" by (simp add: b u)
  have "v AND 1 = of_bool (odd v)" by (simp add: and_one_eq mod2_eq_if)
  then show "is_bit (to8 (v AND 1))" by simp
  have "unat b < 256" by (rule unat_bounds)
  then have "unat b div 2 ^ 7 < 2" by (simp add: less_mult_imp_div_less)
  then show "is_bit (drop_bit 7 b)" by (simp add: b unsigned_drop_bit_eq drop_bit_eq_div unat_div)
qed

lemma and_and_masks [simp]: "((v :: u16) AND 0xFF) AND 0xFF00 = 0" "(0x0100 OR (v AND 0xFF)) AND 0xFF00 = (0x0100 :: u16)"
proof -
  show a: "(v AND 0xFF) AND 0xFF00 = 0" by (simp add: and.assoc)
  show "(0x0100 OR (v AND 0xFF)) AND 0xFF00 = 0x0100" using a by (simp add: bit.conj_disj_distrib2)
qed

lemma to16_high [simp]: "to16 (b :: u8) AND 0xFF00 = 0"
proof -
  have m: "(0xFF00::u16) = push_bit 8 (mask 8)" by (simp add: push_bit_eq_mult mask_eq_exp_minus_1)
  show ?thesis unfolding m by (rule bit_word_eqI) (auto simp: bit_simps dest: bit_imp_le_length)
qed

lemma wfk_fields [simp]:
  "wfk m x e (c\<lparr>rPC := w\<rparr>) = wfk m x e c" "wfk m x e (c\<lparr>rA := w\<rparr>) = wfk m x e c"
  "wfk m x e (c\<lparr>rDB := b\<rparr>) = wfk m x e c" "wfk m x e (c\<lparr>rPB := b\<rparr>) = wfk m x e c"
  "wfk m x e (c\<lparr>rDP := w\<rparr>) = wfk m x e c"
  by (simp_all add: wfk_def wf_cpu_def)

lemma wfk_flags:
  "is_bit b \<Longrightarrow> wfk m x e c \<Longrightarrow> wfk m x e (c\<lparr>fl_n := b\<rparr>)" "is_bit b \<Longrightarrow> wfk m x e c \<Longrightarrow> wfk m x e (c\<lparr>fl_v := b\<rparr>)"
  "is_bit b \<Longrightarrow> wfk m x e c \<Longrightarrow> wfk m x e (c\<lparr>fl_d := b\<rparr>)" "is_bit b \<Longrightarrow> wfk m x e c \<Longrightarrow> wfk m x e (c\<lparr>fl_i := b\<rparr>)"
  "is_bit b \<Longrightarrow> wfk m x e c \<Longrightarrow> wfk m x e (c\<lparr>fl_z := b\<rparr>)" "is_bit b \<Longrightarrow> wfk m x e c \<Longrightarrow> wfk m x e (c\<lparr>fl_c := b\<rparr>)"
  by (auto simp: wfk_def wf_cpu_def)

lemma wfk_index:
  "x = 0 \<or> w AND 0xFF00 = 0 \<Longrightarrow> wfk m x e c \<Longrightarrow> wfk m x e (c\<lparr>rX := w\<rparr>)"
  "x = 0 \<or> w AND 0xFF00 = 0 \<Longrightarrow> wfk m x e c \<Longrightarrow> wfk m x e (c\<lparr>rY := w\<rparr>)"
  by (auto simp: wfk_def wf_cpu_def)

lemma wfk_nz [intro]: "wfk m x e c \<Longrightarrow> wfk m x e (nz v wide c)"
  by (simp add: nz_def wfk_flags)

lemma wfk_set_a [simp]: "wfk m x e (set_a v c) = wfk m x e c"
  by (simp add: set_a_def)

lemma wfk_page1: "wfk m x e c \<Longrightarrow> wfk m x e (page1 (c\<lparr>rS := w\<rparr>))"
  by (auto simp: page1_def wfk_def wf_cpu_def)

lemma wfk_compare [intro]: "wfk m x e c \<Longrightarrow> wfk m x e (compare r v wide c)"
  by (auto simp: compare_def Let_def intro!: wfk_nz wfk_flags)

lemma wfk_rmw: "wfk m x e c \<Longrightarrow> wfk m x e (snd (rmw op v wide c))"
  by (cases op) (auto simp: rmw_def Let_def intro!: wfk_nz wfk_flags)

lemma wfk_rmw_acc [intro]: "wfk m x e c \<Longrightarrow> wfk m x e (rmw_acc op wide c)"
  using wfk_rmw[of m x e c op "get_a c" wide] by (cases "rmw op (get_a c) wide c") (simp add: rmw_acc_def)

lemma wfk_add: "wfk m x e c \<Longrightarrow> add a b wide at c = Inr (r, c1) \<Longrightarrow> wfk m x e c1"
  by (auto simp: add_def Let_def split: if_splits intro!: wfk_nz wfk_flags)

lemma ctri_cpu_val: "(\<And>c. P c \<Longrightarrow> P (snd (f c))) \<Longrightarrow> ctri P (cpu_val f) (\<lambda>_. P)"
  by (auto simp: ctri_def hoare_def cpu_val_def split: prod.splits) (metis snd_conv)

lemma ctri_cpu_try: "(\<And>c v c1. P c \<Longrightarrow> f c = Inr (v, c1) \<Longrightarrow> P c1) \<Longrightarrow> ctri P (cpu_try f) (\<lambda>_. P)"
  by (auto simp: ctri_def hoare_def cpu_try_def split: sum.splits)

lemma ctri_push [ctri_intro]: "hooks_keep_cpu h \<Longrightarrow> ctri (wfk m x e) (push h v) (\<lambda>_. wfk m x e)"
  unfolding push_def by (intro ctri_intro wfk_page1)

lemma ctri_pull [ctri_intro]: "hooks_keep_cpu h \<Longrightarrow> ctri (wfk m x e) (pull h) (\<lambda>_. wfk m x e)"
  unfolding pull_def by (intro ctri_intro wfk_page1)

lemma ctri_pushw [ctri_intro]: "hooks_keep_cpu h \<Longrightarrow> ctri (wfk m x e) (pushw h v) (\<lambda>_. wfk m x e)"
  unfolding pushw_def by (intro ctri_intro)

lemma ctri_pullw [ctri_intro]: "hooks_keep_cpu h \<Longrightarrow> ctri (wfk m x e) (pullw h) (\<lambda>_. wfk m x e)"
  unfolding pullw_def by (intro ctri_intro)

lemma ctri_fetches [ctri_intro]:
  assumes "hooks_keep_cpu h"
  shows "ctri (wfk m x e) (fetch8 h) (\<lambda>_. wfk m x e)" "ctri (wfk m x e) (fetch16 h) (\<lambda>_. wfk m x e)"
    "ctri (wfk m x e) (fetch24 h) (\<lambda>_. wfk m x e)" "ctri (wfk m x e) (ea h md) (\<lambda>_. wfk m x e)"
  by (intro ctri_fetch8 ctri_fetch16 ctri_fetch24 ctri_ea assms; simp)+

lemma ctri_rd_keep [ctri_intro]: "hooks_keep_cpu h \<Longrightarrow> ctri P (rd h a wide) (\<lambda>_. P)"
  by (rule ctri_post[OF ctri_rd]) simp_all

lemma ctri_operand:
  "hooks_keep_cpu h \<Longrightarrow> ctri (wfk m x e) (operand h md wide) (\<lambda>v c. wfk m x e c \<and> (wide \<or> v AND 0xFF00 = 0))"
  unfolding operand_def
  by (intro ctri_if ctri_bnd[OF ctri_fetches(1)] ctri_bnd[OF ctri_fetches(4)] ctri_rd ctri_post[OF ctri_fetches(2)] ctri_ret)
    simp_all

lemma ctri_operand_keep [ctri_intro]: "hooks_keep_cpu h \<Longrightarrow> ctri (wfk m x e) (operand h md wide) (\<lambda>_. wfk m x e)"
  by (rule ctri_post[OF ctri_operand]) simp_all

lemma ctri_rmw_mem [ctri_intro]: "hooks_keep_cpu h \<Longrightarrow> ctri (wfk m x e) (rmw_mem h op md) (\<lambda>_. wfk m x e)"
  unfolding rmw_mem_def by (intro ctri_intro ctri_cpu_val wfk_rmw)

lemma ctri_alu: "hooks_keep_cpu h \<Longrightarrow> ctri (wfk m x e) (alu_op h op md at) (\<lambda>_. wfk m x e)"
  unfolding alu_op_def by (intro ctri_intro ctri_cpu_try wfk_nz wfk_compare; auto intro: wfk_add)

lemma ctri_bit_test [ctri_intro]: "hooks_keep_cpu h \<Longrightarrow> ctri (wfk m x e) (bit_test h md) (\<lambda>_. wfk m x e)"
  unfolding bit_test_def by (intro ctri_intro) (auto simp: Let_def intro!: wfk_flags)

lemma ctri_load_index:
  assumes "hooks_keep_cpu h" "\<And>v c. x = 0 \<or> v AND 0xFF00 = 0 \<Longrightarrow> wfk m x e c \<Longrightarrow> wfk m x e (r v c)"
  shows "ctri (wfk m x e) (load_index h r md) (\<lambda>_. wfk m x e)"
proof -
  have k: "ctri (wfk m x e) (operand h md (fl_x c = 0)) (\<lambda>v c. wfk m x e c \<and> (x = 0 \<or> v AND 0xFF00 = 0))"
    if "wfk m x e c" for c
    using ctri_operand[OF assms(1), of m x e md "fl_x c = 0"] that by (simp add: wfk_def)
  have s: "ctri (\<lambda>c'. c' = c) (bnd (operand h md (fl_x c = 0)) (\<lambda>v. cpu_do (\<lambda>c'. nz v (fl_x c = 0) (r v c')))) (\<lambda>_. wfk m x e)"
    if w: "wfk m x e c" for c
  proof (rule ctri_bnd)
    show "ctri (\<lambda>c'. c' = c) (operand h md (fl_x c = 0)) (\<lambda>v c. wfk m x e c \<and> (x = 0 \<or> v AND 0xFF00 = 0))"
      by (rule ctri_weaken[OF k[OF w]]) (simp_all add: w)
    show "ctri (\<lambda>c. wfk m x e c \<and> (x = 0 \<or> v AND 0xFF00 = 0)) (cpu_do (\<lambda>c'. nz v (fl_x c = 0) (r v c'))) (\<lambda>_. wfk m x e)" for v
      by (rule ctri_do) (auto intro!: wfk_nz assms(2))
  qed
  show ?thesis unfolding load_index_def by (rule ctri_get_bnd) (rule s)
qed
section \<open>Every group of the switch\<close>

text \<open>What a group promises: whatever action it gives an opcode ends well-formed.\<close>

definition group_ok :: "u8 \<Rightarrow> u8 \<Rightarrow> u8 \<Rightarrow> ('a mach_scheme, unit) act option \<Rightarrow> bool" where
  "group_ok m x e g \<longleftrightarrow> (\<forall>a. g = Some a \<longrightarrow> ctri (wfk m x e) a (\<lambda>_. wf_cpu))"

definition env_keeps_wf :: "('a interp_state_scheme) interp_env \<Rightarrow> bool" where
  "env_keeps_wf env \<longleftrightarrow> (\<forall>x\<in>set (ct_externs env). ctri wf_cpu (ext_hook x) (\<lambda>_. wf_cpu))"

lemma group_ok_None [simp]: "group_ok m x e None"
  by (simp add: group_ok_def)

lemma group_ok_Some: "ctri (wfk m x e) a (\<lambda>_. wfk m x e) \<Longrightarrow> group_ok m x e (Some a)"
  by (auto simp: group_ok_def intro: ctri_post wfk_wf)

lemma group_ok_wf: "ctri (wfk m x e) a (\<lambda>_. wf_cpu) \<Longrightarrow> group_ok m x e (Some a)"
  by (auto simp: group_ok_def)

lemma group_ok_if: "group_ok m x e g \<Longrightarrow> group_ok m x e g' \<Longrightarrow> group_ok m x e (if b then g else g')"
  by simp

lemma group_ok_map: "(\<And>k. group_ok m x e (Some (f k))) \<Longrightarrow> group_ok m x e (map_option f g)"
  by (cases g) simp_all

lemma group_ok_do: "(\<And>f c. g = Some f \<Longrightarrow> wfk m x e c \<Longrightarrow> wfk m x e (f c)) \<Longrightarrow> group_ok m x e (map_option cpu_do g)"
  by (cases g) (auto intro!: group_ok_Some ctri_do)

lemma group_ok_first: "list_all (group_ok m x e) gs \<Longrightarrow> group_ok m x e (first_some gs)"
  by (induction gs rule: first_some.induct) simp_all

lemmas group_intro = group_ok_if group_ok_None group_ok_Some

lemma ok_rmw: "hooks_keep_cpu h \<Longrightarrow> group_ok m x e (step_rmw h op m16)"
  unfolding step_rmw_def
  by (auto split: option.split intro!: group_ok_map group_ok_Some ctri_do ctri_rmw_mem)

lemma ok_tsb: "hooks_keep_cpu h \<Longrightarrow> group_ok m x e (step_tsb h op m16)"
  unfolding step_tsb_def
  by (intro group_intro ctri_intro) (auto intro: wfk_flags)

lemma ok_bit: "hooks_keep_cpu h \<Longrightarrow> group_ok m x e (step_bit h op)"
  unfolding step_bit_def by (intro group_ok_map group_intro ctri_intro)

lemma ok_index:
  assumes "hooks_keep_cpu h"
  shows "group_ok m x e (step_index h op m16 x16)"
proof -
  have l: "group_ok m x e (map_option (load_index h set_x) g)" "group_ok m x e (map_option (load_index h set_y) g)" for g
    using assms by (auto intro!: group_ok_map group_ok_Some ctri_load_index wfk_index)
  have s: "group_ok m x e (map_option (store_reg h f w) g)" for f w g
    unfolding store_reg_def by (intro group_ok_map group_ok_Some ctri_intro assms)
  have c: "group_ok m x e (map_option (compare_reg h f w) g)" for f w g
    unfolding compare_reg_def by (intro group_ok_map group_ok_Some ctri_intro assms wfk_compare)
  show ?thesis unfolding step_index_def Let_def
    by (intro group_ok_first) (simp add: l s c del: map_of.simps)
qed

lemma idx_fits: "wfk m x e c \<Longrightarrow> x = 0 \<or> idx c v AND 0xFF00 = 0"
  by (auto simp: idx_def wfk_def)

lemma ok_count: "group_ok m x e (map_option cpu_do (step_count op x16))"
  by (rule group_ok_do)
    (auto simp: step_count_def Let_def split: if_splits intro!: wfk_nz wfk_index idx_fits)

lemma xy_fit: "wfk m x e c \<Longrightarrow> x = 0 \<or> rX c AND 0xFF00 = 0" "wfk m x e c \<Longrightarrow> x = 0 \<or> rY c AND 0xFF00 = 0"
  by (auto simp: wfk_def wf_cpu_def)

lemma wfk_s: "(fl_e c \<noteq> 0 \<longrightarrow> w AND 0xFF00 = 0x0100) \<Longrightarrow> wfk m x e c \<Longrightarrow> wfk m x e (c\<lparr>rS := w\<rparr>)"
  by (auto simp: wfk_def wf_cpu_def)

lemma ok_transfer: "group_ok m x e (map_option cpu_do (step_transfer op m16 x16))"
  by (rule group_ok_do)
    (auto simp: step_transfer_def Let_def split: if_splits intro!: wfk_nz wfk_index idx_fits wfk_s dest: xy_fit)

lemma wf_unpack: "wf_cpu c \<Longrightarrow> wf_cpu (unpack_p p c)"
  by (auto simp: unpack_p_def wf_cpu_def Let_def)

lemma ctri_unpack: "ctri (wfk m x e) (cpu_do (unpack_p v)) (\<lambda>_. wf_cpu)"
  by (auto intro!: ctri_do wf_unpack dest: wfk_wf)

lemma ctri_unpack_c: "ctri (wfk m x e) (cpu_do (\<lambda>c. unpack_p (f c) c)) (\<lambda>_. wf_cpu)"
  by (auto intro!: ctri_do wf_unpack dest: wfk_wf)

lemma ctri_pull_index:
  assumes "hooks_keep_cpu h" "\<And>v c. x = 0 \<or> v AND 0xFF00 = 0 \<Longrightarrow> wfk m x e c \<Longrightarrow> wfk m x e (r v c)"
    and "x16 \<longleftrightarrow> x = 0"
  shows "ctri (wfk m x e) (bnd (if x16 then pullw h else bnd (pull h) (\<lambda>v. ret (to16 v))) (\<lambda>v. cpu_do (\<lambda>c. nz v x16 (r v c)))) (\<lambda>_. wfk m x e)"
proof (rule ctri_bnd)
  show "ctri (wfk m x e) (if x16 then pullw h else bnd (pull h) (\<lambda>v. ret (to16 v))) (\<lambda>v c. wfk m x e c \<and> (x = 0 \<or> v AND 0xFF00 = 0))"
    using assms(1,3) by (auto intro!: ctri_post[OF ctri_pullw] ctri_bnd[OF ctri_pull] ctri_ret)
  show "ctri (\<lambda>c. wfk m x e c \<and> (x = 0 \<or> v AND 0xFF00 = 0)) (cpu_do (\<lambda>c. nz v x16 (r v c))) (\<lambda>_. wfk m x e)" for v
    by (rule ctri_do) (auto intro!: wfk_nz assms(2))
qed

lemma ok_stack:
  assumes "hooks_keep_cpu h" "x16 \<longleftrightarrow> x = 0"
  shows "group_ok m x e (step_stack h op m16 x16)"
  unfolding step_stack_def Let_def
  by (intro group_intro group_ok_wf[OF ctri_keep_bnd[OF _ ctri_unpack]] ctri_pull_index ctri_intro assms wfk_nz wfk_index)
    (simp_all add: assms)


lemma wf_xce:
  "wf_cpu c \<Longrightarrow> wf_cpu (let c1 = c\<lparr>fl_c := fl_e c, fl_e := fl_c c\<rparr> in
     if fl_e c1 \<noteq> 0
     then c1\<lparr>fl_m := 1, fl_x := 1, rX := rX c1 AND 0xFF, rY := rY c1 AND 0xFF, rS := 0x0100 OR (rS c1 AND 0xFF)\<rparr>
     else c1)"
  by (auto simp: wf_cpu_def Let_def)

lemma ok_flags:
  assumes "hooks_keep_cpu h"
  shows "group_ok m x e (step_flags h op)"
proof -
  have x: "ctri (wfk m x e) (cpu_do (\<lambda>c. let c1 = c\<lparr>fl_c := fl_e c, fl_e := fl_c c\<rparr> in
        if fl_e c1 \<noteq> 0
        then c1\<lparr>fl_m := 1, fl_x := 1, rX := rX c1 AND 0xFF, rY := rY c1 AND 0xFF,
                rS := 0x0100 OR (rS c1 AND 0xFF)\<rparr>
        else c1)) (\<lambda>_. wf_cpu)"
    by (rule ctri_do) (rule wf_xce, erule wfk_wf)
  show ?thesis unfolding step_flags_def
    by (intro group_ok_if group_ok_None group_ok_wf[OF x] group_ok_wf[OF ctri_keep_bnd[OF _ ctri_unpack_c]]
        group_ok_Some ctri_intro assms wfk_flags) simp_all
qed

lemma ctri_loop_tick [ctri_intro]: "ctri P (loop_tick at t) (\<lambda>_. P)"
  by (auto simp: ctri_def hoare_def loop_tick_def Let_def split: if_splits)

lemma ctri_add_pc [ctri_intro]: "ctri (wfk m x e) (add_pc off at) (\<lambda>_. wfk m x e)"
  unfolding add_pc_def by (intro ctri_intro) simp

lemma ctri_branch [ctri_intro]: "hooks_keep_cpu h \<Longrightarrow> ctri (wfk m x e) (branch h at b) (\<lambda>_. wfk m x e)"
  unfolding branch_def by (intro ctri_intro ctri_state) simp_all

lemma ok_branch: "hooks_keep_cpu h \<Longrightarrow> group_ok m x e (step_branch h at op)"
  unfolding step_branch_def
  by (auto split: option.split intro!: group_ok_Some group_ok_None ctri_intro)

lemma ctri_set_pc [ctri_intro]: "ctri (wfk m x e) (set_pc v) (\<lambda>_. wfk m x e)"
  unfolding set_pc_def by (intro ctri_intro) simp

lemma ctri_set_pb [ctri_intro]: "ctri (wfk m x e) (set_pb v) (\<lambda>_. wfk m x e)"
  unfolding set_pb_def by (intro ctri_intro) simp

lemma ctri_far_pc [ctri_intro]: "ctri (wfk m x e) (cpu_do (far_pc t)) (\<lambda>_. wfk m x e)"
  by (intro ctri_intro) (simp add: far_pc_def)

lemma ctri_push_frame [ctri_intro]: "ctri P (push_frame at l) (\<lambda>_. P)"
  by (auto simp: ctri_def hoare_def push_frame_def split: if_splits)

lemma ctri_table_index [ctri_intro]: "ctri P (table_index env at) (\<lambda>_. P)"
  unfolding table_index_def by (auto split: option.split intro!: ctri_intro)

lemma ctri_read_table [ctri_intro]: "hooks_keep_cpu h \<Longrightarrow> ctri P (read_table h p) (\<lambda>_. P)"
  unfolding read_table_def by (intro ctri_intro)

text \<open>A hook that runs instead of the callee keeps the invariant.\<close>

lemma ctri_extern:
  assumes "env_keeps_wf env" "ctri (wfk m x e) a (\<lambda>_. wf_cpu)"
    and "\<And>f. ctri (wfk m x e) f (\<lambda>_. wf_cpu) \<Longrightarrow> ctri (wfk m x e) (k f) (\<lambda>_. wf_cpu)"
  shows "ctri (wfk m x e) (bnd (extern_hook env t kind) (\<lambda>r. case r of Some f \<Rightarrow> k f | None \<Rightarrow> a)) (\<lambda>_. wf_cpu)"
proof (rule ctri_bnd)
  show "ctri (wfk m x e) (extern_hook env t kind)
     (\<lambda>r c. wfk m x e c \<and> (\<forall>f. r = Some f \<longrightarrow> ctri wf_cpu f (\<lambda>_. wf_cpu)))"
  proof -
    have "ctri wf_cpu (ext_hook y) (\<lambda>_. wf_cpu)" if "find (\<lambda>e. ext_addr e = t) (ct_externs env) = Some y" for y
      using that assms(1) by (auto simp: env_keeps_wf_def find_Some_iff)
    then show ?thesis unfolding extern_hook_def
      by (auto simp: ctri_def hoare_def bnd_Inr split: option.splits if_splits)
  qed
  show "ctri (\<lambda>c. wfk m x e c \<and> (\<forall>f. r = Some f \<longrightarrow> ctri wf_cpu f (\<lambda>_. wf_cpu)))
     (case r of None \<Rightarrow> a | Some f \<Rightarrow> k f) (\<lambda>_. wf_cpu)" for r
  proof (cases r)
    case None
    then show ?thesis using assms(2) by (auto intro: ctri_weaken)
  next
    case (Some f)
    show ?thesis
    proof (cases "ctri wf_cpu f (\<lambda>_. wf_cpu)")
      case True
      then have "ctri (wfk m x e) f (\<lambda>_. wf_cpu)" by (rule ctri_weaken) (auto dest: wfk_wf)
      from assms(3)[OF this] show ?thesis using Some by (auto intro: ctri_weaken)
    next
      case False
      then have "(\<lambda>c. wfk m x e c \<and> (\<forall>f. r = Some f \<longrightarrow> ctri wf_cpu f (\<lambda>_. wf_cpu))) = (\<lambda>c. False)"
        using Some by auto
      then show ?thesis by (simp add: ctri_def hoare_def)
    qed
  qed
qed

lemma ctri_to_wf: "ctri (wfk m x e) a (\<lambda>_. wfk m x e) \<Longrightarrow> ctri (wfk m x e) a (\<lambda>_. wf_cpu)"
  by (erule ctri_post) (rule wfk_wf)

lemma ctri_calls:
  assumes "hooks_keep_cpu h" "env_keeps_wf env"
  shows "ctri (wfk m x e) (op_jml env h) (\<lambda>_. wf_cpu)" "ctri (wfk m x e) (op_jsr env h at) (\<lambda>_. wf_cpu)"
    "ctri (wfk m x e) (op_jsl env h at) (\<lambda>_. wf_cpu)"
proof -
  show "ctri (wfk m x e) (op_jml env h) (\<lambda>_. wf_cpu)"
    unfolding op_jml_def
    by (rule ctri_keep_bnd, intro ctri_intro assms, rule ctri_keep_thn, intro ctri_intro,
        rule ctri_extern[OF assms(2), where k = "\<lambda>f. f"]) (auto intro!: ctri_ret dest: wfk_wf)
  show "ctri (wfk m x e) (op_jsr env h at) (\<lambda>_. wf_cpu)"
    unfolding op_jsr_def
    by (rule ctri_keep_bnd, intro ctri_intro assms, rule ctri_keep_bnd, intro ctri_intro, rule ctri_keep_thn,
        intro ctri_intro assms, rule ctri_extern[OF assms(2), where k = "\<lambda>f. f"], intro ctri_to_wf ctri_intro)
  show "ctri (wfk m x e) (op_jsl env h at) (\<lambda>_. wf_cpu)"
    unfolding op_jsl_def
    by (rule ctri_keep_bnd, intro ctri_intro assms, rule ctri_keep_thn, intro ctri_intro assms, rule ctri_keep_bnd,
        intro ctri_intro assms, rule ctri_keep_thn, intro ctri_intro assms,
        rule ctri_extern[OF assms(2), where k = "\<lambda>f. thn (set_pb _) f"], intro ctri_to_wf ctri_intro)
      (intro ctri_keep_thn ctri_set_pb)
qed

lemma ctri_state_act: "(\<And>s v s'. a s = Inr (v, s') \<Longrightarrow> cpu s' = cpu s) \<Longrightarrow> ctri P a (\<lambda>_. P)"
  by (auto simp: ctri_def hoare_def)

lemma ctri_returns:
  assumes "hooks_keep_cpu h"
  shows "ctri (wfk m x e) (op_rts_sys h at) (\<lambda>_. wfk m x e)" "ctri (wfk m x e) (op_rtl_sys h at) (\<lambda>_. wfk m x e)"
  unfolding op_rts_sys_def op_rtl_sys_def
  by (intro ctri_intro assms ctri_state_act; auto split: list.splits if_splits)+

lemma ok_jump:
  assumes "hooks_keep_cpu h" "env_keeps_wf env"
  shows "group_ok m x e (step_jump env h at op)"
  unfolding step_jump_def op_jmp_table_def op_jsr_table_def
  by (intro group_ok_if group_ok_None group_ok_wf[OF ctri_calls(1)] group_ok_wf[OF ctri_calls(2)] group_ok_wf[OF ctri_calls(3)]
      group_ok_Some ctri_returns ctri_intro assms)

lemma ctri_rti:
  assumes "hooks_keep_cpu h"
  shows "ctri (wfk m x e) (op_rti_sys h at) (\<lambda>_. wf_cpu)"
proof -
  have k: "ctri wf_cpu (pullw h) (\<lambda>_. wf_cpu)" "ctri wf_cpu (pull h) (\<lambda>_. wf_cpu)"
    using ctri_pullw[OF assms] ctri_pull[OF assms]
    by (auto simp: ctri_def hoare_def) (metis wfk_self wfk_wf)+
  have s: "ctri wf_cpu (set_pc v) (\<lambda>_. wf_cpu)" "ctri wf_cpu (set_pb b) (\<lambda>_. wf_cpu)" for v b
    by (auto simp: set_pc_def set_pb_def wf_cpu_def intro!: ctri_do)
  show ?thesis unfolding op_rti_sys_def
    by (rule ctri_keep_bnd, intro ctri_intro, intro ctri_if ctri_die, rule ctri_keep_bnd, intro ctri_intro assms,
        rule ctri_thn[OF ctri_unpack]) (intro ctri_intro k s)
qed

lemma ctri_block_move [ctri_intro]: "hooks_keep_cpu h \<Longrightarrow> ctri (wfk m x e) (block_move h at d) (\<lambda>_. wfk m x e)"
  unfolding block_move_def
  by (intro ctri_intro) (auto simp: Let_def wfk_def wf_cpu_def)

lemma ok_misc: "hooks_keep_cpu h \<Longrightarrow> group_ok m x e (step_misc h at op)"
  unfolding step_misc_def op_wai_def
  by (intro group_ok_if group_ok_None group_ok_wf[OF ctri_rti] group_ok_Some ctri_intro ctri_state) simp_all

lemma step_wf:
  assumes "hooks_keep_cpu h" "env_keeps_wf env"
  shows "ctri wf_cpu (step env h at op) (\<lambda>_. wf_cpu)"
proof -
  have "ctri (\<lambda>c'. c' = c) (case (fl_m c = 0, fl_x c = 0) of (m16, x16) \<Rightarrow>
     if is_alu op then alu_op h op (the (alu_mode op)) at
     else case first_some
       [step_rmw h op m16, step_tsb h op m16, step_bit h op, step_index h op m16 x16,
        map_option cpu_do (step_count op x16), map_option cpu_do (step_transfer op m16 x16),
        step_stack h op m16 x16, step_flags h op, step_branch h at op, step_jump env h at op,
        step_misc h at op] of
       Some a \<Rightarrow> a
     | None \<Rightarrow> die (Op_unsupported at op)) (\<lambda>_. wf_cpu)" if w: "wf_cpu c" for c
  proof -
    let ?m = "fl_m c" and ?x = "fl_x c" and ?e = "fl_e c"
    have g: "group_ok ?m ?x ?e (first_some
       [step_rmw h op (fl_m c = 0), step_tsb h op (fl_m c = 0), step_bit h op, step_index h op (fl_m c = 0) (fl_x c = 0),
        map_option cpu_do (step_count op (fl_x c = 0)), map_option cpu_do (step_transfer op (fl_m c = 0) (fl_x c = 0)),
        step_stack h op (fl_m c = 0) (fl_x c = 0), step_flags h op, step_branch h at op, step_jump env h at op,
        step_misc h at op])" (is "group_ok _ _ _ ?g")
      using assms
      by (intro group_ok_first)
        (simp add: ok_rmw ok_tsb ok_bit ok_index ok_count ok_transfer ok_stack ok_flags ok_branch ok_jump ok_misc)
    have "ctri (wfk ?m ?x ?e) (if is_alu op then alu_op h op (the (alu_mode op)) at
        else case ?g of Some a \<Rightarrow> a | None \<Rightarrow> die (Op_unsupported at op)) (\<lambda>_. wf_cpu)"
      using g assms(1) by (auto simp: group_ok_def split: option.split intro!: ctri_to_wf[OF ctri_alu] ctri_die)
    then show ?thesis using w by (auto intro: ctri_weaken wfk_self)
  qed
  then show ?thesis unfolding step_def by (rule ctri_get_bnd)
qed

end
