(* ===== verification/Ct_CycleCheck.thy ===== *)
theory Ct_CycleCheck
  imports Ct_Cycles
begin

text \<open>
  The two descriptions \<open>runtime/cycles.c\<close> gives of an instruction agree: the count per
  opcode with its penalties and the cycle-by-cycle template. Tables first (every opcode's
  template has the letters its count and its size say), then the walk of a template along
  the bus log, then the check \<open>cyc_check\<close> itself, which never has anything to report.
\<close>

section \<open>Every opcode's template against its count\<close>

lemmas tab_eval = cyc_col_def rmw_ops_def cyc_two_def branch_ops_def penalty_defs tmpl_col_def tmpl_two_def

definition tmpl_fee :: "string \<Rightarrow> nat \<times> u8" where
  "tmpl_fee t =
     (let num = (\<lambda>c. count_list t c) in
      (num CHR ''F'' + num CHR ''O'' + num CHR ''D'' + num CHR ''I'',
       (if num CHR ''m'' + num CHR ''p'' = 1 then P_M else 0)
       OR (if num CHR ''m'' + num CHR ''p'' = 2 then P_M2 else 0)
       OR (if num CHR ''w'' + num CHR ''q'' = 1 then P_X else 0)
       OR (if num CHR ''d'' = 1 then P_DL else 0)
       OR (if num CHR ''x'' = 1 then P_IDX else 0)
       OR (if num CHR ''b'' = 1 then P_BR else 0)
       OR (if num CHR ''n'' = 1 then P_RTI else 0)))"

abbreviation fees :: "(nat \<times> string) list \<Rightarrow> (nat \<times> nat \<times> u8) list" where
  "fees \<equiv> map (apsnd tmpl_fee)"

lemma fee_alu: "fees tmpl_alu_rows = cyc_alu_rows"
proof -
  have c: "map (\<lambda>(lo, t). (lo, tmpl_fee t)) tmpl_col = map (\<lambda>(lo, b, p). (lo, b, p OR P_M)) cyc_col"
    by (simp add: tmpl_col_def cyc_col_def tmpl_fee_def penalty_defs)
  have "map (apsnd tmpl_fee) (map (\<lambda>(lo, t). (32 * hi + lo, t)) tmpl_col)
      = map (\<lambda>(lo, b, p). (32 * hi + lo, b, p OR P_M)) cyc_col" for hi
    using arg_cong[OF c, of "map (\<lambda>(lo, e). (32 * hi + lo, e))"]
    by (simp add: o_def case_prod_unfold apsnd_def map_prod_def)
  moreover have "map (apsnd tmpl_fee) [(0x91, ''FOdDDIDm''), (0x99, ''FOOIDm''), (0x9D, ''FOOIDm'')]
    = [(0x91, 6, P_DL OR P_M), (0x99, 5, P_M), (0x9D, 5, P_M)]"
    by (simp add: tmpl_fee_def penalty_defs)
  ultimately show ?thesis by (simp add: tmpl_alu_rows_def cyc_alu_rows_def map_concat o_def)
qed

lemma fee_rmw: "fees tmpl_rmw_rows = cyc_rmw_rows"
proof -
  have "map tmpl_fee [''FOdDmImD'', ''FOODmImD'', ''FOdIDmImD'', ''FOOIDmImD'']
     = [(5, P_DL OR P_M2), (6, P_M2), (6, P_DL OR P_M2), (7, P_M2)]"
    by (simp add: tmpl_fee_def penalty_defs)
  then show ?thesis by (simp add: tmpl_rmw_rows_def cyc_rmw_rows_def map_concat o_def)
qed

lemma fee_flow: "fees tmpl_flow_rows = cyc_flow_rows"
  by (simp add: tmpl_flow_rows_def cyc_flow_rows_def tmpl_fee_def penalty_defs)
lemma fee_fi: "tmpl_fee ''FI'' = (2, 0)" "tmpl_fee ''FOb'' = (2, P_BR)" "tmpl_fee ''FO'' = (2,0)"
  by (simp_all add: tmpl_fee_def penalty_defs)

lemma fee_data_lit: "fees tmpl_data_rows =
     [(66, 2, 0), (4, 5, 10), (20, 5, 10), (12, 6, 2), (28, 6, 2), (137, 2, 1), (36, 3, 9),
      (44, 4, 1), (52, 4, 9), (60, 4, 17), (162, 2, 4), (160, 2, 4), (166, 3, 12),
      (164, 3, 12), (174, 4, 4), (172, 4, 4), (182, 4, 12), (180, 4, 12), (190, 4, 20),
      (188, 4, 20), (134, 3, 12), (132, 3, 12), (142, 4, 4), (140, 4, 4), (150, 4, 12),
      (148, 4, 12), (100, 3, 9), (116, 4, 9), (156, 4, 1), (158, 5, 1), (224, 2, 4),
      (192, 2, 4), (228, 3, 12), (196, 3, 12), (236, 4, 4), (204, 4, 4), (235, 3, 0),
      (72, 3, 1), (218, 3, 4), (90, 3, 4), (104, 4, 1), (250, 4, 4), (122, 4, 4), (139, 3, 0),
      (75, 3, 0), (8, 3, 0), (171, 4, 0), (40, 4, 0), (11, 4, 0), (43, 5, 0), (244, 5, 0),
      (212, 6, 8), (98, 6, 0), (194, 3, 0), (226, 3, 0)]"
  by (simp add: tmpl_data_rows_def tmpl_fee_def penalty_defs)

lemma map_of_set_eq:
  assumes "distinct (map fst xs)" "distinct (map fst ys)" "set xs = set ys"
  shows "map_of (rev xs) = map_of (rev ys)"
proof
  fix k
  show "map_of (rev xs) k = map_of (rev ys) k"
    using assms map_of_eq_Some_iff[of "rev xs" k] map_of_eq_Some_iff[of "rev ys" k]
    by (cases "map_of (rev xs) k"; cases "map_of (rev ys) k") (auto simp: rev_map[symmetric])
qed

lemma data_keys:
  "distinct (map fst (fees tmpl_data_rows))" "distinct (map fst ((0x42, 2, 0) # cyc_data_rows))"
  by (simp_all only: fee_data_lit) (simp_all add: cyc_data_rows_def)

lemma data_set: "set (fees tmpl_data_rows) = set ((0x42, 2, 0) # cyc_data_rows)"
proof
  show "set (fees tmpl_data_rows) \<subseteq> set ((0x42, 2, 0) # cyc_data_rows)"
    unfolding fee_data_lit by (simp add: cyc_data_rows_def penalty_defs)
  show "set ((0x42, 2, 0) # cyc_data_rows) \<subseteq> set (fees tmpl_data_rows)"
    unfolding fee_data_lit by (simp add: cyc_data_rows_def penalty_defs)
qed

lemma fee_data: "map_of (rev (fees tmpl_data_rows)) = map_of (rev ((0x42, 2, 0) # cyc_data_rows))"
  by (rule map_of_set_eq[OF data_keys data_set])

lemma table_fees: "map_of (rev (fees tmpl_rows)) = map_of (rev cyc_rows)"
proof -
  have two: "cyc_two = tmpl_two @ [0x42]" by (simp add: cyc_two_def tmpl_two_def)
  have f: "fees tmpl_rows = cyc_alu_rows @ cyc_rmw_rows @ map (\<lambda>op. (op, 2, 0)) tmpl_two @
      fees tmpl_data_rows @ map (\<lambda>op. (op, 2, P_BR)) branch_ops @ cyc_flow_rows"
    by (simp add: tmpl_rows_def fee_alu fee_rmw fee_flow fee_fi o_def)
  have c: "cyc_rows = cyc_alu_rows @ cyc_rmw_rows @ map (\<lambda>op. (op, 2, 0)) tmpl_two @
      ((0x42, 2, 0) # cyc_data_rows) @ map (\<lambda>op. (op, 2, P_BR)) branch_ops @ cyc_flow_rows"
    by (simp add: cyc_rows_def two)
  show ?thesis unfolding f c rev_append map_of_append fee_data by (rule refl)
qed

lemma map_of_fees: "map_of (map (apsnd f) xs) k = map_option f (map_of xs k)"
  by (induction xs) auto

lemma cyc_entry_fee:
  "cyc_entry (unat op) = (case tmpl op of Some t \<Rightarrow> tmpl_fee t | None \<Rightarrow> (0, 0))"
proof -
  have "map_of (rev cyc_rows) (unat op) = map_option tmpl_fee (tmpl op)"
    unfolding table_fees[symmetric] rev_map map_of_fees tmpl_def ..
  then show ?thesis by (simp add: cyc_entry_def split: option.split)
qed

section \<open>Templates against sizes\<close>


definition tmpl_shape :: "nat \<Rightarrow> string \<Rightarrow> bool" where
  "tmpl_shape k t \<longleftrightarrow>
     (let num = (\<lambda>c. count_list t c) in
      k < 256 \<and> num CHR ''F'' = 1 \<and> num CHR ''O'' + 1 = op_size_table ! k \<and>
      num CHR ''p'' = (if k mod 32 = 9 then 1 else 0) \<and>
      num CHR ''q'' = (if k = 0xA0 \<or> k = 0xA2 \<or> k = 0xC0 \<or> k = 0xE0 then 1 else 0) \<and>
      num CHR ''m'' + num CHR ''p'' \<le> 2 \<and> num CHR ''w'' + num CHR ''q'' \<le> 1 \<and> num CHR ''d'' \<le> 1 \<and>
      num CHR ''x'' \<le> 1 \<and> num CHR ''b'' \<le> 1 \<and> num CHR ''n'' \<le> 1 \<and>
      list_all (\<lambda>c. c \<in> set ''FODIdxbmwpqn'') t \<and> length t \<le> 12)"

lemma nth_concat_chunks:
  "\<forall>xs\<in>set xss. length xs = n \<Longrightarrow> j < n \<Longrightarrow> i < length xss \<Longrightarrow> concat xss ! (n * i + j) = xss ! i ! j"
proof (induction xss arbitrary: i)
  case (Cons xs xss)
  show ?case
  proof (cases i)
    case 0
    then show ?thesis using Cons.prems by (simp add: nth_append)
  next
    case (Suc m)
    then show ?thesis using Cons by (simp add: nth_append add.assoc)
  qed
qed simp

definition size_lines :: "nat list list" where
  "size_lines =
   [[2, 2, 2, 2, 2, 2, 2, 2, 1, 2, 1, 1, 3, 3, 3, 4],
    [2, 2, 2, 2, 2, 2, 2, 2, 1, 3, 1, 1, 3, 3, 3, 4],
    [3, 2, 4, 2, 2, 2, 2, 2, 1, 2, 1, 1, 3, 3, 3, 4],
    [2, 2, 2, 2, 2, 2, 2, 2, 1, 3, 1, 1, 3, 3, 3, 4],
    [1, 2, 2, 2, 3, 2, 2, 2, 1, 2, 1, 1, 3, 3, 3, 4],
    [2, 2, 2, 2, 3, 2, 2, 2, 1, 3, 1, 1, 4, 3, 3, 4],
    [1, 2, 3, 2, 2, 2, 2, 2, 1, 2, 1, 1, 3, 3, 3, 4],
    [2, 2, 2, 2, 2, 2, 2, 2, 1, 3, 1, 1, 3, 3, 3, 4],
    [2, 2, 3, 2, 2, 2, 2, 2, 1, 2, 1, 1, 3, 3, 3, 4],
    [2, 2, 2, 2, 2, 2, 2, 2, 1, 3, 1, 1, 3, 3, 3, 4],
    [2, 2, 2, 2, 2, 2, 2, 2, 1, 2, 1, 1, 3, 3, 3, 4],
    [2, 2, 2, 2, 2, 2, 2, 2, 1, 3, 1, 1, 3, 3, 3, 4],
    [2, 2, 2, 2, 2, 2, 2, 2, 1, 2, 1, 1, 3, 3, 3, 4],
    [2, 2, 2, 2, 2, 2, 2, 2, 1, 3, 1, 1, 3, 3, 3, 4],
    [2, 2, 2, 2, 2, 2, 2, 2, 1, 2, 1, 1, 3, 3, 3, 4],
    [2, 2, 2, 2, 3, 2, 2, 2, 1, 3, 1, 1, 3, 3, 3, 4]]"

lemma op_size_lines: "op_size_table = concat size_lines"
  by (simp add: op_size_table_def size_lines_def)

lemma op_size_at:
  assumes "k < 256" shows "op_size_table ! k = size_lines ! (k div 16) ! (k mod 16)"
proof -
  have "\<forall>xs\<in>set size_lines. length xs = 16" "length size_lines = 16" by (simp_all add: size_lines_def)
  moreover have "k div 16 < 16" using assms by (simp add: less_mult_imp_div_less)
  ultimately have "concat size_lines ! (16 * (k div 16) + k mod 16) = size_lines ! (k div 16) ! (k mod 16)"
    by (intro nth_concat_chunks) simp_all
  then show ?thesis by (simp add: op_size_lines)
qed

lemma shape_rmw: "list_all (\<lambda>(k, t). tmpl_shape k t) tmpl_rmw_rows"
  by (simp add: tmpl_rmw_rows_def tmpl_shape_def op_size_at tab_eval size_lines_def)
lemma shape_flow: "list_all (\<lambda>(k, t). tmpl_shape k t) tmpl_flow_rows"
  by (simp add: tmpl_flow_rows_def tmpl_shape_def op_size_at tab_eval size_lines_def)
lemma shape_data: "list_all (\<lambda>(k, t). tmpl_shape k t) tmpl_data_rows"
  by (simp add: tmpl_data_rows_def tmpl_shape_def op_size_at tab_eval size_lines_def)
lemma shape_two: "list_all (\<lambda>(k, t). tmpl_shape k t) (map (\<lambda>op. (op, ''FI'')) tmpl_two)"
  by (simp add: tmpl_shape_def op_size_at tab_eval size_lines_def)
lemma shape_br: "list_all (\<lambda>(k, t). tmpl_shape k t) (map (\<lambda>op. (op, ''FOb'')) branch_ops)"
  by (simp add: tmpl_shape_def op_size_at tab_eval size_lines_def)
lemma shape_alu: "list_all (\<lambda>(k, t). tmpl_shape k t) tmpl_alu_rows"
  by (simp add: tmpl_alu_rows_def tmpl_shape_def op_size_at tab_eval size_lines_def upt_rec)

lemma tmpl_shape: "tmpl op = Some t \<Longrightarrow> tmpl_shape (unat op) t"
proof -
  assume "tmpl op = Some t"
  then have "(unat op, t) \<in> set tmpl_rows" by (auto simp: tmpl_def dest: map_of_SomeD)
  moreover have "list_all (\<lambda>(k, t). tmpl_shape k t) tmpl_rows"
    by (simp add: tmpl_rows_def shape_rmw shape_flow shape_data shape_two shape_br shape_alu)
  ultimately show ?thesis by (auto simp: list_all_iff)
qed

section \<open>Walking a template along the bus log\<close>

definition entries :: "'a bus_state_scheme \<Rightarrow> bool \<Rightarrow> nat \<Rightarrow> nat list" where
  "entries s f k = filter (\<lambda>j. log_is_fetch s j = f) [k..<logged s]"

definition entry_clocks :: "'a bus_state_scheme \<Rightarrow> nat \<Rightarrow> u32" where
  "entry_clocks s j = to32 (ct_bus_log s (word_of_nat j) AND 0x3F)"

definition clock_total :: "cycle list \<Rightarrow> u32" where
  "clock_total cs = sum_list (map (\<lambda>(clk, _, _). to32 clk) cs)"

definition uses :: "'a cyc_state_scheme \<Rightarrow> char \<Rightarrow> string \<Rightarrow> nat" where
  "uses s c ts = length (filter (\<lambda>t. cyc_use s t = (True, c)) ts)"

lemma entries_rec:
  "entries s f k = (if k < logged s then if log_is_fetch s k = f then k # entries s f (Suc k) else entries s f (Suc k) else [])"
  by (auto simp: entries_def upt_conv_Cons)

lemma entries_next:
  "entries s f k = (if next_entry s f k < logged s
     then next_entry s f k # entries s f (Suc (next_entry s f k)) else [])"
proof (induction s f k rule: next_entry.induct)
  case (1 s f k)
  show ?case
  proof (cases "k < logged s \<and> log_is_fetch s k \<noteq> f")
    case True
    then have "entries s f k = entries s f (Suc k)" "next_entry s f k = next_entry s f (Suc k)"
      using entries_rec[of s f k] next_entry.simps[of s f k] by simp_all
    then show ?thesis using 1 True by simp
  next
    case False
    then have n: "next_entry s f k = k" using next_entry.simps[of s f k] by auto
    show ?thesis unfolding n using False entries_rec[of s f k] by auto
  qed
qed

lemma logged_le: "logged s \<le> 64"
  by (auto simp: logged_def CT_BUS_LOG_def word_less_nat_alt)

definition loop_clocks :: "'a cyc_state_scheme \<Rightarrow> string \<Rightarrow> nat \<Rightarrow> nat \<Rightarrow> u32" where
  "loop_clocks s ts fe da =
     of_nat (uses s CHR ''F'' ts + (if cu_compiled (cur s) then uses s CHR ''O'' ts else 0)) * cu_speed (cur s)
     + of_nat (uses s CHR ''I'' ts) * 6
     + sum_list (map (entry_clocks s) (entries s False da))
     + of_nat (uses s CHR ''D'' ts - length (entries s False da)) * 6
     + (if cu_compiled (cur s) then 0 else
         sum_list (map (entry_clocks s) (entries s True fe))
         + of_nat (uses s CHR ''O'' ts - length (entries s True fe)) * 6)"

lemma clock_total_append [simp]:
  "clock_total (xs @ [(a, b, c)]) = clock_total xs + to32 a"
  by (simp add: clock_total_def)

lemma uses_Cons [simp]:
  "uses s c (t # ts) = (if cyc_use s t = (True, c) then Suc (uses s c ts) else uses s c ts)"
  by (simp add: uses_def)

lemma cyc_use_kind: "t \<in> set ''FODIdxbmwpqn'' \<Longrightarrow> snd (cyc_use s t) \<in> {CHR ''F'', CHR ''O'', CHR ''I'', CHR ''D''}"
  by (auto simp: cyc_use_def Let_def)

lemma to32_to8: "(w :: u32) < 256 \<Longrightarrow> to32 (to8 w) = w"
  by (rule word_unat_eq_iff[THEN iffD2])
    (simp add: unsigned_ucast_eq take_bit_eq_mod word_less_nat_alt unat_mod)

lemma logged_not_max: "k < logged s \<Longrightarrow> (word_of_nat k :: u32) \<noteq> 0xFFFFFFFF"
proof -
  assume "k < logged s"
  then have "k < 64" using logged_le[of s] by simp
  then have "unat (word_of_nat k :: u32) = k" by (simp add: unat_of_nat)
  then show ?thesis using \<open>k < 64\<close> by auto
qed

lemma cyc_loop_clocks:
  assumes "list_all (\<lambda>c. c \<in> set ''FODIdxbmwpqn'') ts"
    and "length out + length ts \<le> mx" and "cu_speed (cur s) < 256"
    and "length (entries s False da) \<le> uses s CHR ''D'' ts"
    and "\<not> cu_compiled (cur s) \<Longrightarrow> length (entries s True fe) \<le> uses s CHR ''O'' ts"
  shows "clock_total (cyc_loop s mx 0xFFFFFFFF ts fe da out) = clock_total out + loop_clocks s ts fe da"
  using assms
proof (induction ts arbitrary: fe da out)
  case Nil
  then show ?case by (simp add: loop_clocks_def uses_def)
next
  case (Cons t ts)
  obtain u c where uc: "cyc_use s t = (u, c)" by fastforce
  have c: "c = CHR ''F'' \<or> c = CHR ''O'' \<or> c = CHR ''I'' \<or> c = CHR ''D''"
    using cyc_use_kind[of t s] Cons.prems(1) uc by simp
  have [simp]: "to32 (to8 (cu_speed (cur s))) = cu_speed (cur s)"
    using Cons.prems(3) by (rule to32_to8)
  show ?case
  proof (cases "u \<and> (c = CHR ''D'' \<or> c = CHR ''O'' \<and> \<not> cu_compiled (cur s))")
    case False
    then consider "\<not> u" | "u" "c = CHR ''F''" | "u" "c = CHR ''O''" "cu_compiled (cur s)" | "u" "c = CHR ''I''"
      using c by auto
    then show ?thesis
    proof cases
      case 1
      then show ?thesis using Cons.prems uc by (simp add: Cons.IH loop_clocks_def)
    next
      case 2
      then show ?thesis using Cons.prems uc by (simp add: Cons.IH loop_clocks_def distrib_right)
    next
      case 3
      then have "clock_total (cyc_loop s mx 0xFFFFFFFF ts fe da (out @ [(to8 (cu_speed (cur s)), CY_READ, - 1)]))
          = clock_total out + cu_speed (cur s) + loop_clocks s ts fe da"
        using Cons.prems uc by (subst Cons.IH) simp_all
      then show ?thesis using Cons.prems uc 3 by (simp add: loop_clocks_def distrib_right)
    next
      case 4
      then show ?thesis using Cons.prems uc by (simp add: Cons.IH loop_clocks_def distrib_right)
    qed
  next
    case True
    then consider (D) "u" "c = CHR ''D''" | (O) "u" "c = CHR ''O''" "\<not> cu_compiled (cur s)" by auto
    then show ?thesis
    proof cases
      case D
      define k where "k = next_entry s False da"
      show ?thesis
      proof (cases "k < logged s")
        case True
        then have e: "entries s False da = k # entries s False (Suc k)"
          using entries_next[of s False da] by (simp add: k_def)
        show ?thesis using Cons.prems D uc True e logged_not_max[OF True]
          by (simp add: Let_def k_def[symmetric] Cons.IH loop_clocks_def entry_clocks_def)
      next
        case False
        then have e: "entries s False da = []" "entries s False k = []"
          using entries_next[of s False da] entries_rec[of s False k] by (simp_all add: k_def)
        show ?thesis using Cons.prems D uc False e
          by (simp add: Let_def k_def[symmetric] Cons.IH loop_clocks_def distrib_right)
      qed
    next
      case O
      define k where "k = next_entry s True fe"
      show ?thesis
      proof (cases "k < logged s")
        case True
        then have e: "entries s True fe = k # entries s True (Suc k)"
          using entries_next[of s True fe] by (simp add: k_def)
        show ?thesis using Cons.prems O uc True e logged_not_max[OF True]
          by (simp add: Let_def k_def[symmetric] Cons.IH loop_clocks_def entry_clocks_def)
      next
        case False
        then have e: "entries s True fe = []" "entries s True k = []"
          using entries_next[of s True fe] entries_rec[of s True k] by (simp_all add: k_def)
        show ?thesis using Cons.prems O uc False e
          by (simp add: Let_def k_def[symmetric] Cons.IH loop_clocks_def distrib_right)
      qed
    qed
  qed
qed

text \<open>A letter counted only when its condition holds.\<close>

definition cond_count :: "bool \<Rightarrow> nat \<Rightarrow> nat" where
  "cond_count b k = (if b then k else 0)"

lemma cond_count_simps [simp]:
  "cond_count b 0 = 0" "cond_count True k = k" "cond_count False k = 0"
  "cond_count b (Suc k) = (if b then Suc (cond_count b k) else cond_count b k)"
  by (simp_all add: cond_count_def)

lemma length_filter_letters:
  assumes "list_all (\<lambda>c. c \<in> set L) ts" "distinct L"
  shows "length (filter P ts) = sum_list (map (\<lambda>l. cond_count (P l) (count_list ts l)) L)"
  using assms(1)
proof (induction ts)
  case Nil
  show ?case by (induction L) simp_all
next
  case (Cons t ts)
  have "sum_list (map (\<lambda>l. cond_count (P l) (count_list (t # ts) l)) L)
      = (\<Sum>l\<in>set L. cond_count (P l) (count_list ts l) + (if l = t then (if P t then 1 else 0) else 0))"
    unfolding sum_list_distinct_conv_sum_set[OF assms(2)] by (rule sum.cong) auto
  also have "\<dots> = sum_list (map (\<lambda>l. cond_count (P l) (count_list ts l)) L) + (if P t then 1 else 0)"
    using Cons.prems by (simp add: sum.distrib sum_list_distinct_conv_sum_set[OF assms(2)])
  finally show ?case using Cons by simp
qed

lemma uses_letters:
  assumes "list_all (\<lambda>c. c \<in> set ''FODIdxbmwpqn'') ts"
  shows "uses s CHR ''F'' ts = count_list ts CHR ''F''"
    and "uses s CHR ''O'' ts = count_list ts CHR ''O'' + cond_count (cu_m16 (cur s)) (count_list ts CHR ''p'')
      + cond_count (cu_x16 (cur s)) (count_list ts CHR ''q'')"
    and "uses s CHR ''D'' ts = count_list ts CHR ''D'' + cond_count (cu_m16 (cur s)) (count_list ts CHR ''m'')
      + cond_count (cu_x16 (cur s)) (count_list ts CHR ''w'')
      + cond_count (cu_native (cur s)) (count_list ts CHR ''n'')"
    and "uses s CHR ''I'' ts = count_list ts CHR ''I'' + cond_count (cu_dl (cur s)) (count_list ts CHR ''d'')
      + cond_count (ct_cyc_cross s \<or> cu_x16 (cur s)) (count_list ts CHR ''x'')
      + cond_count (ct_cyc_taken s) (count_list ts CHR ''b'')"
proof -
  have "cyc_use s CHR ''F'' = (True, CHR ''F'')" "cyc_use s CHR ''O'' = (True, CHR ''O'')"
    "cyc_use s CHR ''D'' = (True, CHR ''D'')" "cyc_use s CHR ''I'' = (True, CHR ''I'')"
    "cyc_use s CHR ''d'' = (cu_dl (cur s), CHR ''I'')" "cyc_use s CHR ''x'' = (ct_cyc_cross s \<or> cu_x16 (cur s), CHR ''I'')"
    "cyc_use s CHR ''b'' = (ct_cyc_taken s, CHR ''I'')" "cyc_use s CHR ''m'' = (cu_m16 (cur s), CHR ''D'')"
    "cyc_use s CHR ''w'' = (cu_x16 (cur s), CHR ''D'')" "cyc_use s CHR ''n'' = (cu_native (cur s), CHR ''D'')"
    "cyc_use s CHR ''p'' = (cu_m16 (cur s), CHR ''O'')" "cyc_use s CHR ''q'' = (cu_x16 (cur s), CHR ''O'')"
    by (simp_all add: cyc_use_def Let_def)
  note u = this
  have uses: "uses s c ts = sum_list (map (\<lambda>l. cond_count (cyc_use s l = (True, c)) (count_list ts l)) ''FODIdxbmwpqn'')" for c
    unfolding uses_def by (rule length_filter_letters[OF assms]) simp
  show "uses s CHR ''F'' ts = count_list ts CHR ''F''"
    unfolding uses by (simp add: u)
  show "uses s CHR ''O'' ts = count_list ts CHR ''O'' + cond_count (cu_m16 (cur s)) (count_list ts CHR ''p'')
      + cond_count (cu_x16 (cur s)) (count_list ts CHR ''q'')"
    unfolding uses by (simp add: u)
  show "uses s CHR ''D'' ts = count_list ts CHR ''D'' + cond_count (cu_m16 (cur s)) (count_list ts CHR ''m'')
      + cond_count (cu_x16 (cur s)) (count_list ts CHR ''w'')
      + cond_count (cu_native (cur s)) (count_list ts CHR ''n'')"
    unfolding uses by (simp add: u)
  show "uses s CHR ''I'' ts = count_list ts CHR ''I'' + cond_count (cu_dl (cur s)) (count_list ts CHR ''d'')
      + cond_count (ct_cyc_cross s \<or> cu_x16 (cur s)) (count_list ts CHR ''x'')
      + cond_count (ct_cyc_taken s) (count_list ts CHR ''b'')"
    unfolding uses by (simp add: u)
qed

lemma flag_bits:
  fixes a b c d e f g :: bool
  defines "p \<equiv> (if a then P_M else 0) OR (if b then P_M2 else 0) OR (if c then P_X else 0) OR (if d then P_DL else 0)
    OR (if e then P_IDX else 0) OR (if f then P_BR else 0) OR (if g then P_RTI else 0)"
  shows "p AND P_M \<noteq> 0 \<longleftrightarrow> a" "p AND P_M2 \<noteq> 0 \<longleftrightarrow> b" "p AND P_X \<noteq> 0 \<longleftrightarrow> c" "p AND P_DL \<noteq> 0 \<longleftrightarrow> d"
    "p AND P_IDX \<noteq> 0 \<longleftrightarrow> e" "p AND P_BR \<noteq> 0 \<longleftrightarrow> f" "p AND P_RTI \<noteq> 0 \<longleftrightarrow> g"
  unfolding p_def penalty_defs
  by (cases a; cases b; cases c; cases d; cases e; cases f; cases g; simp)+

lemma pen_count_uses:
  assumes t: "tmpl (cu_op (cur s)) = Some t"
  shows "pen_count s = uses s CHR ''F'' t + uses s CHR ''O'' t + uses s CHR ''D'' t + uses s CHR ''I'' t"
proof -
  have sh: "tmpl_shape (unat (cu_op (cur s))) t" using t by (rule tmpl_shape)
  then have l: "list_all (\<lambda>c. c \<in> set ''FODIdxbmwpqn'') t" by (simp add: tmpl_shape_def Let_def)
  have e: "cyc_base (cu_op (cur s)) = fst (tmpl_fee t)" "cyc_pen (cu_op (cur s)) = snd (tmpl_fee t)"
    by (simp_all add: cyc_base_def cyc_pen_def cyc_entry_fee t)
  have le: "count_list t CHR ''m'' + count_list t CHR ''p'' \<le> 2" "count_list t CHR ''w'' + count_list t CHR ''q'' \<le> 1"
    "count_list t CHR ''d'' \<le> 1" "count_list t CHR ''x'' \<le> 1" "count_list t CHR ''b'' \<le> 1" "count_list t CHR ''n'' \<le> 1"
    using sh by (simp_all add: tmpl_shape_def Let_def)
  have one: "(if k = (1::nat) \<and> b then 1 else 0) = cond_count b k" if "k \<le> 1" for k b
    using that by (auto simp: cond_count_def)
  have two: "(if k = (1::nat) \<and> b then 1 else 0) + (if k = 2 \<and> b then 2 else 0) = cond_count b k" if "k \<le> 2" for k b
    using that by (auto simp: cond_count_def)
  have plus: "cond_count b (i + j) = cond_count b i + cond_count b j" for b i j
    by (simp add: cond_count_def)
  show ?thesis
    unfolding pen_count_def Let_def e tmpl_fee_def fst_conv snd_conv flag_bits uses_letters[OF l]
    using one[OF le(2)] one[OF le(3)] one[OF le(4)] one[OF le(5)] one[OF le(6)] two[OF le(1)]
    by (simp add: plus)
qed

lemma and_1F: "unat (op AND 0x1F :: u8) = unat op mod 32"
proof -
  have "op AND 0x1F = take_bit 5 op" by (simp add: take_bit_eq_mask mask_eq_exp_minus_1)
  then show ?thesis by (simp add: unsigned_take_bit_eq take_bit_eq_mod unat_mod)
qed

lemma cur_size_uses:
  assumes t: "tmpl (cu_op (cur s)) = Some t"
  shows "cur_size (cur s) = Suc (uses s CHR ''O'' t)"
proof -
  let ?op = "cu_op (cur s)"
  have sh: "tmpl_shape (unat ?op) t" using t by (rule tmpl_shape)
  then have l: "list_all (\<lambda>c. c \<in> set ''FODIdxbmwpqn'') t" by (simp add: tmpl_shape_def Let_def)
  have c: "op_size ?op = Suc (count_list t CHR ''O'')"
     "count_list t CHR ''p'' = (if unat ?op mod 32 = 9 then 1 else 0)"
     "count_list t CHR ''q'' = (if unat ?op = 0xA0 \<or> unat ?op = 0xA2 \<or> unat ?op = 0xC0 \<or> unat ?op = 0xE0 then 1 else 0)"
    using sh by (simp_all add: tmpl_shape_def Let_def op_size_def)
  have "?op AND 0x1F = 9 \<longleftrightarrow> unat ?op mod 32 = 9" 
    by (simp add: word_unat_eq_iff and_1F)
  then show ?thesis unfolding uses_letters(2)[OF l] c(2,3) cur_size_def Let_def c(1)
    by (auto simp: word_unat_eq_iff cond_count_def)
qed

section \<open>The bus log's clocks\<close>

text \<open>
  The clocks counted since the instruction began are those of the log's entries, as long
  as the log holds them all. A register handler must leave the counts, the flag of fetches, the instruction begun and
  the entries made so far; the entries after them are its own, which a DMA overwrites. It does so with
  room for \<open>K\<close> more accesses before the 32-bit count wraps.
\<close>

definition log_view :: "'a cyc_state_scheme \<Rightarrow> u32 \<times> u32 \<times> (u32 \<Rightarrow> u8) \<times> u8 \<times> cyc_cur" where
  "log_view s = (ct_bus_clocks s, ct_bus_n s, ct_bus_log s, ct_bus_fetch s, cur s)"

definition same_log :: "nat \<Rightarrow> 'a cyc_state_scheme \<Rightarrow> 'a cyc_state_scheme \<Rightarrow> bool" where
  "same_log n s t \<longleftrightarrow> ct_bus_fetch t = ct_bus_fetch s \<and> cur t = cur s \<and> (\<forall>j<n. ct_bus_log t (word_of_nat j) = ct_bus_log s (word_of_nat j))"

definition log_kept :: "'a cyc_state_scheme \<Rightarrow> 'a cyc_state_scheme \<Rightarrow> bool" where
  "log_kept s t \<longleftrightarrow> ct_bus_clocks t = ct_bus_clocks s \<and> ct_bus_n t = ct_bus_n s \<and> same_log (unat (ct_bus_n s)) s t"

definition frames_log :: "nat \<Rightarrow> ('a cyc_state_scheme, 'b) act \<Rightarrow> bool" where
  "frames_log K m \<longleftrightarrow> (\<forall>s x t. unat (ct_bus_n s) + K < 2 ^ 32 \<longrightarrow> m s = Inr (x, t) \<longrightarrow> log_kept s t)"

definition hooks_frame :: "nat \<Rightarrow> ('a cyc_state_scheme) hooks \<Rightarrow> bool" where
  "hooks_frame K h \<longleftrightarrow>
     (\<forall>r f reg. hw_rd h r = Some f \<longrightarrow> frames_log K (f reg)) \<and> (\<forall>r f reg v. hw_wr h r = Some f \<longrightarrow> frames_log K (f reg v))"

definition clocks_logged :: "'a cyc_state_scheme \<Rightarrow> bool" where
  "clocks_logged s \<longleftrightarrow> (ct_bus_n s \<le> CT_BUS_LOG \<longrightarrow>
     ct_bus_clocks s = sum_list (map (entry_clocks s) [0..<unat (ct_bus_n s)]))"

datatype access = A_read u32 | A_fetch u32 | A_write u32 u8

fun run_access :: "('a bus_state_scheme) hooks \<Rightarrow> access \<Rightarrow> ('a bus_state_scheme, unit) act" where
  "run_access h (A_read a) = thn (read8 h a) (ret ())"
| "run_access h (A_fetch a) =
     thn (modify (\<lambda>s. s\<lparr>ct_bus_fetch := to8 CT_BUS_FETCH\<rparr>))
       (thn (read8 h a) (modify (\<lambda>s. s\<lparr>ct_bus_fetch := 0\<rparr>)))"
| "run_access h (A_write a v) = write8 h a v"

fun run_accesses :: "('a bus_state_scheme) hooks \<Rightarrow> access list \<Rightarrow> ('a bus_state_scheme, unit) act" where
  "run_accesses h [] = ret ()"
| "run_accesses h (x # xs) = thn (run_access h x) (run_accesses h xs)"

lemma access_clocks_values: "bus_access_clocks a s \<in> {6, 8, 12}"
  by (auto simp: bus_access_clocks_def)

lemma entry_low_bits:
  "ck \<in> {6, 8, 12} \<Longrightarrow> e \<in> {0, 0x40} \<Longrightarrow> to32 ((to8 (ck :: u32) OR e) AND 0x3F) = ck"
  "ck \<in> {6, 8, 12} \<Longrightarrow> to32 (to8 ((ck :: u32) OR CT_BUS_WRITE) AND 0x3F) = ck"
  by (auto simp: CT_BUS_WRITE_def)

lemma log_access_view:
  "log_view (log_access ck e s) =
     (ct_bus_clocks s + ck, ct_bus_n s + 1,
      (if ct_bus_n s < CT_BUS_LOG then (ct_bus_log s)(ct_bus_n s := e) else ct_bus_log s), ct_bus_fetch s, cur s)"
  by (simp add: log_access_def Let_def log_view_def)

lemma clocks_logged_view:
  "clocks_logged s \<longleftrightarrow> (case log_view s of (c, k, l, _) \<Rightarrow> k \<le> CT_BUS_LOG \<longrightarrow>
     c = sum_list (map (\<lambda>j. to32 (l (word_of_nat j) AND 0x3F)) [0..<unat k]))"
  by (simp add: clocks_logged_def log_view_def entry_clocks_def [abs_def])

lemma clocks_logged_step:
  assumes "clocks_logged s" "ct_bus_n s < 0xFFFFFFFF" "to32 (e AND 0x3F) = ck"
  shows "clocks_logged (log_access ck e s)"
proof (cases "ct_bus_n s < CT_BUS_LOG")
  case True
  then have lt: "unat (ct_bus_n s) < 64" by (simp add: CT_BUS_LOG_def word_less_nat_alt)
  have n: "unat (ct_bus_n s + 1) = Suc (unat (ct_bus_n s))" using lt by (simp add: unat_word_ariths)
  have o: "map (\<lambda>j. to32 ((if word_of_nat j = ct_bus_n s then e else ct_bus_log s (word_of_nat j)) AND 0x3F)) [0..<unat (ct_bus_n s)]
      = map (entry_clocks s) [0..<unat (ct_bus_n s)]"
  proof (rule map_cong)
    fix j assume "j \<in> set [0..<unat (ct_bus_n s)]"
    then have j: "j < unat (ct_bus_n s)" by simp
    then have "unat (word_of_nat j :: u32) = j" using lt by (simp add: unat_of_nat)
    then have "(word_of_nat j :: u32) \<noteq> ct_bus_n s" using j by auto
    then show "to32 ((if word_of_nat j = ct_bus_n s then e else ct_bus_log s (word_of_nat j)) AND 0x3F) = entry_clocks s j"
      by (simp add: entry_clocks_def)
  qed simp
  have "ct_bus_clocks s = sum_list (map (entry_clocks s) [0..<unat (ct_bus_n s)])"
    using assms(1) True by (simp add: clocks_logged_def)
  then show ?thesis using True assms(3)
    by (simp add: clocks_logged_view log_access_view n o)
next
  case False
  then have "\<not> ct_bus_n s + 1 \<le> CT_BUS_LOG" using assms(2)
    by (simp add: CT_BUS_LOG_def word_less_nat_alt word_le_nat_alt unat_word_ariths)
  then show ?thesis by (simp add: clocks_logged_view log_access_view)
qed

text \<open>An access adds one entry and keeps the sum; nothing else of the view changes.\<close>

definition log_inv :: "cyc_cur \<Rightarrow> nat \<Rightarrow> 'a cyc_state_scheme \<Rightarrow> bool" where
  "log_inv k n s \<longleftrightarrow> clocks_logged s \<and> unat (ct_bus_n s) = n \<and> ct_bus_fetch s \<in> {0, 0x40} \<and> cur s = k"

lemma log_inv_view: "log_view s' = log_view s \<Longrightarrow> log_inv k n s' = log_inv k n s"
  by (simp add: log_inv_def clocks_logged_view) (simp add: log_view_def)

lemma log_inv_step:
  assumes "log_inv k n s" "Suc n < 2 ^ 32" "to32 (e AND 0x3F) = ck"
  shows "log_inv k (Suc n) (log_access ck e s)"
proof -
  have lt: "ct_bus_n s < 0xFFFFFFFF" using assms by (simp add: log_inv_def word_less_nat_alt)
  then have n: "unat (ct_bus_n s + 1) = Suc n" using assms by (simp add: log_inv_def unat_word_ariths)
  have "clocks_logged (log_access ck e s)" using assms lt by (simp add: log_inv_def clocks_logged_step)
  moreover have "ct_bus_n (log_access ck e s) = ct_bus_n s + 1" "ct_bus_fetch (log_access ck e s) = ct_bus_fetch s"
     "cur (log_access ck e s) = cur s"
    by (simp_all add: log_access_def Let_def)
  ultimately show ?thesis using assms n by (simp add: log_inv_def)
qed

lemma log_inv_kept:
  assumes "log_kept s t"
  shows "log_inv k n t = log_inv k n s"
proof -
  have m: "map (entry_clocks t) [0..<unat (ct_bus_n s)] = map (entry_clocks s) [0..<unat (ct_bus_n s)]"
    using assms by (intro map_cong) (simp_all add: log_kept_def same_log_def entry_clocks_def)
  show ?thesis using assms by (simp add: log_inv_def clocks_logged_def log_kept_def same_log_def m del: map_eq_conv)
qed

lemma hooks_frame_rd:
  "hooks_frame K h \<Longrightarrow> hw_rd h r = Some f \<Longrightarrow> unat (ct_bus_n s) + K < 2 ^ 32 \<Longrightarrow> f reg s = Inr (x, s') \<Longrightarrow> log_kept s s'"
  unfolding hooks_frame_def frames_log_def by blast

lemma hooks_frame_wr:
  "hooks_frame K h \<Longrightarrow> hw_wr h r = Some f \<Longrightarrow> unat (ct_bus_n s) + K < 2 ^ 32 \<Longrightarrow> f reg v s = Inr (x, s') \<Longrightarrow> log_kept s s'"
  unfolding hooks_frame_def frames_log_def by blast

lemma log_view_mem:
  "log_view (set_mdr w t) = log_view t" "log_view (t\<lparr>sram := f\<rparr>) = log_view t"
  "log_view (wram_store off w t) = log_view t"
  by (simp_all add: set_mdr_def log_view_def wram_store_def wram_journal_def Let_def)

lemma read8_log:
  assumes "log_inv k n s" "hooks_frame K h" "Suc n + K < 2 ^ 32" "read8 h a s = Inr (v, s')"
  shows "log_inv k (Suc n) s'"
proof -
  let ?ck = "bus_access_clocks (a AND 0xFFFFFF) s"
  have "to32 ((to8 ?ck OR ct_bus_fetch s) AND 0x3F) = ?ck"
    using assms(1) by (intro entry_low_bits access_clocks_values) (simp add: log_inv_def)
  then have i: "log_inv k (Suc n) (log_access ?ck (to8 ?ck OR ct_bus_fetch s) s)"
    using assms by (intro log_inv_step) simp_all
  from assms(4) show ?thesis
  proof (cases rule: read8_cases)
    case mem
    then show ?thesis using log_inv_view[THEN iffD2, OF _ i, of s'] by (simp add: log_view_mem)
  next
    case (hw t f r reg u)
    have t: "log_inv k (Suc n) t" using log_inv_view[THEN iffD2, OF _ i, of t] hw(1) by simp
    then have "unat (ct_bus_n t) + K < 2 ^ 32" using assms(3) by (simp add: log_inv_def)
    from log_inv_kept[OF hooks_frame_rd[OF assms(2) hw(2) this hw(3)]] t have "log_inv k (Suc n) u" by blast
    then show ?thesis using log_inv_view[THEN iffD2, of s' u] hw(4) by (simp add: log_view_mem)
  qed
qed

lemma write8_log:
  assumes "log_inv k n s" "hooks_frame K h" "Suc n + K < 2 ^ 32" "write8 h a v s = Inr (x, s')"
  shows "log_inv k (Suc n) s'"
proof -
  let ?ck = "bus_access_clocks (a AND 0xFFFFFF) s"
  have i: "log_inv k (Suc n) (log_access ?ck (to8 (?ck OR CT_BUS_WRITE)) s)"
    using assms entry_low_bits(2)[OF access_clocks_values, of "a AND 0xFFFFFF" s] by (intro log_inv_step) simp_all
  from assms(4) show ?thesis
  proof (cases rule: write8_cases)
    case (wram t off)
    then show ?thesis using log_inv_view[THEN iffD2, OF _ i, of s'] by (simp add: log_view_mem)
  next
    case (sram t off)
    then show ?thesis using log_inv_view[THEN iffD2, OF _ i, of s'] by (simp add: log_view_mem)
  next
    case (hw t f r reg)
    have t: "log_inv k (Suc n) t" using log_inv_view[THEN iffD2, OF _ i, of t] hw(1) by (simp add: log_view_mem)
    then have "unat (ct_bus_n t) + K < 2 ^ 32" using assms(3) by (simp add: log_inv_def)
    from log_inv_kept[OF hooks_frame_wr[OF assms(2) hw(2) this hw(3)]] t show ?thesis by blast
  qed
qed

lemma log_inv_fetch: "f \<in> {0, 0x40} \<Longrightarrow> log_inv k n (s\<lparr>ct_bus_fetch := f\<rparr>) \<longleftrightarrow> clocks_logged s \<and> unat (ct_bus_n s) = n \<and> cur s = k"
  by (simp add: log_inv_def clocks_logged_view log_view_def)

lemma run_access_log:
  assumes "log_inv k n s" "hooks_frame K h" "Suc n + K < 2 ^ 32" "run_access h x s = Inr (u, s')"
  shows "log_inv k (Suc n) s'"
proof (cases x)
  case (A_read a)
  then show ?thesis using assms read8_log[OF assms(1-3)] by (auto simp: thn_def bnd_Inr)
next
  case (A_write a v)
  then show ?thesis using assms write8_log[OF assms(1-3)] by auto
next
  case (A_fetch a)
  then obtain v t where t: "read8 h a (s\<lparr>ct_bus_fetch := to8 CT_BUS_FETCH\<rparr>) = Inr (v, t)" "s' = t\<lparr>ct_bus_fetch := 0\<rparr>"
    using assms(4) by (auto simp: thn_def bnd_Inr)
  have "log_inv k n (s\<lparr>ct_bus_fetch := to8 CT_BUS_FETCH\<rparr>)"
    using assms(1) by (subst log_inv_fetch) (simp_all add: CT_BUS_FETCH_def log_inv_def)
  then have "log_inv k (Suc n) t" using read8_log[OF _ assms(2,3) t(1)] by blast
  then show ?thesis unfolding t(2) by (subst log_inv_fetch) (simp_all add: log_inv_def)
qed

lemma run_accesses_log:
  "log_inv k n s \<Longrightarrow> hooks_frame K h \<Longrightarrow> n + length xs + K < 2 ^ 32 \<Longrightarrow> run_accesses h xs s = Inr (u, s') \<Longrightarrow>
   log_inv k (n + length xs) s'"
proof (induction xs arbitrary: n s)
  case (Cons x xs)
  then obtain v t where t: "run_access h x s = Inr (v, t)" "run_accesses h xs t = Inr (u, s')"
    by (auto simp: thn_def bnd_Inr)
  have "log_inv k (Suc n) t" using run_access_log[OF Cons.prems(1,2) _ t(1)] Cons.prems(3) by simp
  then show ?case using Cons.IH[OF _ Cons.prems(2) _ t(2), of "Suc n"] Cons.prems(3) by simp
qed simp

section \<open>The check\<close>

text \<open>
  The accesses made fit the opcode's template: no more data accesses than its data cycles,
  no more operand fetches than its operand cycles (none at all when compiled).
\<close>

definition accesses_fit :: "'a cyc_state_scheme \<Rightarrow> bool" where
  "accesses_fit s = (case tmpl (cu_op (cur s)) of None \<Rightarrow> True | Some t \<Rightarrow>
     length (entries s False 0) \<le> uses s CHR ''D'' t \<and>
     length (entries s True 0) \<le> (if cu_compiled (cur s) then 0 else uses s CHR ''O'' t))"

text \<open>What \<open>cyc_begin\<close> and \<open>cyc_begin_compiled\<close> record.\<close>

definition cur_begun :: "cyc_cur \<Rightarrow> bool" where
  "cur_begun k \<longleftrightarrow> cu_speed k \<in> {6, 8} \<and> (cu_compiled k \<longrightarrow> cu_size k = word_of_nat (cur_size k))"

lemma entries_sum:
  fixes f :: "nat \<Rightarrow> u32"
  shows "sum_list (map f (entries s False 0)) + sum_list (map f (entries s True 0)) = sum_list (map f [0..<logged s])"
    and "length (entries s False 0) + length (entries s True 0) = logged s"
proof -
  have "sum_list (map f (filter (\<lambda>j. log_is_fetch s j = False) xs)) + sum_list (map f (filter (\<lambda>j. log_is_fetch s j = True) xs))
     = sum_list (map f xs)" for xs
    by (induction xs) (simp_all add: ac_simps)
  then show "sum_list (map f (entries s False 0)) + sum_list (map f (entries s True 0)) = sum_list (map f [0..<logged s])"
    by (simp only: entries_def)
  have "length (filter (\<lambda>j. log_is_fetch s j = False) xs) + length (filter (\<lambda>j. log_is_fetch s j = True) xs) = length xs" for xs
    by (induction xs) simp_all
  from this[of "[0..<logged s]"]
  show "length (entries s False 0) + length (entries s True 0) = logged s"
    by (simp add: entries_def)
qed

lemma uses_le: "uses s c ts \<le> length ts"
  by (simp add: uses_def)

lemma check_agrees:
  assumes inv: "log_inv k n s" and n: "n \<le> 64" and b: "cur_begun k"
    and fit: "accesses_fit s" and t: "tmpl (cu_op (cur s)) = Some t" and i: "\<not> cu_interrupt (cur s)"
  shows "model_clocks s = Inr (clock_total (cyc_cycles s 128 0xFFFFFFFF))"
proof -
  let ?D = "uses s CHR ''D'' t" and ?O = "uses s CHR ''O'' t" and ?I = "uses s CHR ''I'' t"
  have sh: "tmpl_shape (unat (cu_op (cur s))) t" using t by (rule tmpl_shape)
  then have l: "list_all (\<lambda>c. c \<in> set ''FODIdxbmwpqn'') t" and F: "uses s CHR ''F'' t = 1" and len: "length t \<le> 12"
    by (simp_all add: tmpl_shape_def Let_def uses_letters)
  have cur: "cur s = k" and un: "unat (ct_bus_n s) = n" and cl: "clocks_logged s" using inv by (simp_all add: log_inv_def)
  have lg: "logged s = n" using n un by (auto simp: logged_def CT_BUS_LOG_def word_less_nat_alt)
  have busn: "ct_bus_n s = word_of_nat n" by (simp add: un[symmetric])
  have clocks: "ct_bus_clocks s = sum_list (map (entry_clocks s) [0..<n])"
    using cl n un by (simp add: clocks_logged_def CT_BUS_LOG_def word_le_nat_alt)
  define dn where "dn = length (entries s False 0)"
  define fn where "fn = length (entries s True 0)"
  have dfn: "dn + fn = n" using entries_sum(2)[of s] lg by (simp add: dn_def fn_def)
  have dle: "dn \<le> ?D" and fle: "fn \<le> (if cu_compiled (cur s) then 0 else ?O)"
    using fit t by (simp_all add: accesses_fit_def dn_def fn_def split: if_splits)
  define sp where "sp = cu_speed (cur s)"
  have sp: "sp < 256" using b cur by (auto simp: cur_begun_def sp_def)
  have walk: "clock_total (cyc_cycles s 128 0xFFFFFFFF) = loop_clocks s t 0 0"
    unfolding cyc_cycles_def
    using i t cyc_loop_clocks[OF l, of "[]" 128 s 0 0] len dle fle sp
    by (simp add: clock_total_def dn_def fn_def sp_def split: if_splits)
  have pc: "pen_count s = 1 + ?O + ?D + ?I" using pen_count_uses[OF t] F by simp
  have bnd: "?O \<le> 12" "?D \<le> 12" "?I \<le> 12" using uses_le[of s _ t] len order_trans by blast+
  define fs where "fs = (if cu_compiled (cur s) then ?O else 0)"
  have fs: "(if cu_compiled (cur s) then cu_size (cur s) - 1 else 0) = word_of_nat fs"
    using b cur cur_size_uses[OF t] by (auto simp: fs_def cur_begun_def)
  have used: "1 + word_of_nat fs + ct_bus_n s = (word_of_nat (1 + fs + n) :: u32)" by (simp add: busn)
  have fsle: "fs + fn \<le> ?O" using fle by (auto simp: fs_def)
  have un2: "unat (word_of_nat (1 + fs + n) :: u32) = 1 + fs + n" "unat (word_of_nat (pen_count s) :: u32) = pen_count s"
    using n bnd pc fsle by (intro unat_of_nat32; linarith)+
  have ge: "1 + fs + n \<le> pen_count s" using pc dfn dle fsle by simp
  define miss where "miss = pen_count s - (1 + fs + n)"
  have miss: "miss = ?I + (?D - dn) + (?O - fs - fn)" using pc dfn dle fsle by (simp add: miss_def)
  have sub: "(word_of_nat (pen_count s) - word_of_nat (1 + fs + n) :: u32) = word_of_nat miss"
    using ge by (simp add: miss_def of_nat_diff)
  have gt: "(word_of_nat (pen_count s) > (word_of_nat (1 + fs + n) :: u32)) = (pen_count s > 1 + fs + n)"
    unfolding word_less_nat_alt un2 ..
  have m0: "\<not> pen_count s > 1 + fs + n \<Longrightarrow> miss = 0" by (simp add: miss_def)
  have mc: "model_clocks s = Inr (sp * (1 + word_of_nat fs) + ct_bus_clocks s + word_of_nat miss * 6)"
    unfolding model_clocks_def Let_def fs used gt sub sp_def[symmetric]
    using pc m0 by auto
  have es: "sum_list (map (entry_clocks s) (entries s False 0)) + sum_list (map (entry_clocks s) (entries s True 0)) = ct_bus_clocks s"
    using entries_sum(1)[of "entry_clocks s" s] clocks lg by simp
  have "loop_clocks s t 0 0 = sp * (1 + word_of_nat fs) + ct_bus_clocks s + word_of_nat miss * 6"
  proof (cases "cu_compiled (cur s)")
    case True
    then have "entries s True 0 = []" using fle by (simp add: fn_def)
    then show ?thesis using True es fsle
      by (simp add: loop_clocks_def F miss fs_def sp_def[symmetric] dn_def[symmetric] algebra_simps fn_def)
  next
    case False
    then show ?thesis using es[symmetric] 
      by (simp add: loop_clocks_def F miss fs_def sp_def[symmetric] dn_def[symmetric] fn_def[symmetric] algebra_simps)
  qed
  then show ?thesis by (simp add: mc walk)
qed

section \<open>The opcodes with a count\<close>

definition alu_keys :: "nat list" where "alu_keys = map fst tmpl_col"
definition other_keys :: "nat list" where
  "other_keys = map fst tmpl_rmw_rows @ tmpl_two @ map fst tmpl_data_rows @ branch_ops @ map fst tmpl_flow_rows"

lemma alu_keys: "alu_keys = [1, 3, 5, 7, 9, 13, 15, 17, 18, 19, 21, 23, 25, 29, 31]"
  by (simp add: alu_keys_def tmpl_col_def)

lemma key_in_tmpl:
  assumes "k < 256" "k mod 32 \<in> set alu_keys \<or> k \<in> set other_keys"
  shows "k \<in> fst ` set tmpl_rows"
proof (cases "k \<in> set other_keys")
  case True
  then show ?thesis by (auto simp: other_keys_def tmpl_rows_def image_Un image_image)
next
  case False
  then obtain t where "(k mod 32, t) \<in> set tmpl_col" using assms(2) by (auto simp: alu_keys_def)
  moreover have "k div 32 < 8" using assms(1) by (simp add: less_mult_imp_div_less)
  ultimately have "(32 * (k div 32) + k mod 32, t) \<in> set tmpl_alu_rows"
    by (force simp: tmpl_alu_rows_def)
  then show ?thesis by (force simp: tmpl_rows_def)
qed

lemma other_keys_lit: "other_keys = [6, 14, 22, 30, 38, 46, 54, 62, 70, 78, 86, 94, 102, 110, 118, 126, 230, 238, 246, 254, 198, 206, 214, 222, 10, 42, 74, 106, 26, 58, 232, 200, 202, 136, 170, 168, 138, 152, 155, 187, 186, 154, 91, 123, 27, 59, 24, 56, 88, 120, 216, 248, 184, 251, 234, 66, 4, 20, 12, 28, 137, 36, 44, 52, 60, 162, 160, 166, 164, 174, 172, 182, 180, 190, 188, 134, 132, 142, 140, 150, 148, 100, 116, 156, 158, 224, 192, 228, 196, 236, 204, 235, 72, 218, 90, 104, 250, 122, 139, 75, 8, 171, 40, 11, 43, 244, 212, 98, 194, 226, 16, 48, 80, 112, 144, 176, 208, 240, 128, 130, 76, 92, 108, 124, 220, 32, 252, 34, 96, 107, 64, 84, 68, 203, 219]"
  by (simp add: other_keys_def tmpl_rmw_rows_def rmw_ops_def tmpl_two_def tmpl_data_rows_def branch_ops_def tmpl_flow_rows_def)

lemma covered:
  "list_all (\<lambda>lo. list_all (\<lambda>hi. 32 * hi + lo = 0 \<or> 32 * hi + lo = 2 \<or> 32 * hi + lo \<in> set other_keys) [0,1,2,3,4,5,6,7])
     [0, 2, 4, 6, 8, 10, 11, 12, 14, 16, 20, 22, 24, 26, 27, 28, 30]"
  unfolding other_keys_lit by simp

lemma key_lists:
  "(x::nat) < 8 \<Longrightarrow> x \<in> set [0,1,2,3,4,5,6,7]"
  "(x::nat) < 32 \<Longrightarrow> x \<notin> set alu_keys \<Longrightarrow> x \<in> set [0, 2, 4, 6, 8, 10, 11, 12, 14, 16, 20, 22, 24, 26, 27, 28, 30]"
  unfolding alu_keys by simp_all presburger+

lemma tmpl_keys: "k \<in> fst ` set tmpl_rows \<Longrightarrow> k mod 32 \<in> set alu_keys \<or> k \<in> set other_keys"
proof -
  have c: "lo \<in> set alu_keys \<Longrightarrow> (32 * hi + lo) mod 32 = lo" for hi lo
    by (auto simp: alu_keys)
  assume "k \<in> fst ` set tmpl_rows"
  then show ?thesis
    by (auto simp: tmpl_rows_def other_keys_def tmpl_alu_rows_def image_Un image_image alu_keys_def [symmetric])
      (auto simp: alu_keys tmpl_col_def)
qed

lemma tmpl_dom: "tmpl op = None \<longleftrightarrow> op = 0 \<or> op = 2"
proof
  assume n: "tmpl op = None"
  let ?k = "unat op"
  have k: "?k < 256" by (rule unat_bounds)
  have "?k \<notin> fst ` set tmpl_rows" using n by (auto simp: tmpl_def map_of_eq_None_iff)
  then have no: "?k mod 32 \<notin> set alu_keys" "?k \<notin> set other_keys" using key_in_tmpl[OF k] by blast+
  have e: "?k = 32 * (?k div 32) + ?k mod 32" by simp
  have "?k div 32 < 8" using k by (simp add: less_mult_imp_div_less)
  then have hi: "?k div 32 \<in> set [0,1,2,3,4,5,6,7]" by (rule key_lists)
  have "?k mod 32 < 32" by simp
  then have lo: "?k mod 32 \<in> set [0, 2, 4, 6, 8, 10, 11, 12, 14, 16, 20, 22, 24, 26, 27, 28, 30]"
    using no(1) by (rule key_lists)
  have "?k = 0 \<or> ?k = 2 \<or> ?k \<in> set other_keys"
    using covered hi lo e unfolding list_all_iff by metis
  then show "op = 0 \<or> op = 2" using no(2) by (auto simp: word_unat_eq_iff)
next
  have "0 \<notin> fst ` set tmpl_rows" "2 \<notin> fst ` set tmpl_rows"
    using tmpl_keys[of 0] tmpl_keys[of 2] unfolding other_keys_lit alu_keys by auto
  moreover assume "op = 0 \<or> op = 2"
  ultimately show "tmpl op = None" by (auto simp: tmpl_def map_of_eq_None_iff image_iff)
qed

section \<open>Properties\<close>

lemma model_clocks_fails:
  "model_clocks s = Inl e \<longleftrightarrow> tmpl (cu_op (cur s)) = None \<and> e = No_cycle_count (cu_at (cur s)) (cu_op (cur s))"
proof (cases "tmpl (cu_op (cur s))")
  case None
  then have "pen_count s = 0"
    by (simp add: pen_count_def Let_def cyc_base_def cyc_pen_def cyc_entry_fee)
  then show ?thesis using None by (auto simp: model_clocks_def Let_def)
next
  case (Some t)
  then have "tmpl_shape (unat (cu_op (cur s))) t" by (rule tmpl_shape)
  then have "pen_count s \<noteq> 0"
    using pen_count_uses[OF Some] by (simp add: uses_letters tmpl_shape_def Let_def)
  then show ?thesis using Some by (auto simp: model_clocks_def Let_def)
qed

text \<open>C29. An instruction can be charged for unless it is BRK or COP: for every other opcode
  the count exists, and the error of those two names their address and opcode.\<close>

theorem cyc_finish_fails:
  "cyc_finish s = Inl e \<longleftrightarrow>
     cu_pending (cur s) \<and> (cu_op (cur s) = 0 \<or> cu_op (cur s) = 2) \<and>
     e = No_cycle_count (cu_at (cur s)) (cu_op (cur s))"
proof -
  let ?s = "s\<lparr>cur := (cur s)\<lparr>cu_pending := False, cu_interrupt := False\<rparr>\<rparr>"
  have "model_clocks ?s = Inl e \<longleftrightarrow> (cu_op (cur s) = 0 \<or> cu_op (cur s) = 2) \<and>
     e = No_cycle_count (cu_at (cur s)) (cu_op (cur s))"
    by (simp add: model_clocks_fails tmpl_dom)
  then show ?thesis by (auto simp: cyc_finish_def Let_def split: sum.splits)
qed

lemma cyc_begin_view:
  "log_inv (cur (cyc_begin c at op s)) 0 (cyc_begin c at op s) \<longleftrightarrow> ct_bus_fetch s \<in> {0, 0x40}"
  by (simp add: log_inv_def cyc_begin_def clocks_logged_def Let_def)

lemma cyc_begin_begun: "cur_begun (cur (cyc_begin c at op s))"
  by (simp add: cur_begun_def cyc_begin_def cyc_master_per_cycle_def Let_def)

lemma cur_size_size: "cur_size (k\<lparr>cu_size := z\<rparr>) = cur_size k"
  by (simp add: cur_size_def Let_def)

lemma cyc_begin_compiled_begun: "cur_begun (cur (cyc_begin_compiled c at op s))"
  using cyc_begin_begun[of c at op s]
  by (simp add: cur_begun_def cyc_begin_compiled_def Let_def cur_size_size)

lemma cyc_begin_compiled_view:
  "log_inv (cur (cyc_begin_compiled c at op s)) 0 (cyc_begin_compiled c at op s) \<longleftrightarrow> ct_bus_fetch s \<in> {0, 0x40}"
  by (simp add: log_inv_def cyc_begin_compiled_def cyc_begin_def clocks_logged_def Let_def)

lemma entries_flags [simp]:
  "entries (s\<lparr>ct_cyc_cross := x, ct_cyc_taken := y\<rparr>) = entries s"
  by (simp add: entries_def [abs_def] log_is_fetch_def [abs_def] logged_def)

lemma uses_flags:
  "c = CHR ''D'' \<or> c = CHR ''O'' \<Longrightarrow> uses (s\<lparr>ct_cyc_cross := x, ct_cyc_taken := y\<rparr>) c t = uses s c t"
proof -
  assume "c = CHR ''D'' \<or> c = CHR ''O''"
  then have "(cyc_use (s\<lparr>ct_cyc_cross := x, ct_cyc_taken := y\<rparr>) a = (True, c)) = (cyc_use s a = (True, c))" for a
    by (auto simp: cyc_use_def Let_def)
  then show ?thesis by (simp add: uses_def)
qed

text \<open>From the beginning of an instruction and after any accesses that fit its template, the clocks of the template's cycles are the
  clocks the opcode's count gives, with any register table that leaves the log alone.\<close>

lemma check_quiet:
  assumes "hooks_frame K h" "64 + K < 2 ^ 32" and "ct_bus_fetch s0 \<in> {0, 0x40}" and "length xs \<le> 64"
    and "run_accesses h xs (if compiled then cyc_begin_compiled c at op s0 else cyc_begin c at op s0) = Inr (u, s)"
    and "accesses_fit s"
  shows "cyc_check (s\<lparr>ct_cyc_cross := cross, ct_cyc_taken := taken\<rparr>) = Inr None"
proof -
  let ?b = "if compiled then cyc_begin_compiled c at op s0 else cyc_begin c at op s0"
  let ?s = "s\<lparr>ct_cyc_cross := cross, ct_cyc_taken := taken\<rparr>"
  have b: "log_inv (cur ?b) 0 ?b" "cur_begun (cur ?b)"
    using assms(3) by (simp_all add: cyc_begin_view cyc_begin_compiled_view cyc_begin_begun cyc_begin_compiled_begun)
  have "log_inv (cur ?b) (0 + length xs) s"
    using b(1) assms by (intro run_accesses_log[OF _ assms(1) _ assms(5)]) simp_all
  then have inv: "log_inv (cur ?b) (length xs) ?s"
    by (simp add: log_inv_def clocks_logged_def) (simp add: entry_clocks_def [abs_def])
  have fit: "accesses_fit ?s" using assms(6) by (simp add: accesses_fit_def uses_flags split: option.splits if_splits)
  show ?thesis
  proof (cases "tmpl (cu_op (cur ?s)) = None \<or> cu_interrupt (cur ?s)")
    case True
    then show ?thesis by (auto simp: cyc_check_def)
  next
    case False
    then obtain t where t: "tmpl (cu_op (cur ?s)) = Some t" "\<not> cu_interrupt (cur ?s)" by auto
    have "model_clocks ?s = Inr (clock_total (cyc_cycles ?s 128 0xFFFFFFFF))"
      by (rule check_agrees[OF inv assms(4) b(2) fit t])
    then show ?thesis by (simp add: cyc_check_def clock_total_def Let_def)
  qed
qed
text \<open>The speed the cycle model gives a fetch is the bus's own access speed at that
  address, wherever code can be: in WRAM, SRAM or ROM.\<close>

theorem fetch_speed:
  assumes "fst (decode_addr (addr24 pb pc)) \<in> {R_WRAM, R_SRAM, R_ROM}"
  shows "cyc_master_per_cycle pb pc s = bus_access_clocks (addr24 pb pc) s"
proof -
  have b: "pb AND 0x80 \<noteq> 0 \<longleftrightarrow> pb \<ge> 0x80" "pb AND 0x40 \<noteq> 0 \<longleftrightarrow> bit pb 6"
    using and_exp_eq_0_iff_not_bit[of pb 7] and_exp_eq_0_iff_not_bit[of pb 6] by (simp_all add: u8_ge_80)
  have s7: "pb AND 0x7F < 0x40 \<longleftrightarrow> \<not> bit pb 6"
  proof -
    have "pb AND 0x7F = take_bit 7 pb" by (simp add: take_bit_eq_mask mask_eq_exp_minus_1)
    then have u: "unat (pb AND 0x7F) = unat pb mod 128"
      by (simp add: unsigned_take_bit_eq take_bit_eq_mod unat_mod)
    have "unat pb mod (64 * 2) = 64 * (unat pb div 64 mod 2) + unat pb mod 64" by (rule mod_mult2_eq)
    moreover have "unat pb mod 64 < 64" by simp
    ultimately have "unat pb mod 128 < 64 \<longleftrightarrow> unat pb div 64 mod 2 = 0" by auto
    then show ?thesis by (simp add: word_less_nat_alt u bit_iff_odd_div even_iff_mod_2_eq_zero)
  qed
  have c0: "pb \<ge> 0xC0 \<longleftrightarrow> pb \<ge> 0x80 \<and> bit pb 6"
  proof -
    have "unat pb \<ge> 128 \<Longrightarrow> odd (unat pb div 64) \<longleftrightarrow> unat pb \<ge> 192"
    proof -
      assume h: "unat pb \<ge> 128"
      have "unat pb div 64 = (if unat pb \<ge> 192 then 3 else 2)"
        using h unat_bounds(1)[of pb] by (auto intro!: div_nat_eqI)
      then show ?thesis by simp
    qed
    then show ?thesis by (auto simp: word_le_nat_alt bit_iff_odd_div)
  qed
  have hw: "bit pb 6 \<or> \<not> (0x2000 \<le> pc \<and> pc < 0x6000)"
  proof (rule ccontr)
    assume "\<not> ?thesis"
    then have "\<not> bit pb 6" "0x2000 \<le> pc" "pc < 0x6000" by auto
    moreover from this(1) have "\<not> pb \<ge> 0xC0" "pb \<noteq> 0x7E" "pb \<noteq> 0x7F" "\<not> (pb \<ge> 0x40 \<and> pb \<le> 0x7D)"
    proof -
      have d: "unat pb div 64 = 1" if "64 \<le> unat pb" "unat pb \<le> 127"
        using that by (intro div_nat_eqI) simp_all
      have "\<not> (64 \<le> unat pb \<and> unat pb \<le> 127)"
        using d \<open>\<not> bit pb 6\<close> by (auto simp: bit_iff_odd_div)
      then show "\<not> pb \<ge> 0xC0" "pb \<noteq> 0x7E" "pb \<noteq> 0x7F" "\<not> (pb \<ge> 0x40 \<and> pb \<le> 0x7D)"
        using c0 \<open>\<not> bit pb 6\<close> by (auto simp: word_le_nat_alt)
    qed
    ultimately show False using assms by (auto simp: decode_addr_def Let_def word_le_nat_alt word_less_nat_alt)
  qed
  show ?thesis
    unfolding access_clocks_addr24 access_speed_def cyc_master_per_cycle_def Let_def b s7 c0
    using hw by (auto simp: word_le_nat_alt word_less_nat_alt)
qed

theorem fetch_speed_witness:
  "cyc_master_per_cycle 0xC0 0x1234 (bus_zero\<lparr>memsel := 1\<rparr>) = 6 \<and>
   bus_access_clocks (addr24 0xC0 0x1234) (bus_zero\<lparr>memsel := 1\<rparr>) = 6"
proof -
  have "fst (decode_addr (addr24 0xC0 0x1234)) \<in> {R_WRAM, R_SRAM, R_ROM}"
    by (simp add: decode_addr_def Let_def addr24_def)
  from fetch_speed[OF this, of "bus_zero\<lparr>memsel := 1\<rparr>"] show ?thesis
    by (simp add: cyc_master_per_cycle_def bus_fastrom_def bus_zero_def)
qed

end
