(* ===== verification/Ct_InterpProps.thy ===== *)
theory Ct_InterpProps
  imports Ct_InterpWf Ct_CycleCheck
begin

text \<open>
  Properties of the interpreter: it keeps the register invariant; its arithmetic is that of the
  binary numbers; flags, stack and interrupts round-trip; and it agrees with the operations
  generated code is made of (\<open>runtime/ops.h\<close>), group by group.
\<close>

text \<open>Static storage before anything runs, for the interpreter's state.\<close>

definition mach_zero :: mach where
  "mach_zero = cyc_state.extend cyc_zero \<lparr>cpu = cpu_init, ct_budget = 0\<rparr>"

definition interp_zero :: interp_state where
  "interp_zero = mach.extend mach_zero
     \<lparr>sys = False, waiting = False, shadow = [], interp_budget = 0, last_op = 0\<rparr>"

definition no_env :: "'s interp_env" where
  "no_env = \<lparr>ct_externs = [], ct_jumptables = []\<rparr>"

lemmas interp_zero_simps = interp_zero_def mach_zero_def cyc_zero_def bus_zero_def
  bus_state.defs cyc_state.defs mach.defs interp_state.defs

lemma no_hooks_cpu: "hooks_keep_cpu no_hooks"
  by (simp add: hooks_keep_cpu_def no_hooks_def)

lemma no_env_wf: "env_keeps_wf no_env"
  by (simp add: env_keeps_wf_def no_env_def)

lemma ctri_wf_parts:
  assumes "hooks_keep_cpu h"
  shows "ctri wf_cpu (fetch8 h) (\<lambda>_. wf_cpu)"
  by (rule ctri_fetch8[OF assms]) (simp add: wf_cpu_def)

lemma ctri_cyc_finish: "ctri P cyc_finish (\<lambda>_. P)"
  by (rule ctri_state_act) (auto simp: cyc_finish_def Let_def split: if_splits sum.splits)

lemma cyc_begin_cpu [simp]: "cpu (cyc_begin c at op s) = cpu s" "cpu (cyc_begin_interrupt c s) = cpu s"
  by (simp_all add: cyc_begin_def cyc_begin_interrupt_def Let_def)

lemma interp_step_wf:
  assumes "hooks_keep_cpu h" "env_keeps_wf env"
  shows "ctri wf_cpu (interp_step env h) (\<lambda>_. wf_cpu)"
  unfolding interp_step_def
  by (intro ctri_intro ctri_state ctri_wf_parts step_wf ctri_cyc_finish assms) simp_all

lemma interp_interrupt_wf:
  assumes "hooks_keep_cpu h"
  shows "ctri wf_cpu (interp_interrupt h nmi) (\<lambda>_. wf_cpu)"
proof -
  have "ctri (wfk m x e) (interp_interrupt h nmi) (\<lambda>_. wfk m x e)" for m x e
    unfolding interp_interrupt_def Let_def
    by (intro ctri_intro ctri_state assms; simp add: wfk_flags)
  then show ?thesis by (auto simp: ctri_def hoare_def) (metis wfk_self wfk_wf)
qed

lemma call_loop_wf:
  assumes "hooks_keep_cpu h" "env_keeps_wf env"
  shows "ctri wf_cpu (call_loop cap env h s0) (\<lambda>_. wf_cpu)"
proof (induction cap)
  case (Suc cap)
  show ?case unfolding call_loop.simps
    by (intro ctri_intro ctri_wf_parts step_wf assms Suc) simp_all
qed (simp add: ctri_def hoare_def)

lemma interp_call_wf:
  assumes "hooks_keep_cpu h" "env_keeps_wf env"
  shows "ctri wf_cpu (interp_call env h entry) (\<lambda>_. wf_cpu)"
  unfolding interp_call_def
  by (intro ctri_intro ctri_state call_loop_wf assms) (simp_all add: far_pc_def wf_cpu_def)

lemma ctriD: "ctri P m Q \<Longrightarrow> P (cpu s) \<Longrightarrow> m s = Inr (v, s') \<Longrightarrow> Q v (cpu s')"
  by (simp add: ctri_def hoare_def)

text \<open>C8. The registers stay well-formed: a system-mode instruction, an interrupt entry and a
  whole strict call, whatever the opcodes, all leave every flag a bit, 8-bit index registers
  with a zero high byte, and emulation mode with 8-bit registers and a page-1 stack.\<close>

theorem interp_keeps_wf:
  assumes "hooks_keep_cpu h" "env_keeps_wf env" "wf_cpu (cpu s)"
  shows "(\<forall>n s'. interp_step env h s = Inr (n, s') \<longrightarrow> wf_cpu (cpu s')) \<and>
    (\<forall>nmi n s'. interp_interrupt h nmi s = Inr (n, s') \<longrightarrow> wf_cpu (cpu s')) \<and>
    (\<forall>entry u s'. interp_call env h entry s = Inr (u, s') \<longrightarrow> wf_cpu (cpu s'))"
  using ctriD[OF interp_step_wf[OF assms(1,2)]] ctriD[OF interp_interrupt_wf[OF assms(1)]]
    ctriD[OF interp_call_wf[OF assms(1,2)]] assms(3) by blast

text \<open>NOP at $C00000.\<close>

definition nop_state :: interp_state where
  "nop_state = interp_zero\<lparr>rom := (\<lambda>_. 0xEA), cpu := cpu_init\<lparr>rPB := 0xC0\<rparr>\<rparr>"

lemma step_nop: "step env h at 0xEA = ret ()"
proof -
  have "\<not> is_alu 0xEA" by (simp add: is_alu_def alu_mode_def alu_columns_def)
  moreover have "first_some
       [step_rmw h 0xEA m16, step_tsb h 0xEA m16, step_bit h 0xEA, step_index h 0xEA m16 x16,
        map_option cpu_do (step_count 0xEA x16), map_option cpu_do (step_transfer 0xEA m16 x16),
        step_stack h 0xEA m16 x16, step_flags h 0xEA, step_branch h at 0xEA, step_jump env h at 0xEA,
        step_misc h at 0xEA] = Some (ret ())" for m16 x16
    by (simp add: step_rmw_def rmw_acc_ops_def rmw_mem_ops_def step_tsb_def step_bit_def bit_ops_def step_index_def
        Let_def ldx_ops_def ldy_ops_def stx_ops_def sty_ops_def stz_ops_def cpx_ops_def cpy_ops_def step_count_def
        step_transfer_def step_stack_def step_flags_def step_branch_def branch_conds_def step_jump_def step_misc_def)
  ultimately show ?thesis by (simp add: step_def bnd_def fun_eq_iff)
qed

theorem interp_keeps_wf_witness:
  "\<exists>n s'. interp_step no_env no_hooks nop_state = Inr (n, s') \<and> wf_cpu (cpu s')"
proof -
  have "\<exists>n s'. interp_step no_env no_hooks nop_state = Inr (n, s')"
  proof -
    obtain c s1 where f: "fetch8 no_hooks (nop_state\<lparr>sys := True, shadow := [], interp_budget := 0\<rparr>) = Inr (0xEA, s1)"
      "cpu s1 = c" "fl_e c = 0"
      by (simp add: fetch8_def set_fetch_def thn_def bnd_def read8_def decode_addr_def Let_def nop_state_def
          interp_zero_simps addr24_def cpu_init_def log_access_def set_mdr_def bus_access_clocks_def CT_BUS_LOG_def bus_fastrom_def)
    let ?s = "cyc_begin c 0xC00000 0xEA (s1\<lparr>last_op := 0xEA\<rparr>)"
    have "\<forall>e. cyc_finish ?s \<noteq> Inl e"
      by (simp add: cyc_finish_def cyc_begin_def Let_def model_clocks_fails tmpl_dom split: sum.splits)
    then obtain n s' where "cyc_finish ?s = Inr (n, s')" by (cases "cyc_finish ?s") auto
    moreover have "pc_at nop_state = 0xC00000" by (simp add: pc_at_def nop_state_def cpu_init_def addr24_def)
    ultimately show ?thesis using f
      by (simp add: interp_step_def thn_def bnd_def step_nop nop_state_def interp_zero_simps pc_at_def)
  qed
  then show ?thesis
    using interp_keeps_wf[OF no_hooks_cpu no_env_wf, of nop_state]
    by (auto simp: nop_state_def wf_cpu_def cpu_init_def)
qed

section \<open>Flags\<close>

lemma bit_of_is_bit: "is_bit b \<Longrightarrow> bit b n \<longleftrightarrow> b = 1 \<and> n = 0"
  by (auto simp: is_bit_def bit_1_iff)

lemma is_bit_mask: "is_bit b \<Longrightarrow> b AND 1 = b"
  by (auto simp: is_bit_def)

lemma pack_bits:
  assumes "wf_cpu c"
  shows "drop_bit 7 (pack_p c) AND 1 = fl_n c" "drop_bit 6 (pack_p c) AND 1 = fl_v c"
    "drop_bit 5 (pack_p c) AND 1 = fl_m c" "drop_bit 4 (pack_p c) AND 1 = fl_x c"
    "drop_bit 3 (pack_p c) AND 1 = fl_d c" "drop_bit 2 (pack_p c) AND 1 = fl_i c"
    "drop_bit 1 (pack_p c) AND 1 = fl_z c" "pack_p c AND 1 = fl_c c"
proof -
  have b: "is_bit (fl_n c)" "is_bit (fl_v c)" "is_bit (fl_m c)" "is_bit (fl_x c)" "is_bit (fl_d c)"
    "is_bit (fl_i c)" "is_bit (fl_z c)" "is_bit (fl_c c)"
    using assms by (simp_all add: wf_cpu_def)
  note bb = b[THEN bit_of_is_bit]
  have one: "bit (1::u8) n \<longleftrightarrow> n = 0" for n by (simp add: bit_1_iff)
  show "drop_bit 7 (pack_p c) AND 1 = fl_n c" "drop_bit 6 (pack_p c) AND 1 = fl_v c"
    "drop_bit 5 (pack_p c) AND 1 = fl_m c" "drop_bit 4 (pack_p c) AND 1 = fl_x c"
    "drop_bit 3 (pack_p c) AND 1 = fl_d c" "drop_bit 2 (pack_p c) AND 1 = fl_i c"
    "drop_bit 1 (pack_p c) AND 1 = fl_z c" "pack_p c AND 1 = fl_c c"
    unfolding pack_p_def
    by (rule bit_word_eqI; auto simp: bit_simps bb one simp del: One_nat_def)+
qed

lemma unpack_pack: "wf_cpu c \<Longrightarrow> unpack_p (pack_p c) c = c"
proof -
  assume w: "wf_cpu c"
  have k: "c\<lparr>fl_n := fl_n c, fl_v := fl_v c, fl_m := fl_m c, fl_x := fl_x c, fl_d := fl_d c,
     fl_i := fl_i c, fl_z := fl_z c, fl_c := fl_c c\<rparr> = c" by simp
  have e: "fl_e c \<noteq> 0 \<Longrightarrow> c\<lparr>fl_m := 1, fl_x := 1\<rparr> = c"
  proof -
    assume "fl_e c \<noteq> 0"
    then have "fl_m c = 1" "fl_x c = 1" using w by (simp_all add: wf_cpu_def)
    then show ?thesis by (cases c) simp
  qed
  have low: "r AND 0xFF = r" if "r AND 0xFF00 = 0" for r :: u16
  proof -
    have "(0xFF OR 0xFF00 :: u16) = - 1" by simp
    then have "r = r AND (0xFF OR 0xFF00)" by (simp only: word_and_max bit.conj_one_right)
    also have "\<dots> = r AND 0xFF" using that by (simp only: bit.conj_disj_distrib or.right_neutral)
    finally show ?thesis by simp
  qed
  have x: "fl_x c \<noteq> 0 \<Longrightarrow> c\<lparr>rX := rX c AND 0xFF, rY := rY c AND 0xFF\<rparr> = c"
    using w by (simp add: wf_cpu_def low)
  show ?thesis
    unfolding unpack_p_def pack_bits[OF w] k Let_def using e x by simp
qed

lemma unpack_fields:
  assumes "fl_e c = 0"
  shows "fl_n (unpack_p p c) = drop_bit 7 p AND 1" "fl_v (unpack_p p c) = drop_bit 6 p AND 1"
    "fl_m (unpack_p p c) = drop_bit 5 p AND 1" "fl_x (unpack_p p c) = drop_bit 4 p AND 1"
    "fl_d (unpack_p p c) = drop_bit 3 p AND 1" "fl_i (unpack_p p c) = drop_bit 2 p AND 1"
    "fl_z (unpack_p p c) = drop_bit 1 p AND 1" "fl_c (unpack_p p c) = p AND 1"
  using assms by (simp_all add: unpack_p_def Let_def)

lemma pack_unpack: "fl_e c = 0 \<Longrightarrow> pack_p (unpack_p p c) = p"
proof -
  assume e: "fl_e c = 0"
  have one: "bit (1::u8) n \<longleftrightarrow> n = 0" for n by (simp add: bit_1_iff)
  show ?thesis unfolding pack_p_def unpack_fields[OF e]
  proof (rule bit_word_eqI)
    fix k :: nat assume "k < LENGTH(8)"
    then consider "k = 0" | "k = 1" | "k = 2" | "k = 3" | "k = 4" | "k = 5" | "k = 6" | "k = 7"
      by fastforce
    then show "bit (to8 (push_bit 7 (to32 (drop_bit 7 p AND 1)) OR push_bit 6 (to32 (drop_bit 6 p AND 1)) OR
      push_bit 5 (to32 (drop_bit 5 p AND 1)) OR push_bit 4 (to32 (drop_bit 4 p AND 1)) OR
      push_bit 3 (to32 (drop_bit 3 p AND 1)) OR push_bit 2 (to32 (drop_bit 2 p AND 1)) OR
      push_bit 1 (to32 (drop_bit 1 p AND 1)) OR to32 (p AND 1))) k = bit p k"
      by cases (simp_all add: bit_simps one del: One_nat_def)
  qed
qed

text \<open>The status register round-trips: packing the flags and unpacking them gives back the
  registers, and in native mode unpacking any byte and packing it again gives the byte.\<close>

theorem status_roundtrip:
  assumes "wf_cpu c"
  shows "unpack_p (pack_p c) c = c \<and> (fl_e c = 0 \<longrightarrow> pack_p (unpack_p p c) = p)"
  using assms by (simp add: unpack_pack pack_unpack)

theorem status_roundtrip_witness:
  "unpack_p (pack_p (cpu_init\<lparr>fl_n := 1, fl_c := 1\<rparr>)) (cpu_init\<lparr>fl_n := 1, fl_c := 1\<rparr>) = cpu_init\<lparr>fl_n := 1, fl_c := 1\<rparr>"
proof -
  have "wf_cpu (cpu_init\<lparr>fl_n := 1, fl_c := 1\<rparr>)" by (simp add: wf_cpu_def cpu_init_def)
  from status_roundtrip[OF this] show ?thesis by blast
qed

section \<open>Arithmetic\<close>

text \<open>The two's complement value of a \<open>w\<close>-bit number.\<close>

definition signed :: "nat \<Rightarrow> nat \<Rightarrow> int" where
  "signed w k = (if k \<ge> 2 ^ (w - 1) then int k - 2 ^ w else int k)"

text \<open>What an addition means: the sum splits into result and carry, and V tells that the signed
  sum does not fit.\<close>

definition adds_up :: "nat \<Rightarrow> nat \<Rightarrow> nat \<Rightarrow> nat \<Rightarrow> nat \<Rightarrow> cpu \<Rightarrow> bool" where
  "adds_up w a b cy r c \<longleftrightarrow>
     r < 2 ^ w \<and> a + b + cy = r + 2 ^ w * unat (fl_c c) \<and>
     (fl_v c \<noteq> 0 \<longleftrightarrow> signed w a + signed w b + int cy \<noteq> signed w r) \<and>
     (fl_n c \<noteq> 0 \<longleftrightarrow> r \<ge> 2 ^ (w - 1)) \<and> (fl_z c \<noteq> 0 \<longleftrightarrow> r = 0)"

lemma overflow_16:
  fixes a b cy :: nat
  assumes "a < 65536" "b < 65536" "cy \<le> 1"
  shows "(a \<ge> 32768) \<noteq> ((a + b + cy) mod 65536 \<ge> 32768) \<and> (b \<ge> 32768) \<noteq> ((a + b + cy) mod 65536 \<ge> 32768)
    \<longleftrightarrow> signed 16 a + signed 16 b + int cy \<noteq> signed 16 ((a + b + cy) mod 65536)"
  using assms by (auto simp: signed_def mod_if)

lemma overflow_8:
  fixes a b cy :: nat
  assumes "a < 256" "b < 256" "cy \<le> 1"
  shows "(a \<ge> 128) \<noteq> ((a + b + cy) mod 256 \<ge> 128) \<and> (b \<ge> 128) \<noteq> ((a + b + cy) mod 256 \<ge> 128)
    \<longleftrightarrow> signed 8 a + signed 8 b + int cy \<noteq> signed 8 ((a + b + cy) mod 256)"
  using assms by (auto simp: signed_def mod_if)

lemma mask_bits: "bit (0xFFFF :: int) n \<longleftrightarrow> n < 16" "bit (0xFF :: int) n \<longleftrightarrow> n < 8"
proof -
  have "(0xFFFF::int) = mask 16" "(0xFF::int) = mask 8" by (simp_all add: mask_eq_exp_minus_1)
  then show "bit (0xFFFF :: int) n \<longleftrightarrow> n < 16" "bit (0xFF :: int) n \<longleftrightarrow> n < 8"
    by (metis bit_mask_iff possible_bit_int)+
qed

lemma unat_low: "unat (to16 ((r :: u32) AND 0xFFFF)) = unat r mod 65536" "unat (to16 ((r :: u32) AND 0xFF)) = unat r mod 256"
proof -
  have "to16 (r AND 0xFFFF) = (to16 r)" "to16 (r AND 0xFF) = take_bit 8 (to16 r)"
    by (rule bit_word_eqI; auto simp: bit_simps mask_bits)+
  then show "unat (to16 (r AND 0xFFFF)) = unat r mod 65536" "unat (to16 (r AND 0xFF)) = unat r mod 256"
    by (simp_all add: unsigned_ucast_eq unsigned_take_bit_eq take_bit_eq_mod unat_mod mod_mod_cancel)
qed

lemma sign_test:
  fixes a b :: u16 and r :: u32
  shows "(to32 a XOR r) AND (to32 b XOR r) AND 0x8000 \<noteq> 0 \<longleftrightarrow> bit a 15 \<noteq> bit r 15 \<and> bit b 15 \<noteq> bit r 15"
    "(to32 a XOR r) AND (to32 b XOR r) AND 0x80 \<noteq> 0 \<longleftrightarrow> bit a 7 \<noteq> bit r 7 \<and> bit b 7 \<noteq> bit r 7"
proof -
  have e: "x AND 0x8000 \<noteq> 0 \<longleftrightarrow> bit x 15" "x AND 0x80 \<noteq> 0 \<longleftrightarrow> bit x 7" for x :: u32
    using and_exp_eq_0_iff_not_bit[of x 15] and_exp_eq_0_iff_not_bit[of x 7] by simp_all
  show "(to32 a XOR r) AND (to32 b XOR r) AND 0x8000 \<noteq> 0 \<longleftrightarrow> bit a 15 \<noteq> bit r 15 \<and> bit b 15 \<noteq> bit r 15"
    unfolding and.assoc[symmetric] e by (simp add: bit_simps)
  show "(to32 a XOR r) AND (to32 b XOR r) AND 0x80 \<noteq> 0 \<longleftrightarrow> bit a 7 \<noteq> bit r 7 \<and> bit b 7 \<noteq> bit r 7"
    unfolding and.assoc[symmetric] e by (simp add: bit_simps)
qed

lemma odd_div_mod_gen: "0 < n \<Longrightarrow> odd (k div n) \<longleftrightarrow> n \<le> k mod (n * 2)" for k n :: nat
proof -
  assume n: "0 < n"
  have e: "k mod (n * 2) = n * (k div n mod 2) + k mod n" by (rule mod_mult2_eq)
  have l: "k mod n < n" using n by simp
  show ?thesis
  proof (cases "even (k div n)")
    case True
    then have "k div n mod 2 = 0" by (simp add: even_iff_mod_2_eq_zero)
    then have "k mod (n * 2) = k mod n" using e by (metis add_0 mult_0_right)
    then show ?thesis using l True by linarith
  next
    case False
    then have "k div n mod 2 = 1" by (simp add: odd_iff_mod_2_eq_one)
    then have "k mod (n * 2) = n + k mod n" using e by (metis mult.right_neutral)
    then show ?thesis using False by linarith
  qed
qed

lemma odd_div_mod: "odd (k div 32768) \<longleftrightarrow> k mod 65536 \<ge> (32768::nat)" "odd (k div 128) \<longleftrightarrow> k mod 256 \<ge> (128::nat)"
proof -
  have e: "(65536::nat) = 32768 * 2" "(256::nat) = 128 * 2" by simp_all
  show "odd (k div 32768) \<longleftrightarrow> k mod 65536 \<ge> (32768::nat)" unfolding e by (rule odd_div_mod_gen) simp
  show "odd (k div 128) \<longleftrightarrow> k mod 256 \<ge> (128::nat)" unfolding e by (rule odd_div_mod_gen) simp
qed

lemma nz_flags:
  "fl_c (nz v w c) = fl_c c" "fl_v (nz v w c) = fl_v c"
  "fl_n (nz v True c) \<noteq> 0 \<longleftrightarrow> unat v \<ge> 32768" "fl_z (nz v True c) \<noteq> 0 \<longleftrightarrow> v = 0"
  "unat v < 256 \<Longrightarrow> fl_n (nz v False c) \<noteq> 0 \<longleftrightarrow> unat v \<ge> 128" "unat v < 256 \<Longrightarrow> fl_z (nz v False c) \<noteq> 0 \<longleftrightarrow> v = 0"
proof -
  have u: "unat v < 65536" by (rule unat_bounds)
  have d: "unat (drop_bit 15 v) = unat v div 32768" by (simp add: unsigned_drop_bit_eq drop_bit_eq_div unat_div)
  have "unat v div 32768 < 2" using u by (simp add: less_mult_imp_div_less)
  then have "unat (to8 (drop_bit 15 v)) = unat v div 32768" by (simp add: unsigned_ucast_eq take_bit_eq_mod d)
  then have "to8 (drop_bit 15 v) = 0 \<longleftrightarrow> unat v div 32768 = 0" by (simp add: word_unat_eq_iff)
  also have "\<dots> \<longleftrightarrow> unat v < 32768" by (simp add: div_eq_0_iff)
  finally show "fl_n (nz v True c) \<noteq> 0 \<longleftrightarrow> unat v \<ge> 32768" by (auto simp: nz_def)
  have "drop_bit 7 v AND 1 = of_bool (odd (drop_bit 7 v))" by (simp add: and_one_eq mod2_eq_if)
  moreover have "odd (drop_bit 7 v) \<longleftrightarrow> bit v 7" by (simp add: bit_iff_odd_drop_bit)
  ultimately have e: "to8 (drop_bit 7 v AND 1) = of_bool (bit v 7)" by simp
  show "unat v < 256 \<Longrightarrow> fl_n (nz v False c) \<noteq> 0 \<longleftrightarrow> unat v \<ge> 128"
    unfolding nz_def e by (simp add: bit_iff_odd_div odd_div_mod)
  have m: "v AND 0xFF = take_bit 8 v" by (simp add: take_bit_eq_mask mask_eq_exp_minus_1)
  have "unat (v AND 0xFF) = unat v mod 256" unfolding m by (simp add: unsigned_take_bit_eq take_bit_eq_mod unat_mod)
  then show "unat v < 256 \<Longrightarrow> fl_z (nz v False c) \<noteq> 0 \<longleftrightarrow> v = 0"
    by (simp add: nz_def word_unat_eq_iff)
qed (simp_all add: nz_def)

lemma carry_split:
  "k < 2 * W \<Longrightarrow> k = k mod W + W * unat (of_bool (W \<le> k) :: u8)"
  by (cases "k < W") (simp_all add: le_mod_geq)

lemma add_wide:
  assumes "fl_d c = 0" "is_bit (fl_c c)"
  shows "\<exists>r c1. add a b True at c = Inr (r, c1) \<and> adds_up 16 (unat a) (unat b) (unat (fl_c c)) (unat r) c1"
proof -
  let ?r = "to32 a + to32 b + to32 (fl_c c)"
  have cy: "unat (fl_c c) \<le> 1" using assms(2) by (auto simp: is_bit_def)
  have B: "unat a < 65536" "unat b < 65536" by (rule unat_bounds)+
  have u: "unat ?r = unat a + unat b + unat (fl_c c)" using B cy by (simp add: unat_word_ariths)
  have c: "?r > 0xFFFF \<longleftrightarrow> unat a + unat b + unat (fl_c c) \<ge> 65536"
    using u by (auto simp: word_less_nat_alt)
  have v: "(to32 a XOR ?r) AND (to32 b XOR ?r) AND 0x8000 \<noteq> 0 \<longleftrightarrow>
      signed 16 (unat a) + signed 16 (unat b) + int (unat (fl_c c)) \<noteq> signed 16 ((unat a + unat b + unat (fl_c c)) mod 65536)"
    unfolding sign_test(1) overflow_16[OF B cy, symmetric]
    using B by (auto simp: bit_iff_odd_div odd_div_mod u)
  have z: "to16 (?r AND 0xFFFF) = 0 \<longleftrightarrow> (unat a + unat b + unat (fl_c c)) mod 65536 = 0"
    by (simp only: word_unat_eq_iff unat_low u unat_0)
  let ?c1 = "nz (to16 (?r AND 0xFFFF)) True (c\<lparr>fl_c := of_bool (?r > 0xFFFF),
       fl_v := of_bool ((to32 a XOR ?r) AND (to32 b XOR ?r) AND 0x8000 \<noteq> 0)\<rparr>)"
  have "add a b True at c = Inr (to16 (?r AND 0xFFFF), ?c1)" using assms(1) by (simp add: add_def Let_def)
  moreover have "adds_up 16 (unat a) (unat b) (unat (fl_c c)) (unat (to16 (?r AND 0xFFFF))) ?c1"
    unfolding adds_up_def nz_flags unat_low u c
    using carry_split[of "unat a + unat b + unat (fl_c c)" 65536] B cy v z by simp
  ultimately show ?thesis by blast
qed

lemma add_narrow:
  assumes "fl_d c = 0" "is_bit (fl_c c)" "unat a < 256" "unat b < 256"
  shows "\<exists>r c1. add a b False at c = Inr (r, c1) \<and> adds_up 8 (unat a) (unat b) (unat (fl_c c)) (unat r) c1"
proof -
  let ?r = "to32 a + to32 b + to32 (fl_c c)"
  have cy: "unat (fl_c c) \<le> 1" using assms(2) by (auto simp: is_bit_def)
  note B = assms(3,4)
  have u: "unat ?r = unat a + unat b + unat (fl_c c)" using B cy by (simp add: unat_word_ariths)
  have c: "?r > 0xFF \<longleftrightarrow> unat a + unat b + unat (fl_c c) \<ge> 256"
    using u by (auto simp: word_less_nat_alt)
  have v: "(to32 a XOR ?r) AND (to32 b XOR ?r) AND 0x80 \<noteq> 0 \<longleftrightarrow>
      signed 8 (unat a) + signed 8 (unat b) + int (unat (fl_c c)) \<noteq> signed 8 ((unat a + unat b + unat (fl_c c)) mod 256)"
    unfolding sign_test(2) overflow_8[OF B cy, symmetric]
    using B by (auto simp: bit_iff_odd_div odd_div_mod u)
  have z: "to16 (?r AND 0xFF) = 0 \<longleftrightarrow> (unat a + unat b + unat (fl_c c)) mod 256 = 0"
    by (simp only: word_unat_eq_iff unat_low u unat_0)
  let ?c1 = "nz (to16 (?r AND 0xFF)) False (c\<lparr>fl_c := of_bool (?r > 0xFF),
       fl_v := of_bool ((to32 a XOR ?r) AND (to32 b XOR ?r) AND 0x80 \<noteq> 0)\<rparr>)"
  have s: "unat (to16 (?r AND 0xFF)) < 256" unfolding unat_low by simp
  have "add a b False at c = Inr (to16 (?r AND 0xFF), ?c1)" using assms(1) by (simp add: add_def Let_def)
  moreover have "adds_up 8 (unat a) (unat b) (unat (fl_c c)) (unat (to16 (?r AND 0xFF))) ?c1"
    unfolding adds_up_def nz_flags(1,2) nz_flags(5,6)[OF s] unat_low u c
    using carry_split[of "unat a + unat b + unat (fl_c c)" 256] B cy v z by simp
  ultimately show ?thesis by blast
qed

text \<open>C20. Binary ADC and SBC compute what they mean, at both widths: the sum of accumulator,
  operand (complemented for SBC) and carry is the result plus the new carry above it, V is set
  exactly when the signed result does not fit, N and Z describe the result; in decimal mode the
  interpreter stops with its error instead.\<close>

theorem addition_correct:
  assumes "is_bit (fl_c c)" and "wide \<or> (unat a < 256 \<and> unat b < 256)"
  shows "if fl_d c \<noteq> 0 then add a b wide at c = Inl (Interp_decimal at)
    else \<exists>r c1. add a b wide at c = Inr (r, c1) \<and>
      adds_up (if wide then 16 else 8) (unat a) (unat b) (unat (fl_c c)) (unat r) c1"
proof (cases "fl_d c = 0")
  case True
  then show ?thesis using assms add_wide[OF True assms(1)] add_narrow[OF True assms(1)]
    by (cases wide) auto
next
  case False
  then show ?thesis by (simp add: add_def)
qed

theorem addition_correct_witness:
  "\<exists>r c1. add 0x7F 0x01 False 0xC00000 cpu_init = Inr (r, c1) \<and> adds_up 8 0x7F 1 0 (unat r) c1"
proof -
  have b: "is_bit (fl_c cpu_init)" "False \<or> (unat (0x7F::u16) < 256 \<and> unat (0x01::u16) < 256)"
    by (simp_all add: cpu_init_def)
  show ?thesis using addition_correct[OF b, of "0xC00000"] by (simp add: cpu_init_def)
qed

section \<open>The interpreter against the operations of generated code\<close>

text \<open>Flags and stack: the interpreter's own copies are the ops.h functions.\<close>

lemma set_p_unpack: "set_p p c = unpack_p p c"
  by (simp add: set_p_def unpack_p_def index_width_def Let_def)

lemma get_p_pack: "get_p c = pack_p c"
  by (simp add: get_p_def pack_p_def)

lemma stack_down_up: "page1 (c\<lparr>rS := rS c - 1\<rparr>) = s_down c" "page1 (c\<lparr>rS := rS c + 1\<rparr>) = s_up c"
  by (simp_all add: page1_def s_down_def s_up_def)

lemma push_push8: "push h v = push8 h v" "pull h = pull8 h" "pushw h w = push16 h w" "pullw h = pull16 h"
  by (simp_all add: push_def push8_def pull_def pull8_def stack_down_up pushw_def push16_def pullw_def pull16_def)

text \<open>Words of 8 bits inside 16.\<close>

lemma byte_masks: "(0xFF :: u16) = mask 8" "(0xFF00 :: u16) = push_bit 8 (mask 8)"
  by (simp_all add: push_bit_eq_mult mask_eq_exp_minus_1)

lemma and_max16 [simp]: "(w :: u16) AND 0xFFFF = w"
proof -
  have "(0xFFFF :: u16) = - 1" by simp
  then show ?thesis by (simp only: bit.conj_one_right)
qed

lemma byte_low [simp]: "to16 (b :: u8) AND 0xFF = to16 b"
  unfolding byte_masks by (rule bit_word_eqI) (auto simp: bit_simps dest: bit_imp_le_length)

lemma byte_ops:
  "to16 x OR to16 y = to16 (x OR y :: u8)" "to16 x AND to16 y = to16 (x AND y :: u8)"
  "to16 x XOR to16 y = to16 (x XOR y :: u8)" "NOT (to16 x) AND 0xFF = to16 (NOT x :: u8)"
  unfolding byte_masks by (rule bit_word_eqI; auto simp: bit_simps dest: bit_imp_le_length)+

lemma byte_of_low: "(w :: u16) AND 0xFF00 = 0 \<Longrightarrow> w = to16 (to8 w)"
proof -
  assume "w AND 0xFF00 = 0"
  have "w AND 0xFF = to16 (to8 w)" unfolding byte_masks
    by (rule bit_word_eqI) (auto simp: bit_simps)
  moreover have "w = w AND (0xFF OR 0xFF00)"
  proof -
    have "(0xFF OR 0xFF00 :: u16) = - 1" by simp
    then show ?thesis by (simp only: bit.conj_one_right)
  qed
  then have "w = w AND 0xFF" using \<open>w AND 0xFF00 = 0\<close> by (simp only: bit.conj_disj_distrib or.right_neutral)
  ultimately show ?thesis by simp
qed

lemma low_byte: "(w :: u16) AND 0xFF = to16 (to8 w)"
  unfolding byte_masks by (rule bit_word_eqI) (auto simp: bit_simps)

lemma byte_zero: "to16 (b :: u8) = 0 \<longleftrightarrow> b = 0"
  by (simp add: word_unat_eq_iff)

lemma byte_sign: "to8 (drop_bit 7 (to16 (b :: u8)) AND 1) = drop_bit 7 b"
  by (rule bit_word_eqI) (auto simp: bit_simps bit_1_iff dest: bit_imp_le_length)

lemma nz_set_nz: "nz (to16 b) False c = set_nz8 b c" "nz w True c = set_nz16 w c"
  by (simp_all add: nz_def set_nz8_def set_nz16_def byte_sign byte_zero)

lemma get_set_a:
  "fl_m c \<noteq> 0 \<Longrightarrow> get_a c = to16 (a8 c)" "fl_m c = 0 \<Longrightarrow> get_a c = rA c"
  "fl_m c \<noteq> 0 \<Longrightarrow> set_a (to16 b) c = set_a8 b c" "fl_m c = 0 \<Longrightarrow> set_a w c = c\<lparr>rA := w\<rparr>"
  by (simp_all add: get_a_def set_a_def a8_def set_a8_def) (simp only: low_byte)

lemma set_a8_a8 [simp]: "a8 (set_a8 b c) = b"
  unfolding a8_def set_a8_def byte_masks
  by (simp, rule bit_word_eqI) (auto simp: bit_simps dest: bit_imp_le_length)

lemma nz_commute: "set_nz8 b (set_a8 v c) = set_a8 v (set_nz8 b c)" "set_nz16 w (c\<lparr>rA := u\<rparr>) = (set_nz16 w c)\<lparr>rA := u\<rparr>"
  by (simp_all add: set_nz8_def set_nz16_def set_a8_def)

lemma nz_keeps [simp]:
  "fl_m (set_nz8 b c) = fl_m c" "fl_m (set_nz16 w c) = fl_m c" "rA (set_nz8 b c) = rA c" "rA (set_nz16 w c) = rA c"
  by (simp_all add: set_nz8_def set_nz16_def)

text \<open>V as ops.h computes it is V as the interpreter does.\<close>

lemma overflow_forms:
  fixes a b r :: u32
  shows "to8 (drop_bit 7 (NOT (a XOR b) AND (a XOR r)) AND 1) = of_bool ((a XOR r) AND (b XOR r) AND 0x80 \<noteq> 0)"
    "to8 (drop_bit 15 (NOT (a XOR b) AND (a XOR r)) AND 1) = of_bool ((a XOR r) AND (b XOR r) AND 0x8000 \<noteq> 0)"
proof -
  have e: "x AND 0x8000 \<noteq> 0 \<longleftrightarrow> bit x 15" "x AND 0x80 \<noteq> 0 \<longleftrightarrow> bit x 7" for x :: u32
    using and_exp_eq_0_iff_not_bit[of x 15] and_exp_eq_0_iff_not_bit[of x 7] by simp_all
  have o: "drop_bit k x AND 1 = of_bool (bit x k)" for k and x :: u32
    by (simp add: and_one_eq mod2_eq_if bit_iff_odd_drop_bit)
  show "to8 (drop_bit 7 (NOT (a XOR b) AND (a XOR r)) AND 1) = of_bool ((a XOR r) AND (b XOR r) AND 0x80 \<noteq> 0)"
    unfolding o and.assoc[symmetric] e by (auto simp: bit_simps)
  show "to8 (drop_bit 15 (NOT (a XOR b) AND (a XOR r)) AND 1) = of_bool ((a XOR r) AND (b XOR r) AND 0x8000 \<noteq> 0)"
    unfolding o and.assoc[symmetric] e by (auto simp: bit_simps)
qed

lemma low_cast: "to16 ((r :: u32) AND 0xFFFF) = to16 r" "to16 ((r :: u32) AND 0xFF) = to16 (to8 r)"
  by (rule bit_word_eqI; auto simp: bit_simps mask_bits)+

lemma adc_agrees:
  assumes "fl_d c = 0"
  shows "fl_m c \<noteq> 0 \<Longrightarrow> \<exists>r c1. add (to16 (a8 c)) (to16 b) False at c = Inr (r, c1) \<and> adc8 b at' c = Inr (set_a r c1)"
    and "fl_m c = 0 \<Longrightarrow> \<exists>r c1. add (rA c) w True at c = Inr (r, c1) \<and> adc16 w at' c = Inr (set_a r c1)"
proof -
  have t: "to32 (to16 x) = to32 x" for x :: u8
    by (rule bit_word_eqI) (auto simp: bit_simps dest: bit_imp_le_length)
  show "fl_m c \<noteq> 0 \<Longrightarrow> \<exists>r c1. add (to16 (a8 c)) (to16 b) False at c = Inr (r, c1) \<and> adc8 b at' c = Inr (set_a r c1)"
    using assms unfolding add_def adc8_def Let_def t overflow_forms
    by (simp add: low_cast nz_set_nz get_set_a nz_commute)
  show "fl_m c = 0 \<Longrightarrow> \<exists>r c1. add (rA c) w True at c = Inr (r, c1) \<and> adc16 w at' c = Inr (set_a r c1)"
    using assms unfolding add_def adc16_def Let_def overflow_forms
    by (simp add: low_cast nz_set_nz get_set_a nz_commute)
qed

lemma to8_diff: "to8 ((x :: u16) - y) = to8 x - to8 y"
proof -
  have "take_bit 8 (take_bit 16 x - take_bit 16 y) = take_bit 8 (x - y)" for x y :: int
  proof -
    have "take_bit 8 (take_bit 16 x - take_bit 16 y) = take_bit 8 (take_bit 8 (take_bit 16 x) - take_bit 8 (take_bit 16 y))"
      by (simp only: take_bit_diff)
    also have "\<dots> = take_bit 8 (take_bit 8 x - take_bit 8 y)" by (simp add: take_bit_take_bit)
    finally show ?thesis by (simp only: take_bit_diff)
  qed
  then show ?thesis by transfer simp
qed

lemma nz_low: "nz w False c = set_nz8 (to8 w) c"
proof -
  have "to8 (drop_bit 7 w AND 1) = drop_bit 7 (to8 w)"
    by (rule bit_word_eqI) (auto simp: bit_simps bit_1_iff)
  then show ?thesis by (simp add: nz_def set_nz8_def low_byte byte_zero)
qed

lemma to8_to16 [simp]: "to8 (to16 (b :: u8)) = b"
  by (rule bit_word_eqI) (auto simp: bit_simps dest: bit_imp_le_length)

lemma cmp_agrees:
  "compare (to16 r) (to16 b) False c = cmp8 r b c" "compare x w True c = cmp16 x w c"
proof -
  have le: "to16 b \<le> to16 r \<longleftrightarrow> b \<le> r" by (simp add: word_le_nat_alt)
  show "compare (to16 r) (to16 b) False c = cmp8 r b c"
    by (simp add: compare_def cmp8_def Let_def le nz_low to8_diff)
  show "compare x w True c = cmp16 x w c"
    by (simp add: compare_def cmp16_def Let_def nz_set_nz)
qed

text \<open>
  The operation generated code uses for an ALU opcode's operand value, by \<open>op >> 5\<close> and the
  accumulator width.
\<close>

definition gen_alu :: "u8 \<Rightarrow> bool \<Rightarrow> u16 \<Rightarrow> u32 \<Rightarrow> cpu \<Rightarrow> fatal + cpu" where
  "gen_alu op wide v at c =
     (let k = drop_bit 5 op; b = to8 v in
      if k = 0 then Inr (if wide then ora16 v c else ora8 b c)
      else if k = 1 then Inr (if wide then and16 v c else and8 b c)
      else if k = 2 then Inr (if wide then eor16 v c else eor8 b c)
      else if k = 3 then (if wide then adc16 v at c else adc8 b at c)
      else if k = 5 then Inr (if wide then lda16 v c else lda8 b c)
      else if k = 6 then Inr (if wide then cmp16 (rA c) v c else cmp8 (a8 c) b c)
      else (if wide then sbc16 v at c else sbc8 b at c))"

text \<open>C5. Every ALU opcode but STA does to the registers what generated code's operation does:
  given the operand the interpreter read, in binary mode, both end in the same registers, at
  both accumulator widths.\<close>

theorem alu_matches_generated:
  assumes "hooks_keep_cpu h" "wf_cpu (cpu s)" "fl_d (cpu s) = 0" "drop_bit 5 op \<noteq> 4"
    and "operand h md (fl_m (cpu s) = 0) s = Inr (v, s1)"
  shows "\<exists>c1. gen_alu op (fl_m (cpu s) = 0) v at (cpu s1) = Inr c1 \<and>
    alu_op h op md at s = Inr ((), s1\<lparr>cpu := c1\<rparr>)"
proof -
  let ?w = "fl_m (cpu s) = 0" and ?c = "cpu s1"
  let ?m = "fl_m (cpu s)" and ?x = "fl_x (cpu s)" and ?e = "fl_e (cpu s)"
  have "wfk ?m ?x ?e ?c \<and> (?w \<or> v AND 0xFF00 = 0)"
    using ctriD[OF ctri_operand[OF assms(1)] wfk_self[OF assms(2)] assms(5)] .
  then have m: "fl_m ?c = fl_m (cpu s)" and v: "?w \<or> v = to16 (to8 v)"
    by (auto simp: wfk_def intro: byte_of_low)
  have d: "fl_d ?c = 0"
  proof -
    have "ctri (\<lambda>c. fl_d c = 0) (operand h md ?w) (\<lambda>_ c. fl_d c = 0)"
      unfolding operand_def
      by (intro ctri_intro ctri_ea ctri_fetch8 ctri_fetch16 assms(1)) simp_all
    from ctriD[OF this assms(3,5)] show ?thesis .
  qed
  have a: "alu_op h op md at s =
      (if drop_bit 5 op = 0 then cpu_do (\<lambda>c. set_a (get_a ?c OR v) (nz (get_a ?c OR v) ?w c))
       else if drop_bit 5 op = 1 then cpu_do (\<lambda>c. set_a (get_a ?c AND v) (nz (get_a ?c AND v) ?w c))
       else if drop_bit 5 op = 2 then cpu_do (\<lambda>c. set_a (get_a ?c XOR v) (nz (get_a ?c XOR v) ?w c))
       else if drop_bit 5 op = 3 then bnd (cpu_try (add (get_a ?c) v ?w at)) (\<lambda>r. cpu_do (set_a r))
       else if drop_bit 5 op = 5 then cpu_do (\<lambda>c. set_a v (nz v ?w c))
       else if drop_bit 5 op = 6 then cpu_do (compare (get_a ?c) v ?w)
       else bnd (cpu_try (add (get_a ?c) (NOT v AND (if ?w then 0xFFFF else 0xFF)) ?w at)) (\<lambda>r. cpu_do (set_a r))) s1"
    using assms(4,5) by (simp add: alu_op_def bnd_def)
  have run: "bnd (cpu_try f) (\<lambda>r. cpu_do (set_a r)) s1 = Inr ((), s1\<lparr>cpu := set_a r c1\<rparr>)" if "f ?c = Inr (r, c1)" for f r c1
    using that by (simp add: cpu_try_def bnd_def)
  consider "drop_bit 5 op = 0" | "drop_bit 5 op = 1" | "drop_bit 5 op = 2" | "drop_bit 5 op = 3"
    | "drop_bit 5 op = 5" | "drop_bit 5 op = 6"
    | "drop_bit 5 op \<noteq> 0" "drop_bit 5 op \<noteq> 1" "drop_bit 5 op \<noteq> 2" "drop_bit 5 op \<noteq> 3"
      "drop_bit 5 op \<noteq> 5" "drop_bit 5 op \<noteq> 6"
    by blast
  note ks = this
  show ?thesis
  proof (cases ?w)
    case True
    then have fm: "fl_m ?c = 0" using m by simp
    obtain r c1 where add: "add (rA ?c) v True at = add (rA ?c) v True at" "add (rA ?c) v True at ?c = Inr (r, c1)" "adc16 v at ?c = Inr (set_a r c1)"
      using adc_agrees(2)[OF d fm] by blast
    obtain r' c1' where sub: "add (rA ?c) (NOT v) True at ?c = Inr (r', c1')" "adc16 (NOT v) at ?c = Inr (set_a r' c1')"
      using adc_agrees(2)[OF d fm] by blast
    show ?thesis unfolding a using True
      by (cases rule: ks) (simp_all add: gen_alu_def Let_def get_set_a fm nz_set_nz cmp_agrees run[where f = "add (rA ?c) v True at", OF add(2)] run[where f = "add (rA ?c) (NOT v) True at", OF sub(1)] add(3) sub(2) d
          ora16_def and16_def eor16_def lda16_def sbc16_def nz_commute)
  next
    case False
    then have fm: "fl_m ?c \<noteq> 0" using m by simp
    define b where "b = to8 v"
    have v8: "v = to16 b" using v False by (simp add: b_def)
    obtain r c1 where add: "add (to16 (a8 ?c)) (to16 b) False at ?c = Inr (r, c1)" "adc8 b at ?c = Inr (set_a r c1)"
      using adc_agrees(1)[OF d fm] by blast
    obtain r' c1' where sub: "add (to16 (a8 ?c)) (to16 (NOT b)) False at ?c = Inr (r', c1')" "adc8 (NOT b) at ?c = Inr (set_a r' c1')"
      using adc_agrees(1)[OF d fm] by blast
    show ?thesis unfolding a v8 using False
      by (cases rule: ks) (simp_all add: gen_alu_def Let_def get_set_a fm nz_set_nz byte_ops cmp_agrees run[where f = "add (to16 (a8 ?c)) (to16 b) False at", OF add(1)] run[where f = "add (to16 (a8 ?c)) (to16 (NOT b)) False at", OF sub(1)] add(2) sub(2) d
          ora8_def and8_def eor8_def lda8_def sbc8_def nz_commute)
  qed
qed

text \<open>ADC #$11 with 8-bit A, from ROM at $C00000.\<close>

definition adc_state :: interp_state where
  "adc_state = interp_zero\<lparr>rom := (\<lambda>_. 0x11), cpu := cpu_init\<lparr>rPB := 0xC0\<rparr>\<rparr>"

theorem alu_matches_generated_witness:
  "\<exists>s1 c1. operand no_hooks M_IMM False adc_state = Inr (0x11, s1) \<and>
     gen_alu 0x69 False 0x11 0xC00000 (cpu s1) = Inr c1 \<and>
     alu_op no_hooks 0x69 M_IMM 0xC00000 adc_state = Inr ((), s1\<lparr>cpu := c1\<rparr>)"
proof -
  obtain s1 where o: "operand no_hooks M_IMM (fl_m (cpu adc_state) = 0) adc_state = Inr (0x11, s1)"
    by (simp add: operand_def fetch8_def set_fetch_def thn_def bnd_def read8_def decode_addr_def Let_def adc_state_def
        interp_zero_simps addr24_def cpu_init_def log_access_def set_mdr_def bus_access_clocks_def CT_BUS_LOG_def bus_fastrom_def)
  have "wf_cpu (cpu adc_state)" "fl_d (cpu adc_state) = 0" "drop_bit 5 (0x69 :: u8) \<noteq> 4" "fl_m (cpu adc_state) = 1"
    by (simp_all add: adc_state_def wf_cpu_def cpu_init_def)
  with alu_matches_generated[OF no_hooks_cpu this(1,2,3) o, of "0xC00000"] o show ?thesis by auto
qed

text \<open>Shifts, increments and decrements.\<close>

definition gen_rmw8 :: "rmw_op \<Rightarrow> u8 \<Rightarrow> cpu \<Rightarrow> u8 \<times> cpu" where
  "gen_rmw8 op v c = (case op of RM_ASL \<Rightarrow> asl8 v c | RM_ROL \<Rightarrow> rol8 v c | RM_LSR \<Rightarrow> lsr8 v c
     | RM_ROR \<Rightarrow> ror8 v c | RM_INC \<Rightarrow> inc8 v c | RM_DEC \<Rightarrow> dec8 v c)"

definition gen_rmw16 :: "rmw_op \<Rightarrow> u16 \<Rightarrow> cpu \<Rightarrow> u16 \<times> cpu" where
  "gen_rmw16 op v c = (case op of RM_ASL \<Rightarrow> asl16 v c | RM_ROL \<Rightarrow> rol16 v c | RM_LSR \<Rightarrow> lsr16 v c
     | RM_ROR \<Rightarrow> ror16 v c | RM_INC \<Rightarrow> inc16 v c | RM_DEC \<Rightarrow> dec16 v c)"

lemma tops:
  "((v :: u16) AND 0x8000 \<noteq> 0) = bit v 15" "(to16 (b :: u8) AND 0x80 \<noteq> 0) = bit b 7"
  "to8 (drop_bit 15 v) = of_bool (bit v 15)" "drop_bit 7 b = of_bool (bit b 7)"
proof -
  show "(v AND 0x8000 \<noteq> 0) = bit v 15" using and_exp_eq_0_iff_not_bit[of v 15] by simp
  show "(to16 b AND 0x80 \<noteq> 0) = bit b 7"
    using and_exp_eq_0_iff_not_bit[of "to16 b" 7] by (simp add: bit_simps)
  have high: "drop_bit k x = of_bool (bit x k)" if "LENGTH('a) = Suc k" for k and x :: "'a::len word"
  proof (rule bit_word_eqI)
    fix n assume "n < LENGTH('a)"
    show "bit (drop_bit k x) n = bit (of_bool (bit x k) :: 'a word) n"
    proof (cases n)
      case (Suc m)
      then have "\<not> bit x (k + n)" using that bit_imp_le_length[of x "k + n"] by auto
      then show ?thesis using Suc by (simp add: bit_simps bit_1_iff)
    qed (simp add: bit_simps)
  qed
  show "to8 (drop_bit 15 v) = of_bool (bit v 15)" by (simp add: high)
  show "drop_bit 7 b = of_bool (bit b 7)" by (simp add: high)
qed

lemma to8_sum: "to8 ((x :: u16) + y) = to8 x + to8 y"
proof -
  have "take_bit 8 (take_bit 16 x + take_bit 16 y) = take_bit 8 (x + y)" for x y :: int
  proof -
    have "take_bit 8 (take_bit 16 x + take_bit 16 y) = take_bit 8 (take_bit 8 (take_bit 16 x) + take_bit 8 (take_bit 16 y))"
      by (simp only: take_bit_add)
    also have "\<dots> = take_bit 8 (take_bit 8 x + take_bit 8 y)" by (simp add: take_bit_take_bit)
    finally show ?thesis by (simp only: take_bit_add)
  qed
  then show ?thesis by transfer simp
qed
lemma to8_twice: "to8 ((x :: u16) * 2) = to8 x * 2"
  by (simp only: mult_2_right to8_sum)

lemma to8_push: "to8 (push_bit k (w :: u16)) = push_bit k (to8 w)"
  by (rule bit_word_eqI) (auto simp: bit_simps)
lemma to8_or: "to8 ((x :: u16) OR y) = to8 x OR to8 y"
  by (rule bit_word_eqI) (auto simp: bit_simps)
lemma to8_drop: "to8 (drop_bit k (to16 (b :: u8))) = drop_bit k b"
  by (rule bit_word_eqI) (auto simp: bit_simps dest: bit_imp_le_length)
lemma to8_and1: "to8 ((w :: u16) AND 1) = to8 w AND 1"
  by (rule bit_word_eqI) (auto simp: bit_simps bit_1_iff)
lemma ror_in:
  "is_bit k \<Longrightarrow> to8 (if k \<noteq> 0 then 0x80 else 0 :: u16) = push_bit 7 k"
  "is_bit k \<Longrightarrow> (if k \<noteq> 0 then 0x8000 else 0) = push_bit 15 (to16 k)"
  by (auto simp: is_bit_def push_bit_eq_mult)
lemma low_of: "r AND 0xFF = to16 (to8 (r :: u16))" by (rule low_byte)

lemma rmw_narrow:
  assumes "is_bit (fl_c c)"
  shows "rmw op (to16 b) False c = (let (r, c1) = gen_rmw8 op b c in (to16 r, c1))"
proof -
  have top: "to8 (to16 b AND 1) = b AND 1" by (simp add: to8_and1)
  show ?thesis
    by (cases op) (simp_all add: rmw_def gen_rmw8_def asl8_def rol8_def lsr8_def ror8_def inc8_def dec8_def Let_def low_of
      to8_twice to8_push to8_or to8_drop nz_set_nz tops ror_in[OF assms] to8_sum to8_diff top)
qed

lemma rmw_wide:
  assumes "is_bit (fl_c c)"
  shows "rmw op w True c = gen_rmw16 op w c"
  by (cases op) (simp_all add: rmw_def gen_rmw16_def asl16_def rol16_def lsr16_def ror16_def inc16_def dec16_def Let_def
      nz_set_nz tops ror_in[OF assms])

text \<open>C28. Read-modify-write values: on a byte or a word the interpreter's shift, rotate,
  increment and decrement give the value and the flags of generated code's operation.\<close>

theorem rmw_matches_generated:
  assumes "is_bit (fl_c c)"
  shows "rmw op (to16 b) False c = (let (r, c1) = gen_rmw8 op b c in (to16 r, c1)) \<and>
    rmw op w True c = gen_rmw16 op w c \<and>
    rmw_acc RM_ASL (fl_m c = 0) c = (if fl_m c = 0 then asl_a16 c else asl_a8 c) \<and>
    rmw_acc RM_LSR (fl_m c = 0) c = (if fl_m c = 0 then lsr_a16 c else lsr_a8 c)"
proof -
  have a: "rmw_acc RM_ASL (fl_m c = 0) c = (if fl_m c = 0 then asl_a16 c else asl_a8 c)"
    "rmw_acc RM_LSR (fl_m c = 0) c = (if fl_m c = 0 then lsr_a16 c else lsr_a8 c)"
    using assms
    by (cases "fl_m c = 0"; simp add: rmw_acc_def rmw_narrow rmw_wide get_set_a gen_rmw8_def gen_rmw16_def asl8_def lsr8_def
        asl16_def lsr16_def asl_a8_def asl_a16_def lsr_a8_def lsr_a16_def Let_def;
        simp add: set_a_def set_nz8_def set_nz16_def set_a8_def)+
  show ?thesis using rmw_narrow[OF assms] rmw_wide[OF assms] a by simp
qed

theorem rmw_matches_generated_witness:
  "rmw RM_ROR 0x03 False (cpu_init\<lparr>fl_c := 1\<rparr>) = (0x81, set_nz8 0x81 (cpu_init\<lparr>fl_c := 1\<rparr>))"
proof -
  have "is_bit (fl_c (cpu_init\<lparr>fl_c := 1\<rparr>))" by simp
  from rmw_matches_generated[OF this, of RM_ROR "0x03"] show ?thesis
    by (simp add: gen_rmw8_def ror8_def Let_def)
qed

section \<open>Addressing\<close>

lemma bank0_sum:
  "(to32 (a :: u16) + to32 (d :: u8)) AND 0xFFFF = to32 (a + to16 d)"
  "(to32 a + to32 d + to32 (i :: u16)) AND 0xFFFF = to32 (a + to16 d + i)"
proof -
  have m: "unat (x AND 0xFFFF) = unat x mod 65536" for x :: u32
  proof -
    have "x AND 0xFFFF = take_bit 16 x" by (simp add: take_bit_eq_mask mask_eq_exp_minus_1)
    then show ?thesis by (simp add: unsigned_take_bit_eq take_bit_eq_mod unat_mod)
  qed
  have B: "unat a < 65536" "unat d < 256" "unat i < 65536" by (rule unat_bounds)+
  show "(to32 a + to32 d) AND 0xFFFF = to32 (a + to16 d)"
    using B by (simp add: word_unat_eq_iff m unat_word_ariths)
  show "(to32 a + to32 d + to32 i) AND 0xFFFF = to32 (a + to16 d + i)"
    using B by (simp add: word_unat_eq_iff m unat_word_ariths mod_simps)
qed

lemma fetch_cpu:
  assumes "hooks_keep_cpu h"
  shows "fetch8 h s = Inr (d, s1) \<Longrightarrow> cpu s1 = (cpu s)\<lparr>rPC := rPC (cpu s) + 1\<rparr>"
proof -
  assume "fetch8 h s = Inr (d, s1)"
  then obtain t where t: "read8 h (addr24 (rPB (cpu s)) (rPC (cpu s))) (s\<lparr>ct_bus_fetch := to8 CT_BUS_FETCH\<rparr>) = Inr (d, t)"
    "cpu s1 = (cpu t)\<lparr>rPC := rPC (cpu t) + 1\<rparr>"
    by (auto simp: fetch8_def set_fetch_def thn_def bnd_Inr)
  have "cpu t = cpu s" using read8_cpu[OF assms t(1)] by simp
  then show ?thesis using t(2) by simp
qed

lemma rd_bank0_b0: "rd_bank0_16 h a = read16_b0 h (to32 a)"
proof -
  have "b0_next (to32 a) = to32 (a + 1)"
  proof -
    have "to16 (to32 a + 1) = a + 1"
      using unat_bounds(2)[of a] by (simp add: word_unat_eq_iff unsigned_ucast_eq take_bit_eq_mod unat_word_ariths)
    then show ?thesis by (simp add: b0_next_def)
  qed
  then show ?thesis by (simp add: rd_bank0_16_def read16_b0_def)
qed

lemma long_ptr: "to32 (to16 (to32 (a :: u16) + 2)) = to32 (a + 2)" "to32 lo OR push_bit 16 (to32 b) = addr24 b lo"
proof -
  have "to16 (to32 a + 2) = a + 2"
    using unat_bounds(2)[of a] by (simp add: word_unat_eq_iff unsigned_ucast_eq take_bit_eq_mod unat_word_ariths)
  then show "to32 (to16 (to32 a + 2)) = to32 (a + 2)" by simp
qed (simp add: addr24_def or.commute)

lemma read16_b0_cpu: "hooks_keep_cpu h \<Longrightarrow> read16_b0 h a s = Inr (v, s') \<Longrightarrow> cpu s' = cpu s"
  by (auto simp: read16_b0_def bnd_Inr) (metis read8_cpu)

text \<open>
  Generated code has the operand bytes at compile time: the address it forms from them, by
  mode, with ops.h's helpers. \<open>fetch_operand\<close> is the interpreter's fetch of those bytes.
\<close>

definition b0_ea :: "u32 \<Rightarrow> EA" where "b0_ea a = \<lparr>ea_a = a, ea_bank0 = True\<rparr>"
definition far_ea :: "u32 \<Rightarrow> EA" where "far_ea a = \<lparr>ea_a = a, ea_bank0 = False\<rparr>"

fun gen_ea :: "('a mach_scheme) hooks \<Rightarrow> mode \<Rightarrow> u32 \<Rightarrow> ('a mach_scheme, EA) act" where
  "gen_ea h M_DP v = cpu_get (\<lambda>c. b0_ea (ea_dp (to8 v) c))"
| "gen_ea h M_DPX v = cpu_get (\<lambda>c. b0_ea (ea_dp_x (to8 v) c))"
| "gen_ea h M_DPY v = cpu_get (\<lambda>c. b0_ea (ea_dp_y (to8 v) c))"
| "gen_ea h M_SR v = cpu_get (\<lambda>c. b0_ea (ea_sr (to8 v) c))"
| "gen_ea h M_DPI v = bnd (ea_dp_ind h (to8 v)) (\<lambda>a. ret (far_ea a))"
| "gen_ea h M_DPXI v = bnd (ea_dp_x_ind h (to8 v)) (\<lambda>a. ret (far_ea a))"
| "gen_ea h M_DPIY v = bnd (ea_dp_ind_y h (to8 v)) (\<lambda>a. ret (far_ea a))"
| "gen_ea h M_DPIL v = bnd (ea_dp_ind_long h (to8 v)) (\<lambda>a. ret (far_ea a))"
| "gen_ea h M_DPILY v = bnd (ea_dp_ind_long_y h (to8 v)) (\<lambda>a. ret (far_ea a))"
| "gen_ea h M_SRIY v = bnd (ea_sr_ind_y h (to8 v)) (\<lambda>a. ret (far_ea a))"
| "gen_ea h M_ABS v = cpu_get (\<lambda>c. far_ea (ea_abs (to16 v) c))"
| "gen_ea h M_ABSX v = bnd (ea_abs_x (to16 v)) (\<lambda>a. ret (far_ea a))"
| "gen_ea h M_ABSY v = bnd (ea_abs_y (to16 v)) (\<lambda>a. ret (far_ea a))"
| "gen_ea h M_LONG v = ret (far_ea (v AND 0xFFFFFF))"
| "gen_ea h M_LONGX v = cpu_get (\<lambda>c. far_ea (ea_long_x v c))"
| "gen_ea h M_IMM v = die Bad_mode"

definition fetch_operand :: "('a mach_scheme) hooks \<Rightarrow> mode \<Rightarrow> ('a mach_scheme, u32) act" where
  "fetch_operand h md =
     (if md = M_ABS \<or> md = M_ABSX \<or> md = M_ABSY then bnd (fetch16 h) (\<lambda>v. ret (to32 v))
      else if md = M_LONG \<or> md = M_LONGX then fetch24 h
      else bnd (fetch8 h) (\<lambda>v. ret (to32 v)))"

lemma fetch_operand_simps:
  "fetch_operand h M_DP = bnd (fetch8 h) (\<lambda>v. ret (to32 v))" "fetch_operand h M_DPX = bnd (fetch8 h) (\<lambda>v. ret (to32 v))"
  "fetch_operand h M_DPY = bnd (fetch8 h) (\<lambda>v. ret (to32 v))" "fetch_operand h M_SR = bnd (fetch8 h) (\<lambda>v. ret (to32 v))"
  "fetch_operand h M_DPI = bnd (fetch8 h) (\<lambda>v. ret (to32 v))" "fetch_operand h M_DPXI = bnd (fetch8 h) (\<lambda>v. ret (to32 v))"
  "fetch_operand h M_DPIY = bnd (fetch8 h) (\<lambda>v. ret (to32 v))" "fetch_operand h M_DPIL = bnd (fetch8 h) (\<lambda>v. ret (to32 v))"
  "fetch_operand h M_DPILY = bnd (fetch8 h) (\<lambda>v. ret (to32 v))" "fetch_operand h M_SRIY = bnd (fetch8 h) (\<lambda>v. ret (to32 v))"
  by (simp_all add: fetch_operand_def)

lemma fetch16_cpu:
  assumes "hooks_keep_cpu h" "fetch16 h s = Inr (v, s1)"
  shows "cpu s1 = (cpu s)\<lparr>rPC := rPC (cpu s) + 2\<rparr>"
  using assms(2) by (auto simp: fetch16_def bnd_Inr dest!: fetch_cpu[OF assms(1)])

lemma fetch24_cpu:
  assumes "hooks_keep_cpu h" "fetch24 h s = Inr (v, s1)"
  shows "cpu s1 = (cpu s)\<lparr>rPC := rPC (cpu s) + 3\<rparr>"
  using assms(2) by (auto simp: fetch24_def bnd_Inr dest!: fetch16_cpu[OF assms(1)] fetch_cpu[OF assms(1)])

lemma to8_to32 [simp]: "to8 (to32 (b :: u8)) = b"
  by (rule bit_word_eqI) (auto simp: bit_simps dest: bit_imp_le_length)

lemma to16_to32 [simp]: "to16 (to32 (w :: u16)) = w"
  by (rule bit_word_eqI) (auto simp: bit_simps dest: bit_imp_le_length)

lemma dp_mode:
  assumes "hooks_keep_cpu h"
    and "\<And>d c s. cpu s = c\<lparr>rPC := rPC c + 1\<rparr> \<Longrightarrow> f c d s = g (to32 d) s"
  shows "bnd (gets cpu) (\<lambda>c. bnd (fetch8 h) (f c)) s = bnd (bnd (fetch8 h) (\<lambda>v. ret (to32 v))) g s"
proof (cases "fetch8 h s")
  case (Inr r)
  obtain d s1 where r: "r = (d, s1)" by fastforce
  have "f (cpu s) d s1 = g (to32 d) s1" by (rule assms(2)) (rule fetch_cpu[OF assms(1) Inr[unfolded r]])
  then show ?thesis using Inr r by (simp add: bnd_def)
qed (simp add: bnd_def)

text \<open>C6. Addressing: in every mode but immediate, the interpreter's address is the one
  generated code computes from the same operand bytes, the page-crossing record and every
  pointer read included, failing where it fails.\<close>

theorem addressing_matches_generated:
  assumes "hooks_keep_cpu h" "md \<noteq> M_IMM"
  shows "ea h md s = bnd (fetch_operand h md) (gen_ea h md) s"
proof -
  note dp = dp_mode[OF assms(1)]
  have b0: "bnd (read16_b0 h a) k s = (case read16_b0 h a s of Inl e \<Rightarrow> Inl e | Inr (v, t) \<Rightarrow> k v t)" for a s and k :: "u16 \<Rightarrow> ('a mach_scheme, EA) act"
    by (simp add: bnd_def)
  show ?thesis
  proof (cases md)
    case M_DP
    show ?thesis unfolding M_DP ea.simps fetch_operand_simps by (rule dp) (simp add: ret_def bank0_def b0_ea_def ea_dp_def bank0_sum)
  next
    case M_DPX
    show ?thesis unfolding M_DPX ea.simps fetch_operand_simps by (rule dp) (simp add: ret_def bank0_def b0_ea_def ea_dp_x_def bank0_sum)
  next
    case M_DPY
    show ?thesis unfolding M_DPY ea.simps fetch_operand_simps by (rule dp) (simp add: ret_def bank0_def b0_ea_def ea_dp_y_def bank0_sum)
  next
    case M_SR
    show ?thesis unfolding M_SR ea.simps fetch_operand_simps by (rule dp) (simp add: ret_def bank0_def b0_ea_def ea_sr_def bank0_sum)
  next
    case M_DPI
    show ?thesis unfolding M_DPI ea.simps fetch_operand_simps
      by (rule dp) (auto simp: full_def far_ea_def ea_dp_ind_def ea_dp_def bnd_gets bnd_assoc rd_bank0_b0 bnd_def split: sum.splits)
  next
    case M_DPXI
    show ?thesis unfolding M_DPXI ea.simps fetch_operand_simps
      by (rule dp) (auto simp: full_def far_ea_def ea_dp_x_ind_def ea_dp_x_def bnd_gets bnd_assoc rd_bank0_b0 bnd_def split: sum.splits)
  next
    case M_DPIY
    show ?thesis unfolding M_DPIY ea.simps fetch_operand_simps
      by (rule dp) (auto simp: ea_dp_ind_y_def ea_dp_ind_def ea_dp_def bnd_gets bnd_assoc rd_bank0_b0
        index_cross_def set_cross_def crosses_def full_def far_ea_def bnd_def thn_def dest!: read16_b0_cpu[OF assms(1)] split: sum.splits)
  next
    case M_DPIL
    show ?thesis unfolding M_DPIL ea.simps fetch_operand_simps
      by (rule dp) (auto simp: full_def far_ea_def ea_dp_ind_long_def ea_dp_def bnd_gets bnd_assoc rd_bank0_24_def rd_bank0_b0 long_ptr Let_def bnd_def split: sum.splits)
  next
    case M_DPILY
    show ?thesis unfolding M_DPILY ea.simps fetch_operand_simps
      by (rule dp) (auto simp: ea_dp_ind_long_y_def ea_dp_ind_long_def ea_dp_def bnd_gets bnd_assoc rd_bank0_24_def rd_bank0_b0 long_ptr Let_def
        full_def far_ea_def bnd_def dest!: read16_b0_cpu[OF assms(1)] read8_cpu[OF assms(1)] split: sum.splits)
  next
    case M_SRIY
    show ?thesis unfolding M_SRIY ea.simps fetch_operand_simps
      by (rule dp) (auto simp: ea_sr_ind_y_def ea_sr_def bnd_gets bnd_assoc rd_bank0_b0
        full_def far_ea_def bnd_def dest!: read16_b0_cpu[OF assms(1)] split: sum.splits)
  next
    case M_ABS
    then show ?thesis
      by (auto simp: fetch_operand_def bnd_gets bnd_assoc full_def far_ea_def ea_abs_def bnd_def dest!: fetch16_cpu[OF assms(1)] split: sum.splits)
  next
    case M_ABSX
    then show ?thesis
      by (auto simp: fetch_operand_def bnd_gets bnd_assoc full_def far_ea_def ea_abs_x_def index_cross_def set_cross_def crosses_def Let_def
          bnd_def thn_def dest!: fetch16_cpu[OF assms(1)] split: sum.splits)
  next
    case M_ABSY
    then show ?thesis
      by (auto simp: fetch_operand_def bnd_gets bnd_assoc full_def far_ea_def ea_abs_y_def index_cross_def set_cross_def crosses_def Let_def
          bnd_def thn_def dest!: fetch16_cpu[OF assms(1)] split: sum.splits)
  next
    case M_LONG
    then show ?thesis by (simp add: fetch_operand_def full_def far_ea_def bnd_def split: sum.split)
  next
    case M_LONGX
    then show ?thesis
      by (auto simp: fetch_operand_def bnd_gets full_def far_ea_def ea_long_x_def bnd_def dest!: fetch24_cpu[OF assms(1)] split: sum.splits)
  qed (use assms(2) in simp)
qed

theorem addressing_matches_generated_witness:
  "ea no_hooks M_DPIY adc_state = bnd (fetch_operand no_hooks M_DPIY) (gen_ea no_hooks M_DPIY) adc_state"
  by (rule addressing_matches_generated[OF no_hooks_cpu]) simp

lemma xce_agrees:
  "op_xce c = (let c1 = c\<lparr>fl_c := fl_e c, fl_e := fl_c c\<rparr> in
     if fl_e c1 \<noteq> 0
     then c1\<lparr>fl_m := 1, fl_x := 1, rX := rX c1 AND 0xFF, rY := rY c1 AND 0xFF, rS := 0x0100 OR (rS c1 AND 0xFF)\<rparr>
     else c1)"
  by (simp add: op_xce_def index_width_def Let_def)

text \<open>Flags and stack: REP, SEP, XCE, PLP, PHP and the pushes and pulls of the interpreter
  are generated code's, in native and in emulation mode.\<close>

theorem flags_stack_match_generated:
  "step_flags h 0xC2 = Some (bnd (fetch8 h) (\<lambda>v. cpu_do (op_rep v))) \<and>
   step_flags h 0xE2 = Some (bnd (fetch8 h) (\<lambda>v. cpu_do (op_sep v))) \<and>
   step_flags h 0xFB = Some (cpu_do op_xce) \<and>
   step_stack h 0x08 m16 x16 = Some (bnd (cpu_get get_p) (push8 h)) \<and>
   step_stack h 0x28 m16 x16 = Some (bnd (pull8 h) (\<lambda>v. cpu_do (set_p v))) \<and>
   step_stack h 0x48 m16 x16 = Some (bnd (cpu_get rA) (\<lambda>v. if m16 then push16 h v else push8 h (to8 v))) \<and>
   step_stack h 0x0B m16 x16 = Some (bnd (cpu_get rDP) (push16 h))"
proof -
  have p: "push h = push8 h" "pushw h = push16 h" for h :: "('a mach_scheme) hooks" by (rule ext, rule push_push8)+
  show ?thesis
    by (cases m16; simp add: p step_flags_def step_stack_def Let_def op_rep_def [abs_def] op_sep_def [abs_def] xce_agrees [abs_def]
      push_push8 get_p_pack [abs_def] set_p_unpack [abs_def])
qed

section \<open>Stack and interrupts\<close>

text \<open>Native-mode stack accesses in the WRAM of bank 0, as state updates.\<close>

definition in_wram :: "u16 \<Rightarrow> bool" where
  "in_wram p \<longleftrightarrow> p < 0x2000"

lemma bank0_addr: "to32 (p :: u16) AND 0xFFFFFF = to32 p" "to8 (drop_bit 16 (to32 p)) = 0" "to16 (to32 p) = p"
proof -
  show "to32 p AND 0xFFFFFF = to32 p"
    by (rule bit_word_eqI) (auto simp: bit_simps mask24_nth dest: bit_imp_le_length)
  show "to8 (drop_bit 16 (to32 p)) = 0"
    by (rule bit_word_eqI) (auto simp: bit_simps dest: bit_imp_le_length)
qed simp

lemma in_wram_cell: "in_wram p \<Longrightarrow> cell_of (to32 p) = (R_WRAM, to32 p)" "in_wram p \<Longrightarrow> ram_addr (to32 p)"
  by (simp_all add: in_wram_def cell_of_def ram_addr_def decode_addr_def Let_def bank0_addr)

lemma in_wram_distinct: "in_wram p \<Longrightarrow> in_wram q \<Longrightarrow> p \<noteq> q \<Longrightarrow> cell_of (to32 p) \<noteq> cell_of (to32 q)"
  by (simp add: in_wram_cell) (metis bank0_addr(3))

text \<open>What a stack access changes beside the registers: \<open>same_mem\<close> is everything read back.\<close>

definition same_mem :: "'a bus_state_scheme \<Rightarrow> 'a bus_state_scheme \<Rightarrow> bool" where
  "same_mem s t \<longleftrightarrow> wram s = wram t \<and> sram s = sram t \<and> rom s = rom t"

lemma poke_cpu: "ram_addr a \<Longrightarrow> cpu (poke h a v s) = cpu s"
proof -
  assume "ram_addr a"
  then have "write8 h a v s = Inr ((), poke h a v s)" by (rule write8_ram)
  then show ?thesis using \<open>ram_addr a\<close>
    by (auto simp: ram_addr_def write8_def poke_def Let_def split: prod.splits region.splits)
qed

lemma peek_cpu [simp]: "bus_peek a (s\<lparr>cpu := c\<rparr>) = bus_peek a s"
  by (simp add: bus_peek_def split: prod.split region.split)

lemma push_wram:
  assumes "fl_e (cpu s) = 0" "in_wram (rS (cpu s))"
  shows "push h v s = Inr ((), (poke h (to32 (rS (cpu s))) v s)\<lparr>cpu := (cpu s)\<lparr>rS := rS (cpu s) - 1\<rparr>\<rparr>)"
  using assms by (simp add: push_def bnd_gets thn_def write8_ram in_wram_cell poke_cpu page1_def)

lemma pull_wram:
  assumes "fl_e (cpu s) = 0" "in_wram (rS (cpu s) + 1)"
  shows "\<exists>t. pull h s = Inr (bus_peek (to32 (rS (cpu s) + 1)) s, t) \<and> same_mem t s \<and>
    cpu t = (cpu s)\<lparr>rS := rS (cpu s) + 1\<rparr>"
proof -
  let ?s = "s\<lparr>cpu := (cpu s)\<lparr>rS := rS (cpu s) + 1\<rparr>\<rparr>"
  obtain t where t: "read8 h (to32 (rS (cpu s) + 1)) ?s = Inr (bus_peek (to32 (rS (cpu s) + 1)) ?s, t)"
      "wram t = wram ?s" "sram t = sram ?s" "rom t = rom ?s"
    using read8_ram[OF in_wram_cell(2)[OF assms(2)], of h ?s] by blast
  have "cpu t = cpu ?s" using t(1) assms(2)
    by (auto simp: in_wram_def read8_def decode_addr_def Let_def bank0_addr)
  then show ?thesis using t assms(1)
    by (simp add: pull_def bnd_gets thn_def page1_def same_mem_def)
qed

lemma peek_same: "same_mem t s \<Longrightarrow> ram_addr a \<Longrightarrow> bus_peek a t = bus_peek a s"
  by (intro peek_eq) (simp_all add: same_mem_def)

lemma same_mem_refl [simp]: "same_mem s s" and same_mem_trans: "same_mem s t \<Longrightarrow> same_mem t u \<Longrightarrow> same_mem s u"
  by (simp_all add: same_mem_def)

lemma same_mem_cpu [simp]: "same_mem (s\<lparr>cpu := c\<rparr>) t = same_mem s t" "same_mem s (t\<lparr>cpu := c\<rparr>) = same_mem s t"
  by (simp_all add: same_mem_def)

lemma pushw_wram:
  assumes "fl_e (cpu s) = 0" "in_wram (rS (cpu s))" "in_wram (rS (cpu s) - 1)"
  shows "\<exists>t. pushw h v s = Inr ((), t) \<and> cpu t = (cpu s)\<lparr>rS := rS (cpu s) - 2\<rparr> \<and>
    bus_peek (to32 (rS (cpu s))) t = to8 (drop_bit 8 v) \<and> bus_peek (to32 (rS (cpu s) - 1)) t = to8 v \<and>
    (\<forall>q. in_wram q \<and> q \<noteq> rS (cpu s) \<and> q \<noteq> rS (cpu s) - 1 \<longrightarrow> bus_peek (to32 q) t = bus_peek (to32 q) s) \<and> rom t = rom s"
proof -
  let ?p = "rS (cpu s)"
  let ?s1 = "(poke h (to32 ?p) (to8 (drop_bit 8 v)) s)\<lparr>cpu := (cpu s)\<lparr>rS := ?p - 1\<rparr>\<rparr>"
  let ?t = "(poke h (to32 (?p - 1)) (to8 v) ?s1)\<lparr>cpu := (cpu s)\<lparr>rS := ?p - 2\<rparr>\<rparr>"
  have "push h (to8 (drop_bit 8 v)) s = Inr ((), ?s1)" by (rule push_wram[OF assms(1,2)])
  moreover have "push h (to8 v) ?s1 = Inr ((), ?t)"
    using push_wram[of ?s1 h "to8 v"] assms by (simp add: diff_diff_eq)
  ultimately have "pushw h v s = Inr ((), ?t)" by (simp add: pushw_def)
  moreover have "?p \<noteq> ?p - 1" by simp
  note pk = in_wram_cell(2) in_wram_distinct peek_poke
  have a: "ram_addr (to32 ?p)" "ram_addr (to32 (?p - 1))" "cell_of (to32 ?p) \<noteq> cell_of (to32 (?p - 1))"
    using assms by (simp_all add: in_wram_cell(2) in_wram_distinct)
  have "bus_peek (to32 ?p) ?t = to8 (drop_bit 8 v)" "bus_peek (to32 (?p - 1)) ?t = to8 v"
    using a by (simp_all add: peek_poke)
  moreover have "bus_peek (to32 q) ?t = bus_peek (to32 q) s" if "in_wram q" "q \<noteq> ?p" "q \<noteq> ?p - 1" for q
    using that assms in_wram_distinct[of q ?p] in_wram_distinct[of q "?p - 1"] a in_wram_cell(2)[of q]
    by (simp add: peek_poke)
  moreover have "rom ?t = rom s"
  proof -
    have "rom (poke h (to32 q) w u) = rom u" if "in_wram q" for q w u
      using that by (simp add: poke_def write8_def Let_def in_wram_def decode_addr_def bank0_addr)
    then show ?thesis using assms by simp
  qed
  ultimately show ?thesis by (intro exI[of _ ?t]) simp
qed

lemma pullw_wram:
  assumes "fl_e (cpu s) = 0" "in_wram (rS (cpu s) + 1)" "in_wram (rS (cpu s) + 2)"
  shows "\<exists>t. pullw h s = Inr (word16 (bus_peek (to32 (rS (cpu s) + 1)) s) (bus_peek (to32 (rS (cpu s) + 2)) s), t) \<and>
    same_mem t s \<and> cpu t = (cpu s)\<lparr>rS := rS (cpu s) + 2\<rparr>"
proof -
  obtain t where t: "pull h s = Inr (bus_peek (to32 (rS (cpu s) + 1)) s, t)" "same_mem t s" "cpu t = (cpu s)\<lparr>rS := rS (cpu s) + 1\<rparr>"
    using pull_wram[OF assms(1,2)] by blast
  have two: "rS (cpu s) + 1 + 1 = rS (cpu s) + 2" by simp
  have "fl_e (cpu t) = 0" "in_wram (rS (cpu t) + 1)" using t(3) assms by (simp_all add: add.assoc)
  then obtain u where u: "pull h t = Inr (bus_peek (to32 (rS (cpu t) + 1)) t, u)" "same_mem u t" "cpu u = (cpu t)\<lparr>rS := rS (cpu t) + 1\<rparr>"
    using pull_wram by blast
  have "bus_peek (to32 (rS (cpu s) + 2)) t = bus_peek (to32 (rS (cpu s) + 2)) s"
    by (rule peek_same[OF t(2)]) (rule in_wram_cell(2)[OF assms(3)])
  then show ?thesis using t u by (intro exI[of _ u]) (simp add: pullw_def same_mem_def add.commute[of _ 2])
qed

lemma unpack_frame:
  "unpack_p p (c\<lparr>rS := q, fl_i := a, fl_d := b, rPB := d, rPC := v\<rparr>) = (unpack_p p c)\<lparr>rS := q, rPB := d, rPC := v\<rparr>"
  by (simp add: unpack_p_def Let_def)

lemma read_rom0:
  assumes "v \<ge> 0x8000"
  shows "\<exists>t. read8 h (to32 (v :: u16)) s = Inr (rom s (to32 v), t) \<and> same_mem t s \<and> cpu t = cpu s"
  using assms
  by (simp add: read8_def Let_def decode_addr_def bank0_addr word_le_nat_alt word_less_nat_alt same_mem_def log_access_cpu)

lemma peek_more [simp]:
  "bus_peek a (s\<lparr>sys := y\<rparr>) = bus_peek a s" "bus_peek a (s\<lparr>waiting := w\<rparr>) = bus_peek a s"
  by (simp_all add: bus_peek_def split: prod.split region.split)

lemma pack_frame: "pack_p (c\<lparr>rS := q\<rparr>) = pack_p c"
  by (simp add: pack_p_def)

text \<open>C7. An interrupt returns: taken in native mode with its four stack bytes in WRAM, its entry
  clears decimal mode, masks IRQ and goes to the vector of its kind, and RTI in the handler's
  first instruction gives back every register as it was, flags and widths included.\<close>

theorem interrupt_returns:
  assumes "wf_cpu (cpu s)" "fl_e (cpu s) = 0" "3 \<le> rS (cpu s)" "rS (cpu s) < 0x2000"
  shows "\<exists>n s1 s2. interp_interrupt h nmi s = Inr (n, s1) \<and>
    cpu s1 = (cpu s)\<lparr>fl_i := 1, fl_d := 0, rPB := 0, rS := rS (cpu s) - 4,
      rPC := (if nmi then word16 (rom s 0xFFEA) (rom s 0xFFEB) else word16 (rom s 0xFFEE) (rom s 0xFFEF))\<rparr> \<and>
    \<not> waiting s1 \<and> op_rti_sys h at (s1\<lparr>sys := True\<rparr>) = Inr ((), s2) \<and> cpu s2 = cpu s"
proof -
  let ?c = "cpu s" and ?p = "rS (cpu s)"
  have w: "in_wram ?p" "in_wram (?p - 1)" "in_wram (?p - 2)" "in_wram (?p - 3)"
  proof -
    have u: "unat (?p - k) = unat ?p - unat k" if "unat k \<le> 3" for k
      using that assms(3) by (simp add: unat_sub word_le_nat_alt)
    show "in_wram ?p" "in_wram (?p - 1)" "in_wram (?p - 2)" "in_wram (?p - 3)"
      using assms(4) by (simp_all add: in_wram_def word_less_nat_alt u)
  qed
  define s0 where "s0 = cyc_begin_interrupt ?c s"
  have s0: "cpu s0 = ?c" "rom s0 = rom s" by (simp_all add: s0_def cyc_begin_interrupt_def cyc_begin_def Let_def)
  define s1 where "s1 = (poke h (to32 ?p) (rPB ?c) s0)\<lparr>cpu := ?c\<lparr>rS := ?p - 1\<rparr>\<rparr>"
  have 1: "push h (rPB ?c) s0 = Inr ((), s1)"
    using push_wram[of s0 h "rPB ?c"] assms(2) w(1) s0 by (simp add: s1_def)
  have r1: "rom s1 = rom s"
  proof -
    have "rom (poke h (to32 q) w u) = rom u" if "in_wram q" for q w u
      using that by (simp add: poke_def write8_def Let_def in_wram_def decode_addr_def bank0_addr)
    then show ?thesis using w(1) s0 by (simp add: s1_def)
  qed
  have d: "?p - 1 - 1 = ?p - 2" "?p - 1 - 2 = ?p - 3" "?p - 3 - 1 = ?p - 4" by simp_all
  have c1: "cpu s1 = ?c\<lparr>rS := ?p - 1\<rparr>" by (simp add: s1_def)
  obtain s2 where 2: "pushw h (rPC ?c) s1 = Inr ((), s2)" "cpu s2 = ?c\<lparr>rS := ?p - 3\<rparr>"
    "bus_peek (to32 (?p - 1)) s2 = to8 (drop_bit 8 (rPC ?c))" "bus_peek (to32 (?p - 2)) s2 = to8 (rPC ?c)"
    "\<And>q. in_wram q \<Longrightarrow> q \<noteq> ?p - 1 \<Longrightarrow> q \<noteq> ?p - 2 \<Longrightarrow> bus_peek (to32 q) s2 = bus_peek (to32 q) s1" "rom s2 = rom s1"
    using pushw_wram[of s1 h "rPC ?c"] assms(2) w c1 d by auto
  define s3 where "s3 = (poke h (to32 (?p - 3)) (pack_p ?c) s2)\<lparr>cpu := ?c\<lparr>rS := ?p - 4\<rparr>\<rparr>"
  have 3: "push h (pack_p (cpu s2)) s2 = Inr ((), s3)"
    using push_wram[of s2 h "pack_p ?c"] assms(2) w(4) 2(2) d by (simp add: s3_def pack_frame)
  define s4 where "s4 = s3\<lparr>cpu := (cpu s3)\<lparr>fl_i := 1, fl_d := 0, rPB := 0\<rparr>\<rparr>"
  have r4: "rom s4 = rom s"
    using w(4) 2(6) r1
    by (simp add: s4_def s3_def poke_def write8_def Let_def in_wram_def decode_addr_def bank0_addr)
  define vec where "vec = (if nmi then 0xFFEA else 0xFFEE :: u16)"
  have hi: "0x8000 \<le> vec" "0x8000 \<le> vec + 1" by (simp_all add: vec_def)
  obtain s5 where 5: "read8 h (to32 vec) s4 = Inr (rom s (to32 vec), s5)" "same_mem s5 s4" "cpu s5 = cpu s4"
    using read_rom0[OF hi(1), of h s4] r4 by auto
  obtain s6 where 6: "read8 h (to32 (vec + 1)) s5 = Inr (rom s (to32 (vec + 1)), s6)" "same_mem s6 s5" "cpu s6 = cpu s5"
    using read_rom0[OF hi(2), of h s5] r4 5(2) by (auto simp: same_mem_def)
  define v where "v = word16 (rom s (to32 vec)) (rom s (to32 (vec + 1)))"
  define s7 where "s7 = s6\<lparr>cpu := (cpu s6)\<lparr>rPC := v\<rparr>, waiting := False\<rparr>"
  have e: "\<exists>n. interp_interrupt h nmi s = Inr (n, s7)"
    unfolding interp_interrupt_def Let_def using assms(2) 1 2(1) 3 5(1) 6(1)
    by (simp add: bnd_gets thn_modify s0_def[symmetric] s4_def[symmetric] vec_def[symmetric] set_pc_def v_def s7_def)
  have c7: "cpu s7 = ?c\<lparr>rS := ?p - 4, fl_i := 1, fl_d := 0, rPB := 0, rPC := v\<rparr>"
    by (simp add: s7_def 6(3) 5(3) s4_def s3_def)
  define t where "t = s7\<lparr>sys := True\<rparr>"
  have m: "bus_peek (to32 q) t = bus_peek (to32 q) s3" if "in_wram q" for q
  proof -
    have "same_mem s6 s3" using 6(2) 5(2) by (simp add: same_mem_def s4_def)
    from peek_same[OF this in_wram_cell(2)[OF that]] show ?thesis by (simp add: t_def s7_def)
  qed
  have ne: "?p \<noteq> ?p - 1" "?p \<noteq> ?p - 2" "?p \<noteq> ?p - 3" "?p - 1 \<noteq> ?p - 3" "?p - 2 \<noteq> ?p - 3" by simp_all
  have pk: "bus_peek (to32 (?p - 3)) t = pack_p ?c" "bus_peek (to32 (?p - 2)) t = to8 (rPC ?c)"
    "bus_peek (to32 (?p - 1)) t = to8 (drop_bit 8 (rPC ?c))" "bus_peek (to32 ?p) t = rPB ?c"
    using w ne in_wram_distinct[of ?p "?p - 3"] in_wram_distinct[of "?p - 1" "?p - 3"] in_wram_distinct[of "?p - 2" "?p - 3"]
    by (simp_all add: m s3_def peek_poke in_wram_cell(2) 2(3,4,5) s1_def)
  have ct: "cpu t = ?c\<lparr>rS := ?p - 4, fl_i := 1, fl_d := 0, rPB := 0, rPC := v\<rparr>" using c7 by (simp add: t_def)
  have up: "?p - 4 + 1 = ?p - 3" "?p - 3 + 1 = ?p - 2" "?p - 3 + 2 = ?p - 1" "?p - 1 + 1 = ?p" by simp_all
  obtain t1 where t1: "pull h t = Inr (pack_p ?c, t1)" "same_mem t1 t" "cpu t1 = (cpu t)\<lparr>rS := ?p - 3\<rparr>"
    using pull_wram[of t h] ct assms(2) w(4) pk(1) up(1) by auto
  define t2 where "t2 = t1\<lparr>cpu := unpack_p (pack_p ?c) (cpu t1)\<rparr>"
  have "cpu t1 = ?c\<lparr>rS := ?p - 3, fl_i := 1, fl_d := 0, rPB := 0, rPC := v\<rparr>" using t1(3) ct by simp
  then have c2: "cpu t2 = ?c\<lparr>rS := ?p - 3, rPB := 0, rPC := v\<rparr>"
    using unpack_pack[OF assms(1)] by (simp add: t2_def unpack_frame)
  have pk2: "bus_peek (to32 q) t2 = bus_peek (to32 q) t" if "in_wram q" for q
    using peek_same[OF t1(2) in_wram_cell(2)[OF that]] by (simp add: t2_def)
  obtain t3 where t3: "pullw h t2 = Inr (rPC ?c, t3)" "same_mem t3 t2" "cpu t3 = (cpu t2)\<lparr>rS := ?p - 1\<rparr>"
    using pullw_wram[of t2 h] c2 assms(2) w pk up pk2 by auto
  define t4 where "t4 = t3\<lparr>cpu := (cpu t3)\<lparr>rPC := rPC ?c\<rparr>\<rparr>"
  have c4: "cpu t4 = ?c\<lparr>rS := ?p - 1, rPB := 0\<rparr>" using t3(3) c2 by (simp add: t4_def)
  have "bus_peek (to32 ?p) t4 = rPB ?c"
    using peek_same[OF t3(2) in_wram_cell(2)[OF w(1)]] pk2[OF w(1)] pk(4) by (simp add: t4_def)
  then obtain t5 where t5: "pull h t4 = Inr (rPB ?c, t5)" "cpu t5 = (cpu t4)\<lparr>rS := ?p\<rparr>"
    using pull_wram[of t4 h] c4 assms(2) w(1) up(4) by auto
  let ?f = "t5\<lparr>cpu := (cpu t5)\<lparr>rPB := rPB ?c\<rparr>\<rparr>"
  have "op_rti_sys h at t = Inr ((), ?f)"
    unfolding op_rti_sys_def using t1(1) t3(1) t5(1) c4 assms(2)
    by (simp add: bnd_gets t_def[symmetric] thn_modify t2_def[symmetric] set_pc_def t4_def[symmetric] set_pb_def)
      (simp add: t_def)
  moreover have "cpu ?f = ?c" using t5(2) c4 by simp
  moreover obtain n where "interp_interrupt h nmi s = Inr (n, s7)" using e by blast
  moreover have "cpu s7 = ?c\<lparr>fl_i := 1, fl_d := 0, rPB := 0, rS := ?p - 4,
      rPC := (if nmi then word16 (rom s 0xFFEA) (rom s 0xFFEB) else word16 (rom s 0xFFEE) (rom s 0xFFEF))\<rparr>"
    unfolding c7 by (simp add: v_def vec_def)
  moreover have "\<not> waiting s7" by (simp add: s7_def)
  ultimately show ?thesis unfolding t_def by blast
qed

theorem interrupt_returns_witness:
  "\<exists>n s1 s2. interp_interrupt no_hooks True (interp_zero\<lparr>rom := (\<lambda>_. 0x90)\<rparr>) = Inr (n, s1) \<and>
    rPC (cpu s1) = 0x9090 \<and> op_rti_sys no_hooks 0 (s1\<lparr>sys := True\<rparr>) = Inr ((), s2) \<and> cpu s2 = cpu_init"
proof -
  let ?s = "interp_zero\<lparr>rom := (\<lambda>_. 0x90)\<rparr>"
  have c: "cpu ?s = cpu_init" by (simp add: interp_zero_simps)
  have "wf_cpu (cpu ?s)" "fl_e (cpu ?s) = 0" "3 \<le> rS (cpu ?s)" "rS (cpu ?s) < 0x2000"
    unfolding c by (simp_all add: wf_cpu_init) (simp_all add: cpu_init_def)
  from interrupt_returns[OF this, of no_hooks True 0] show ?thesis
    unfolding c by (auto simp: word16_def)
qed


end
