(* ===== verification/Ct_Codec.thy ===== *)
theory Ct_Codec
  imports Ct_Prelude
begin

text \<open>
  The byte-stream interface of the file writers (\<open>runtime/png.c\<close>, \<open>runtime/wav.c\<close>): an encoder
  of values into bytes with a decoder that reads one value off the front of a stream. The
  decoders are specifications (the program only writes these files).
\<close>

type_synonym bytes = "u8 list"
type_synonym 'a reader = "bytes \<Rightarrow> ('a \<times> bytes) option"

locale codec =
  fixes enc :: "'a \<Rightarrow> bytes"
    and dec :: "'a reader"
    and ok :: "'a \<Rightarrow> bool"
  assumes dec_enc: "ok x \<Longrightarrow> dec (enc x @ r) = Some (x, r)"
begin

lemma dec_end: "ok x \<Longrightarrow> dec (enc x) = Some (x, [])"
  using dec_enc[of x "[]"] by simp

lemma enc_prefix_free: "ok x \<Longrightarrow> ok y \<Longrightarrow> enc x @ r = enc y @ q \<Longrightarrow> x = y \<and> r = q"
  by (metis dec_enc option.inject prod.inject)

end

text \<open>Reading \<open>n\<close> values one after the other.\<close>

fun read_n :: "'a reader \<Rightarrow> nat \<Rightarrow> 'a list reader" where
  "read_n d 0 r = Some ([], r)"
| "read_n d (Suc n) r =
     (case d r of None \<Rightarrow> None
      | Some (x, q) \<Rightarrow> (case read_n d n q of None \<Rightarrow> None | Some (xs, t) \<Rightarrow> Some (x # xs, t)))"

context codec
begin

lemma read_n_enc: "(\<And>x. x \<in> set xs \<Longrightarrow> ok x) \<Longrightarrow> read_n dec (length xs) (concat (map enc xs) @ r) = Some (xs, r)"
  by (induction xs) (simp_all add: dec_enc)

end

section \<open>Words as bytes\<close>

text \<open>\<open>be32\<close> of \<open>png.c\<close> and \<open>le32\<close> of \<open>wav.c\<close>, as the four bytes they store.\<close>

definition be32 :: "u32 \<Rightarrow> bytes" where
  "be32 v = [to8 (drop_bit 24 v), to8 (drop_bit 16 v), to8 (drop_bit 8 v), to8 v]"

definition le32 :: "u32 \<Rightarrow> bytes" where
  "le32 v = map (\<lambda>k. to8 (drop_bit (8 * k) v)) [0..<4]"

text \<open>A sample, or a block length, low byte first.\<close>

definition le16 :: "u16 \<Rightarrow> bytes" where
  "le16 v = [to8 v, to8 (drop_bit 8 v)]"

definition word32 :: "u8 \<Rightarrow> u8 \<Rightarrow> u8 \<Rightarrow> u8 \<Rightarrow> u32" where
  "word32 a b c d = push_bit 24 (to32 a) OR push_bit 16 (to32 b) OR push_bit 8 (to32 c) OR to32 d"

fun read_be32 :: "u32 reader" where
  "read_be32 (a # b # c # d # r) = Some (word32 a b c d, r)"
| "read_be32 _ = None"

fun read_le32 :: "u32 reader" where
  "read_le32 (a # b # c # d # r) = Some (word32 d c b a, r)"
| "read_le32 _ = None"

fun read_le16 :: "u16 reader" where
  "read_le16 (a # b # r) = Some (word16 a b, r)"
| "read_le16 _ = None"

lemma word32_bytes: "word32 (to8 (drop_bit 24 v)) (to8 (drop_bit 16 v)) (to8 (drop_bit 8 v)) (to8 v) = v"
proof (rule bit_word_eqI)
  fix n
  assume "n < LENGTH(32)"
  then consider "n < 8" | "8 \<le> n" "n < 16" | "16 \<le> n" "n < 24" | "24 \<le> n" "n < 32" by fastforce
  then show "bit (word32 (to8 (drop_bit 24 v)) (to8 (drop_bit 16 v)) (to8 (drop_bit 8 v)) (to8 v)) n = bit v n"
    by cases (auto simp: word32_def bit_simps)
qed

lemma le32_bytes: "le32 v = [to8 v, to8 (drop_bit 8 v), to8 (drop_bit 16 v), to8 (drop_bit 24 v)]"
  by (simp add: le32_def upt_rec)

lemma length_words [simp]: "length (be32 v) = 4" "length (le32 v) = 4" "length (le16 w) = 2"
  by (simp_all add: be32_def le32_def le16_def)

interpretation be32: codec be32 read_be32 "\<lambda>_. True"
  by unfold_locales (simp add: be32_def word32_bytes)

interpretation le32: codec le32 read_le32 "\<lambda>_. True"
  by unfold_locales (simp add: le32_bytes word32_bytes)

interpretation le16: codec le16 read_le16 "\<lambda>_. True"
  by unfold_locales (simp add: le16_def)

end
