(* ===== verification/Ct_Png.thy ===== *)
theory Ct_Png
  imports Ct_Codec
begin

text \<open>
  \<open>runtime/png.c\<close>: the PNG writer and the frame dumper. The writer is modelled as the bytes of
  the file; that \<open>fopen\<close>, \<open>malloc\<close> and \<open>fwrite\<close> succeed is outside the model. The reader against
  which it is checked (CRC by polynomial division, Adler-32 by its sums, stored deflate blocks,
  filter 0) is a specification.
\<close>

section \<open>CRC\<close>

definition crc_bit :: "u32 \<Rightarrow> u32" where
  "crc_bit v = (if v AND 1 \<noteq> 0 then 0xEDB88320 XOR drop_bit 1 v else drop_bit 1 v)"

definition crc_table :: "u32 list" where
  "crc_table = map (\<lambda>k. (crc_bit ^^ 8) (word_of_nat k)) [0..<256]"

definition crc_step :: "u32 \<Rightarrow> u8 \<Rightarrow> u32" where
  "crc_step c b = (crc_table ! unat ((c XOR to32 b) AND 0xFF)) XOR drop_bit 8 c"

definition crc :: "u32 \<Rightarrow> bytes \<Rightarrow> u32" where
  "crc c p = foldl crc_step c p"

text \<open>The same by eight steps of polynomial division per byte, without a table.\<close>

definition crc_byte :: "u32 \<Rightarrow> u8 \<Rightarrow> u32" where
  "crc_byte c b = (crc_bit ^^ 8) (c XOR to32 b)"

section \<open>The writer\<close>

definition ascii :: "string \<Rightarrow> bytes" where
  "ascii s = map of_char s"

definition chunk :: "bytes \<Rightarrow> bytes \<Rightarrow> bytes" where
  "chunk ty data =
     (let hdr = be32 (word_of_nat (length data)) @ ty;
          c = crc 0xFFFFFFFF (drop 4 hdr)
      in hdr @ data @ be32 (crc c data XOR 0xFFFFFFFF))"

text \<open>Raw scanlines: filter byte 0, then RGB.\<close>

definition png_row :: "bytes \<Rightarrow> nat \<Rightarrow> nat \<Rightarrow> bytes" where
  "png_row bgrx w y = 0 # concat (map (\<lambda>x. let s = (y * w + x) * 4 in
     [bgrx ! (s + 2), bgrx ! (s + 1), bgrx ! s]) [0..<w])"

definition png_raw :: "bytes \<Rightarrow> nat \<Rightarrow> nat \<Rightarrow> bytes" where
  "png_raw bgrx w h = concat (map (png_row bgrx w) [0..<h])"

text \<open>The two running sums of the zlib checksum.\<close>

definition adler_step :: "u32 \<times> u32 \<Rightarrow> u8 \<Rightarrow> u32 \<times> u32" where
  "adler_step ab v = (let a = (fst ab + to32 v) mod 65521 in (a, (snd ab + a) mod 65521))"

text \<open>The loop over \<open>off\<close>: one stored deflate block of at most 65535 bytes each time.\<close>

definition block_header :: "nat \<Rightarrow> nat \<Rightarrow> bytes" where
  "block_header left len = of_bool (len = left) # le16 (word_of_nat len) @ le16 (NOT (word_of_nat len))"

function stored_blocks :: "bytes \<Rightarrow> u32 \<times> u32 \<Rightarrow> bytes \<times> (u32 \<times> u32)" where
  "stored_blocks raw ab =
     (if raw = [] then ([], ab)
      else let len = (if length raw < 65535 then length raw else 65535);
               blk = take len raw;
               (z, ab') = stored_blocks (drop len raw) (foldl adler_step ab blk)
           in (block_header (length raw) len @ blk @ z, ab'))"
  by pat_completeness auto
termination by (relation "measure (\<lambda>(raw, ab). length raw)") auto

declare stored_blocks.simps [simp del]

definition zlib :: "bytes \<Rightarrow> bytes" where
  "zlib raw = (let (z, (a, b)) = stored_blocks raw (1, 0)
     in [0x78, 0x01] @ z @ be32 (push_bit 16 b OR a))"

definition png_sig :: bytes where
  "png_sig = [0x89, 0x50, 0x4E, 0x47, 0x0D, 0x0A, 0x1A, 0x0A]"

definition png_write_bgrx :: "bytes \<Rightarrow> nat \<Rightarrow> nat \<Rightarrow> bytes" where
  "png_write_bgrx bgrx w h =
     png_sig @ chunk (ascii ''IHDR'') (be32 (word_of_nat w) @ be32 (word_of_nat h) @ [8, 2, 0, 0, 0]) @
     chunk (ascii ''IDAT'') (zlib (png_raw bgrx w h)) @ chunk (ascii ''IEND'') []"

section \<open>Dumping frames\<close>

definition fnv :: "bytes \<Rightarrow> u32" where
  "fnv p = foldl (\<lambda>h b. (h XOR to32 b) * 16777619) 2166136261 p"

fun lit :: "bytes \<Rightarrow> bool" where
  "lit (b # g # r # x # p) \<longleftrightarrow> b OR g OR r \<noteq> 0 \<or> lit p"
| "lit _ \<longleftrightarrow> False"

text \<open>\<open>last\<close> is the static hash of the last frame written; \<open>write\<close> says whether the file could be
  written. The result is the return value.\<close>

definition png_dump_frame :: "bool \<Rightarrow> bytes \<Rightarrow> u32 \<Rightarrow> int \<times> u32" where
  "png_dump_frame can_write bgrx last_hash =
     (let hv = fnv bgrx in
      if \<not> lit bgrx \<or> hv = last_hash then (0, last_hash)
      else if can_write then (1, hv) else (- 1, hv))"

section \<open>Reading it back\<close>

definition crc32_spec :: "bytes \<Rightarrow> u32" where
  "crc32_spec p = foldl crc_byte 0xFFFFFFFF p XOR 0xFFFFFFFF"

definition read_bytes :: "nat \<Rightarrow> bytes reader" where
  "read_bytes n r = (if n \<le> length r then Some (take n r, drop n r) else None)"

definition read_chunk :: "(bytes \<times> bytes) reader" where
  "read_chunk r =
     (case read_be32 r of None \<Rightarrow> None | Some (n, r1) \<Rightarrow>
      case read_bytes 4 r1 of None \<Rightarrow> None | Some (ty, r2) \<Rightarrow>
      case read_bytes (unat n) r2 of None \<Rightarrow> None | Some (data, r3) \<Rightarrow>
      case read_be32 r3 of None \<Rightarrow> None | Some (c, r4) \<Rightarrow>
      if c = crc32_spec (ty @ data) then Some ((ty, data), r4) else None)"

text \<open>Adler-32 by its definition: one plus the sum of the bytes, and the sum of those sums.\<close>

definition adler_a :: "bytes \<Rightarrow> nat" where
  "adler_a d = (1 + sum_list (map unat d)) mod 65521"

fun weighted :: "bytes \<Rightarrow> nat" where
  "weighted [] = 0"
| "weighted (x # d) = Suc (length d) * unat x + weighted d"

definition adler_b :: "bytes \<Rightarrow> nat" where
  "adler_b d = (length d + weighted d) mod 65521"

fun inflate_stored :: "nat \<Rightarrow> bytes reader" where
  "inflate_stored 0 r = None"
| "inflate_stored (Suc fuel) r =
     (case r of [] \<Rightarrow> None | f # r1 \<Rightarrow>
      case read_le16 r1 of None \<Rightarrow> None | Some (n, r2) \<Rightarrow>
      case read_le16 r2 of None \<Rightarrow> None | Some (m, r3) \<Rightarrow>
      case read_bytes (unat n) r3 of None \<Rightarrow> None | Some (d, r4) \<Rightarrow>
      if m \<noteq> NOT n \<or> f > 1 then None
      else if f = 1 then Some (d, r4)
      else (case inflate_stored fuel r4 of None \<Rightarrow> None | Some (e, r5) \<Rightarrow> Some (d @ e, r5)))"

definition unzlib :: "bytes \<Rightarrow> bytes option" where
  "unzlib r =
     (case read_bytes 2 r of None \<Rightarrow> None | Some (cmf, r1) \<Rightarrow>
      if cmf \<noteq> [0x78, 0x01] then None else
      case inflate_stored (length r) r1 of None \<Rightarrow> None | Some (d, r2) \<Rightarrow>
      case read_be32 r2 of None \<Rightarrow> None | Some (c, r3) \<Rightarrow>
      if r3 = [] \<and> unat c = adler_b d * 65536 + adler_a d then Some d else None)"

fun read_rgb :: "(u8 \<times> u8 \<times> u8) reader" where
  "read_rgb (r # g # b # t) = Some ((r, g, b), t)"
| "read_rgb _ = None"

definition read_row :: "nat \<Rightarrow> (u8 \<times> u8 \<times> u8) list reader" where
  "read_row w r = (case r of [] \<Rightarrow> None | f # t \<Rightarrow> if f = 0 then read_n read_rgb w t else None)"

definition png_read :: "bytes \<Rightarrow> (nat \<times> nat \<times> (u8 \<times> u8 \<times> u8) list list) option" where
  "png_read f =
     (case read_bytes 8 f of None \<Rightarrow> None | Some (sg, r1) \<Rightarrow>
      if sg \<noteq> png_sig then None else
      case read_n read_chunk 3 r1 of
        Some ([(t1, d1), (t2, d2), (t3, d3)], []) \<Rightarrow>
          if t1 \<noteq> ascii ''IHDR'' \<or> t2 \<noteq> ascii ''IDAT'' \<or> t3 \<noteq> ascii ''IEND'' \<or> d3 \<noteq> [] then None
          else (case read_n read_be32 2 d1 of
            Some ([w, h], kind) \<Rightarrow> if kind \<noteq> [8, 2, 0, 0, 0] then None else
              (case unzlib d2 of None \<Rightarrow> None | Some raw \<Rightarrow>
               case read_n (read_row (unat w)) (unat h) raw of
                 Some (rows, []) \<Rightarrow> Some (unat w, unat h, rows)
               | _ \<Rightarrow> None)
          | _ \<Rightarrow> None)
      | _ \<Rightarrow> None)"

section \<open>The table is the polynomial division\<close>

lemma crc_bit_xor: "crc_bit (x XOR y) = crc_bit x XOR crc_bit y"
proof -
  have b: "z AND 1 = of_bool (odd z)" for z :: u32 by (simp add: and_one_eq mod_2_eq_odd)
  have "odd (x XOR y) \<longleftrightarrow> odd x \<noteq> odd y" by (metis bit_0 bit_xor_iff)
  then show ?thesis
    by (auto simp: crc_bit_def b drop_bit_xor intro: bit_word_eqI simp: bit_simps)
qed

lemma crc_bits_xor: "(crc_bit ^^ n) (x XOR y) = (crc_bit ^^ n) x XOR (crc_bit ^^ n) y"
  by (induction n arbitrary: x y) (simp_all add: crc_bit_xor)

lemma crc_bits_shift: "n \<le> 8 \<Longrightarrow> (crc_bit ^^ n) (push_bit 8 (drop_bit 8 c)) = push_bit (8 - n) (drop_bit 8 c)"
proof (induction n)
  case (Suc n)
  have "even (push_bit (8 - n) (drop_bit 8 c))" using Suc.prems by (simp add: push_bit_eq_mult)
  then have "push_bit (8 - n) (drop_bit 8 c) AND 1 = 0" by (simp add: and_one_eq mod_2_eq_odd)
  moreover have "drop_bit 1 (push_bit (8 - n) (drop_bit 8 c)) = push_bit (8 - Suc n) (drop_bit 8 c)"
    using Suc.prems by (intro bit_word_eqI) (auto simp: bit_simps dest: bit_imp_le_length)
  ultimately show ?case using Suc by (simp add: crc_bit_def)
qed simp

lemma table_entry: "unat (x AND 0xFF) < 256" "crc_table ! unat (x AND 0xFF) = (crc_bit ^^ 8) (x AND 0xFF)"
proof -
  have "x AND 0xFF \<le> 0xFF" by (rule word_and_le1)
  then show l: "unat (x AND 0xFF) < 256" by (simp add: word_le_nat_alt)
  then show "crc_table ! unat (x AND 0xFF) = (crc_bit ^^ 8) (x AND 0xFF)" by (simp add: crc_table_def del: funpow.simps)
qed

lemma crc_step_byte: "crc_step c b = crc_byte c b"
proof -
  have "c XOR to32 b = ((c XOR to32 b) AND 0xFF) XOR push_bit 8 (drop_bit 8 c)"
  proof -
    have m: "(0xFF :: u32) = mask 8" by (simp add: mask_eq_exp_minus_1)
    show ?thesis unfolding m by (rule bit_word_eqI) (auto simp: bit_simps dest: bit_imp_le_length)
  qed
  then have "(crc_bit ^^ 8) (c XOR to32 b) = (crc_bit ^^ 8) ((c XOR to32 b) AND 0xFF) XOR (crc_bit ^^ 8) (push_bit 8 (drop_bit 8 c))"
    using crc_bits_xor[of 8 "(c XOR to32 b) AND 0xFF" "push_bit 8 (drop_bit 8 c)"] by metis
  moreover have "(crc_bit ^^ 8) (push_bit 8 (drop_bit 8 c)) = drop_bit 8 c"
    using crc_bits_shift[of 8 c] by simp
  ultimately show ?thesis
    by (simp only: crc_step_def crc_byte_def table_entry)
qed

lemma crc_foldl: "crc c p = foldl crc_byte c p"
proof -
  have "crc_step = crc_byte" by (intro ext crc_step_byte)
  then show ?thesis by (simp add: crc_def)
qed

text \<open>The table-driven CRC of a chunk is CRC-32, one bit of polynomial division at a time,
  however the data is split over the calls.\<close>

theorem crc_is_crc32:
  "crc c p = foldl crc_byte c p \<and> crc (crc c p) q = crc c (p @ q) \<and>
   crc 0xFFFFFFFF p XOR 0xFFFFFFFF = crc32_spec p"
  by (simp add: crc_foldl crc32_spec_def)

section \<open>The checksum of the zlib stream\<close>

definition adler_ok :: "bytes \<Rightarrow> u32 \<times> u32 \<Rightarrow> bool" where
  "adler_ok d ab \<longleftrightarrow> unat (fst ab) = adler_a d \<and> unat (snd ab) = adler_b d"

lemma weighted_snoc: "weighted (d @ [x]) = weighted d + sum_list (map unat d) + unat x"
  by (induction d) (simp_all add: algebra_simps)

lemma adler_ok_step:
  assumes "adler_ok d ab"
  shows "adler_ok (d @ [x]) (adler_step ab x)"
proof -
  let ?a = "unat (fst ab)" and ?b = "unat (snd ab)"
  have b: "?a < 65521" "?b < 65521" "unat x < 256" using assms unat_bounds(1)[of x]
    by (simp_all add: adler_ok_def adler_a_def adler_b_def)
  have 1: "unat (fst (adler_step ab x)) = (?a + unat x) mod 65521"
    using b by (simp add: adler_step_def Let_def unat_mod unat_word_ariths)
  have 2: "unat (snd (adler_step ab x)) = (?b + (?a + unat x) mod 65521) mod 65521"
  proof -
    have "unat (fst (adler_step ab x)) < 65521" by (simp add: 1)
    then have "unat (snd ab + fst (adler_step ab x)) = ?b + unat (fst (adler_step ab x))"
      using b by (simp add: unat_word_ariths)
    then show ?thesis using 1 by (simp add: adler_step_def Let_def unat_mod)
  qed
  have "unat (fst (adler_step ab x)) = adler_a (d @ [x])"
    using assms unfolding 1 by (simp add: adler_ok_def adler_a_def mod_simps add.assoc)
  moreover have "unat (snd (adler_step ab x)) = adler_b (d @ [x])"
  proof -
    let ?S = "sum_list (map unat d)"
    have "unat (snd (adler_step ab x)) = ((length d + weighted d) mod 65521 + ((1 + ?S) mod 65521 + unat x) mod 65521) mod 65521"
      using assms unfolding 2 by (simp add: adler_ok_def adler_a_def adler_b_def)
    also have "\<dots> = ((length d + weighted d) + (1 + ?S + unat x)) mod 65521"
      by (simp only: mod_add_left_eq mod_add_right_eq)
    finally show ?thesis by (simp add: adler_b_def weighted_snoc algebra_simps)
  qed
  ultimately show ?thesis by (simp add: adler_ok_def)
qed

lemma adler_ok_foldl: "adler_ok d ab \<Longrightarrow> adler_ok (d @ e) (foldl adler_step ab e)"
proof (induction e arbitrary: d ab)
  case (Cons x e)
  then have "adler_ok (d @ [x]) (adler_step ab x)" by (simp add: adler_ok_step)
  from Cons.IH[OF this] show ?case by simp
qed simp

lemma adler_ok_start: "adler_ok [] (1, 0)"
  by (simp add: adler_ok_def adler_a_def adler_b_def)

section \<open>Reading back what was written\<close>

lemma read_bytes_app: "length x = n \<Longrightarrow> read_bytes n (x @ r) = Some (x, r)"
  by (auto simp: read_bytes_def)

lemma chunk_crc: "crc (crc 0xFFFFFFFF ty) d XOR 0xFFFFFFFF = crc32_spec (ty @ d)"
  by (simp add: crc_foldl crc32_spec_def)

lemma unat_len: "n < 4294967296 \<Longrightarrow> unat (word_of_nat n :: u32) = n" "n < 65536 \<Longrightarrow> unat (word_of_nat n :: u16) = n"
  by (simp_all add: unat_of_nat)

text \<open>Chunks, stored blocks, pixels and rows are codecs.\<close>

interpretation chunks: codec "\<lambda>(ty, d). chunk ty d" read_chunk "\<lambda>(ty, d). length ty = 4 \<and> length d < 4294967296"
proof (unfold_locales, clarify)
  fix ty d r :: bytes
  assume "length ty = 4" "length d < 4294967296"
  then show "read_chunk (chunk ty d @ r) = Some ((ty, d), r)"
    by (simp add: chunk_def Let_def read_chunk_def be32.dec_enc read_bytes_app unat_len chunk_crc)
qed

interpretation rgb: codec "\<lambda>(r, g, b). [r, g, b]" read_rgb "\<lambda>_. True"
  by unfold_locales auto

interpretation rows: codec "\<lambda>px. 0 # concat (map (\<lambda>(r, g, b). [r, g, b]) px)" "read_row w" "\<lambda>px. length px = w"
  for w
  by unfold_locales (auto simp: read_row_def rgb.read_n_enc)

lemma blocks_step:
  assumes "raw \<noteq> []"
  defines "len \<equiv> if length raw < 65535 then length raw else 65535"
  shows "stored_blocks raw ab = (block_header (length raw) len @ take len raw @
      fst (stored_blocks (drop len raw) (foldl adler_step ab (take len raw))),
    snd (stored_blocks (drop len raw) (foldl adler_step ab (take len raw))))"
  using assms by (subst stored_blocks.simps) (simp add: Let_def split_beta)

lemma blocks_adler: "snd (stored_blocks raw ab) = foldl adler_step ab raw"
proof (induction raw ab rule: stored_blocks.induct)
  case (1 raw ab)
  let ?n = "if length raw < 65535 then length raw else 65535"
  show ?case
  proof (cases "raw = []")
    case False
    have "snd (stored_blocks raw ab) = foldl adler_step (foldl adler_step ab (take ?n raw)) (drop ?n raw)"
      unfolding blocks_step[OF False] using 1[OF False refl refl] by simp
    also have "\<dots> = foldl adler_step ab raw"
      by (metis append_take_drop_id foldl_append)
    finally show ?thesis .
  qed (simp add: stored_blocks.simps)
qed

lemma inflate_blocks:
  "raw \<noteq> [] \<Longrightarrow> length raw < fuel \<Longrightarrow> inflate_stored fuel (fst (stored_blocks raw ab) @ r) = Some (raw, r)"
proof (induction raw ab arbitrary: fuel rule: stored_blocks.induct)
  case (1 raw ab)
  define n where "n = (if length raw < 65535 then length raw else 65535)"
  obtain f where f: "fuel = Suc f" using "1.prems" by (cases fuel) auto
  let ?t = "take n raw" and ?q = "fst (stored_blocks (drop n raw) (foldl adler_step ab (take n raw)))"
  have e: "fst (stored_blocks raw ab) = block_header (length raw) n @ ?t @ ?q"
    using blocks_step[OF "1.prems"(1), of ab] by (simp add: n_def)
  have n: "n \<le> length raw" "n < 65536" "0 < n" using "1.prems" by (simp_all add: n_def)
  have step: "inflate_stored fuel (fst (stored_blocks raw ab) @ r) =
      (if n = length raw then Some (?t, ?q @ r)
       else (case inflate_stored f (?q @ r) of None \<Rightarrow> None | Some (d, u) \<Rightarrow> Some (?t @ d, u)))"
    using n by (simp add: e f block_header_def le16.dec_enc read_bytes_app unat_len)
  show ?case
  proof (cases "n = length raw")
    case True
    then show ?thesis unfolding step by (simp add: stored_blocks.simps)
  next
    case False
    then have "drop n raw \<noteq> []" "length (drop n raw) < f" using n "1.prems" f by simp_all
    from "1.IH"[OF "1.prems"(1) n_def refl this] False show ?thesis unfolding step by simp
  qed
qed


lemma length_blocks: "length raw \<le> length (fst (stored_blocks raw ab))"
proof (induction raw ab rule: stored_blocks.induct)
  case (1 raw ab)
  show ?case
  proof (cases "raw = []")
    case False
    then show ?thesis using 1[OF False refl refl] unfolding blocks_step[OF False] by simp
  qed simp
qed

lemma unzlib_zlib:
  assumes "raw \<noteq> []"
  shows "unzlib (zlib raw) = Some raw"
proof -
  obtain z a b where z: "stored_blocks raw (1, 0) = (z, (a, b))" by (metis prod.exhaust)
  have "adler_ok raw (a, b)"
    using adler_ok_foldl[OF adler_ok_start, of raw] blocks_adler[of raw "(1, 0)"] z by simp
  then have ab: "unat a = adler_a raw" "unat b = adler_b raw" by (simp_all add: adler_ok_def)
  have le: "unat a < 65536" "unat b < 65536" unfolding ab adler_a_def adler_b_def
    by (rule less_trans[OF mod_less_divisor], simp_all)+
  have "push_bit 16 b AND a = 0"
  proof (rule bit_word_eqI)
    fix n
    have "bit a n \<Longrightarrow> n < 16"
    proof (rule ccontr)
      assume "bit a n" "\<not> n < 16"
      then have "2 ^ n \<le> unat a" using div_less[of "unat a" "2 ^ n"] by (auto simp: bit_iff_odd_div not_less[symmetric])
      moreover have "(2::nat) ^ 16 \<le> 2 ^ n" using \<open>\<not> n < 16\<close> by (intro power_increasing) simp_all
      ultimately show False using le by simp
    qed
    then show "bit (push_bit 16 b AND a) n = bit 0 n" by (auto simp: bit_simps)
  qed
  then have "push_bit 16 b OR a = push_bit 16 b + a" by (simp add: disjunctive_add_eq_or)
  then have u: "unat (push_bit 16 b OR a) = adler_b raw * 65536 + adler_a raw"
    using le ab by (simp add: unat_word_ariths push_bit_eq_mult)
  have zl: "zlib raw = [0x78, 0x01] @ fst (stored_blocks raw (1, 0)) @ be32 (push_bit 16 b OR a)"
    by (simp add: zlib_def z)
  have "length raw < length (zlib raw)" using length_blocks[of raw "(1, 0)"] by (simp add: zl)
  from inflate_blocks[OF assms this] show ?thesis
    unfolding unzlib_def by (subst (2) zl) (simp add: read_bytes_def, simp add: be32.dec_end u)
qed

text \<open>The picture: rows of red, green, blue.\<close>

definition picture :: "bytes \<Rightarrow> nat \<Rightarrow> nat \<Rightarrow> (u8 \<times> u8 \<times> u8) list list" where
  "picture bgrx w h = map (\<lambda>y. map (\<lambda>x. let s = (y * w + x) * 4 in (bgrx ! (s + 2), bgrx ! (s + 1), bgrx ! s)) [0..<w]) [0..<h]"

lemma raw_picture: "png_raw bgrx w h = concat (map (\<lambda>px. 0 # concat (map (\<lambda>(r, g, b). [r, g, b]) px)) (picture bgrx w h))"
  by (simp add: png_raw_def picture_def png_row_def[abs_def] comp_def Let_def)

lemma ascii4: "length (ascii ''IHDR'') = 4" "length (ascii ''IDAT'') = 4" "length (ascii ''IEND'') = 4"
  by (simp_all add: ascii_def)

text \<open>C30. A written file reads back as the picture: signature, chunk lengths and CRCs, the zlib
  stream (stored blocks of at most 65535 bytes, their complemented lengths, the Adler-32) and the
  scanlines of \<open>png_write_bgrx\<close>'s output are those of a PNG with the pixels of the frame.\<close>

theorem png_reads_back:
  assumes "0 < w" "0 < h" "w < 4294967296" "h < 4294967296"
    and "length (zlib (png_raw bgrx w h)) < 4294967296"
  shows "png_read (png_write_bgrx bgrx w h) = Some (w, h, picture bgrx w h)"
proof -
  define raw where "raw = png_raw bgrx w h"
  let ?d = "be32 (word_of_nat w) @ be32 (word_of_nat h) @ [8, 2, 0, 0, 0]"
  let ?cs = "[(ascii ''IHDR'', ?d), (ascii ''IDAT'', zlib raw), (ascii ''IEND'', [])]"
  have "read_n read_chunk (length ?cs) (concat (map (\<lambda>(ty, d). chunk ty d) ?cs) @ []) = Some (?cs, [])"
    by (rule chunks.read_n_enc) (use assms(5) ascii4 in \<open>auto simp: raw_def\<close>)
  then have c: "read_n read_chunk 3 (chunk (ascii ''IHDR'') ?d @ chunk (ascii ''IDAT'') (zlib raw) @ chunk (ascii ''IEND'') [])
      = Some (?cs, [])"
    by (simp add: numeral_3_eq_3)
  have wh: "read_n read_be32 2 ?d = Some ([word_of_nat w, word_of_nat h], [8, 2, 0, 0, 0])"
    using be32.read_n_enc[of "[word_of_nat w, word_of_nat h]" "[8, 2, 0, 0, 0]"] by (simp add: numeral_2_eq_2)
  have "raw \<noteq> []" using assms(1,2) by (auto simp: raw_def png_raw_def png_row_def upt_rec)
  then have z: "unzlib (zlib raw) = Some raw" by (rule unzlib_zlib)
  have "read_n (read_row w) (length (picture bgrx w h)) (concat (map (\<lambda>px. 0 # concat (map (\<lambda>(r, g, b). [r, g, b]) px)) (picture bgrx w h)) @ [])
      = Some (picture bgrx w h, [])"
    by (rule rows.read_n_enc) (auto simp: picture_def)
  then have r: "read_n (read_row w) h raw = Some (picture bgrx w h, [])"
    by (simp add: raw_def raw_picture) (simp add: picture_def)
  have s: "read_bytes 8 (png_sig @ q) = Some (png_sig, q)" for q
    by (rule read_bytes_app) (simp add: png_sig_def)
  show ?thesis
    unfolding png_read_def png_write_bgrx_def raw_def[symmetric]
    using assms(3,4) by (simp add: s c wh z r unat_len)
qed

theorem png_reads_back_witness:
  "png_read (png_write_bgrx [1, 2, 3, 0, 4, 5, 6, 0] 2 1) = Some (2, 1, [[(3, 2, 1), (6, 5, 4)]])"
proof -
  let ?p = "[1, 2, 3, 0, 4, 5, 6, 0] :: bytes"
  have "length (zlib (png_raw ?p 2 1)) = 18"
    by (simp add: zlib_def png_raw_def png_row_def upt_rec split_beta blocks_step block_header_def stored_blocks.simps)
  then have "png_read (png_write_bgrx ?p 2 1) = Some (2, 1, picture ?p 2 1)"
    by (intro png_reads_back) simp_all
  then show ?thesis by (simp add: picture_def upt_rec)
qed

end
