(* ===== verification/Ct_Wav.thy ===== *)
theory Ct_Wav
  imports Ct_Codec
begin

text \<open>
  \<open>runtime/wav.c\<close>: the WAV writer as an operation on the bytes of the file. \<open>fseek\<close> and \<open>fwrite\<close>
  in \<open>wav_close\<close> overwrite four bytes in place; a file handle that fails is outside the model. The
  reader is a specification.
\<close>

definition put_at :: "nat \<Rightarrow> bytes \<Rightarrow> bytes \<Rightarrow> bytes" where
  "put_at n b f = take n f @ b @ drop (n + length b) f"

definition wav_open :: "u32 \<Rightarrow> bytes" where
  "wav_open rate =
     [0x52, 0x49, 0x46, 0x46, 0, 0, 0, 0, 0x57, 0x41, 0x56, 0x45,
      0x66, 0x6D, 0x74, 0x20, 16, 0, 0, 0, 1, 0, 2, 0] @
     le32 rate @ le32 (rate * 4) @ [4, 0, 16, 0, 0x64, 0x61, 0x74, 0x61, 0, 0, 0, 0]"

text \<open>\<open>stereo\<close> holds \<open>2 * samples\<close> 16-bit values, left and right in turn.\<close>

definition wav_write :: "u16 list \<Rightarrow> nat \<Rightarrow> bytes \<Rightarrow> bytes" where
  "wav_write stereo samples f = f @ concat (map (\<lambda>k. le16 (stereo ! k)) [0..<samples * 2])"

definition wav_close :: "bytes \<Rightarrow> bytes" where
  "wav_close f =
     (let end = length f in
      if 44 \<le> end
      then put_at 40 (le32 (word_of_nat (end - 44))) (put_at 4 (le32 (word_of_nat (end - 8))) f)
      else f)"

section \<open>Reading it back\<close>

definition wav_read :: "bytes \<Rightarrow> (u32 \<times> u16 list) option" where
  "wav_read f =
     (if length f < 44 \<or> take 4 f \<noteq> [0x52, 0x49, 0x46, 0x46] \<or>
         take 16 (drop 8 f) \<noteq> [0x57, 0x41, 0x56, 0x45, 0x66, 0x6D, 0x74, 0x20, 16, 0, 0, 0, 1, 0, 2, 0] \<or>
         take 8 (drop 32 f) \<noteq> [4, 0, 16, 0, 0x64, 0x61, 0x74, 0x61] then None
      else case (read_le32 (drop 4 f), read_le32 (drop 24 f), read_le32 (drop 28 f), read_le32 (drop 40 f)) of
        (Some (riff, _), Some (rate, _), Some (bytes_per_s, _), Some (n, body)) \<Rightarrow>
          if unat riff + 8 \<noteq> length f \<or> unat n \<noteq> length body \<or> bytes_per_s \<noteq> rate * 4 \<or> odd (unat n) then None
          else (case read_n read_le16 (unat n div 2) body of
                  Some (xs, []) \<Rightarrow> Some (rate, xs)
                | _ \<Rightarrow> None)
      | _ \<Rightarrow> None)"

lemma wav_samples: "wav_write st n f = f @ concat (map le16 (map ((!) st) [0..<n * 2]))"
  by (simp add: wav_write_def comp_def)

lemma length_samples: "length (concat (map le16 xs)) = 2 * length xs"
  by (induction xs) simp_all

text \<open>The writes of a session, one per frame.\<close>

definition wav_writes :: "(u16 list \<times> nat) list \<Rightarrow> bytes \<Rightarrow> bytes" where
  "wav_writes ws f = fold (\<lambda>(stereo, n). wav_write stereo n) ws f"

definition wav_heard :: "(u16 list \<times> nat) list \<Rightarrow> u16 list" where
  "wav_heard ws = concat (map (\<lambda>(stereo, n). take (2 * n) stereo) ws)"

lemma wav_writes_body:
  "\<forall>(stereo, n)\<in>set ws. 2 * n \<le> length stereo \<Longrightarrow> wav_writes ws f = f @ concat (map le16 (wav_heard ws))"
proof (induction ws arbitrary: f)
  case (Cons w ws)
  obtain st n where w: "w = (st, n)" by fastforce
  then have "2 * n \<le> length st" using Cons.prems by simp
  then have "map ((!) st) [0..<n * 2] = take (2 * n) st" by (intro nth_equalityI) (simp_all add: mult.commute)
  moreover have "wav_writes (w # ws) f = wav_write st n f @ concat (map le16 (wav_heard ws))"
    using Cons.IH[of "wav_write st n f"] Cons.prems by (simp add: wav_writes_def w)
  ultimately show ?case by (simp only: wav_samples) (simp add: wav_heard_def w)
qed (simp add: wav_writes_def wav_heard_def)

lemma wav_heard_length:
  "\<forall>(stereo, n)\<in>set ws. 2 * n \<le> length stereo \<Longrightarrow> length (wav_heard ws) = 2 * sum_list (map snd ws)"
  by (induction ws) (auto simp: wav_heard_def)

text \<open>C31. A recording reads back: after opening, any sequence of writes (one per frame, none included), and
  closing, the header's sizes are those of the file, its rates those given, and the samples of all writes follow in
  order, as long as the file's length fits the format's 32 bits.\<close>

theorem wav_reads_back:
  assumes "\<forall>(stereo, n)\<in>set ws. 2 * n \<le> length stereo" "4 * sum_list (map snd ws) + 36 < 4294967296"
  shows "wav_read (wav_close (fold (\<lambda>(stereo, n). wav_write stereo n) ws (wav_open rate))) =
    Some (rate, concat (map (\<lambda>(stereo, n). take (2 * n) stereo) ws))"
proof -
  let ?xs = "wav_heard ws" and ?k = "sum_list (map snd ws)"
  define body where "body = concat (map le16 ?xs)"
  have lb: "length body = 4 * ?k" unfolding body_def length_samples wav_heard_length[OF assms(1)] by simp
  have f: "fold (\<lambda>(stereo, n). wav_write stereo n) ws (wav_open rate) = wav_open rate @ body"
    using wav_writes_body[OF assms(1)] by (simp add: wav_writes_def body_def)
  have lo: "length (wav_open rate) = 44" by (simp add: wav_open_def)
  let ?n = "word_of_nat (4 * ?k) :: u32" and ?r = "word_of_nat (36 + 4 * ?k) :: u32"
  have c: "wav_close (wav_open rate @ body) =
      [0x52, 0x49, 0x46, 0x46] @ le32 ?r @ [0x57, 0x41, 0x56, 0x45,
      0x66, 0x6D, 0x74, 0x20, 16, 0, 0, 0, 1, 0, 2, 0] @
      le32 rate @ le32 (rate * 4) @ [4, 0, 16, 0, 0x64, 0x61, 0x74, 0x61] @ le32 ?n @ body"
    by (simp add: wav_close_def Let_def lo lb) (simp add: put_at_def wav_open_def le32_bytes)
  have u: "unat ?n = 4 * ?k" "unat ?r = 36 + 4 * ?k" using assms(2) by (simp_all only: unat_of_nat) simp_all
  have rd: "read_n read_le16 (2 * ?k) body = Some (?xs, [])"
    using le16.read_n_enc[of ?xs "[]"] by (simp only: body_def wav_heard_length[OF assms(1)] append_Nil2 TrueI simp_thms)
  show ?thesis
    unfolding f c wav_read_def by (simp add: le32.dec_enc u[simplified] lb rd) (simp add: wav_heard_def)
qed

theorem wav_reads_back_witness:
  "wav_read (wav_close (wav_write [7, 8, 9] 1 (wav_write [1, 0xFFFF, 3, 4] 2 (wav_open 32040)))) = Some (32040, [1, 0xFFFF, 3, 4, 7, 8])"
  using wav_reads_back[of "[([1, 0xFFFF, 3, 4], 2), ([7, 8, 9], 1)]" 32040] by simp

end
