(* ===== verification/Ct_Input.thy ===== *)
theory Ct_Input
  imports Ct_Prelude
begin

text \<open>
  \<open>frontend/input.c\<close> and \<open>frontend/input.h\<close>: keyboard and controller state to pad bits, and the
  filter that drops the keyboard duplicates of controller buttons. SDL's names for keys and
  buttons are constructors, its queries and the number of scancodes are arguments.
\<close>

section \<open>Pad bits\<close>

definition PAD_B :: u16 where "PAD_B = 0x8000"
definition PAD_Y :: u16 where "PAD_Y = 0x4000"
definition PAD_SELECT :: u16 where "PAD_SELECT = 0x2000"
definition PAD_START :: u16 where "PAD_START = 0x1000"
definition PAD_UP :: u16 where "PAD_UP = 0x0800"
definition PAD_DOWN :: u16 where "PAD_DOWN = 0x0400"
definition PAD_LEFT :: u16 where "PAD_LEFT = 0x0200"
definition PAD_RIGHT :: u16 where "PAD_RIGHT = 0x0100"
definition PAD_A :: u16 where "PAD_A = 0x0080"
definition PAD_X :: u16 where "PAD_X = 0x0040"
definition PAD_L :: u16 where "PAD_L = 0x0020"
definition PAD_R :: u16 where "PAD_R = 0x0010"

lemmas pad_defs = PAD_B_def PAD_Y_def PAD_SELECT_def PAD_START_def PAD_UP_def PAD_DOWN_def
  PAD_LEFT_def PAD_RIGHT_def PAD_A_def PAD_X_def PAD_L_def PAD_R_def

datatype (plugins only: code size) sdl_key =
    SC_UP | SC_DOWN | SC_LEFT | SC_RIGHT | SC_Z | SC_X | SC_A | SC_S | SC_Q | SC_W | SC_RETURN | SC_RSHIFT

datatype (plugins only: code size) sdl_button =
    BTN_A | BTN_B | BTN_X | BTN_Y | BTN_LEFTSHOULDER | BTN_RIGHTSHOULDER | BTN_START | BTN_BACK
  | BTN_DPAD_UP | BTN_DPAD_DOWN | BTN_DPAD_LEFT | BTN_DPAD_RIGHT

datatype (plugins only: code size) sdl_axis = AXIS_LEFTX | AXIS_LEFTY

text \<open>The loop over a table: the bits of the entries that are pressed.\<close>

definition pad_of :: "('k \<times> u16) list \<Rightarrow> ('k \<Rightarrow> bool) \<Rightarrow> u16" where
  "pad_of tab pressed = foldl (\<lambda>pad (k, b). if pressed k then pad OR b else pad) 0 tab"

definition key_map :: "(sdl_key \<times> u16) list" where
  "key_map =
     [(SC_UP, PAD_UP), (SC_DOWN, PAD_DOWN), (SC_LEFT, PAD_LEFT), (SC_RIGHT, PAD_RIGHT), (SC_Z, PAD_B),
      (SC_X, PAD_A), (SC_A, PAD_Y), (SC_S, PAD_X), (SC_Q, PAD_L), (SC_W, PAD_R), (SC_RETURN, PAD_START),
      (SC_RSHIFT, PAD_SELECT)]"

definition input_keyboard :: "(sdl_key \<Rightarrow> bool) \<Rightarrow> u16" where
  "input_keyboard keys = pad_of key_map keys"

definition button_map :: "(sdl_button \<times> u16) list" where
  "button_map =
     [(BTN_A, PAD_B), (BTN_B, PAD_A), (BTN_X, PAD_Y), (BTN_Y, PAD_X), (BTN_LEFTSHOULDER, PAD_L),
      (BTN_RIGHTSHOULDER, PAD_R), (BTN_START, PAD_START), (BTN_BACK, PAD_SELECT), (BTN_DPAD_UP, PAD_UP),
      (BTN_DPAD_DOWN, PAD_DOWN), (BTN_DPAD_LEFT, PAD_LEFT), (BTN_DPAD_RIGHT, PAD_RIGHT)]"

definition dead :: int where "dead = 16000"

definition input_controller :: "(sdl_button \<Rightarrow> bool) \<Rightarrow> (sdl_axis \<Rightarrow> int) \<Rightarrow> u16" where
  "input_controller button axis =
     (let pad = pad_of button_map button; x = axis AXIS_LEFTX; y = axis AXIS_LEFTY;
          pad = (if x < - dead then pad OR PAD_LEFT else pad);
          pad = (if x > dead then pad OR PAD_RIGHT else pad);
          pad = (if y < - dead then pad OR PAD_UP else pad)
      in if y > dead then pad OR PAD_DOWN else pad)"

section \<open>The key filter\<close>

definition KEY_FILTER_FRAMES :: int where "KEY_FILTER_FRAMES = 2"

record key_filter =
  held :: "nat \<Rightarrow> bool"
  ignored :: "nat \<Rightarrow> bool"
  pressed_at :: "nat \<Rightarrow> int"
  last_button :: int
  controller :: bool

definition key_filter_init :: key_filter where
  "key_filter_init =
     \<lparr>held = (\<lambda>_. False), ignored = (\<lambda>_. False), pressed_at = (\<lambda>_. 0), last_button = - 1000, controller = False\<rparr>"

definition near_button :: "key_filter \<Rightarrow> int \<Rightarrow> bool" where
  "near_button kf frame =
     (let d = frame - last_button kf in controller kf \<and> - KEY_FILTER_FRAMES \<le> d \<and> d \<le> KEY_FILTER_FRAMES)"

text \<open>\<open>n\<close> is \<open>SDL_NUM_SCANCODES\<close>.\<close>

definition key_filter_key :: "nat \<Rightarrow> nat \<Rightarrow> bool \<Rightarrow> int \<Rightarrow> key_filter \<Rightarrow> key_filter" where
  "key_filter_key n sc down frame kf =
     (if n \<le> sc then kf
      else if \<not> down then kf\<lparr>held := (held kf)(sc := False), ignored := (ignored kf)(sc := False)\<rparr>
      else let kf = kf\<lparr>pressed_at := (pressed_at kf)(sc := frame)\<rparr> in
           if near_button kf frame
           then kf\<lparr>ignored := (ignored kf)(sc := True), held := (held kf)(sc := False)\<rparr>
           else if \<not> ignored kf sc then kf\<lparr>held := (held kf)(sc := True)\<rparr>
           else kf)"

definition key_filter_button :: "nat \<Rightarrow> int \<Rightarrow> key_filter \<Rightarrow> key_filter" where
  "key_filter_button n frame kf =
     (let kf = kf\<lparr>last_button := frame\<rparr> in
      if \<not> controller kf then kf
      else let dup = (\<lambda>k. k < n \<and> held kf k \<and> frame - pressed_at kf k \<le> KEY_FILTER_FRAMES) in
           kf\<lparr>held := (\<lambda>k. held kf k \<and> \<not> dup k), ignored := (\<lambda>k. ignored kf k \<or> dup k)\<rparr>)"

section \<open>What the filter is for\<close>

datatype (plugins only: code size) event = Key nat bool int | Button int

fun at_frame :: "event \<Rightarrow> int" where
  "at_frame (Key _ _ f) = f"
| "at_frame (Button f) = f"

fun handle :: "nat \<Rightarrow> event \<Rightarrow> key_filter \<Rightarrow> key_filter" where
  "handle n (Key sc down f) = key_filter_key n sc down f"
| "handle n (Button f) = key_filter_button n f"

text \<open>The presses of a key since its last release (newest event first), the button presses so
  far, and when a key counts as held: pressed, and never close to a button press.\<close>

fun presses :: "nat \<Rightarrow> event list \<Rightarrow> int list" where
  "presses sc [] = []"
| "presses sc (e # es) =
     (case e of Key k down f \<Rightarrow> if k \<noteq> sc then presses sc es else if down then f # presses sc es else []
      | Button _ \<Rightarrow> presses sc es)"

fun buttons :: "event list \<Rightarrow> int list" where
  "buttons [] = []"
| "buttons (e # es) = (case e of Button f \<Rightarrow> f # buttons es | Key _ _ _ \<Rightarrow> buttons es)"

definition close :: "nat \<Rightarrow> event list \<Rightarrow> bool" where
  "close sc es \<longleftrightarrow> (\<exists>p\<in>set (presses sc es). \<exists>b\<in>set (buttons es). \<bar>p - b\<bar> \<le> KEY_FILTER_FRAMES)"

definition run_events :: "nat \<Rightarrow> event list \<Rightarrow> key_filter" where
  "run_events n es = foldr (handle n) es (key_filter_init\<lparr>controller := True\<rparr>)"

definition in_time :: "event list \<Rightarrow> bool" where
  "in_time es \<longleftrightarrow> sorted (rev (map at_frame es)) \<and> (\<forall>e\<in>set es. 0 \<le> at_frame e)"

lemma in_time_Cons: "in_time (e # es) \<longleftrightarrow> in_time es \<and> 0 \<le> at_frame e \<and> (\<forall>x\<in>set es. at_frame x \<le> at_frame e)"
  by (auto simp: in_time_def sorted_append)

lemma presses_frames: "p \<in> set (presses sc es) \<Longrightarrow> \<exists>e\<in>set es. at_frame e = p"
  by (induction es) (auto split: event.splits if_splits)

lemma buttons_frames: "b \<in> set (buttons es) \<Longrightarrow> \<exists>e\<in>set es. at_frame e = b"
  by (induction es) (auto split: event.splits)

lemma presses_newest: "in_time es \<Longrightarrow> p \<in> set (presses sc es) \<Longrightarrow> p \<le> hd (presses sc es)"
proof (induction es)
  case (Cons e es)
  then show ?case using presses_frames[of p sc es]
    by (auto simp: in_time_Cons split: event.splits if_splits)
qed simp

lemma buttons_newest: "in_time es \<Longrightarrow> b \<in> set (buttons es) \<Longrightarrow> b \<le> hd (buttons es)"
proof (induction es)
  case (Cons e es)
  then show ?case using buttons_frames[of b es]
    by (auto simp: in_time_Cons split: event.splits)
qed simp

definition last_of :: "event list \<Rightarrow> int" where
  "last_of es = (if buttons es = [] then - 1000 else hd (buttons es))"

lemma near_iff:
  assumes "in_time es" "\<forall>x\<in>set es. at_frame x \<le> f" "0 \<le> f" "controller kf" "last_button kf = last_of es"
  shows "near_button kf f \<longleftrightarrow> (\<exists>b\<in>set (buttons es). \<bar>f - b\<bar> \<le> KEY_FILTER_FRAMES)"
proof (cases "buttons es")
  case Nil
  then show ?thesis using assms by (simp add: near_button_def last_of_def KEY_FILTER_FRAMES_def)
next
  case (Cons b bs)
  have "x \<le> b" "x \<le> f" if "x \<in> set (buttons es)" for x
    using buttons_newest[OF assms(1) that] buttons_frames[OF that] assms(2) Cons by auto
  then show ?thesis using assms(4,5) Cons
    by (fastforce simp: near_button_def last_of_def KEY_FILTER_FRAMES_def)
qed

definition filter_inv :: "nat \<Rightarrow> event list \<Rightarrow> key_filter \<Rightarrow> bool" where
  "filter_inv n es kf \<longleftrightarrow> controller kf \<and> last_button kf = last_of es \<and>
     (\<forall>sc<n. (held kf sc \<longleftrightarrow> presses sc es \<noteq> [] \<and> \<not> close sc es) \<and> (ignored kf sc \<longleftrightarrow> presses sc es \<noteq> [] \<and> close sc es) \<and>
       (presses sc es \<noteq> [] \<longrightarrow> pressed_at kf sc = hd (presses sc es)))"

lemma close_Key: "close sc (Key k d f # es) \<longleftrightarrow>
    (if k = sc then d \<and> ((\<exists>b\<in>set (buttons es). \<bar>f - b\<bar> \<le> KEY_FILTER_FRAMES) \<or> close sc es) else close sc es)"
  by (auto simp: close_def)

lemma close_Button: "close sc (Button f # es) \<longleftrightarrow> (\<exists>p\<in>set (presses sc es). \<bar>p - f\<bar> \<le> KEY_FILTER_FRAMES) \<or> close sc es"
  by (auto simp: close_def)

lemma filter_step:
  assumes "filter_inv n es kf" "in_time (e # es)"
  shows "filter_inv n (e # es) (handle n e kf)"
proof (cases e)
  case (Key k d f)
  have "near_button kf f \<longleftrightarrow> (\<exists>b\<in>set (buttons es). \<bar>f - b\<bar> \<le> KEY_FILTER_FRAMES)"
    using assms Key by (intro near_iff) (auto simp: in_time_Cons filter_inv_def)
  moreover have "near_button (kf\<lparr>pressed_at := x\<rparr>) f = near_button kf f" for x by (simp add: near_button_def)
  moreover have "\<not> close k es" if "presses k es = []" using that by (simp add: close_def)
  ultimately show ?thesis using assms(1) unfolding Key filter_inv_def
    by (cases d; cases "near_button kf f"; cases "presses k es = []")
      (simp_all add: key_filter_key_def Let_def close_Key last_of_def)
next
  case (Button f)
  have le: "p \<le> f" "p \<le> hd (presses sc es)" if "p \<in> set (presses sc es)" for p sc
    using presses_frames[OF that] presses_newest[OF _ that] assms(2) Button by (auto simp: in_time_Cons)
  have near: "(\<exists>p\<in>set (presses sc es). \<bar>p - f\<bar> \<le> KEY_FILTER_FRAMES) \<longleftrightarrow>
      presses sc es \<noteq> [] \<and> f - hd (presses sc es) \<le> KEY_FILTER_FRAMES" for sc
  proof (cases "presses sc es")
    case (Cons p ps)
    then show ?thesis using le[of _ sc] by (fastforce simp: KEY_FILTER_FRAMES_def)
  qed simp
  show ?thesis using assms(1) Button
    by (auto simp: filter_inv_def key_filter_button_def Let_def close_Button near last_of_def)
qed

lemma filter_runs: "in_time es \<Longrightarrow> filter_inv n es (run_events n es)"
proof (induction es)
  case Nil
  show ?case by (simp add: run_events_def filter_inv_def key_filter_init_def last_of_def)
next
  case (Cons e es)
  then show ?case using filter_step[OF _ Cons.prems] by (simp add: run_events_def in_time_Cons)
qed

text \<open>C32. While a controller is active a key is held exactly when it has been pressed since its last
  release and none of those presses came within \<open>KEY_FILTER_FRAMES\<close> frames of any controller
  button press, before or after it, whatever the order of the events.\<close>

theorem key_held_iff:
  assumes "in_time es" "sc < n"
  shows "held (run_events n es) sc \<longleftrightarrow> presses sc es \<noteq> [] \<and>
    (\<forall>p\<in>set (presses sc es). \<forall>b\<in>set (buttons es). KEY_FILTER_FRAMES < \<bar>p - b\<bar>)"
  using filter_runs[OF assms(1), of n] assms(2) by (auto simp: filter_inv_def close_def not_le)

theorem key_held_iff_witness:
  "\<not> held (run_events 512 [Button 12, Key 40 True 10]) 40 \<and> held (run_events 512 [Button 13, Key 40 True 10]) 40"
proof -
  have "in_time [Button 12, Key 40 True 10]" "in_time [Button 13, Key 40 True 10]" by (simp_all add: in_time_def)
  from this[THEN key_held_iff, of 40 512] show ?thesis by (simp add: KEY_FILTER_FRAMES_def)
qed

lemma pad_bit: "bit (pad_of tab pressed) n \<longleftrightarrow> (\<exists>(k, b)\<in>set tab. pressed k \<and> bit b n)"
proof -
  have "bit (foldl (\<lambda>pad (k, b). if pressed k then pad OR b else pad) a tab) n \<longleftrightarrow>
      bit a n \<or> (\<exists>(k, b)\<in>set tab. pressed k \<and> bit b n)" for a :: u16
    by (induction tab arbitrary: a) (auto simp: bit_or_iff split: if_splits)
  then show ?thesis by (simp add: pad_of_def)
qed

lemma axis_bits:
  "bit (input_controller button axis) n \<longleftrightarrow> bit (pad_of button_map button) n \<or>
     axis AXIS_LEFTX < - dead \<and> bit PAD_LEFT n \<or> dead < axis AXIS_LEFTX \<and> bit PAD_RIGHT n \<or>
     axis AXIS_LEFTY < - dead \<and> bit PAD_UP n \<or> dead < axis AXIS_LEFTY \<and> bit PAD_DOWN n"
  by (auto simp: input_controller_def Let_def bit_or_iff)

text \<open>C33. A pad bit is set exactly when its key is held; on a controller, when its button is pressed
  or the stick is pushed past the dead zone its way; the four low bits never.\<close>

theorem pad_bits:
  "map (bit (input_keyboard keys)) [0..<16] =
     [False, False, False, False, keys SC_W, keys SC_Q, keys SC_S, keys SC_X,
      keys SC_RIGHT, keys SC_LEFT, keys SC_DOWN, keys SC_UP, keys SC_RETURN, keys SC_RSHIFT, keys SC_A, keys SC_Z] \<and>
   map (bit (input_controller button axis)) [0..<16] =
     [False, False, False, False, button BTN_RIGHTSHOULDER, button BTN_LEFTSHOULDER, button BTN_Y, button BTN_B,
      button BTN_DPAD_RIGHT \<or> 16000 < axis AXIS_LEFTX, button BTN_DPAD_LEFT \<or> axis AXIS_LEFTX < - 16000,
      button BTN_DPAD_DOWN \<or> 16000 < axis AXIS_LEFTY, button BTN_DPAD_UP \<or> axis AXIS_LEFTY < - 16000,
      button BTN_START, button BTN_BACK, button BTN_X, button BTN_A]"
  by (simp add: upt_rec input_keyboard_def axis_bits pad_bit key_map_def button_map_def pad_defs dead_def)

end
