(* ===== verification/Ct_Hooks.thy ===== *)
theory Ct_Hooks
  imports Ct_InterpProps
begin

text \<open>
  \<open>game/ct/hooks.c\<close>: what runs at the call boundaries of the game, with the block copy (\<open>mvn16\<close> of
  \<open>runtime/ops.h\<close>) its WRAM stub is made of. The copy is proved over an interface of memory, a
  peek and a store that reads back, which the bus provides for RAM.
\<close>

definition ct_hook_apu_process :: "('s, unit) act" where
  "ct_hook_apu_process = die Apu_boundary"

definition ct_hook_wram_mvn_stub ::
  "nat \<Rightarrow> ('a mach_scheme) hooks \<Rightarrow> ('a mach_scheme) tick_hook option \<Rightarrow> ('a mach_scheme, unit) act" where
  "ct_hook_wram_mvn_stub fuel h tick =
     bnd (read8 h 0x7E9690) (\<lambda>op. bnd (read8 h 0x7E9691) (\<lambda>dst. bnd (read8 h 0x7E9692) (\<lambda>src.
     bnd (read8 h 0x7E9693) (\<lambda>rt. bnd (gets cpu) (\<lambda>c.
     if op \<noteq> 0x54 \<or> rt \<noteq> 0x6B then die (Mvn_stub op dst src rt)
     else if fl_x c \<noteq> 0 then die Mvn_stub_index8
     else thn (mvn16 fuel h tick 0x7E9690 dst src) (op_rtl h))))))"

definition ct_hook_menu_overlay :: "('s, unit) act" where
  "ct_hook_menu_overlay = die Menu_scheduler"

section \<open>Copying through a memory\<close>

text \<open>A memory whose stores read back: \<open>cell\<close> tells addresses of the same byte.\<close>

locale memory =
  fixes peek :: "u32 \<Rightarrow> 's \<Rightarrow> u8"
    and store :: "u32 \<Rightarrow> u8 \<Rightarrow> 's \<Rightarrow> 's"
    and cell :: "u32 \<Rightarrow> 'c"
    and writable readable :: "u32 \<Rightarrow> bool"
  assumes peek_store: "writable a \<Longrightarrow> readable b \<Longrightarrow> peek b (store a v s) = (if cell a = cell b then v else peek b s)"
    and writable_readable: "writable a \<Longrightarrow> readable a"

text \<open>\<open>n\<close> bytes from \<open>src 0, src 1, \<dots>\<close> to \<open>dst 0, dst 1, \<dots>\<close>, one at a time.\<close>

fun copy_up ::
  "(u32 \<Rightarrow> 's \<Rightarrow> u8) \<Rightarrow> (u32 \<Rightarrow> u8 \<Rightarrow> 's \<Rightarrow> 's) \<Rightarrow> (nat \<Rightarrow> u32) \<Rightarrow> (nat \<Rightarrow> u32) \<Rightarrow> nat \<Rightarrow> 's \<Rightarrow> 's" where
  "copy_up peek store src dst 0 s = s"
| "copy_up peek store src dst (Suc n) s =
     (let t = copy_up peek store src dst n s in store (dst n) (peek (src n) t) t)"

context memory
begin

lemma copy_other:
  "(\<And>i. i < n \<Longrightarrow> writable (dst i)) \<Longrightarrow> readable b \<Longrightarrow> (\<And>i. i < n \<Longrightarrow> cell (dst i) \<noteq> cell b) \<Longrightarrow>
   peek b (copy_up peek store src dst n s) = peek b s"
  by (induction n) (simp_all add: Let_def peek_store)

lemma copy_moved:
  assumes "\<And>i. i < n \<Longrightarrow> writable (dst i)" "\<And>i. i < n \<Longrightarrow> readable (src i)"
    and "\<And>i j. i < n \<Longrightarrow> j < n \<Longrightarrow> cell (dst i) \<noteq> cell (src j)" "inj_on (\<lambda>i. cell (dst i)) {..<n}" "k < n"
  shows "peek (dst k) (copy_up peek store src dst n s) = peek (src k) s"
  using assms
proof (induction n)
  case (Suc n)
  let ?t = "copy_up peek store src dst n s"
  have "peek (src n) ?t = peek (src n) s" by (rule copy_other) (use Suc.prems in auto)
  moreover have "peek (dst k) ?t = peek (src k) s" if "k < n"
    using that Suc.prems by (intro Suc.IH) (auto simp: inj_on_def)
  moreover have "cell (dst n) = cell (dst k) \<longleftrightarrow> k = n"
    using inj_onD[OF Suc.prems(4)] Suc.prems(5) by fastforce
  ultimately show ?case using Suc.prems by (auto simp: Let_def peek_store writable_readable less_Suc_eq)
qed simp

end

text \<open>The bus is such a memory on RAM, ROM reading too.\<close>

definition plain_addr :: "u32 \<Rightarrow> bool" where
  "plain_addr a \<longleftrightarrow> fst (decode_addr (a AND 0xFFFFFF)) \<in> {R_WRAM, R_SRAM, R_ROM}"

lemma plain_poke:
  "ram_addr a \<Longrightarrow> plain_addr b \<Longrightarrow> bus_peek b (poke h a v s) = (if cell_of a = cell_of b then v else bus_peek b s)"
  by (auto simp: ram_addr_def plain_addr_def cell_of_def write8_def poke_def bus_peek_def Let_def split: prod.splits region.splits)

interpretation bus_mem: memory bus_peek "poke h" cell_of ram_addr plain_addr for h :: "('a bus_state_scheme) hooks"
  by unfold_locales (auto simp: plain_poke ram_addr_def plain_addr_def)

section \<open>The block copy\<close>

lemma read8_plain:
  fixes s :: "'a mach_scheme"
  assumes "plain_addr a"
  shows "\<exists>t. read8 h a s = Inr (bus_peek a s, t) \<and> cpu t = cpu s \<and> (\<forall>b. plain_addr b \<longrightarrow> bus_peek b t = bus_peek b s)"
  using assms
  by (auto simp: plain_addr_def read8_def bus_peek_def Let_def split: prod.splits region.splits)

lemma poke_keeps_cpu: "ram_addr a \<Longrightarrow> cpu (poke h a v s) = cpu (s :: 'a mach_scheme)"
  by (auto simp: ram_addr_def write8_def poke_def Let_def split: prod.splits region.splits)

lemma peek_indep:
  "bus_peek a (s\<lparr>cpu := c\<rparr>) = bus_peek a s" "plain_addr a \<Longrightarrow> bus_peek a (set_mdr v t) = bus_peek a t"
  by (auto simp: bus_peek_def plain_addr_def split: prod.split region.split)

lemma set_mdr_cpu' [simp]: "cpu (set_mdr v s) = cpu s"
  by (simp add: set_mdr_def)

text \<open>States that read alike.\<close>

definition alike :: "'a bus_state_scheme \<Rightarrow> 'b bus_state_scheme \<Rightarrow> bool" where
  "alike s t \<longleftrightarrow> (\<forall>b. plain_addr b \<longrightarrow> bus_peek b s = bus_peek b t)"

lemma alike_poke: "alike s t \<Longrightarrow> ram_addr a \<Longrightarrow> alike (poke h a v s) (poke k a v t)"
  by (simp add: alike_def plain_poke)

definition mvn_regs :: "nat \<Rightarrow> cpu \<Rightarrow> cpu" where
  "mvn_regs k c = c\<lparr>rX := rX c + word_of_nat k, rY := rY c + word_of_nat k, rA := rA c - word_of_nat k\<rparr>"

lemma mvn_regs_Suc: "(mvn_regs k c)\<lparr>rX := rX (mvn_regs k c) + 1, rY := rY (mvn_regs k c) + 1, rA := rA (mvn_regs k c) - 1\<rparr> = mvn_regs (Suc k) c"
  by (simp add: mvn_regs_def algebra_simps)

lemma mvn_regs_simps [simp]: "rX (mvn_regs k c) = rX c + word_of_nat k" "rY (mvn_regs k c) = rY c + word_of_nat k"
  "rA (mvn_regs k c) = rA c - word_of_nat k" "mvn_regs 0 c = c"
  by (simp_all add: mvn_regs_def)

abbreviation (input) src_at :: "u8 \<Rightarrow> cpu \<Rightarrow> nat \<Rightarrow> u32" where "src_at b c i \<equiv> addr24 b (rX c + word_of_nat i)"
abbreviation (input) dst_at :: "u8 \<Rightarrow> cpu \<Rightarrow> nat \<Rightarrow> u32" where "dst_at b c i \<equiv> addr24 b (rY c + word_of_nat i)"

lemma mvn_byte_copies:
  assumes "cpu s = mvn_regs k c" "alike s (copy_up bus_peek (poke h) (src_at src c) (dst_at dst c) k s0)"
    and "plain_addr (src_at src c k)" "ram_addr (dst_at dst c k)"
  shows "\<exists>t. mvn_byte h dst src s = Inr ((), t) \<and> cpu t = mvn_regs (Suc k) c \<and>
    alike t (copy_up bus_peek (poke h) (src_at src c) (dst_at dst c) (Suc k) s0)"
proof -
  let ?a = "src_at src c k" and ?b = "dst_at dst c k" and ?m = "copy_up bus_peek (poke h) (src_at src c) (dst_at dst c) k s0"
  obtain u where u: "read8 h ?a s = Inr (bus_peek ?a s, u)" "cpu u = cpu s" "alike u s"
    using read8_plain[OF assms(3), of h s] by (auto simp: alike_def)
  have w: "write8 h ?b (bus_peek ?a s) u = Inr ((), poke h ?b (bus_peek ?a s) u)"
    by (rule write8_ram[OF assms(4)])
  let ?t = "(poke h ?b (bus_peek ?a s) u)\<lparr>cpu := mvn_regs (Suc k) c\<rparr>"
  have "mvn_byte h dst src s = Inr ((), ?t)"
    using u w assms(1,4) by (simp add: mvn_byte_def bnd_gets poke_keeps_cpu mvn_regs_Suc[simplified])
  moreover have "bus_peek ?a s = bus_peek ?a ?m" using assms(2,3) by (simp add: alike_def)
  moreover have "alike u ?m" using u(3) assms(2) by (simp add: alike_def)
  ultimately show ?thesis using alike_poke[of u ?m ?b h _ h] assms(4)
    by (intro exI[of _ ?t]) (simp add: Let_def alike_def peek_indep)
qed

lemma mvn_loop_copies:
  fixes s :: "'a mach_scheme"
  assumes "k \<le> unat (rA c)" "unat (rA c) - k < fuel"
    and "cpu s = mvn_regs k c" "alike s (copy_up bus_peek (poke h) (src_at src c) (dst_at dst c) k s0)"
    and "\<And>i. i \<le> unat (rA c) \<Longrightarrow> plain_addr (src_at src c i) \<and> ram_addr (dst_at dst c i)"
  shows "\<exists>t. mvn_loop fuel h None at dst src s = Inr ((), t) \<and> cpu t = mvn_regs (Suc (unat (rA c))) c \<and>
    alike t (copy_up bus_peek (poke h) (src_at src c) (dst_at dst c) (Suc (unat (rA c))) s0)"
  using assms(1-4)
proof (induction fuel arbitrary: k s)
  case (Suc fuel)
  obtain u where u: "mvn_byte h dst src s = Inr ((), u)" "cpu u = mvn_regs (Suc k) c"
    "alike u (copy_up bus_peek (poke h) (src_at src c) (dst_at dst c) (Suc k) s0)"
    using mvn_byte_copies[OF Suc.prems(3,4)] assms(5)[of k] Suc.prems(1) by blast
  have a: "rA (cpu u) = 0xFFFF \<longleftrightarrow> k = unat (rA c)"
  proof -
    have m: "x - 1 = 0xFFFF \<longleftrightarrow> x = 0" for x :: u16
    proof
      assume "x - 1 = 0xFFFF"
      then have "x - 1 + 1 = 0xFFFF + 1" by (rule arg_cong)
      then show "x = 0" by simp
    qed simp
    have "rA (cpu u) = (rA c - word_of_nat k) - 1" by (simp add: u(2) algebra_simps)
    then have "rA (cpu u) = 0xFFFF \<longleftrightarrow> rA c - word_of_nat k = 0" by (simp only: m)
    also have "\<dots> \<longleftrightarrow> rA c = word_of_nat k" by simp
    also have "\<dots> \<longleftrightarrow> k = unat (rA c)"
    proof -
      have "k < 65536" using Suc.prems(1) unat_bounds(2)[of "rA c"] by simp
      then have "unat (word_of_nat k :: u16) = k" by (simp add: unat_of_nat)
      then show ?thesis by auto
    qed
    finally show ?thesis .
  qed
  show ?case
  proof (cases "k = unat (rA c)")
    case True
    then show ?thesis using u a by (simp add: bnd_gets)
  next
    case False
    let ?v = "set_mdr src u"
    have "\<exists>t. mvn_loop fuel h None at dst src ?v = Inr ((), t) \<and> cpu t = mvn_regs (Suc (unat (rA c))) c \<and>
        alike t (copy_up bus_peek (poke h) (src_at src c) (dst_at dst c) (Suc (unat (rA c))) s0)"
      using u False Suc.prems by (intro Suc.IH[of "Suc k"]) (auto simp: alike_def peek_indep)
    moreover have "ct_insn None at 0x54 src u = Inr ((), ?v)" by (simp add: ct_insn_def thn_modify thn_def)
    ultimately show ?thesis using u a False by (simp add: bnd_gets)
  qed
qed simp





end
