(* ===== verification/Ct_Search.thy ===== *)
theory Ct_Search
  imports Ct_Prelude
begin

text \<open>
  The binary search that \<open>overlay.c\<close> (\<open>first_at\<close>) and \<open>sched.c\<close> (\<open>native_lookup\<close>) both contain, over
  any table sorted by a 32-bit key, and the scan of the entries with one key that follows it.
\<close>

function first_from :: "('f \<Rightarrow> u32) \<Rightarrow> 'f list \<Rightarrow> u32 \<Rightarrow> nat \<Rightarrow> nat \<Rightarrow> nat" where
  "first_from key tab at lo hi =
     (if lo < hi
      then let mid = (lo + hi) div 2 in
           if key (tab ! mid) < at then first_from key tab at (mid + 1) hi else first_from key tab at lo mid
      else lo)"
  by pat_completeness auto
termination by (relation "measure (\<lambda>(key, tab, at, lo, hi). hi - lo)") auto

declare first_from.simps [simp del]

locale sorted_table =
  fixes key :: "'f \<Rightarrow> u32" and tab :: "'f list"
  assumes sorted_keys: "sorted (map key tab)"
begin

lemma key_mono: "i \<le> j \<Longrightarrow> j < length tab \<Longrightarrow> key (tab ! i) \<le> key (tab ! j)"
  using sorted_nth_mono[OF sorted_keys, of i j] by simp

text \<open>Below \<open>lo\<close> keys are smaller, from \<open>hi\<close> on they are not: the search closes the gap.\<close>

definition below :: "u32 \<Rightarrow> nat \<Rightarrow> bool" where
  "below at n \<longleftrightarrow> (\<forall>i<n. key (tab ! i) < at)"

definition above :: "u32 \<Rightarrow> nat \<Rightarrow> bool" where
  "above at n \<longleftrightarrow> (\<forall>i. n \<le> i \<longrightarrow> i < length tab \<longrightarrow> at \<le> key (tab ! i))"

lemma first_from_bound:
  "lo \<le> hi \<Longrightarrow> hi \<le> length tab \<Longrightarrow> below at lo \<Longrightarrow> above at hi \<Longrightarrow>
   first_from key tab at lo hi \<le> length tab \<and> below at (first_from key tab at lo hi) \<and> above at (first_from key tab at lo hi)"
proof (induction "hi - lo" arbitrary: lo hi rule: less_induct)
  case less
  show ?case
  proof (cases "lo < hi")
    case True
    let ?mid = "(lo + hi) div 2"
    have mid: "lo \<le> ?mid" "?mid < hi" using True by auto
    show ?thesis
    proof (cases "key (tab ! ?mid) < at")
      case small: True
      have "below at (?mid + 1)" unfolding below_def
        using key_mono[of _ ?mid] small mid less.prems(2) by (auto simp: less_Suc_eq_le intro: le_less_trans)
      moreover have "first_from key tab at lo hi = first_from key tab at (?mid + 1) hi"
        using True small by (subst first_from.simps) (simp add: Let_def)
      ultimately show ?thesis using less.hyps[of hi "?mid + 1"] less.prems mid by simp
    next
      case False
      have "above at ?mid" unfolding above_def
        using key_mono[of ?mid] False by (auto simp: not_less intro: order_trans)
      moreover have "first_from key tab at lo hi = first_from key tab at lo ?mid"
        using True False by (subst first_from.simps) (simp add: Let_def)
      ultimately show ?thesis using less.hyps[of ?mid lo] less.prems mid by simp
    qed
  next
    case False
    then have "first_from key tab at lo hi = lo" by (subst first_from.simps) simp
    then show ?thesis using less.prems False by simp
  qed
qed

lemma scan_finds:
  "takeWhile (\<lambda>f. key f = at) (drop (first_from key tab at 0 (length tab)) tab) = filter (\<lambda>f. key f = at) tab"
proof -
  let ?k = "first_from key tab at 0 (length tab)"
  have b: "?k \<le> length tab" "\<forall>i<?k. key (tab ! i) < at" "\<forall>i. ?k \<le> i \<and> i < length tab \<longrightarrow> at \<le> key (tab ! i)"
    using first_from_bound[of 0 "length tab" at] by (simp_all add: below_def above_def)
  have "filter (\<lambda>f. key f = at) (take ?k tab) = []"
  proof -
    have "key f \<noteq> at" if f: "f \<in> set (take ?k tab)" for f
    proof -
      obtain i where "i < ?k" "f = tab ! i" using f by (auto simp: in_set_conv_nth)
      then show ?thesis using b(2) by (metis less_irrefl)
    qed
    then show ?thesis by (simp add: filter_empty_conv)
  qed
  then have "filter (\<lambda>f. key f = at) tab = filter (\<lambda>f. key f = at) (drop ?k tab)"
    by (metis append_take_drop_id filter_append append_Nil)
  moreover have "filter (\<lambda>f. key f = at) xs = takeWhile (\<lambda>f. key f = at) xs"
    if "sorted (map key xs)" "\<forall>f\<in>set xs. at \<le> key f" for xs
    using that
  proof (induction xs)
    case (Cons x xs)
    show ?case
    proof (cases "key x = at")
      case True
      then show ?thesis using Cons by simp
    next
      case False
      then have "\<forall>f\<in>set xs. key f \<noteq> at" using Cons.prems by fastforce
      then show ?thesis using False by simp
    qed
  qed simp
  moreover have "sorted (map key (drop ?k tab))" by (metis drop_map sorted_keys sorted_wrt_drop)
  moreover have "\<forall>f\<in>set (drop ?k tab). at \<le> key f" using b by (auto simp: in_set_conv_nth)
  ultimately show ?thesis by simp
qed

end

lemma sorted_sort_table: "sorted_table key (sort_key key tab)"
  by unfold_locales simp

end
