(* ===== verification/Ct_Overlay.thy ===== *)
theory Ct_Overlay
  imports Ct_InterpProps Ct_Search
begin

text \<open>
  \<open>runtime/overlay.c\<close> and \<open>runtime/overlay.h\<close>: recompiled code the game keeps in WRAM. The state adds
  the lookup table (sorted by address), the check cached per entry, and the stack of overlay
  functions running natively (outermost first; its length is \<open>ct_ovl_n\<close>). The generated function
  of an entry is a number into the generated code. The \<open>setjmp\<close> buffer of an active function is not
  modelled.
\<close>

section \<open>State\<close>

record overlay_func =
  of_addr :: u32
  of_m :: u8
  of_x :: u8
  of_lo :: u32
  of_hi :: u32
  of_hash :: u64
  of_fn :: "nat option"

record cache_entry =
  gens :: u64
  checked :: bool
  entry_valid :: bool

record overlay_act =
  act_f :: overlay_func
  act_idx :: nat
  act_s0 :: u16
  dormant :: bool
  act_lo :: u32
  act_len :: u32

datatype tail = No_tail | Tail_fn nat | Rest_runner

record ovl_state = interp_state +
  ovl :: "overlay_func list"
  ovl_cache :: "cache_entry list"
  overlay_last_idx :: nat
  ct_ovl_act :: "overlay_act list"
  ct_tail_fn :: tail
  ct_tail_s0 :: u16

definition OVERLAY_MAX_ACT :: nat where "OVERLAY_MAX_ACT = 64"

abbreviation "ct_ovl_n s \<equiv> length (ct_ovl_act s)"

section \<open>The lookup\<close>

text \<open>\<open>enabled\<close>: the environment does not say \<open>CT_OVERLAYS=0\<close>. \<open>qsort\<close> leaves the order of equal
  addresses open; here it is the order of the generated table.\<close>

definition overlay_init :: "bool \<Rightarrow> overlay_func list \<Rightarrow> 'a ovl_state_scheme \<Rightarrow> 'a ovl_state_scheme" where
  "overlay_init enabled funcs s =
     s\<lparr>ovl := (if enabled then sort_key of_addr (filter (\<lambda>f. of_fn f \<noteq> None) funcs) else []),
       ovl_cache := replicate (length funcs + 1) \<lparr>gens = 0, checked = False, entry_valid = False\<rparr>\<rparr>"

definition page_gens :: "overlay_func \<Rightarrow> 'a bus_state_scheme \<Rightarrow> u64" where
  "page_gens f s =
     sum_list (map (\<lambda>p. to64 (ct_wram_gen s (word_of_nat p)))
       [unat (drop_bit 8 (of_lo f AND 0x1FFFF)) ..< Suc (unat (drop_bit 8 (of_hi f AND 0x1FFFF)))])"

definition fnv_step :: "'a bus_state_scheme \<Rightarrow> u64 \<Rightarrow> u32 \<Rightarrow> u64" where
  "fnv_step s h a = (h XOR to64 (wram s (a AND 0x1FFFF))) * 0x100000001B3"

definition matches :: "overlay_func \<Rightarrow> 'a bus_state_scheme \<Rightarrow> bool" where
  "matches f s \<longleftrightarrow>
     foldl (fnv_step s) 0xCBF29CE484222325 (map word_of_nat [unat (of_lo f) ..< Suc (unat (of_hi f))]) = of_hash f"

definition valid :: "nat \<Rightarrow> 'a ovl_state_scheme \<Rightarrow> bool \<times> 'a ovl_state_scheme" where
  "valid k s =
     (let g = page_gens (ovl s ! k) s; e = ovl_cache s ! k in
      if \<not> checked e \<or> gens e \<noteq> g
      then let v = matches (ovl s ! k) s in
           (v, s\<lparr>ovl_cache := (ovl_cache s)[k := \<lparr>gens = g, checked = True, entry_valid = v\<rparr>]\<rparr>)
      else (entry_valid e, s))"

definition first_at :: "u32 \<Rightarrow> 'a ovl_state_scheme \<Rightarrow> nat" where
  "first_at at s = first_from of_addr (ovl s) at 0 (length (ovl s))"

text \<open>The scan from entry \<open>k\<close>; its first argument is the number of entries left.\<close>

fun lookup_from :: "nat \<Rightarrow> u32 \<Rightarrow> nat \<Rightarrow> 'a ovl_state_scheme \<Rightarrow> overlay_func option \<times> 'a ovl_state_scheme" where
  "lookup_from 0 at k s = (None, s)"
| "lookup_from (Suc n) at k s =
     (let f = ovl s ! k in
      if of_addr f \<noteq> at then (None, s)
      else if of_m f = fl_m (cpu s) \<and> of_x f = fl_x (cpu s)
      then let (v, t) = valid k s in
           if v then (Some f, t\<lparr>overlay_last_idx := k\<rparr>) else lookup_from n at (k + 1) t
      else lookup_from n at (k + 1) s)"

definition overlay_lookup :: "'a ovl_state_scheme \<Rightarrow> overlay_func option \<times> 'a ovl_state_scheme" where
  "overlay_lookup s =
     (let c = cpu s in
      if fl_e c \<noteq> 0 \<or> (rPB c \<noteq> 0x7E \<and> rPB c \<noteq> 0x7F) \<or> ovl s = [] then (None, s)
      else let at = addr24 (rPB c) (rPC c); k = first_at at s in lookup_from (length (ovl s) - k) at k s)"

fun state_from :: "nat \<Rightarrow> u32 \<Rightarrow> u8 \<Rightarrow> u8 \<Rightarrow> nat \<Rightarrow> bool \<times> bool \<Rightarrow> 'a ovl_state_scheme \<Rightarrow> (bool \<times> bool) \<times> 'a ovl_state_scheme" where
  "state_from 0 addr m x k r s = (r, s)"
| "state_from (Suc n) addr m x k r s =
     (let f = ovl s ! k in
      if of_addr f \<noteq> addr then (r, s)
      else if of_m f = m \<and> of_x f = x
      then let (v, t) = valid k s in state_from n addr m x (k + 1) (True, snd r \<or> \<not> v) t
      else state_from n addr m x (k + 1) r s)"

text \<open>The result is \<open>any\<close> and \<open>*stale\<close>.\<close>

definition overlay_state :: "u32 \<Rightarrow> u8 \<Rightarrow> u8 \<Rightarrow> 'a ovl_state_scheme \<Rightarrow> (bool \<times> bool) \<times> 'a ovl_state_scheme" where
  "overlay_state addr m x s =
     (let k = first_at addr s in state_from (length (ovl s) - k) addr m x k (False, False) s)"

section \<open>Active functions and the watched range\<close>

text \<open>The range of a function joined to the watched one, as \<open>overlay_enter\<close> and \<open>rewatch\<close> do.\<close>

definition watch_with :: "overlay_func \<Rightarrow> u32 \<times> u32 \<Rightarrow> u32 \<times> u32" where
  "watch_with f w =
     (let lo = of_lo f AND 0x1FFFF; hi = (of_hi f AND 0x1FFFF) + 1; olo = fst w; ohi = fst w + snd w;
          lo' = (if snd w \<noteq> 0 \<and> olo < lo then olo else lo);
          hi' = (if snd w \<noteq> 0 \<and> ohi > hi then ohi else hi)
      in (lo', hi' - lo'))"

definition set_watch :: "u32 \<times> u32 \<Rightarrow> 'a bus_state_scheme \<Rightarrow> 'a bus_state_scheme" where
  "set_watch w s = s\<lparr>ct_wram_watch_lo := fst w, ct_wram_watch_len := snd w\<rparr>"

abbreviation "watch s \<equiv> (ct_wram_watch_lo s, ct_wram_watch_len s)"

definition rewatch :: "'a ovl_state_scheme \<Rightarrow> 'a ovl_state_scheme" where
  "rewatch s = set_watch (foldl (\<lambda>w a. if dormant a then w else watch_with (act_f a) w) (0, 0) (ct_ovl_act s)) s"

text \<open>The result of \<open>overlay_enter\<close> is the index of the new entry.\<close>

definition overlay_enter :: "overlay_func \<Rightarrow> nat \<Rightarrow> u16 \<Rightarrow> ('a ovl_state_scheme, nat) act" where
  "overlay_enter f k s0 = (\<lambda>s.
     if ct_ovl_n s = OVERLAY_MAX_ACT then Inl Overlay_nesting
     else let a = \<lparr>act_f = f, act_idx = k, act_s0 = s0, dormant = False,
                   act_lo = ct_wram_watch_lo s, act_len = ct_wram_watch_len s\<rparr>
          in Inr (ct_ovl_n s, set_watch (watch_with f (watch s)) (s\<lparr>ct_ovl_act := ct_ovl_act s @ [a]\<rparr>)))"

definition overlay_leave :: "nat \<Rightarrow> 'a ovl_state_scheme \<Rightarrow> 'a ovl_state_scheme" where
  "overlay_leave i s =
     set_watch (act_lo (ct_ovl_act s ! i), act_len (ct_ovl_act s ! i)) (s\<lparr>ct_ovl_act := take i (ct_ovl_act s)\<rparr>)"

fun stale_from :: "overlay_act list \<Rightarrow> nat \<Rightarrow> 'a ovl_state_scheme \<Rightarrow> nat option \<times> 'a ovl_state_scheme" where
  "stale_from [] k s = (None, s)"
| "stale_from (a # as) k s =
     (if dormant a then stale_from as (k + 1) s
      else let (v, t) = valid (act_idx a) s in if \<not> v then (Some k, t) else stale_from as (k + 1) t)"

definition overlay_stale_active :: "'a ovl_state_scheme \<Rightarrow> nat option \<times> 'a ovl_state_scheme" where
  "overlay_stale_active s = stale_from (ct_ovl_act s) 0 s"

definition overlay_reset_active :: "'a ovl_state_scheme \<Rightarrow> 'a ovl_state_scheme" where
  "overlay_reset_active s = (set_watch (0, 0) (s\<lparr>ct_ovl_act := []\<rparr>))\<lparr>ct_wram_hit := False\<rparr>"

definition go_dormant :: "'a ovl_state_scheme \<Rightarrow> 'a ovl_state_scheme" where
  "go_dormant s =
     (let as = ct_ovl_act s in
      if 0 < ct_ovl_n s \<and> \<not> dormant (last as)
      then rewatch (s\<lparr>ct_ovl_act := butlast as @ [(last as)\<lparr>dormant := True\<rparr>]\<rparr>)
      else s)"

definition ct_tail :: "nat \<Rightarrow> 'a ovl_state_scheme \<Rightarrow> 'a ovl_state_scheme" where
  "ct_tail fn s = s\<lparr>ct_tail_fn := Tail_fn fn\<rparr>"

definition ct_tail_rest :: "u16 \<Rightarrow> 'a ovl_state_scheme \<Rightarrow> 'a ovl_state_scheme" where
  "ct_tail_rest s0 s = s\<lparr>ct_tail_s0 := s0, ct_tail_fn := Rest_runner\<rparr>"

definition ct_overlay_rest ::
  "nat \<Rightarrow> ('a ovl_state_scheme) exec_hook option \<Rightarrow> ('a ovl_state_scheme) interp_env
   \<Rightarrow> ('a ovl_state_scheme) hooks \<Rightarrow> u16 \<Rightarrow> ('a ovl_state_scheme, unit) act" where
  "ct_overlay_rest fuel exec env h s0 = thn (modify go_dormant) (ct_interp_rest fuel exec env h s0)"

definition ct_overlay_tail_rest :: "u16 \<Rightarrow> 'a ovl_state_scheme \<Rightarrow> 'a ovl_state_scheme" where
  "ct_overlay_tail_rest s0 s = ct_tail_rest s0 (go_dormant s)"

section \<open>The watch covers what runs\<close>

definition lo17 :: "overlay_func \<Rightarrow> nat" where "lo17 f = unat (of_lo f AND 0x1FFFF)"
definition hi17 :: "overlay_func \<Rightarrow> nat" where "hi17 f = unat (of_hi f AND 0x1FFFF)"

text \<open>The bytes a function was decoded from do not wrap around WRAM.\<close>

definition func_ok :: "overlay_func \<Rightarrow> bool" where "func_ok f \<longleftrightarrow> lo17 f \<le> hi17 f"

definition watch_ok :: "u32 \<times> u32 \<Rightarrow> bool" where
  "watch_ok w \<longleftrightarrow> unat (fst w) + unat (snd w) \<le> 0x20000"

definition covers :: "u32 \<times> u32 \<Rightarrow> overlay_func \<Rightarrow> bool" where
  "covers w f \<longleftrightarrow> 0 < unat (snd w) \<and> unat (fst w) \<le> lo17 f \<and> hi17 f < unat (fst w) + unat (snd w)"

lemma mask17: "unat (a AND 0x1FFFF :: u32) \<le> 0x1FFFF"
proof -
  have "a AND 0x1FFFF \<le> 0x1FFFF" by (rule word_and_le1)
  then show ?thesis by (simp add: word_le_nat_alt)
qed

lemma watch_with_nat:
  assumes "watch_ok w" "func_ok f"
  shows "unat (fst (watch_with f w)) = (if snd w \<noteq> 0 then min (unat (fst w)) (lo17 f) else lo17 f)" (is ?l)
    and "unat (fst (watch_with f w)) + unat (snd (watch_with f w)) =
      (if snd w \<noteq> 0 then max (unat (fst w) + unat (snd w)) (hi17 f + 1) else hi17 f + 1)" (is ?r)
proof -
  let ?h = "(of_hi f AND 0x1FFFF) + 1"
  have h: "unat ?h = hi17 f + 1" using mask17[of "of_hi f"] by (simp add: hi17_def unat_word_ariths)
  have o: "unat (fst w + snd w) = unat (fst w) + unat (snd w)"
    using assms(1) by (simp add: watch_ok_def unat_word_ariths)
  have lt: "fst w < (of_lo f AND 0x1FFFF) \<longleftrightarrow> unat (fst w) < lo17 f" by (simp add: word_less_nat_alt lo17_def)
  have gt: "?h < fst w + snd w \<longleftrightarrow> hi17 f + 1 < unat (fst w) + unat (snd w)" by (simp add: word_less_nat_alt h o)
  let ?lo = "fst (watch_with f w)"
  let ?hi = "if snd w \<noteq> 0 \<and> fst w + snd w > ?h then fst w + snd w else ?h"
  show l: ?l by (auto simp: watch_with_def Let_def lt lo17_def min_def)
  have hi: "unat ?hi = (if snd w \<noteq> 0 then max (unat (fst w) + unat (snd w)) (hi17 f + 1) else hi17 f + 1)"
    by (cases "snd w = 0"; cases "hi17 f + 1 < unat (fst w) + unat (snd w)") (simp_all add: gt o h)
  have "unat ?lo \<le> unat ?hi" unfolding l hi using assms(2) by (auto simp: func_ok_def)
  moreover have "snd (watch_with f w) = ?hi - ?lo" by (simp add: watch_with_def Let_def)
  ultimately have "unat ?lo + unat (snd (watch_with f w)) = unat ?hi" by (simp add: unat_sub word_le_nat_alt)
  then show ?r unfolding hi by simp
qed

lemma watch_with_covers:
  assumes "watch_ok w" "func_ok f"
  shows "watch_ok (watch_with f w)" "covers (watch_with f w) f" "covers w g \<Longrightarrow> covers (watch_with f w) g"
proof -
  note n = watch_with_nat[OF assms]
  have "hi17 f < 0x20000" using mask17[of "of_hi f"] by (simp add: hi17_def)
  then show "watch_ok (watch_with f w)" unfolding watch_ok_def n(2) using assms(1) by (simp add: watch_ok_def)
  have pos: "0 < unat (snd (watch_with f w))"
  proof -
    have "unat (fst (watch_with f w)) \<le> hi17 f" unfolding n(1) using assms(2) by (auto simp: func_ok_def)
    moreover have "hi17 f < unat (fst (watch_with f w)) + unat (snd (watch_with f w))" unfolding n(2) by auto
    ultimately show ?thesis by simp
  qed
  then show "covers (watch_with f w) f" unfolding covers_def n(2) unfolding n(1) using assms(2) by (auto simp: func_ok_def)
  assume "covers w g"
  then show "covers (watch_with f w) g" using pos unfolding covers_def n(2) unfolding n(1) by auto
qed

text \<open>The invariant: the watch, and each range an active function saved at its entry, covers every
  running (not dormant) function entered before.\<close>

definition acts_inv :: "overlay_act list \<Rightarrow> u32 \<times> u32 \<Rightarrow> bool" where
  "acts_inv as w \<longleftrightarrow> watch_ok w \<and> (\<forall>a\<in>set as. func_ok (act_f a) \<and> watch_ok (act_lo a, act_len a)) \<and>
     (\<forall>a\<in>set as. \<not> dormant a \<longrightarrow> covers w (act_f a)) \<and>
     (\<forall>i<length as. \<forall>k<i. \<not> dormant (as ! k) \<longrightarrow> covers (act_lo (as ! i), act_len (as ! i)) (act_f (as ! k)))"

lemma acts_inv_nil: "acts_inv [] (0, 0)"
  by (simp add: acts_inv_def watch_ok_def)

lemma acts_inv_snoc:
  assumes "acts_inv as w" "func_ok f"
  shows "acts_inv (as @ [\<lparr>act_f = f, act_idx = k, act_s0 = s0, dormant = False, act_lo = fst w, act_len = snd w\<rparr>]) (watch_with f w)"
  using assms watch_with_covers[of w f]
  by (auto simp: acts_inv_def nth_append less_Suc_eq)

lemma acts_inv_take:
  assumes "acts_inv as w" "i < length as"
  shows "acts_inv (take i as) (act_lo (as ! i), act_len (as ! i))"
  unfolding acts_inv_def
proof (intro conjI)
  show "watch_ok (act_lo (as ! i), act_len (as ! i))" using assms by (auto simp: acts_inv_def)
  show "\<forall>a\<in>set (take i as). func_ok (act_f a) \<and> watch_ok (act_lo a, act_len a)"
    using assms(1) by (auto simp: acts_inv_def dest: in_set_takeD)
  show "\<forall>a\<in>set (take i as). \<not> dormant a \<longrightarrow> covers (act_lo (as ! i), act_len (as ! i)) (act_f a)"
    using assms by (auto simp: acts_inv_def in_set_conv_nth)
  show "\<forall>j<length (take i as). \<forall>k<j. \<not> dormant (take i as ! k) \<longrightarrow>
      covers (act_lo (take i as ! j), act_len (take i as ! j)) (act_f (take i as ! k))"
    using assms by (auto simp: acts_inv_def)
qed

lemma rewatch_fold:
  assumes "\<forall>a\<in>set as. func_ok (act_f a)" "watch_ok w"
  shows "watch_ok (foldl (\<lambda>w a. if dormant a then w else watch_with (act_f a) w) w as) \<and>
    (\<forall>f. covers w f \<longrightarrow> covers (foldl (\<lambda>w a. if dormant a then w else watch_with (act_f a) w) w as) f) \<and>
    (\<forall>a\<in>set as. \<not> dormant a \<longrightarrow> covers (foldl (\<lambda>w a. if dormant a then w else watch_with (act_f a) w) w as) (act_f a))"
  using assms
proof (induction as arbitrary: w)
  case (Cons a as)
  let ?w = "if dormant a then w else watch_with (act_f a) w"
  have "watch_ok ?w" "\<And>f. covers w f \<Longrightarrow> covers ?w f" "\<not> dormant a \<Longrightarrow> covers ?w (act_f a)"
    using Cons.prems watch_with_covers[of w "act_f a"] by auto
  with Cons.IH[of ?w] Cons.prems show ?case by auto
qed simp

lemma acts_inv_dormant:
  assumes "acts_inv as w" "as \<noteq> []"
  defines "as' \<equiv> butlast as @ [(last as)\<lparr>dormant := True\<rparr>]"
  shows "acts_inv as' (foldl (\<lambda>w a. if dormant a then w else watch_with (act_f a) w) (0, 0) as')"
proof -
  obtain bs a where as: "as = bs @ [a]" using assms(2) by (metis append_butlast_last_id)
  have as': "as' = bs @ [a\<lparr>dormant := True\<rparr>]" by (simp add: as'_def as)
  have ok: "\<forall>a\<in>set as'. func_ok (act_f a) \<and> watch_ok (act_lo a, act_len a)"
    using assms(1) by (auto simp: as' as acts_inv_def)
  have "watch_ok (0, 0)" by (simp add: watch_ok_def)
  with rewatch_fold[of as' "(0, 0)"] ok show ?thesis
    using assms(1) unfolding acts_inv_def by (auto simp: as' as nth_append less_Suc_eq)
qed

text \<open>What the program does with the active functions: enter one, leave one (and those entered
  after it), hand the rest of the innermost to the interpreter, reset, or run code, which touches
  neither the active functions nor the watch.\<close>

inductive ovl_step :: "'a ovl_state_scheme \<Rightarrow> 'a ovl_state_scheme \<Rightarrow> bool" where
  enter: "func_ok f \<Longrightarrow> overlay_enter f k s0 s = Inr (i, t) \<Longrightarrow> ovl_step s t"
| leave: "i < ct_ovl_n s \<Longrightarrow> ovl_step s (overlay_leave i s)"
| rest: "ovl_step s (go_dormant s)"
| reset: "ovl_step s (overlay_reset_active s)"
| run: "ct_ovl_act t = ct_ovl_act s \<Longrightarrow> watch t = watch s \<Longrightarrow> ovl_step s t"

inductive ovl_reach :: "'a ovl_state_scheme \<Rightarrow> bool" where
  start: "ct_ovl_act s = [] \<Longrightarrow> watch s = (0, 0) \<Longrightarrow> ovl_reach s"
| step: "ovl_reach s \<Longrightarrow> ovl_step s t \<Longrightarrow> ovl_reach t"

lemma set_watch_simps [simp]:
  "ct_ovl_act (set_watch w s) = ct_ovl_act s" "watch (set_watch w t) = w"
  by (simp_all add: set_watch_def)

lemma ovl_step_inv: "ovl_step s t \<Longrightarrow> acts_inv (ct_ovl_act s) (watch s) \<Longrightarrow> acts_inv (ct_ovl_act t) (watch t)"
proof (induction rule: ovl_step.induct)
  case (enter f k s0 s i t)
  then show ?case using acts_inv_snoc[of "ct_ovl_act s" "watch s" f k s0]
    by (auto simp: overlay_enter_def Let_def split: if_splits)
next
  case (leave i s)
  then show ?case using acts_inv_take[of "ct_ovl_act s" "watch s" i] by (simp add: overlay_leave_def)
next
  case (rest s)
  then show ?case using acts_inv_dormant[of "ct_ovl_act s" "watch s"]
    by (auto simp: go_dormant_def rewatch_def Let_def)
next
  case (reset s)
  have "watch (overlay_reset_active s) = (0, 0)" "ct_ovl_act (overlay_reset_active s) = []"
    by (simp_all add: overlay_reset_active_def set_watch_def)
  then show ?case by (simp only: acts_inv_nil)
next
  case (run t s)
  then show ?case by simp
qed

lemma ovl_reach_inv: "ovl_reach s \<Longrightarrow> acts_inv (ct_ovl_act s) (watch s)"
proof (induction rule: ovl_reach.induct)
  case (start s)
  then show ?case by (simp add: acts_inv_nil del: prod.inject)
qed (rule ovl_step_inv)


text \<open>C11. No write to running overlay code goes unnoticed: in every state reached by entering and
  leaving overlay functions, handing rests to the interpreter and resets, a WRAM store to any byte
  a running function was compiled from raises the flag the scheduler checks.\<close>

theorem overwrite_noticed:
  assumes "ovl_reach s" "a \<in> set (ct_ovl_act s)" "\<not> dormant a"
    and "unat (of_lo (act_f a) AND 0x1FFFF) \<le> unat off" "unat off \<le> unat (of_hi (act_f a) AND 0x1FFFF)"
  shows "ct_wram_hit (wram_store off v s)"
proof -
  have c: "watch_ok (watch s)" "covers (watch s) (act_f a)"
    using ovl_reach_inv[OF assms(1)] assms(2,3) by (auto simp: acts_inv_def)
  have "unat off < 0x20000" using assms(5) mask17[of "of_hi (act_f a)"] by simp
  then have "off - ct_wram_watch_lo s < ct_wram_watch_len s"
    using c assms(4,5) by (subst watch_test) (auto simp: watch_ok_def covers_def lo17_def hi17_def)
  then show ?thesis by (simp add: wram_store_def wram_journal_def Let_def)
qed


definition ovl_zero :: ovl_state where
  "ovl_zero = interp_state.extend interp_zero
     \<lparr>ovl = [], ovl_cache = [], overlay_last_idx = 0, ct_ovl_act = [], ct_tail_fn = No_tail, ct_tail_s0 = 0\<rparr>"

lemmas ovl_zero_simps = ovl_zero_def ovl_state.defs interp_zero_simps

text \<open>A function of 256 bytes at $7E:1200.\<close>

definition demo_func :: overlay_func where
  "demo_func = \<lparr>of_addr = 0x7E1200, of_m = 0, of_x = 0, of_lo = 0x7E1200, of_hi = 0x7E12FF, of_hash = 0, of_fn = Some 0\<rparr>"

theorem overwrite_noticed_witness:
  "\<exists>t. overlay_enter demo_func 0 0x1FF ovl_zero = Inr (0, t) \<and> ct_wram_hit (wram_store 0x1234 7 t)"
proof -
  let ?a = "\<lparr>act_f = demo_func, act_idx = 0, act_s0 = 0x1FF, dormant = False, act_lo = 0, act_len = 0\<rparr>"
  obtain t where t: "overlay_enter demo_func 0 0x1FF ovl_zero = Inr (0, t)" "ct_ovl_act t = [?a]"
    by (simp add: overlay_enter_def ovl_zero_simps OVERLAY_MAX_ACT_def)
  have "ovl_reach ovl_zero" by (rule ovl_reach.start) (simp_all add: ovl_zero_simps)
  then have "ovl_reach t"
    by (rule ovl_reach.step) (rule ovl_step.enter[OF _ t(1)], simp add: func_ok_def lo17_def hi17_def demo_func_def)
  then have "ct_wram_hit (wram_store 0x1234 7 t)"
    by (rule overwrite_noticed[where a = ?a]) (simp_all add: t demo_func_def)
  with t(1) show ?thesis by blast
qed

section \<open>The cached check\<close>

text \<open>
  The idea of the cache as an interface: a check of the state, a stamp of it, and the relation of
  a state to those it can become, along which an equal stamp means an equal check.
\<close>

locale stamped =
  fixes stamp :: "'s \<Rightarrow> 'v" and check :: "'s \<Rightarrow> bool" and later :: "'s \<Rightarrow> 's \<Rightarrow> bool"
  assumes later_refl: "later s s"
    and later_trans: "later r s \<Longrightarrow> later s t \<Longrightarrow> later r t"
    and same_stamp: "later s t \<Longrightarrow> stamp s = stamp t \<Longrightarrow> check s = check t"
begin

text \<open>A result \<open>v\<close> stored with stamp \<open>g\<close> that was true of some earlier state.\<close>

definition fresh :: "'v \<Rightarrow> bool \<Rightarrow> 's \<Rightarrow> bool" where
  "fresh g v s \<longleftrightarrow> (\<exists>r. later r s \<and> g = stamp r \<and> v = check r)"

lemma fresh_now: "fresh (stamp s) (check s) s"
  using later_refl by (auto simp: fresh_def)

lemma fresh_later: "fresh g v s \<Longrightarrow> later s t \<Longrightarrow> fresh g v t"
  using later_trans by (auto simp: fresh_def)

lemma fresh_hit: "fresh (stamp s) v s \<Longrightarrow> v = check s"
  using same_stamp by (auto simp: fresh_def)

end

text \<open>Between two states the write counters only grew (none wrapped), and a byte that differs has
  a counter that differs.\<close>

definition grew :: "'a bus_state_scheme \<Rightarrow> 'a bus_state_scheme \<Rightarrow> bool" where
  "grew s t \<longleftrightarrow> (\<forall>p. ct_wram_gen s p \<le> ct_wram_gen t p) \<and>
     (\<forall>off. wram s off \<noteq> wram t off \<longrightarrow> ct_wram_gen s (drop_bit 8 off) < ct_wram_gen t (drop_bit 8 off))"

lemma grew_refl: "grew s s"
  by (simp add: grew_def)

lemma grew_trans:
  assumes "grew r s" "grew s t" shows "grew r t"
  unfolding grew_def
proof (intro conjI allI impI)
  show "ct_wram_gen r p \<le> ct_wram_gen t p" for p
    using assms by (metis grew_def order_trans)
  fix off :: u32
  let ?p = "drop_bit 8 off"
  assume "wram r off \<noteq> wram t off"
  then have "wram r off \<noteq> wram s off \<or> wram s off \<noteq> wram t off" by auto
  then show "ct_wram_gen r ?p < ct_wram_gen t ?p"
  proof
    assume "wram r off \<noteq> wram s off"
    then have "ct_wram_gen r ?p < ct_wram_gen s ?p" using assms(1) by (simp add: grew_def)
    also have "\<dots> \<le> ct_wram_gen t ?p" using assms(2) by (simp add: grew_def)
    finally show ?thesis .
  next
    assume "wram s off \<noteq> wram t off"
    then have "ct_wram_gen s ?p < ct_wram_gen t ?p" using assms(2) by (simp add: grew_def)
    moreover have "ct_wram_gen r ?p \<le> ct_wram_gen s ?p" using assms(1) by (simp add: grew_def)
    ultimately show ?thesis by simp
  qed
qed

text \<open>A WRAM store grows, unless its page's counter wraps.\<close>

lemma grew_store: "ct_wram_gen s (drop_bit 8 off) \<noteq> - 1 \<Longrightarrow> grew s (wram_store off v s)"
proof -
  assume g: "ct_wram_gen s (drop_bit 8 off) \<noteq> - 1"
  have lt: "x < x + 1" if "x \<noteq> - 1" for x :: u32
  proof -
    have "1 + x \<noteq> 0" using that by (metis add.commute add_eq_0_iff add.inverse_inverse)
    then show ?thesis by (simp add: word_less_nat_alt unatSuc add.commute)
  qed
  show ?thesis using lt[OF g]
    by (auto simp: grew_def wram_store_def wram_journal_def Let_def intro: less_imp_le)
qed

abbreviation pages :: "overlay_func \<Rightarrow> nat list" where
  "pages f \<equiv> [unat (drop_bit 8 (of_lo f AND 0x1FFFF)) ..< Suc (unat (drop_bit 8 (of_hi f AND 0x1FFFF)))]"

lemma page_bound: "unat (drop_bit 8 (a AND 0x1FFFF) :: u32) < 512"
proof -
  have "a AND 0x1FFFF \<le> 0x1FFFF" by (rule word_and_le1)
  then have "unat (a AND 0x1FFFF) \<le> 0x1FFFF" by (simp add: word_le_nat_alt)
  then show ?thesis by (simp add: drop_bit_eq_div unat_div)
qed

lemma sum_unat:
  "length ps \<le> 512 \<Longrightarrow> unat (sum_list (map (\<lambda>p. to64 (g p :: u32)) ps) :: u64) = sum_list (map (\<lambda>p. unat (g p)) ps) \<and>
     sum_list (map (\<lambda>p. unat (g p)) ps) \<le> length ps * 0xFFFFFFFF"
proof (induction ps)
  case (Cons p ps)
  have "unat (g p) \<le> 0xFFFFFFFF" using unsigned_less[of "g p", where 'a = nat] by simp
  moreover have "length ps * 0xFFFFFFFF \<le> 511 * 0xFFFFFFFF" using Cons.prems by simp
  ultimately show ?case using Cons by (simp add: unat_word_ariths)
qed simp

lemma gens_unat: "unat (page_gens f s) = (\<Sum>p\<leftarrow>pages f. unat (ct_wram_gen s (word_of_nat p)))"
proof -
  have "length (pages f) \<le> 512" unfolding length_upt using page_bound[of "of_hi f"] by linarith
  from sum_unat[OF this, of "\<lambda>p. ct_wram_gen s (word_of_nat p)"] show ?thesis by (simp add: page_gens_def)
qed

lemma sum_list_eq_pointwise:
  fixes f g :: "'b \<Rightarrow> nat"
  assumes "\<forall>x\<in>set xs. f x \<le> g x" "sum_list (map f xs) = sum_list (map g xs)"
  shows "\<forall>x\<in>set xs. f x = g x"
  using assms
proof (induction xs)
  case (Cons x xs)
  have "sum_list (map f xs) \<le> sum_list (map g xs)" using Cons.prems(1) by (intro sum_list_mono) simp
  then show ?case using Cons by (auto simp: add_le_imp_le_left)
qed simp

text \<open>The bytes of a well-formed entry lie in the pages that are summed.\<close>

definition entry_ok :: "overlay_func \<Rightarrow> bool" where
  "entry_ok f \<longleftrightarrow> of_lo f \<le> of_hi f \<and> drop_bit 17 (of_lo f) = drop_bit 17 (of_hi f)"

lemma byte_page:
  assumes "entry_ok f" "unat (of_lo f) \<le> a" "a \<le> unat (of_hi f)"
  shows "\<exists>p\<in>set (pages f). word_of_nat p = drop_bit 8 (word_of_nat a AND 0x1FFFF :: u32)"
proof -
  have m: "unat (x AND 0x1FFFF :: u32) = unat x mod 0x20000" for x :: u32
  proof -
    have "(0x1FFFF :: u32) = mask 17" by (simp add: mask_eq_exp_minus_1)
    then show ?thesis by (simp only: take_bit_eq_mask[symmetric] unsigned_take_bit_eq) (simp only: take_bit_eq_mod, simp)
  qed
  have lt: "a < 2 ^ 32" using assms(3) unsigned_less[of "of_hi f", where 'a = nat] by simp
  then have ua: "unat (word_of_nat a :: u32) = a" by (simp add: unat_of_nat)
  have q: "unat (of_lo f) div 0x20000 = unat (of_hi f) div 0x20000"
  proof -
    have "unat (drop_bit 17 (of_lo f)) = unat (drop_bit 17 (of_hi f))" using assms(1) by (simp add: entry_ok_def)
    then show ?thesis by (simp add: drop_bit_eq_div unat_div)
  qed
  have qa: "a div 0x20000 = unat (of_lo f) div 0x20000"
    using div_le_mono[OF assms(2), of "0x20000"] div_le_mono[OF assms(3), of "0x20000"] q by simp
  have "unat (of_lo f) mod 0x20000 \<le> a mod 0x20000" "a mod 0x20000 \<le> unat (of_hi f) mod 0x20000"
    using assms(2,3) qa q by (metis add_le_cancel_left div_mult_mod_eq)+
  then have "unat (drop_bit 8 (word_of_nat a AND 0x1FFFF :: u32)) \<in> set (pages f)"
    unfolding set_upt atLeastLessThan_iff less_Suc_eq_le by (simp add: drop_bit_eq_div unat_div m ua div_le_mono)
  then show ?thesis by (rule bexI[rotated]) simp
qed

lemma foldl_cong2: "(\<And>h a. a \<in> set xs \<Longrightarrow> f h a = g h a) \<Longrightarrow> foldl f h xs = foldl g h xs"
  by (induction xs arbitrary: h) simp_all

lemma matches_stamp:
  assumes "entry_ok f" "grew s t" "page_gens f s = page_gens f t"
  shows "matches f s = matches f t"
proof -
  have "(\<Sum>p\<leftarrow>pages f. unat (ct_wram_gen s (word_of_nat p))) = (\<Sum>p\<leftarrow>pages f. unat (ct_wram_gen t (word_of_nat p)))"
    using assms(3) by (simp only: gens_unat[symmetric])
  note sums = this
  have le: "\<forall>p\<in>set (pages f). unat (ct_wram_gen s (word_of_nat p)) \<le> unat (ct_wram_gen t (word_of_nat p))"
    using assms(2) by (auto simp: grew_def word_le_nat_alt)
  have e: "\<forall>p\<in>set (pages f). ct_wram_gen s (word_of_nat p) = ct_wram_gen t (word_of_nat p)"
    using sum_list_eq_pointwise[OF le sums] by (simp only: word_unat_eq_iff)
  have "wram s (a AND 0x1FFFF) = wram t (a AND 0x1FFFF)"
    if a: "a \<in> set (map word_of_nat [unat (of_lo f) ..< Suc (unat (of_hi f))])" for a
  proof -
    obtain n where n: "a = word_of_nat n" "unat (of_lo f) \<le> n" "n \<le> unat (of_hi f)"
      using a by (auto simp: less_Suc_eq_le simp del: upt_Suc)
    obtain p where p: "p \<in> set (pages f)" "word_of_nat p = drop_bit 8 (a AND 0x1FFFF)"
      using byte_page[OF assms(1) n(2,3)] n(1) by blast
    have "ct_wram_gen s (drop_bit 8 (a AND 0x1FFFF)) = ct_wram_gen t (drop_bit 8 (a AND 0x1FFFF))"
      using bspec[OF e p(1)] unfolding p(2) .
    then have "\<not> ct_wram_gen s (drop_bit 8 (a AND 0x1FFFF)) < ct_wram_gen t (drop_bit 8 (a AND 0x1FFFF))" by simp
    then show ?thesis using assms(2) by (auto simp only: grew_def)
  qed
  then have "foldl (fnv_step s) h (map word_of_nat [unat (of_lo f) ..< Suc (unat (of_hi f))]) =
      foldl (fnv_step t) h (map word_of_nat [unat (of_lo f) ..< Suc (unat (of_hi f))])" for h
    by (intro foldl_cong2) (simp add: fnv_step_def)
  then show ?thesis by (simp add: matches_def del: upt_Suc)
qed

definition became :: "overlay_func \<Rightarrow> 'a bus_state_scheme \<Rightarrow> 'a bus_state_scheme \<Rightarrow> bool" where
  "became f s t \<longleftrightarrow> grew s t \<and> entry_ok f \<or> s = t"

interpretation bytes_of: stamped "page_gens f" "matches f" "became f"
  for f :: overlay_func
proof unfold_locales
  fix r s t :: "'a bus_state_scheme"
  show "became f s s" by (simp add: became_def)
  show "became f r s \<Longrightarrow> became f s t \<Longrightarrow> became f r t"
    unfolding became_def using grew_trans by blast
  show "became f s t \<Longrightarrow> page_gens f s = page_gens f t \<Longrightarrow> matches f s = matches f t"
    unfolding became_def using matches_stamp by blast
qed

lemma becameI: "grew s t \<Longrightarrow> entry_ok f \<Longrightarrow> became f s t"
  by (simp add: became_def)

section \<open>The lookup is a search\<close>

definition cache_fresh :: "'a ovl_state_scheme \<Rightarrow> bool" where
  "cache_fresh s \<longleftrightarrow> length (ovl s) \<le> length (ovl_cache s) \<and> (\<forall>f\<in>set (ovl s). entry_ok f) \<and>
     (\<forall>k<length (ovl s). checked (ovl_cache s ! k) \<longrightarrow>
        bytes_of.fresh (ovl s ! k) (gens (ovl_cache s ! k)) (entry_valid (ovl_cache s ! k)) s)"

lemma cache_indep [simp]:
  "page_gens f (s\<lparr>ovl_cache := c\<rparr>) = page_gens f s" "matches f (s\<lparr>ovl_cache := c\<rparr>) = matches f s"
  "page_gens f (s\<lparr>overlay_last_idx := i\<rparr>) = page_gens f s" "matches f (s\<lparr>overlay_last_idx := i\<rparr>) = matches f s"
  by (simp_all add: page_gens_def matches_def fnv_step_def[abs_def])

lemma fresh_moves:
  assumes "cache_fresh s" "grew s t" "ovl t = ovl s" "ovl_cache t = ovl_cache s"
  shows "cache_fresh t"
  unfolding cache_fresh_def assms(3,4)
proof (intro conjI allI impI)
  fix k
  assume k: "k < length (ovl s)" "checked (ovl_cache s ! k)"
  then have "bytes_of.fresh (ovl s ! k) (gens (ovl_cache s ! k)) (entry_valid (ovl_cache s ! k)) s" "entry_ok (ovl s ! k)"
    using assms(1) by (simp_all add: cache_fresh_def)
  then show "bytes_of.fresh (ovl s ! k) (gens (ovl_cache s ! k)) (entry_valid (ovl_cache s ! k)) t"
    using assms(2) by (blast intro: bytes_of.fresh_later becameI)
qed (use assms(1) in \<open>simp_all add: cache_fresh_def\<close>)

lemma grew_same: "wram t = wram s \<Longrightarrow> ct_wram_gen t = ct_wram_gen s \<Longrightarrow> grew s t"
  by (simp add: grew_def)

lemma fresh_update:
  assumes "cache_fresh s" "k < length (ovl s)" "bytes_of.fresh (ovl s ! k) g v s"
  shows "cache_fresh (s\<lparr>ovl_cache := (ovl_cache s)[k := \<lparr>gens = g, checked = True, entry_valid = v\<rparr>]\<rparr>)" (is "cache_fresh ?t")
proof -
  have gr: "grew s ?t" by (rule grew_same) simp_all
  have "bytes_of.fresh (ovl s ! j) (gens e) (entry_valid e) ?t"
    if "j < length (ovl s)" "bytes_of.fresh (ovl s ! j) (gens e) (entry_valid e) s" for j e
  proof -
    have "entry_ok (ovl s ! j)" using that(1) assms(1) by (simp add: cache_fresh_def)
    then show ?thesis using that(2) gr by (blast intro: bytes_of.fresh_later becameI)
  qed
  note keep = this
  have "bytes_of.fresh (ovl s ! k) g v ?t" using keep[OF assms(2), of "\<lparr>gens = g, checked = True, entry_valid = v\<rparr>"] assms(3) by simp
  with keep show ?thesis using assms unfolding cache_fresh_def
    by (auto simp: nth_list_update)
qed

lemma valid_correct:
  assumes "cache_fresh s" "k < length (ovl s)"
  shows "\<exists>c. valid k s = (matches (ovl s ! k) s, s\<lparr>ovl_cache := c\<rparr>) \<and> cache_fresh (s\<lparr>ovl_cache := c\<rparr>)"
proof (cases "\<not> checked (ovl_cache s ! k) \<or> gens (ovl_cache s ! k) \<noteq> page_gens (ovl s ! k) s")
  case True
  let ?c = "(ovl_cache s)[k := \<lparr>gens = page_gens (ovl s ! k) s, checked = True, entry_valid = matches (ovl s ! k) s\<rparr>]"
  have "valid k s = (matches (ovl s ! k) s, s\<lparr>ovl_cache := ?c\<rparr>)" using True by (simp add: valid_def Let_def)
  then show ?thesis using fresh_update[OF assms bytes_of.fresh_now] by blast
next
  case False
  have "bytes_of.fresh (ovl s ! k) (gens (ovl_cache s ! k)) (entry_valid (ovl_cache s ! k)) s"
    using assms False by (auto simp: cache_fresh_def)
  then have "entry_valid (ovl_cache s ! k) = matches (ovl s ! k) s"
    using False by (intro bytes_of.fresh_hit) simp
  then have "valid k s = (matches (ovl s ! k) s, s\<lparr>ovl_cache := ovl_cache s\<rparr>)" using False by (simp add: valid_def Let_def)
  then show ?thesis using assms(1) by (intro exI[of _ "ovl_cache s"]) simp
qed

text \<open>Runs this way on the CPU's registers: right address, right widths, right bytes.\<close>

definition runs_at :: "u32 \<Rightarrow> cpu \<Rightarrow> 'a bus_state_scheme \<Rightarrow> overlay_func \<Rightarrow> bool" where
  "runs_at at c s f \<longleftrightarrow> of_addr f = at \<and> of_m f = fl_m c \<and> of_x f = fl_x c \<and> matches f s"

lemma lookup_from_correct:
  assumes "cache_fresh s" "n + k = length (ovl s)"
  shows "\<exists>c i. lookup_from n at k s =
      (find (\<lambda>f. of_m f = fl_m (cpu s) \<and> of_x f = fl_x (cpu s) \<and> matches f s)
         (takeWhile (\<lambda>f. of_addr f = at) (drop k (ovl s))), s\<lparr>ovl_cache := c, overlay_last_idx := i\<rparr>) \<and>
    cache_fresh (s\<lparr>ovl_cache := c, overlay_last_idx := i\<rparr>)"
  using assms
proof (induction n arbitrary: k s)
  case 0
  then show ?case by (intro exI[of _ "ovl_cache s"] exI[of _ "overlay_last_idx s"]) simp
next
  case (Suc n)
  let ?f = "ovl s ! k"
  have k: "k < length (ovl s)" using Suc.prems(2) by simp
  have d: "drop k (ovl s) = ?f # drop (Suc k) (ovl s)" using k by (simp add: Cons_nth_drop_Suc)
  have refl: "\<exists>c i. s = s\<lparr>ovl_cache := c, overlay_last_idx := i\<rparr> \<and> cache_fresh (s\<lparr>ovl_cache := c, overlay_last_idx := i\<rparr>)"
    using Suc.prems(1) by (intro exI[of _ "ovl_cache s"] exI[of _ "overlay_last_idx s"]) simp
  consider (other) "of_addr ?f \<noteq> at" | (width) "of_addr ?f = at" "\<not> (of_m ?f = fl_m (cpu s) \<and> of_x ?f = fl_x (cpu s))"
    | (here) "of_addr ?f = at" "of_m ?f = fl_m (cpu s)" "of_x ?f = fl_x (cpu s)" by blast
  then show ?case
  proof cases
    case other
    then show ?thesis using refl by (simp add: d Let_def)
  next
    case width
    then show ?thesis using Suc.IH[OF Suc.prems(1), of "k + 1"] Suc.prems(2) by (simp add: d Let_def) blast
  next
    case here
    obtain c where c: "valid k s = (matches ?f s, s\<lparr>ovl_cache := c\<rparr>)" "cache_fresh (s\<lparr>ovl_cache := c\<rparr>)"
      using valid_correct[OF Suc.prems(1) k] by blast
    show ?thesis
    proof (cases "matches ?f s")
      case True
      have "cache_fresh (s\<lparr>ovl_cache := c, overlay_last_idx := k\<rparr>)"
        by (rule fresh_moves[OF c(2)]) (simp_all add: grew_def)
      then show ?thesis using here True c(1) by (intro exI[of _ c] exI[of _ k]) (simp add: d Let_def)
    next
      case False
      then show ?thesis using Suc.IH[OF c(2), of "k + 1"] Suc.prems(2) here c(1) by (simp add: d Let_def)
    qed
  qed
qed

lemma overlay_lookup_finds:
  assumes "cache_fresh s" "sorted (map of_addr (ovl s))"
  shows "fst (overlay_lookup s) =
      (if fl_e (cpu s) = 0 \<and> rPB (cpu s) \<in> {0x7E, 0x7F}
       then find (runs_at (addr24 (rPB (cpu s)) (rPC (cpu s))) (cpu s) s) (ovl s) else None) \<and>
    cache_fresh (snd (overlay_lookup s)) \<and>
    (\<exists>c i. snd (overlay_lookup s) = s\<lparr>ovl_cache := c, overlay_last_idx := i\<rparr>)"
proof -
  let ?at = "addr24 (rPB (cpu s)) (rPC (cpu s))"
  let ?k = "first_at ?at s"
  have tab: "sorted_table of_addr (ovl s)" by (rule sorted_table.intro[OF assms(2)])
  have kl: "?k \<le> length (ovl s)"
    using sorted_table.first_from_bound[OF tab, of 0 "length (ovl s)" ?at]
    by (simp add: first_at_def sorted_table.below_def[OF tab] sorted_table.above_def[OF tab])
  show ?thesis
  proof (cases "fl_e (cpu s) \<noteq> 0 \<or> (rPB (cpu s) \<noteq> 0x7E \<and> rPB (cpu s) \<noteq> 0x7F) \<or> ovl s = []")
    case True
    then have n: "overlay_lookup s = (None, s)" by (auto simp: overlay_lookup_def Let_def)
    have "s\<lparr>ovl_cache := ovl_cache s, overlay_last_idx := overlay_last_idx s\<rparr> = s" by simp
    then have "\<exists>c i. snd (overlay_lookup s) = s\<lparr>ovl_cache := c, overlay_last_idx := i\<rparr>" unfolding n snd_conv by metis
    then show ?thesis using assms(1) True unfolding n fst_conv snd_conv by auto
  next
    case False
    obtain c i where l: "lookup_from (length (ovl s) - ?k) ?at ?k s =
        (find (\<lambda>f. of_m f = fl_m (cpu s) \<and> of_x f = fl_x (cpu s) \<and> matches f s)
           (takeWhile (\<lambda>f. of_addr f = ?at) (drop ?k (ovl s))), s\<lparr>ovl_cache := c, overlay_last_idx := i\<rparr>)"
      "cache_fresh (s\<lparr>ovl_cache := c, overlay_last_idx := i\<rparr>)"
      using lookup_from_correct[OF assms(1), of "length (ovl s) - ?k" ?k ?at] kl by auto
    have o: "overlay_lookup s = lookup_from (length (ovl s) - ?k) ?at ?k s"
      using False by (auto simp: overlay_lookup_def Let_def)
    have r: "runs_at ?at (cpu s) s = (\<lambda>f. of_addr f = ?at \<and> of_m f = fl_m (cpu s) \<and> of_x f = fl_x (cpu s) \<and> matches f s)"
      by (simp add: runs_at_def fun_eq_iff)
    have f: "takeWhile (\<lambda>f. of_addr f = ?at) (drop ?k (ovl s)) = filter (\<lambda>f. of_addr f = ?at) (ovl s)"
      by (simp add: first_at_def sorted_table.scan_finds[OF tab])
    have ff: "find P (filter (\<lambda>f. of_addr f = ?at) xs) = find (\<lambda>f. of_addr f = ?at \<and> P f) xs" for P xs
      by (induction xs) auto
    show ?thesis using False l(2) unfolding o l(1) f r ff fst_conv snd_conv by auto
  qed
qed

text \<open>What \<open>overlay_state\<close> says of the entries at an address with given widths: is there one, and is there one whose bytes
  do not hash to what it was compiled from.\<close>

definition overlay_at :: "u32 \<Rightarrow> u8 \<Rightarrow> u8 \<Rightarrow> overlay_func \<Rightarrow> bool" where
  "overlay_at addr m x f \<longleftrightarrow> of_addr f = addr \<and> of_m f = m \<and> of_x f = x"

lemma state_from_correct:
  assumes "cache_fresh s" "n + k = length (ovl s)"
  shows "\<exists>c. state_from n addr m x k r s =
      (let fs = filter (\<lambda>f. of_m f = m \<and> of_x f = x) (takeWhile (\<lambda>f. of_addr f = addr) (drop k (ovl s)))
       in (fst r \<or> fs \<noteq> [], snd r \<or> list_ex (\<lambda>f. \<not> matches f s) fs), s\<lparr>ovl_cache := c\<rparr>)"
  using assms
proof (induction n arbitrary: k r s)
  case 0
  then show ?case by (intro exI[of _ "ovl_cache s"]) simp
next
  case (Suc n)
  let ?f = "ovl s ! k"
  have k: "k < length (ovl s)" using Suc.prems(2) by simp
  have d: "drop k (ovl s) = ?f # drop (Suc k) (ovl s)" using k by (simp add: Cons_nth_drop_Suc)
  consider (other) "of_addr ?f \<noteq> addr" | (width) "of_addr ?f = addr" "\<not> (of_m ?f = m \<and> of_x ?f = x)"
    | (here) "of_addr ?f = addr" "of_m ?f = m" "of_x ?f = x" by blast
  then show ?case
  proof cases
    case other
    then show ?thesis by (intro exI[of _ "ovl_cache s"]) (simp add: d Let_def)
  next
    case width
    then show ?thesis using Suc.IH[OF Suc.prems(1), of "k + 1" r] Suc.prems(2) by (simp add: d Let_def) blast
  next
    case here
    obtain c where c: "valid k s = (matches ?f s, s\<lparr>ovl_cache := c\<rparr>)" "cache_fresh (s\<lparr>ovl_cache := c\<rparr>)"
      using valid_correct[OF Suc.prems(1) k] by blast
    show ?thesis using Suc.IH[OF c(2), of "k + 1" "(True, snd r \<or> \<not> matches ?f s)"] Suc.prems(2) here c(1)
      by (simp add: d Let_def disj_assoc)
  qed
qed

lemma overlay_state_finds:
  assumes "cache_fresh s" "sorted (map of_addr (ovl s))"
  shows "fst (overlay_state addr m x s) =
    (list_ex (overlay_at addr m x) (ovl s), list_ex (\<lambda>f. overlay_at addr m x f \<and> \<not> matches f s) (ovl s))"
proof -
  have tab: "sorted_table of_addr (ovl s)" by (rule sorted_table.intro[OF assms(2)])
  let ?k = "first_at addr s"
  have kl: "?k \<le> length (ovl s)"
    using sorted_table.first_from_bound[OF tab, of 0 "length (ovl s)" addr]
    by (simp add: first_at_def sorted_table.below_def[OF tab] sorted_table.above_def[OF tab])
  have f: "takeWhile (\<lambda>f. of_addr f = addr) (drop ?k (ovl s)) = filter (\<lambda>f. of_addr f = addr) (ovl s)"
    by (simp add: first_at_def sorted_table.scan_finds[OF tab])
  show ?thesis
    using state_from_correct[OF assms(1), of "length (ovl s) - ?k" ?k addr m x "(False, False)"] kl
    unfolding f by (auto simp: overlay_state_def Let_def list_ex_iff filter_empty_conv overlay_at_def)
qed

interpretation init_table: sorted_table of_addr "sort_key of_addr (filter (\<lambda>f. of_fn f \<noteq> None) funcs)"
  for funcs :: "overlay_func list"
  by (rule sorted_sort_table)

text \<open>The states of the lookup: built at the start, then WRAM stores (short of a page counter
  wrapping), changes of registers, lookups and checks of single entries.\<close>

inductive cache_reach :: "overlay_func list \<Rightarrow> 'a ovl_state_scheme \<Rightarrow> bool" for funcs where
  init: "cache_reach funcs (overlay_init enabled funcs s)"
| store: "cache_reach funcs s \<Longrightarrow> ct_wram_gen s (drop_bit 8 off) \<noteq> - 1 \<Longrightarrow> cache_reach funcs (wram_store off v s)"
| regs: "cache_reach funcs s \<Longrightarrow> cache_reach funcs (s\<lparr>cpu := c\<rparr>)"
| lookup: "cache_reach funcs s \<Longrightarrow> cache_reach funcs (snd (overlay_lookup s))"
| check: "cache_reach funcs s \<Longrightarrow> k < length (ovl s) \<Longrightarrow> cache_reach funcs (snd (valid k s))"

lemma wram_store_ovl [simp]:
  "ovl (wram_store off v s) = ovl s" "ovl_cache (wram_store off v s) = ovl_cache s" "cpu (wram_store off v t) = cpu t"
  by (simp_all add: wram_store_def wram_journal_def Let_def)

lemma cache_reach_inv:
  assumes "cache_reach funcs s" "\<forall>f\<in>set funcs. entry_ok f"
  shows "cache_fresh s \<and> sorted (map of_addr (ovl s))"
  using assms(1)
proof (induction rule: cache_reach.induct)
  case (init enabled s)
  have init: "length (filter (\<lambda>f. of_fn f \<noteq> None) funcs) \<le> Suc (length funcs)"
    by (rule le_SucI) (rule length_filter_le)
  then have "\<not> checked (ovl_cache (overlay_init enabled funcs s) ! k)" if "k < length (ovl (overlay_init enabled funcs s))" for k
    using that by (auto simp: overlay_init_def simp del: replicate_Suc split: if_splits)
  moreover have "length (ovl (overlay_init enabled funcs s)) \<le> length (ovl_cache (overlay_init enabled funcs s))"
    using init by (simp add: overlay_init_def) 
  ultimately show ?case using assms(2) by (auto simp: cache_fresh_def) (auto simp: overlay_init_def split: if_splits)
next
  case (store s off v)
  then show ?case using fresh_moves[OF _ grew_store[OF store.hyps(2)], of v] by simp
next
  case (regs s c)
  then show ?case using fresh_moves[of s "s\<lparr>cpu := c\<rparr>"] by (simp add: grew_same)
next
  case (lookup s)
  then show ?case using overlay_lookup_finds[of s] by auto
next
  case (check s k)
  then show ?case using valid_correct[of s k] by auto
qed

text \<open>C12. Overlay dispatch is a plain search: in every state of the lookup, binary search and cached
  checks give exactly the first entry at PB:PC, for the CPU's widths, whose bytes hash now to what
  they were compiled from, and none outside native mode or WRAM, however many WRAM stores came
  between the checks.\<close>

theorem overlay_lookup_searches:
  assumes "cache_reach funcs s" "\<forall>f\<in>set funcs. entry_ok f"
  shows "fst (overlay_lookup s) =
    (if fl_e (cpu s) = 0 \<and> rPB (cpu s) \<in> {0x7E, 0x7F}
     then find (runs_at (addr24 (rPB (cpu s)) (rPC (cpu s))) (cpu s) s) (ovl s) else None)"
  using overlay_lookup_finds[of s] cache_reach_inv[OF assms] by blast

text \<open>One entry, compiled from a single zero byte: dispatched, and not after the byte is written.\<close>

definition tiny_func :: overlay_func where
  "tiny_func = \<lparr>of_addr = 0x7E1200, of_m = 1, of_x = 0, of_lo = 0x7E1200, of_hi = 0x7E1200,
     of_hash = 0xCBF29CE484222325 * 0x100000001B3, of_fn = Some 0\<rparr>"

theorem overlay_lookup_searches_witness:
  "let s = overlay_init True [tiny_func] (ovl_zero\<lparr>cpu := cpu_init\<lparr>rPB := 0x7E, rPC := 0x1200\<rparr>\<rparr>) in
   fst (overlay_lookup s) = Some tiny_func \<and>
   fst (overlay_lookup (wram_store 0x1200 7 (snd (overlay_lookup s)))) = None"
proof -
  let ?s = "overlay_init True [tiny_func] (ovl_zero\<lparr>cpu := cpu_init\<lparr>rPB := 0x7E, rPC := 0x1200\<rparr>\<rparr>)"
  let ?u = "snd (overlay_lookup ?s)"
  have ok: "\<forall>f\<in>set [tiny_func]. entry_ok f" by (simp add: entry_ok_def tiny_func_def)
  have r: "cache_reach [tiny_func] ?s" by (rule cache_reach.init)
  have s: "ovl ?s = [tiny_func]" "cpu ?s = cpu_init\<lparr>rPB := 0x7E, rPC := 0x1200\<rparr>" "wram ?s = (\<lambda>_. 0)" "ct_wram_gen ?s = (\<lambda>_. 0)"
    by (simp_all add: overlay_init_def tiny_func_def ovl_zero_simps)
  have m: "matches tiny_func t \<longleftrightarrow> wram t 0x1200 = 0" if "wram t 0x1200 \<in> {0, 7}" for t :: ovl_state
    using that by (auto simp: matches_def tiny_func_def fnv_step_def upt_rec)
  have 1: "fst (overlay_lookup ?s) = Some tiny_func"
    using overlay_lookup_searches[OF r ok]
    by (simp add: s m runs_at_def) (simp add: tiny_func_def cpu_init_def addr24_def)
  have "\<exists>c i. ?u = ?s\<lparr>ovl_cache := c, overlay_last_idx := i\<rparr>"
    using overlay_lookup_finds[of ?s] cache_reach_inv[OF r ok] by blast
  then have u: "ovl ?u = ovl ?s" "cpu ?u = cpu ?s" "ct_wram_gen ?u = ct_wram_gen ?s" by auto
  let ?t = "wram_store 0x1200 7 ?u"
  have "cache_reach [tiny_func] ?t"
    by (rule cache_reach.store[OF cache_reach.lookup[OF r]]) (simp add: u s)
  moreover have "wram ?t 0x1200 = 7" by (simp add: wram_store_def Let_def)
  ultimately have "fst (overlay_lookup ?t) = None"
    using overlay_lookup_searches[OF _ ok, of ?t] by (simp add: u s runs_at_def m)
  with 1 show ?thesis by (simp add: Let_def)
qed

end
