(* ===== verification/Ct_SpcHost.thy ===== *)
theory Ct_SpcHost
  imports Ct_Prelude
begin

text \<open>
  The SPC700 host: \<open>runtime/spc700_host.cpp\<close>, which runs the vendored SPC700 core cycle by cycle against the
  vendored APU, and the part of \<open>runtime/snes_adapter.c\<close> that catches it up to the master clock and
  resets it. The core and the APU are parameters: the core is a state with the bus cycle it makes next, the
  APU what \<open>apu_tick\<close>, \<open>apu_cpuRead\<close> and \<open>apu_cpuWrite\<close> do. The core's own stack, on which it is
  suspended in the middle of an instruction, is its state.
\<close>

section \<open>State and parameters\<close>

text \<open>The three calls the core makes, one per SPC700 cycle.\<close>

datatype spc_cycle = Spc_idle | Spc_read u16 | Spc_write u16 u8

record ('c, 's) spc_parts =
  core_cycle :: "'c \<Rightarrow> spc_cycle"
  core_next :: "'c \<Rightarrow> u8 \<Rightarrow> 'c"
  core_power :: "u16 \<Rightarrow> 'c"
  apu_tick :: "'s \<Rightarrow> 's"
  apu_cpuRead :: "u16 \<Rightarrow> 's \<Rightarrow> u8 \<times> 's"
  apu_cpuWrite :: "u16 \<Rightarrow> u8 \<Rightarrow> 's \<Rightarrow> 's"
  spc_host_cycle_end :: "('s \<Rightarrow> 's) option"
  spc_host_write_hook :: "(u16 \<Rightarrow> u8 \<Rightarrow> 's \<Rightarrow> 's) option"

text \<open>\<open>cycle\<close> and \<open>target\<close> are \<open>uint64_t\<close> (half a million years of cycles).\<close>

record ('c, 's) spc_host =
  core :: 'c
  host_apu :: 's
  spc_cycle :: nat
  spc_target :: nat
  started :: bool

section \<open>Running\<close>

definition spc_tick :: "('c, 's) spc_parts \<Rightarrow> ('c, 's) spc_host \<Rightarrow> ('c, 's) spc_host" where
  "spc_tick P h = h\<lparr>host_apu := apu_tick P (host_apu h), spc_cycle := spc_cycle h + 1\<rparr>"

definition spc_end :: "('c, 's) spc_parts \<Rightarrow> ('c, 's) spc_host \<Rightarrow> ('c, 's) spc_host" where
  "spc_end P h = (case spc_host_cycle_end P of None \<Rightarrow> h | Some f \<Rightarrow> h\<lparr>host_apu := f (host_apu h)\<rparr>)"

text \<open>One \<open>idle\<close>, \<open>read\<close> or \<open>write\<close> from the point where \<open>begin\<close> lets it go, and the core up to its next one.\<close>

definition spc_step :: "('c, 's) spc_parts \<Rightarrow> ('c, 's) spc_host \<Rightarrow> ('c, 's) spc_host" where
  "spc_step P h = (let h1 = spc_tick P h in
     case core_cycle P (core h) of
       Spc_idle \<Rightarrow> (spc_end P h1)\<lparr>core := core_next P (core h) 0\<rparr>
     | Spc_read a \<Rightarrow> (let (v, s) = apu_cpuRead P a (host_apu h1) in (spc_end P (h1\<lparr>host_apu := s\<rparr>))\<lparr>core := core_next P (core h) v\<rparr>)
     | Spc_write a v \<Rightarrow>
         (let s = apu_cpuWrite P a v (host_apu h1);
              s' = (case spc_host_write_hook P of None \<Rightarrow> s | Some f \<Rightarrow> f a v s)
          in (spc_end P (h1\<lparr>host_apu := s'\<rparr>))\<lparr>core := core_next P (core h) 0\<rparr>))"

lemma spc_step_fields [simp]:
  "spc_cycle (spc_step P h) = Suc (spc_cycle h)" "spc_target (spc_step P h) = spc_target h" "started (spc_step P h) = started h"
  by (simp_all add: spc_step_def spc_tick_def spc_end_def Let_def case_prod_beta split: spc_cycle.split option.split)

text \<open>The core runs until \<open>begin\<close> yields.\<close>

function spc_resume :: "('c, 's) spc_parts \<Rightarrow> ('c, 's) spc_host \<Rightarrow> ('c, 's) spc_host" where
  "spc_resume P h = (if spc_cycle h \<ge> spc_target h then h else spc_resume P (spc_step P h))"
  by pat_completeness auto
termination by (relation "measure (\<lambda>(P, h). spc_target h - spc_cycle h)") auto

declare spc_resume.simps [simp del]

definition spc_host_run :: "('c, 's) spc_parts \<Rightarrow> u32 \<Rightarrow> ('c, 's) spc_host \<Rightarrow> ('c, 's) spc_host" where
  "spc_host_run P cycles h = (if \<not> started h then h else spc_resume P (h\<lparr>spc_target := spc_cycle h + unat cycles\<rparr>))"

text \<open>\<open>power\<close>, with PC from the reset vector, which two cycles read.\<close>

definition spc_host_reset :: "('c, 's) spc_parts \<Rightarrow> 's \<Rightarrow> ('c, 's) spc_host" where
  "spc_host_reset P s =
     (let (lo, s1) = apu_cpuRead P 0xFFFE s; (hi, s2) = apu_cpuRead P 0xFFFF s1
      in spc_tick P (spc_tick P \<lparr>core = core_power P (word16 lo hi), host_apu = s2, spc_cycle = 0, spc_target = 0, started = True\<rparr>))"

section \<open>Catching up\<close>

text \<open>
  \<open>snes_apu_catch_up\<close>. The half cycle the master clock stands for,
  \<open>(int64_t)((double)master * SPC_HALF_PER_MASTER) - 1\<close>, is a floating-point product and a parameter.
\<close>

definition snes_apu_catch_up :: "('c, 's) spc_parts \<Rightarrow> (nat \<Rightarrow> int) \<Rightarrow> nat \<Rightarrow> ('c, 's) spc_host \<Rightarrow> ('c, 's) spc_host" where
  "snes_apu_catch_up P half_at master h =
     (let target = half_at master; half = 2 * int (spc_cycle h)
      in if half < target then spc_host_run P (word_of_int ((target - half + 1) div 2)) h else h)"

definition snes_apu_run :: "('c, 's) spc_parts \<Rightarrow> u32 \<Rightarrow> ('c, 's) spc_host \<Rightarrow> ('c, 's) spc_host" where
  "snes_apu_run P spc_cycles h = spc_host_run P spc_cycles h"

section \<open>The APU at the reset button\<close>

record timer =
  t_cycles :: u8
  t_divider :: u8
  t_target :: u8
  t_counter :: u8
  t_enabled :: bool

record 'd apu =
  apu_ram :: "nat \<Rightarrow> u8"
  apu_dsp :: 'd
  apu_dspAdr :: u8
  apu_timer :: "nat \<Rightarrow> timer"
  apu_cycles :: u32

text \<open>The part of \<open>snes_hw_soft_reset\<close> for the APU; \<open>apu_reset\<close> is the vendored one.\<close>

definition apu_kept :: "(('d, 'x) apu_scheme \<Rightarrow> ('d, 'x) apu_scheme) \<Rightarrow> ('d, 'x) apu_scheme \<Rightarrow> ('d, 'x) apu_scheme" where
  "apu_kept apu_reset a =
     (let b = (apu_reset a)\<lparr>apu_ram := apu_ram a, apu_dsp := apu_dsp a, apu_dspAdr := apu_dspAdr a, apu_timer := apu_timer a,
        apu_cycles := apu_cycles a\<rparr>
      in b\<lparr>apu_timer := (\<lambda>t. if t < 3 then (apu_timer b t)\<lparr>t_counter := 0\<rparr> else apu_timer b t)\<rparr>)"

definition apu_soft_reset ::
  "('c, ('d, 'x) apu_scheme) spc_parts \<Rightarrow> (('d, 'x) apu_scheme \<Rightarrow> ('d, 'x) apu_scheme) \<Rightarrow>
   ('c, ('d, 'x) apu_scheme) spc_host \<Rightarrow> ('c, ('d, 'x) apu_scheme) spc_host" where
  "apu_soft_reset P apu_reset h = spc_host_reset P (apu_kept apu_reset (host_apu h))"

section \<open>However often it is called\<close>

text \<open>Running to a cycle: the core, wherever it is suspended, goes through every cycle once.\<close>

lemma spc_resume_steps:
  "spc_target h = spc_cycle h + n \<Longrightarrow> spc_resume P h = (spc_step P ^^ n) h"
proof (induction n arbitrary: h)
  case (Suc n)
  have "spc_resume P h = spc_resume P (spc_step P h)" using Suc.prems by (subst spc_resume.simps) simp
  then show ?case using Suc.IH[of "spc_step P h"] Suc.prems by (simp add: funpow_Suc_right del: funpow.simps(2))
qed (subst spc_resume.simps, simp)

lemma spc_step_target: "spc_step P (h\<lparr>spc_target := n\<rparr>) = (spc_step P h)\<lparr>spc_target := n\<rparr>"
  by (simp add: spc_step_def spc_tick_def spc_end_def Let_def case_prod_beta split: spc_cycle.split option.split)

lemma spc_steps_target: "(spc_step P ^^ n) (h\<lparr>spc_target := m\<rparr>) = ((spc_step P ^^ n) h)\<lparr>spc_target := m\<rparr>"
  by (induction n) (simp_all add: spc_step_target)

lemma spc_steps_fields [simp]:
  "spc_cycle ((spc_step P ^^ n) h) = spc_cycle h + n" "started ((spc_step P ^^ n) h) = started h"
  by (induction n) simp_all

lemma spc_host_run_steps:
  "started h \<Longrightarrow> spc_host_run P c h = ((spc_step P ^^ unat c) h)\<lparr>spc_target := spc_cycle h + unat c\<rparr>"
  by (simp add: spc_host_run_def spc_resume_steps spc_steps_target)

definition caught_up :: "(nat \<Rightarrow> int) \<Rightarrow> nat \<Rightarrow> ('c, 's) spc_host \<Rightarrow> nat" where
  "caught_up half_at master h = nat ((half_at master - 2 * int (spc_cycle h) + 1) div 2)"

lemma catch_up_steps:
  assumes "started h" "half_at master < 2 * int (spc_cycle h) + 2 ^ 32"
  shows "(snes_apu_catch_up P half_at master h)\<lparr>spc_target := 0\<rparr> = ((spc_step P ^^ caught_up half_at master h) h)\<lparr>spc_target := 0\<rparr>"
proof (cases "2 * int (spc_cycle h) < half_at master")
  case True
  define n where "n = (half_at master - 2 * int (spc_cycle h) + 1) div 2"
  have "0 \<le> n" "n < 2 ^ 32" using True assms(2) by (simp_all add: n_def)
  then have "unat (word_of_int n :: u32) = nat n" by (simp add: unat_eq_nat_uint uint_word_of_int)
  then show ?thesis using True assms(1)
    by (simp add: snes_apu_catch_up_def spc_host_run_steps caught_up_def n_def[symmetric])
next
  case False
  then have "caught_up half_at master h = 0" by (simp add: caught_up_def)
  then show ?thesis using False by (simp add: snes_apu_catch_up_def)
qed

lemma catch_up_from:
  assumes "h\<lparr>spc_target := 0\<rparr> = ((spc_step P ^^ n) h0)\<lparr>spc_target := 0\<rparr>" "started h0" "mono half_at" "m \<le> M"
    and "half_at M < 2 * int (spc_cycle h0) + 2 ^ 32"
  shows "(snes_apu_catch_up P half_at m h)\<lparr>spc_target := 0\<rparr> = ((spc_step P ^^ max n (caught_up half_at m h0)) h0)\<lparr>spc_target := 0\<rparr>"
proof -
  have f: "spc_cycle h = spc_cycle h0 + n" "started h"
    using arg_cong[OF assms(1), of spc_cycle] arg_cong[OF assms(1), of started] assms(2) by simp_all
  let ?k = "caught_up half_at m h"
  have "half_at m \<le> half_at M" using assms(3,4) by (rule monoD)
  then have "(snes_apu_catch_up P half_at m h)\<lparr>spc_target := 0\<rparr> = ((spc_step P ^^ ?k) h)\<lparr>spc_target := 0\<rparr>"
    using assms(5) f by (intro catch_up_steps) simp_all
  also have "\<dots> = (spc_step P ^^ ?k) (h\<lparr>spc_target := 0\<rparr>)" by (simp add: spc_steps_target)
  also have "\<dots> = ((spc_step P ^^ (?k + n)) h0)\<lparr>spc_target := 0\<rparr>" unfolding assms(1) by (simp add: spc_steps_target funpow_add)
  also have "?k + n = max n (caught_up half_at m h0)" 
  proof -
    have "(half_at m - 2 * int (spc_cycle h0 + n) + 1) div 2 = (half_at m - 2 * int (spc_cycle h0) + 1) div 2 - int n"
      using div_mult_self1[of 2 "half_at m - 2 * int (spc_cycle h0) + 1" "- int n"] by (simp add: algebra_simps)
    then show ?thesis unfolding caught_up_def f by (simp add: max_def) arith
  qed
  finally show ?thesis .
qed

lemma caught_up_mono: "mono half_at \<Longrightarrow> m \<le> M \<Longrightarrow> caught_up half_at m h \<le> caught_up half_at M h"
  unfolding caught_up_def by (intro nat_mono zdiv_mono1) (simp_all add: monoD)

lemma catch_ups_from:
  assumes "started h0" "mono half_at" "half_at M < 2 * int (spc_cycle h0) + 2 ^ 32"
  shows "h\<lparr>spc_target := 0\<rparr> = ((spc_step P ^^ n) h0)\<lparr>spc_target := 0\<rparr> \<Longrightarrow> n \<le> caught_up half_at M h0 \<Longrightarrow> \<forall>m\<in>set ms. m \<le> M \<Longrightarrow>
    (foldl (\<lambda>h m. snes_apu_catch_up P half_at m h) h (ms @ [M]))\<lparr>spc_target := 0\<rparr> =
    ((spc_step P ^^ caught_up half_at M h0) h0)\<lparr>spc_target := 0\<rparr>"
proof (induction ms arbitrary: h n)
  case Nil
  then show ?case using catch_up_from[OF Nil(1) assms(1,2) order_refl assms(3)] by (simp add: max_absorb2)
next
  case (Cons m ms)
  have m: "m \<le> M" "\<forall>m\<in>set ms. m \<le> M" using Cons.prems(3) by simp_all
  have "max n (caught_up half_at m h0) \<le> caught_up half_at M h0" using caught_up_mono[OF assms(2) m(1)] Cons.prems(2) by simp
  from Cons.IH[OF catch_up_from[OF Cons.prems(1) assms(1,2) m(1) assms(3)] this m(2)] show ?case by simp
qed

text \<open>C25. When the SPC700 is caught up does not matter: through any catch-ups at earlier clocks on the way, suspended in the
  middle of instructions or not, it ends a catch-up in the state that one catch-up from the start gives, at the
  half cycle of the clock, rounded up to a cycle and never beyond.\<close>

theorem catch_up_any_times:
  fixes P :: "('c, 's) spc_parts"
  assumes "mono half_at" "started h" "\<forall>m\<in>set ms. m \<le> M" "half_at M < 2 * int (spc_cycle h) + 2 ^ 32"
  defines "t \<equiv> foldl (\<lambda>h m. snes_apu_catch_up P half_at m h) h (ms @ [M])"
  shows "t\<lparr>spc_target := 0\<rparr> = (snes_apu_catch_up P half_at M h)\<lparr>spc_target := 0\<rparr> \<and>
    half_at M \<le> 2 * int (spc_cycle t) \<and> (spc_cycle t = spc_cycle h \<or> 2 * int (spc_cycle t) \<le> half_at M + 1)"
proof -
  have r: "t\<lparr>spc_target := 0\<rparr> = ((spc_step P ^^ caught_up half_at M h) h)\<lparr>spc_target := 0\<rparr>"
    unfolding t_def by (rule catch_ups_from[where n = 0, OF assms(2,1,4)]) (simp_all add: assms(3))
  have "spc_cycle t = spc_cycle h + caught_up half_at M h" using arg_cong[OF r, of spc_cycle] by simp
  then have "half_at M \<le> 2 * int (spc_cycle t) \<and> (spc_cycle t = spc_cycle h \<or> 2 * int (spc_cycle t) \<le> half_at M + 1)"
    unfolding caught_up_def by linarith
  then show ?thesis using r catch_up_steps[where P = P and half_at = half_at and master = M, OF assms(2,4)] by simp
qed

text \<open>A core that only reads, on an APU that counts.\<close>

definition counting_parts :: "(nat, nat) spc_parts" where
  "counting_parts = \<lparr>core_cycle = (\<lambda>c. if even c then Spc_read 0xF4 else Spc_write 0xF5 7), core_next = (\<lambda>c v. c + unat v + 1), core_power = (\<lambda>_. 0),
     apu_tick = Suc, apu_cpuRead = (\<lambda>_ s. (of_nat s, s)), apu_cpuWrite = (\<lambda>_ _ s. s), spc_host_cycle_end = Some id, spc_host_write_hook = None\<rparr>"

theorem catch_up_any_times_witness:
  "let h = spc_host_reset counting_parts 0; f = (\<lambda>m. int m div 10 - 1)
   in (foldl (\<lambda>h m. snes_apu_catch_up counting_parts f m h) h ([700, 333] @ [1000]))\<lparr>spc_target := 0\<rparr> =
      (snes_apu_catch_up counting_parts f 1000 h)\<lparr>spc_target := 0\<rparr> \<and>
      99 \<le> 2 * int (spc_cycle (foldl (\<lambda>h m. snes_apu_catch_up counting_parts f m h) h ([700, 333] @ [1000])))"
proof -
  let ?h = "spc_host_reset counting_parts 0" and ?f = "\<lambda>m. int m div 10 - 1"
  have "mono ?f" by (intro monoI diff_right_mono zdiv_mono1) simp_all
  moreover have "started ?h" by (simp add: spc_host_reset_def spc_tick_def counting_parts_def)
  ultimately show ?thesis using catch_up_any_times[of ?f ?h "[700, 333]" 1000 counting_parts] by (simp add: Let_def)
qed

end
