(* ===== verification/Ct_Dma.thy ===== *)
theory Ct_Dma
  imports Ct_Overlay
begin

text \<open>
  DMA: the channels and the transfers of \<open>third_party/snes/dma.c\<close>, and what
  \<open>runtime/snes_adapter.c\<close> builds on them: the register hooks \<open>$4300-$437F\<close>, \<open>$420B\<close> and
  \<open>$420C\<close>, and the HDMA costs the scheduler charges. A transfer reads and writes the bus, so
  it is an action on the whole state, with the hook table \<open>h\<close> as an argument. The C
  \<open>while (dmaBusy)\<close> has fuel; \<open>dma_runs\<close> shows how much is enough.
\<close>

section \<open>State\<close>

record dma_chan =
  ch_bAdr :: u8
  ch_aBank :: u8
  ch_indBank :: u8
  ch_repCount :: u8
  ch_aAdr :: u16
  ch_size :: u16
  ch_tableAdr :: u16
  ch_unusedByte :: u8
  ch_dmaActive :: bool
  ch_hdmaActive :: bool
  ch_mode :: u8
  ch_fixed :: bool
  ch_decrement :: bool
  ch_indirect :: bool
  ch_fromB :: bool
  ch_unusedBit :: bool
  ch_doTransfer :: bool
  ch_terminated :: bool
  ch_offIndex :: u8

record dma_regs =
  channel :: "nat \<Rightarrow> dma_chan"
  hdmaTimer :: u16
  dmaTimer :: u32
  dmaBusy :: bool
  openBus :: u8

text \<open>\<open>openBus\<close> is \<open>snes->openBus\<close> of the stub, which nothing changes.\<close>

record dev_state = ovl_state +
  dma :: dma_regs

section \<open>Registers\<close>

definition chan_reset :: dma_chan where
  "chan_reset = \<lparr>ch_bAdr = 0xFF, ch_aBank = 0xFF, ch_indBank = 0xFF, ch_repCount = 0xFF, ch_aAdr = 0xFFFF,
     ch_size = 0xFFFF, ch_tableAdr = 0xFFFF, ch_unusedByte = 0xFF, ch_dmaActive = False, ch_hdmaActive = False,
     ch_mode = 7, ch_fixed = True, ch_decrement = True, ch_indirect = True, ch_fromB = True, ch_unusedBit = True,
     ch_doTransfer = False, ch_terminated = False, ch_offIndex = 0\<rparr>"

definition dma_reset :: "dma_regs \<Rightarrow> dma_regs" where
  "dma_reset d = d\<lparr>channel := (\<lambda>_. chan_reset), hdmaTimer := 0, dmaTimer := 0, dmaBusy := False\<rparr>"

definition dma_chan_of :: "u16 \<Rightarrow> nat" where "dma_chan_of adr = unat (drop_bit 4 (adr AND 0x70))"

definition flag_bit :: "bool \<Rightarrow> nat \<Rightarrow> u8" where "flag_bit b n = push_bit n (of_bool b)"

definition chan_read :: "u16 \<Rightarrow> dma_chan \<Rightarrow> u8 \<Rightarrow> u8" where
  "chan_read r c ob =
     (if r = 0 then ch_mode c OR flag_bit (ch_fixed c) 3 OR flag_bit (ch_decrement c) 4 OR flag_bit (ch_unusedBit c) 5
                 OR flag_bit (ch_indirect c) 6 OR flag_bit (ch_fromB c) 7
      else if r = 1 then ch_bAdr c
      else if r = 2 then to8 (ch_aAdr c)
      else if r = 3 then to8 (drop_bit 8 (ch_aAdr c))
      else if r = 4 then ch_aBank c
      else if r = 5 then to8 (ch_size c)
      else if r = 6 then to8 (drop_bit 8 (ch_size c))
      else if r = 7 then ch_indBank c
      else if r = 8 then to8 (ch_tableAdr c)
      else if r = 9 then to8 (drop_bit 8 (ch_tableAdr c))
      else if r = 0xA then ch_repCount c
      else if r = 0xB \<or> r = 0xF then ch_unusedByte c
      else ob)"

definition dma_read :: "dma_regs \<Rightarrow> u16 \<Rightarrow> u8" where
  "dma_read d adr = chan_read (adr AND 0xF) (channel d (dma_chan_of adr)) (openBus d)"

definition low_byte :: "u8 \<Rightarrow> u16 \<Rightarrow> u16" where "low_byte v w = (w AND 0xFF00) OR to16 v"
definition high_byte :: "u8 \<Rightarrow> u16 \<Rightarrow> u16" where "high_byte v w = (w AND 0xFF) OR push_bit 8 (to16 v)"

definition chan_write :: "u16 \<Rightarrow> u8 \<Rightarrow> dma_chan \<Rightarrow> dma_chan" where
  "chan_write r v c =
     (if r = 0 then c\<lparr>ch_mode := v AND 7, ch_fixed := v AND 8 \<noteq> 0, ch_decrement := v AND 0x10 \<noteq> 0,
                      ch_unusedBit := v AND 0x20 \<noteq> 0, ch_indirect := v AND 0x40 \<noteq> 0, ch_fromB := v AND 0x80 \<noteq> 0\<rparr>
      else if r = 1 then c\<lparr>ch_bAdr := v\<rparr>
      else if r = 2 then c\<lparr>ch_aAdr := low_byte v (ch_aAdr c)\<rparr>
      else if r = 3 then c\<lparr>ch_aAdr := high_byte v (ch_aAdr c)\<rparr>
      else if r = 4 then c\<lparr>ch_aBank := v\<rparr>
      else if r = 5 then c\<lparr>ch_size := low_byte v (ch_size c)\<rparr>
      else if r = 6 then c\<lparr>ch_size := high_byte v (ch_size c)\<rparr>
      else if r = 7 then c\<lparr>ch_indBank := v\<rparr>
      else if r = 8 then c\<lparr>ch_tableAdr := low_byte v (ch_tableAdr c)\<rparr>
      else if r = 9 then c\<lparr>ch_tableAdr := high_byte v (ch_tableAdr c)\<rparr>
      else if r = 0xA then c\<lparr>ch_repCount := v\<rparr>
      else if r = 0xB \<or> r = 0xF then c\<lparr>ch_unusedByte := v\<rparr>
      else c)"

definition upd_chan :: "nat \<Rightarrow> (dma_chan \<Rightarrow> dma_chan) \<Rightarrow> dma_regs \<Rightarrow> dma_regs" where
  "upd_chan i f d = d\<lparr>channel := (channel d)(i := f (channel d i))\<rparr>"

definition dma_write :: "u16 \<Rightarrow> u8 \<Rightarrow> dma_regs \<Rightarrow> dma_regs" where
  "dma_write adr v = upd_chan (dma_chan_of adr) (chan_write (adr AND 0xF) v)"

section \<open>Transfers\<close>

definition bAdrOffsets :: "u8 list list" where
  "bAdrOffsets = [[0, 0, 0, 0], [0, 1, 0, 1], [0, 0, 0, 0], [0, 0, 1, 1], [0, 1, 2, 3], [0, 1, 0, 1], [0, 0, 0, 0], [0, 0, 1, 1]]"

definition transferLength :: "nat list" where "transferLength = [1, 2, 2, 4, 4, 4, 2, 4]"

definition b_offset :: "u8 \<Rightarrow> u8 \<Rightarrow> u8" where "b_offset mode k = bAdrOffsets ! unat mode ! unat k"

definition snes_readBBus :: "('a bus_state_scheme) hooks \<Rightarrow> u8 \<Rightarrow> ('a bus_state_scheme, u8) act" where
  "snes_readBBus h adr = read8 h (0x2100 + to32 adr)"

definition snes_writeBBus :: "('a bus_state_scheme) hooks \<Rightarrow> u8 \<Rightarrow> u8 \<Rightarrow> ('a bus_state_scheme, unit) act" where
  "snes_writeBBus h adr v = write8 h (0x2100 + to32 adr) v"

definition dma_transferByte ::
  "('a bus_state_scheme) hooks \<Rightarrow> u16 \<Rightarrow> u8 \<Rightarrow> u8 \<Rightarrow> bool \<Rightarrow> ('a bus_state_scheme, unit) act" where
  "dma_transferByte h aAdr aBank bAdr fromB =
     (if fromB then bnd (snes_readBBus h bAdr) (\<lambda>v. write8 h (addr24 aBank aAdr) v)
      else bnd (read8 h (addr24 aBank aAdr)) (\<lambda>v. snes_writeBBus h bAdr v))"

definition dma_do :: "(dma_regs \<Rightarrow> dma_regs) \<Rightarrow> ('a dev_state_scheme, unit) act" where
  "dma_do f = modify (\<lambda>s. s\<lparr>dma := f (dma s)\<rparr>)"

definition chan_get :: "nat \<Rightarrow> ('a dev_state_scheme, dma_chan) act" where
  "chan_get i = gets (\<lambda>s. channel (dma s) i)"

definition chan_do :: "nat \<Rightarrow> (dma_chan \<Rightarrow> dma_chan) \<Rightarrow> ('a dev_state_scheme, unit) act" where
  "chan_do i f = dma_do (upd_chan i f)"

text \<open>The first active channel, 8 if there is none.\<close>

definition first_active :: "dma_regs \<Rightarrow> nat" where
  "first_active d = (case filter (\<lambda>i. ch_dmaActive (channel d i)) [0..<8] of [] \<Rightarrow> 8 | i # _ \<Rightarrow> i)"

text \<open>The channel's registers after a byte.\<close>

definition chan_step :: "dma_chan \<Rightarrow> dma_chan" where
  "chan_step c =
     (let c1 = c\<lparr>ch_offIndex := ch_offIndex c AND 3,
                 ch_aAdr := (if ch_fixed c then ch_aAdr c else if ch_decrement c then ch_aAdr c - 1 else ch_aAdr c + 1),
                 ch_size := ch_size c - 1\<rparr>
      in if ch_size c1 = 0 then c1\<lparr>ch_offIndex := 0, ch_dmaActive := False\<rparr> else c1)"

definition dma_doDma :: "('a dev_state_scheme) hooks \<Rightarrow> ('a dev_state_scheme, unit) act" where
  "dma_doDma h = bnd (gets dma) (\<lambda>d. let i = first_active d in
     if i = 8 then dma_do (dmaBusy_update (\<lambda>_. False))
     else let c = channel d i in
       thn (chan_do i (\<lambda>c. c\<lparr>ch_offIndex := ch_offIndex c + 1\<rparr>))
      (thn (dma_transferByte h (ch_aAdr c) (ch_aBank c) (ch_bAdr c + b_offset (ch_mode c) (ch_offIndex c)) (ch_fromB c))
           (dma_do (\<lambda>d. let d1 = upd_chan i chan_step d in
              d1\<lparr>dmaTimer := dmaTimer d1 + 6 + (if ch_size (channel d1 i) = 0 then 8 else 0)\<rparr>))))"

definition dma_startDma :: "u8 \<Rightarrow> bool \<Rightarrow> dma_regs \<Rightarrow> dma_regs" where
  "dma_startDma v hdma d =
     (let d1 = d\<lparr>channel := (\<lambda>i. if i < 8 then
                   (if hdma then (channel d i)\<lparr>ch_hdmaActive := bit v i\<rparr>
                    else (channel d i)\<lparr>ch_dmaActive := bit v i\<rparr>) else channel d i)\<rparr>
      in if hdma then d1
         else d1\<lparr>dmaBusy := v \<noteq> 0, dmaTimer := dmaTimer d1 + (if v \<noteq> 0 then 16 else 0)\<rparr>)"

text \<open>\<open>while (dmaBusy) dma_doDma\<close>.\<close>

fun dma_loop :: "nat \<Rightarrow> ('a dev_state_scheme) hooks \<Rightarrow> ('a dev_state_scheme, unit) act" where
  "dma_loop 0 h = die Out_of_fuel"
| "dma_loop (Suc fuel) h = bnd (gets (\<lambda>s. dmaBusy (dma s))) (\<lambda>b.
     if b then thn (dma_doDma h) (dma_loop fuel h) else ret ())"

section \<open>HDMA\<close>

text \<open>The byte at the channel's table address, which goes on.\<close>

definition next_table :: "('a dev_state_scheme) hooks \<Rightarrow> nat \<Rightarrow> ('a dev_state_scheme, u8) act" where
  "next_table h i = bnd (chan_get i) (\<lambda>c.
     thn (chan_do i (\<lambda>c. c\<lparr>ch_tableAdr := ch_tableAdr c + 1\<rparr>)) (read8 h (addr24 (ch_aBank c) (ch_tableAdr c))))"

definition load_indirect :: "('a dev_state_scheme) hooks \<Rightarrow> nat \<Rightarrow> ('a dev_state_scheme, unit) act" where
  "load_indirect h i = bnd (next_table h i) (\<lambda>lo. thn (chan_do i (\<lambda>c. c\<lparr>ch_size := to16 lo\<rparr>))
     (bnd (next_table h i) (\<lambda>hi. thn (chan_do i (\<lambda>c. c\<lparr>ch_size := ch_size c OR push_bit 8 (to16 hi)\<rparr>))
     (dma_do (\<lambda>d. d\<lparr>hdmaTimer := hdmaTimer d + 16\<rparr>)))))"

definition init_chan :: "('a dev_state_scheme) hooks \<Rightarrow> nat \<Rightarrow> ('a dev_state_scheme, bool) act" where
  "init_chan h i = bnd (chan_get i) (\<lambda>c. bnd
     (if ch_hdmaActive c then
        thn (chan_do i (\<lambda>c. c\<lparr>ch_dmaActive := False, ch_offIndex := 0, ch_tableAdr := ch_aAdr c\<rparr>))
       (bnd (next_table h i) (\<lambda>v. thn (chan_do i (\<lambda>c. c\<lparr>ch_repCount := v\<rparr>))
       (thn (dma_do (\<lambda>d. d\<lparr>hdmaTimer := hdmaTimer d + 8\<rparr>))
       (bnd (chan_get i) (\<lambda>c. thn (whenM (ch_indirect c) (load_indirect h i))
       (thn (chan_do i (\<lambda>c. c\<lparr>ch_doTransfer := True\<rparr>)) (ret True)))))))
      else thn (chan_do i (\<lambda>c. c\<lparr>ch_doTransfer := False\<rparr>)) (ret False))
     (\<lambda>b. thn (chan_do i (\<lambda>c. c\<lparr>ch_terminated := False\<rparr>)) (ret b)))"

text \<open>A loop over channels that collects whether any was served.\<close>

fun any_chan :: "(nat \<Rightarrow> ('s, bool) act) \<Rightarrow> nat list \<Rightarrow> ('s, bool) act" where
  "any_chan f [] = ret False"
| "any_chan f (i # is) = bnd (f i) (\<lambda>a. bnd (any_chan f is) (\<lambda>b. ret (a \<or> b)))"

definition hdma_round :: "(nat \<Rightarrow> ('a dev_state_scheme, bool) act) \<Rightarrow> ('a dev_state_scheme, unit) act" where
  "hdma_round f = thn (dma_do (hdmaTimer_update (\<lambda>_. 0))) (bnd (any_chan f [0..<8]) (\<lambda>b.
     whenM b (dma_do (\<lambda>d. d\<lparr>hdmaTimer := hdmaTimer d + 16\<rparr>))))"

definition dma_initHdma :: "('a dev_state_scheme) hooks \<Rightarrow> ('a dev_state_scheme, unit) act" where
  "dma_initHdma h = hdma_round (init_chan h)"

definition hdma_byte :: "('a dev_state_scheme) hooks \<Rightarrow> nat \<Rightarrow> nat \<Rightarrow> ('a dev_state_scheme, unit) act" where
  "hdma_byte h i j = thn (dma_do (\<lambda>d. d\<lparr>hdmaTimer := hdmaTimer d + 8\<rparr>)) (bnd (chan_get i) (\<lambda>c.
     let b = ch_bAdr c + b_offset (ch_mode c) (word_of_nat j) in
     if ch_indirect c then
       thn (chan_do i (\<lambda>c. c\<lparr>ch_size := ch_size c + 1\<rparr>)) (dma_transferByte h (ch_size c) (ch_indBank c) b (ch_fromB c))
     else
       thn (chan_do i (\<lambda>c. c\<lparr>ch_tableAdr := ch_tableAdr c + 1\<rparr>)) (dma_transferByte h (ch_tableAdr c) (ch_aBank c) b (ch_fromB c))))"

text \<open>The loop over the channel's transfer unit, of at most 4 bytes.\<close>

fun hdma_bytes :: "('a dev_state_scheme) hooks \<Rightarrow> nat \<Rightarrow> nat \<Rightarrow> nat \<Rightarrow> ('a dev_state_scheme, unit) act" where
  "hdma_bytes h i 0 j = ret ()"
| "hdma_bytes h i (Suc left) j = bnd (chan_get i) (\<lambda>c.
     if j < transferLength ! unat (ch_mode c) then thn (hdma_byte h i j) (hdma_bytes h i left (j + 1)) else ret ())"

definition hdma_chan :: "('a dev_state_scheme) hooks \<Rightarrow> nat \<Rightarrow> ('a dev_state_scheme, bool) act" where
  "hdma_chan h i = bnd (chan_get i) (\<lambda>c.
     if \<not> (ch_hdmaActive c \<and> \<not> ch_terminated c) then ret False
     else thn (chan_do i (\<lambda>c. c\<lparr>ch_dmaActive := False, ch_offIndex := 0\<rparr>))
      (thn (dma_do (\<lambda>d. d\<lparr>hdmaTimer := hdmaTimer d + 8\<rparr>))
      (thn (whenM (ch_doTransfer c) (hdma_bytes h i 4 0))
      (thn (chan_do i (\<lambda>c. c\<lparr>ch_repCount := ch_repCount c - 1\<rparr>))
      (thn (chan_do i (\<lambda>c. c\<lparr>ch_doTransfer := ch_repCount c AND 0x80 \<noteq> 0\<rparr>))
      (bnd (chan_get i) (\<lambda>c.
        thn (whenM (ch_repCount c AND 0x7F = 0)
          (bnd (next_table h i) (\<lambda>v. thn (chan_do i (\<lambda>c. c\<lparr>ch_repCount := v\<rparr>))
            (bnd (chan_get i) (\<lambda>c. thn (whenM (ch_indirect c) (load_indirect h i))
            (chan_do i (\<lambda>c. (if ch_repCount c = 0 then c\<lparr>ch_terminated := True\<rparr> else c)\<lparr>ch_doTransfer := True\<rparr>)))))))
          (ret True))))))))"

definition dma_doHdma :: "('a dev_state_scheme) hooks \<Rightarrow> ('a dev_state_scheme, unit) act" where
  "dma_doHdma h = hdma_round (hdma_chan h)"

section \<open>The register hooks of the adapter\<close>

text \<open>\<open>$43xC-$43xE\<close> are unused; the rest are the channel registers.\<close>

definition unused_reg :: "u16 \<Rightarrow> bool" where
  "unused_reg reg \<longleftrightarrow> reg AND 0xF \<ge> 0xC \<and> reg AND 0xF \<le> 0xE"

definition dma_reg_read :: "('a dev_state_scheme) hw_read_fn" where
  "dma_reg_read reg = (if unused_reg reg then bus_open_bus reg else gets (\<lambda>s. dma_read (dma s) (reg - 0x4300)))"

definition dma_reg_write :: "('a dev_state_scheme) hw_write_fn" where
  "dma_reg_write reg v = (if unused_reg reg then bus_unused_write reg v else dma_do (dma_write (reg - 0x4300) v))"

text \<open>The sizes of the channels a \<open>$420B\<close> write starts.\<close>

definition start_size :: "dma_regs \<Rightarrow> u8 \<Rightarrow> nat \<Rightarrow> nat" where
  "start_size d v c =
     (if bit v c then
        let size = to32 (dma_read d (word_of_nat (c * 16 + 5))) OR push_bit 8 (to32 (dma_read d (word_of_nat (c * 16 + 6))))
        in if size \<noteq> 0 then unat size else 0x10000
      else 0)"

text \<open>\<open>snes_dma_start\<close> is the scheduler's, an argument here, as is the fuel of the transfer loop.\<close>

definition mdmaen_write ::
  "nat \<Rightarrow> (nat list \<Rightarrow> ('a dev_state_scheme, unit) act) option \<Rightarrow> ('a dev_state_scheme) hooks \<Rightarrow> ('a dev_state_scheme) hw_write_fn" where
  "mdmaen_write fuel dma_start h reg v = bnd (gets dma) (\<lambda>d.
     thn (case dma_start of Some f \<Rightarrow> whenM (v \<noteq> 0) (f (map (start_size d v) [0..<8])) | None \<Rightarrow> ret ())
    (bnd (gets (\<lambda>s. (ct_bus_clocks s, ct_bus_n s))) (\<lambda>(clocks, n).
     thn (dma_do (dma_startDma v False)) (thn (dma_loop fuel h)
       (modify (\<lambda>s. s\<lparr>ct_bus_clocks := clocks, ct_bus_n := n\<rparr>))))))"

definition hdmaen_write :: "('a dev_state_scheme) hw_write_fn" where
  "hdmaen_write reg v = dma_do (dma_startDma v True)"

section \<open>HDMA costs\<close>

definition hdma_len :: "nat list" where "hdma_len = [1, 2, 2, 4, 4, 4, 2, 4]"

definition snes_hdma_enabled :: "dma_regs \<Rightarrow> bool" where
  "snes_hdma_enabled d \<longleftrightarrow> (\<exists>c\<in>set [0..<8]. ch_hdmaActive (channel d c))"

text \<open>A channel's share: its transfer (the first loop), its line counter and address (the second).\<close>

definition transfer_cost :: "dma_chan \<Rightarrow> nat" where
  "transfer_cost c =
     (if ch_hdmaActive c \<and> \<not> ch_terminated c \<and> ch_doTransfer c then 8 * (hdma_len ! unat (ch_mode c AND 7)) else 0)"

definition reload_cost :: "dma_regs \<Rightarrow> 'a bus_state_scheme \<Rightarrow> nat \<Rightarrow> nat" where
  "reload_cost d s i =
     (let c = channel d i in
      if \<not> ch_hdmaActive c \<or> ch_terminated c then 0
      else if (ch_repCount c - 1) AND 0x7F \<noteq> 0 \<or> \<not> ch_indirect c then 8
      else
        let at = ch_tableAdr c + (if ch_doTransfer c \<and> \<not> ch_indirect c then word_of_nat (hdma_len ! unat (ch_mode c AND 7)) else 0);
            nxt = bus_peek (addr24 (ch_aBank c) at) s;
            lst = (\<forall>j\<in>set [i + 1..<8]. \<not> (ch_hdmaActive (channel d j) \<and> \<not> ch_terminated (channel d j)))
        in 8 + (if nxt = 0 \<and> lst then 8 else 16))"

definition snes_hdma_cost :: "'a dev_state_scheme \<Rightarrow> nat" where
  "snes_hdma_cost s = 8 + sum_list (map (\<lambda>i. transfer_cost (channel (dma s) i)) [0..<8]) +
     sum_list (map (reload_cost (dma s) s) [0..<8])"

definition init_chan_cost :: "'a dev_state_scheme \<Rightarrow> dma_chan \<Rightarrow> nat" where
  "init_chan_cost s c =
     (if \<not> ch_hdmaActive c then 0
      else 8 + (if ch_indirect c then (if bus_peek (addr24 (ch_aBank c) (ch_aAdr c)) s = 0 then 8 else 16) else 0))"

definition snes_hdma_init_cost :: "'a dev_state_scheme \<Rightarrow> nat" where
  "snes_hdma_init_cost s = 8 + sum_list (map (\<lambda>i. init_chan_cost s (channel (dma s) i)) [0..<8])"

section \<open>Registers read back\<close>

lemma low_high_byte:
  "to8 (low_byte v w) = v" "to8 (drop_bit 8 (low_byte v w)) = to8 (drop_bit 8 w)"
  "to8 (high_byte v w) = to8 w" "to8 (drop_bit 8 (high_byte v w)) = v"
proof -
  have m: "(0xFF00 :: u16) = NOT (mask 8)" "(0xFF :: u16) = mask 8" by (simp_all add: mask_eq_exp_minus_1)
  show "to8 (low_byte v w) = v" "to8 (drop_bit 8 (low_byte v w)) = to8 (drop_bit 8 w)"
    "to8 (high_byte v w) = to8 w" "to8 (drop_bit 8 (high_byte v w)) = v"
    unfolding low_byte_def high_byte_def m
    by (rule bit_word_eqI; auto simp: bit_simps dest: bit_imp_le_length)+
qed

lemma mode_bits: "ch_mode (chan_write 0 v c) OR flag_bit (ch_fixed (chan_write 0 v c)) 3 OR flag_bit (ch_decrement (chan_write 0 v c)) 4 OR
   flag_bit (ch_unusedBit (chan_write 0 v c)) 5 OR flag_bit (ch_indirect (chan_write 0 v c)) 6 OR flag_bit (ch_fromB (chan_write 0 v c)) 7 = v"
proof -
  have f: "v AND 8 \<noteq> 0 \<longleftrightarrow> bit v 3" "v AND 0x10 \<noteq> 0 \<longleftrightarrow> bit v 4" "v AND 0x20 \<noteq> 0 \<longleftrightarrow> bit v 5"
    "v AND 0x40 \<noteq> 0 \<longleftrightarrow> bit v 6" "v AND 0x80 \<noteq> 0 \<longleftrightarrow> bit v 7"
    using and_exp_eq_0_iff_not_bit[of v 3] and_exp_eq_0_iff_not_bit[of v 4] and_exp_eq_0_iff_not_bit[of v 5]
      and_exp_eq_0_iff_not_bit[of v 6] and_exp_eq_0_iff_not_bit[of v 7] by simp_all
  have m: "(7 :: u8) = mask 3" by (simp add: mask_eq_exp_minus_1)
  have b: "bit (flag_bit x k) n \<longleftrightarrow> x \<and> n = k \<and> k < 8" for x k n
    by (auto simp: flag_bit_def bit_simps)
  show ?thesis
    by (rule bit_word_eqI) (auto simp: chan_write_def f b m bit_simps less_Suc_eq numeral_eq_Suc)
qed

lemma chan_read_same:
  assumes "r \<in> {0, 1, 2, 3, 4, 5, 6, 7, 8, 9, 0xA, 0xB, 0xF}"
  shows "chan_read r (chan_write r v c) ob = v"
  using assms
  by (elim insertE emptyE) (simp_all add: chan_read_def low_high_byte mode_bits, simp_all add: chan_write_def low_high_byte)

lemma chan_read_other:
  assumes "r \<in> {0, 1, 2, 3, 4, 5, 6, 7, 8, 9, 0xA, 0xB, 0xF}" "r' \<noteq> r" "{r', r} \<noteq> {0xB, 0xF}"
  shows "chan_read r' (chan_write r v c) ob = chan_read r' c ob"
  using assms
  by (elim insertE emptyE) (simp_all add: chan_read_def chan_write_def low_high_byte, auto)

lemma used_regs:
  assumes "\<not> unused_reg r"
  shows "r AND 0xF \<in> {0, 1, 2, 3, 4, 5, 6, 7, 8, 9, 0xA, 0xB, 0xF}"
proof -
  have "x \<in> {0, 1, 2, 3, 4, 5, 6, 7, 8, 9, 0xA, 0xB, 0xF}" if "x \<le> 0xF" "\<not> (0xC \<le> x \<and> x \<le> 0xE)" for x :: u16
  proof -
    have "unat x \<in> {0, 1, 2, 3, 4, 5, 6, 7, 8, 9, 10, 11, 15}"
      using that unfolding word_le_nat_alt by (simp, presburger)
    then show ?thesis by (auto simp: word_unat_eq_iff)
  qed
  moreover have "r AND 0xF \<le> 0xF" by (rule word_and_le1)
  ultimately show ?thesis using assms by (simp add: unused_reg_def)
qed

text \<open>The DMA registers are memory: a byte written to any of \<open>$43x0-$43xB\<close> or \<open>$43xF\<close> is read back
  there, and no other register of any channel changes (\<open>$43xB\<close> and \<open>$43xF\<close> are one byte).\<close>

theorem dma_reg_reads_back:
  assumes "\<not> unused_reg r"
  shows "dma_read (dma_write r v d) r = v \<and>
    (\<forall>r'. dma_chan_of r' \<noteq> dma_chan_of r \<or> (r' AND 0xF \<noteq> r AND 0xF \<and> {r' AND 0xF, r AND 0xF} \<noteq> {0xB, 0xF}) \<longrightarrow>
      dma_read (dma_write r v d) r' = dma_read d r')"
  using chan_read_same[OF used_regs[OF assms]] chan_read_other[OF used_regs[OF assms]]
  by (simp add: dma_read_def dma_write_def upd_chan_def)

theorem dma_reg_reads_back_witness:
  "\<forall>d. dma_read (dma_write 0x4315 0x34 d) 0x4315 = 0x34 \<and> dma_read (dma_write 0x4315 0x34 d) 0x4316 = dma_read d 0x4316"
proof
  fix d
  have "\<not> unused_reg 0x4315" by (simp add: unused_reg_def)
  note r = dma_reg_reads_back[OF this, of "0x34" d]
  show "dma_read (dma_write 0x4315 0x34 d) 0x4315 = 0x34 \<and> dma_read (dma_write 0x4315 0x34 d) 0x4316 = dma_read d 0x4316"
    using conjunct1[OF r] conjunct2[OF r, rule_format, of "0x4316"] by (simp add: doubleton_eq_iff)
qed

section \<open>A general DMA is a list of byte transfers\<close>

type_synonym transfer = "u16 \<times> u8 \<times> u8 \<times> bool"

definition run_transfer1 :: "('a bus_state_scheme) hooks \<Rightarrow> transfer \<Rightarrow> ('a bus_state_scheme, unit) act" where
  "run_transfer1 h = (\<lambda>(a, bank, b, fromB). dma_transferByte h a bank b fromB)"

text \<open>Byte \<open>k\<close> of a channel, and how many it has: a size of 0 is 65536.\<close>

definition moved_adr :: "dma_chan \<Rightarrow> nat \<Rightarrow> u16" where
  "moved_adr c k = (if ch_fixed c then ch_aAdr c
     else if ch_decrement c then ch_aAdr c - word_of_nat k else ch_aAdr c + word_of_nat k)"

definition byte_at :: "dma_chan \<Rightarrow> nat \<Rightarrow> transfer" where
  "byte_at c k = (moved_adr c k, ch_aBank c,
     ch_bAdr c + b_offset (ch_mode c) (word_of_nat ((unat (ch_offIndex c) + k) mod 4)), ch_fromB c)"

definition chan_len :: "dma_chan \<Rightarrow> nat" where
  "chan_len c = (if ch_size c = 0 then 0x10000 else unat (ch_size c))"

definition chan_bytes :: "dma_chan \<Rightarrow> transfer list" where
  "chan_bytes c = (if ch_dmaActive c then map (byte_at c) [0..<chan_len c] else [])"

definition dma_bytes :: "dma_regs \<Rightarrow> transfer list" where
  "dma_bytes d = concat (map (\<lambda>i. chan_bytes (channel d i)) [0..<8])"

text \<open>The registers after it.\<close>

definition chan_done :: "dma_chan \<Rightarrow> dma_chan" where
  "chan_done c = (if ch_dmaActive c
     then c\<lparr>ch_aAdr := moved_adr c (chan_len c), ch_size := 0, ch_offIndex := 0, ch_dmaActive := False\<rparr> else c)"

definition dma_done :: "dma_regs \<Rightarrow> dma_regs" where
  "dma_done d = d\<lparr>channel := (\<lambda>i. if i < 8 then chan_done (channel d i) else channel d i),
     dmaTimer := dmaTimer d + 6 * word_of_nat (length (dma_bytes d))
       + 8 * word_of_nat (length (filter (\<lambda>i. ch_dmaActive (channel d i)) [0..<8])), dmaBusy := False\<rparr>"

lemma chan_step_len:
  "chan_len c = Suc (if ch_size c = 1 then 0 else chan_len (chan_step c))"
proof (cases "ch_size c = 0")
  case True
  then show ?thesis by (simp add: chan_len_def chan_step_def Let_def unsigned_minus_1_eq_mask mask_eq_exp_minus_1)
next
  case False
  then have "unat (ch_size c - 1) = unat (ch_size c) - 1" "0 < unat (ch_size c)"
    by (simp_all add: unat_minus_one unat_gt_0)
  moreover have "ch_size c = 1 \<longleftrightarrow> ch_size c - 1 = 0" by (metis eq_iff_diff_eq_0)
  ultimately show ?thesis using False by (simp add: chan_len_def chan_step_def Let_def)
qed

lemma moved_step: "moved_adr (chan_step c) k = moved_adr c (Suc k)"
  by (auto simp: moved_adr_def chan_step_def Let_def algebra_simps)

lemma byte_step:
  assumes "ch_size c \<noteq> 1" "unat (ch_offIndex c) < 4"
  shows "byte_at (chan_step (c\<lparr>ch_offIndex := ch_offIndex c + 1\<rparr>)) k = byte_at c (Suc k)"
    "unat (ch_offIndex (chan_step (c\<lparr>ch_offIndex := ch_offIndex c + 1\<rparr>))) < 4"
proof -
  let ?c = "c\<lparr>ch_offIndex := ch_offIndex c + 1\<rparr>"
  have s: "ch_size c - 1 \<noteq> 0" using assms(1) by (metis eq_iff_diff_eq_0)
  have o: "unat ((ch_offIndex c + 1) AND 3) = (unat (ch_offIndex c) + 1) mod 4"
  proof -
    have "(ch_offIndex c + 1) AND 3 = take_bit 2 (ch_offIndex c + 1)"
      by (simp add: take_bit_eq_mask mask_eq_exp_minus_1)
    moreover have "unat (ch_offIndex c + 1) = unat (ch_offIndex c) + 1"
      using assms(2) by (simp add: unat_word_ariths)
    ultimately show ?thesis by (simp add: unsigned_take_bit_eq take_bit_eq_mod unat_mod)
  qed
  show "unat (ch_offIndex (chan_step ?c)) < 4" using s by (simp add: chan_step_def Let_def o)
  have "(unat (ch_offIndex (chan_step ?c)) + k) mod 4 = (unat (ch_offIndex c) + Suc k) mod 4"
    using s by (simp add: chan_step_def Let_def o mod_add_left_eq)
  moreover have "moved_adr (chan_step ?c) k = moved_adr ?c (Suc k)" by (rule moved_step)
  moreover have "moved_adr ?c (Suc k) = moved_adr c (Suc k)" by (simp add: moved_adr_def)
  ultimately show "byte_at (chan_step ?c) k = byte_at c (Suc k)"
    by (simp add: byte_at_def chan_step_def Let_def)
qed

text \<open>One byte of a channel: its first, and the channel with the rest of them.\<close>

definition chan_next :: "dma_chan \<Rightarrow> dma_chan" where
  "chan_next c = chan_step (c\<lparr>ch_offIndex := ch_offIndex c + 1\<rparr>)"

lemma chan_next_bytes:
  assumes "ch_dmaActive c" "unat (ch_offIndex c) < 4"
  shows "chan_bytes c = byte_at c 0 # chan_bytes (chan_next c)"
    "chan_done (chan_next c) = chan_done c" "unat (ch_offIndex (chan_next c)) < 4"
    "ch_dmaActive (chan_next c) \<longleftrightarrow> ch_size (chan_next c) \<noteq> 0"
proof -
  let ?c = "c\<lparr>ch_offIndex := ch_offIndex c + 1\<rparr>"
  have len: "chan_len c = Suc (if ch_size c = 1 then 0 else chan_len (chan_next c))"
  proof -
    have "chan_len ?c = chan_len c" by (simp add: chan_len_def)
    then show ?thesis using chan_step_len[of ?c] by (simp add: chan_next_def split: if_splits)
  qed
  have act: "ch_dmaActive (chan_next c) \<longleftrightarrow> ch_size c \<noteq> 1" "ch_size (chan_next c) = ch_size c - 1"
    using assms(1) by (auto simp: chan_next_def chan_step_def Let_def)
  show "ch_dmaActive (chan_next c) \<longleftrightarrow> ch_size (chan_next c) \<noteq> 0" using act by simp
  show "chan_bytes c = byte_at c 0 # chan_bytes (chan_next c)"
  proof (cases "ch_size c = 1")
    case True
    then show ?thesis using assms(1) act len by (simp add: chan_bytes_def)
  next
    case False
    have "map (byte_at c) [0..<Suc n] = byte_at c 0 # map (byte_at (chan_next c)) [0..<n]" for n
      unfolding map_upt_Suc using byte_step(1)[OF False assms(2)] by (simp add: chan_next_def)
    then show ?thesis using assms(1) act len False by (simp add: chan_bytes_def)
  qed
  show "unat (ch_offIndex (chan_next c)) < 4"
  proof (cases "ch_size c = 1")
    case True
    then show ?thesis by (simp add: chan_next_def chan_step_def Let_def)
  next
    case False
    then show ?thesis using byte_step(2)[OF False assms(2)] by (simp add: chan_next_def)
  qed
  show "chan_done (chan_next c) = chan_done c"
  proof (cases "ch_size c = 1")
    case True
    then have "chan_len c = 1" using len by simp
    with True show ?thesis using assms(1) act moved_step[of ?c 0]
      by (simp add: chan_done_def chan_next_def chan_step_def Let_def moved_adr_def)
  next
    case False
    have "moved_adr (chan_next c) (chan_len (chan_next c)) = moved_adr c (chan_len c)"
      using moved_step[of ?c "chan_len (chan_next c)"] False len by (simp add: chan_next_def moved_adr_def)
    then show ?thesis using assms(1) act False
      by (simp add: chan_done_def) (simp add: chan_next_def chan_step_def Let_def)
  qed
qed

text \<open>The first byte of all active channels.\<close>

definition offs_ok :: "dma_regs \<Rightarrow> bool" where
  "offs_ok d \<longleftrightarrow> (\<forall>i<8. unat (ch_offIndex (channel d i)) < 4)"

lemma first_active_cases:
  obtains "first_active d = 8" "\<And>i. i < 8 \<Longrightarrow> \<not> ch_dmaActive (channel d i)"
  | "first_active d < 8" "ch_dmaActive (channel d (first_active d))" "\<And>i. i < first_active d \<Longrightarrow> \<not> ch_dmaActive (channel d i)"
proof (cases "filter (\<lambda>i. ch_dmaActive (channel d i)) [0..<8]")
  case Nil
  then have "first_active d = 8" "\<forall>i\<in>set [0..<8]. \<not> ch_dmaActive (channel d i)"
    by (simp_all add: first_active_def filter_empty_conv)
  then show ?thesis using that(1) by simp
next
  case (Cons i js)
  then obtain us vs where u: "[0..<8] = us @ i # vs" "\<forall>u\<in>set us. \<not> ch_dmaActive (channel d u)" "ch_dmaActive (channel d i)"
    by (auto simp: filter_eq_Cons_iff)
  have "i < 8" using arg_cong[OF u(1), of set] by auto
  moreover have "us = [0..<i]"
  proof -
    have "length us < 8" using arg_cong[OF u(1), of length] by simp
    then have "i = length us" using arg_cong[OF u(1), of "\<lambda>xs. xs ! length us"] by simp
    moreover have "us = take (length us) [0..<8]" using u(1) by simp
    ultimately show ?thesis using \<open>i < 8\<close> by (simp add: take_upt)
  qed
  moreover have "first_active d = i" by (simp add: first_active_def Cons)
  ultimately show ?thesis using that(2) u(2,3) by simp
qed

lemma dma_bytes_split:
  assumes "i < 8" "\<And>j. j < i \<Longrightarrow> \<not> ch_dmaActive (channel d j)"
  shows "dma_bytes d = chan_bytes (channel d i) @ concat (map (\<lambda>j. chan_bytes (channel d j)) [Suc i..<8])"
proof -
  have "[0..<8] = [0..<i] @ i # [Suc i..<8]"
    using assms(1) by (metis upt_add_eq_append le_add_same_cancel1 less_imp_le_nat upt_conv_Cons zero_le le_add_diff_inverse)
  moreover have "concat (map (\<lambda>j. chan_bytes (channel d j)) [0..<i]) = []"
    using assms(2) by (simp add: chan_bytes_def)
  ultimately show ?thesis unfolding dma_bytes_def by (simp add: concat_eq_Nil_conv del: concat_eq_Nil_conv)
qed

definition dma_step :: "nat \<Rightarrow> dma_regs \<Rightarrow> dma_regs" where
  "dma_step i d = (let d1 = upd_chan i chan_next d in
     d1\<lparr>dmaTimer := dmaTimer d1 + 6 + (if ch_size (channel d1 i) = 0 then 8 else 0)\<rparr>)"

lemma dma_step_bytes:
  assumes "first_active d < 8" "offs_ok d"
  defines "i \<equiv> first_active d"
  shows "dma_bytes d = byte_at (channel d i) 0 # dma_bytes (dma_step i d)" "offs_ok (dma_step i d)"
    "dma_done (dma_step i d) = dma_done d" "dmaBusy (dma_step i d) = dmaBusy d"
proof -
  have i: "i < 8" "ch_dmaActive (channel d i)" "\<And>j. j < i \<Longrightarrow> \<not> ch_dmaActive (channel d j)"
    using assms(1) first_active_cases[of d] unfolding i_def by (metis less_irrefl)+
  have o: "unat (ch_offIndex (channel d i)) < 4" using assms(2) i(1) by (simp add: offs_ok_def)
  note n = chan_next_bytes[OF i(2) o]
  let ?d = "dma_step i d"
  have ch: "channel ?d j = (if j = i then chan_next (channel d i) else channel d j)" for j
    by (simp add: dma_step_def upd_chan_def Let_def)
  show "dmaBusy ?d = dmaBusy d" by (simp add: dma_step_def upd_chan_def Let_def)
  show "offs_ok ?d" using assms(2) n(3) by (simp add: offs_ok_def ch)
  have rest: "map (\<lambda>j. chan_bytes (channel ?d j)) [Suc i..<8] = map (\<lambda>j. chan_bytes (channel d j)) [Suc i..<8]"
    by (rule map_cong) (auto simp: ch)
  show b: "dma_bytes d = byte_at (channel d i) 0 # dma_bytes ?d"
  proof -
    have "dma_bytes ?d = chan_bytes (channel ?d i) @ concat (map (\<lambda>j. chan_bytes (channel d j)) [Suc i..<8])"
      unfolding rest[symmetric] by (rule dma_bytes_split) (use i ch in auto)
    then show ?thesis using dma_bytes_split[of i d] i n(1) by (simp add: ch)
  qed
  have f: "length (filter (\<lambda>j. ch_dmaActive (channel d j)) [0..<8]) =
      length (filter (\<lambda>j. ch_dmaActive (channel ?d j)) [0..<8]) + (if ch_size (chan_next (channel d i)) = 0 then 1 else 0)"
  proof -
    have "[0..<8] = [0..<i] @ i # [Suc i..<8]"
      using i(1) by (metis upt_add_eq_append le_add_same_cancel1 less_imp_le_nat upt_conv_Cons zero_le le_add_diff_inverse)
    moreover have "filter (\<lambda>j. ch_dmaActive (channel ?d j)) [0..<i] = filter (\<lambda>j. ch_dmaActive (channel d j)) [0..<i]"
      "filter (\<lambda>j. ch_dmaActive (channel ?d j)) [Suc i..<8] = filter (\<lambda>j. ch_dmaActive (channel d j)) [Suc i..<8]"
      by (rule filter_cong; auto simp: ch)+
    ultimately show ?thesis using i(2) n(4) by (simp add: ch)
  qed
  have c: "(\<lambda>j. if j < 8 then chan_done (channel ?d j) else channel ?d j) = (\<lambda>j. if j < 8 then chan_done (channel d j) else channel d j)"
    using i(1) n(2) by (auto simp: ch)
  have t: "dmaTimer ?d = dmaTimer d + 6 + (if ch_size (chan_next (channel d i)) = 0 then 8 else 0)"
    by (simp add: dma_step_def upd_chan_def Let_def)
  have e: "dma_done d' = \<lparr>channel = (\<lambda>i. if i < 8 then chan_done (channel d' i) else channel d' i), hdmaTimer = hdmaTimer d',
      dmaTimer = dmaTimer d' + 6 * word_of_nat (length (dma_bytes d'))
       + 8 * word_of_nat (length (filter (\<lambda>i. ch_dmaActive (channel d' i)) [0..<8])), dmaBusy = False, openBus = openBus d'\<rparr>" for d'
    by (simp add: dma_done_def)
  have k: "hdmaTimer ?d = hdmaTimer d" "openBus ?d = openBus d" by (simp_all add: dma_step_def upd_chan_def Let_def)
  show "dma_done ?d = dma_done d"
    unfolding e c t k f b by (simp add: algebra_simps)
qed

text \<open>The registers of the DMA itself, which the hardware keeps a DMA from: \<open>dma.c\<close> notes it among the invalid writes, without
  enforcing it. A register table leaves the channel registers alone but through them.\<close>

definition dma_own :: "u16 \<Rightarrow> bool" where
  "dma_own r \<longleftrightarrow> r = 0x420B \<or> r = 0x420C \<or> 0x4300 \<le> r \<and> r < 0x4380"

definition hooks_dma :: "('a dev_state_scheme) hooks \<Rightarrow> bool" where
  "hooks_dma h \<longleftrightarrow> (\<forall>i f reg s x t. hw_rd h i = Some f \<longrightarrow> f reg s = Inr (x, t) \<longrightarrow> dma t = dma s) \<and>
     (\<forall>i f reg v s x t. hw_wr h i = Some f \<longrightarrow> \<not> dma_own (i + 0x2000) \<longrightarrow> f reg v s = Inr (x, t) \<longrightarrow> dma t = dma s)"

text \<open>A byte written to one of them, from the B-bus.\<close>

definition to_dma :: "transfer \<Rightarrow> bool" where
  "to_dma = (\<lambda>(a, bank, b, fromB). fromB \<and>
     (case decode_addr (addr24 bank a AND 0xFFFFFF) of (R_HW, off) \<Rightarrow> dma_own (to16 off) | _ \<Rightarrow> False))"

lemma to16_minus: "to16 (x - 0x2000 :: u32) + 0x2000 = to16 x"
proof -
  have u: "unat (to16 z) = unat z mod 65536" for z :: u32 by (simp add: unsigned_ucast_eq take_bit_eq_mod)
  have m: "k mod 4294967296 mod 65536 = k mod 65536" for k :: nat by (rule mod_mod_cancel) simp
  have "unat (to16 y + 0x2000) = unat (to16 (y + 0x2000))" for y :: u32
  proof -
    have "unat (to16 y + 0x2000) = (unat y mod 65536 + 8192) mod 65536" by (simp add: unat_word_ariths u)
    also have "\<dots> = (unat y + 8192) mod 65536" by (rule mod_add_left_eq)
    also have "\<dots> = unat (to16 (y + 0x2000))" unfolding u by (simp add: unat_word_ariths m)
    finally show ?thesis .
  qed
  from this[of "x - 0x2000"] show ?thesis by (simp add: word_unat_eq_iff)
qed

lemma accesses_dma:
  "dma (log_access ck e s) = dma s" "dma (set_mdr v s) = dma s" "dma (wram_store off v s) = dma s"
  by (simp_all add: log_access_def Let_def set_mdr_def wram_store_def wram_journal_def)

lemma read8_dma: "hooks_dma h \<Longrightarrow> read8 h a s = Inr (v, t) \<Longrightarrow> dma t = dma s"
  by (erule read8_cases) (auto simp: hooks_dma_def accesses_dma)

lemma write8_dma:
  assumes "hooks_dma h" "write8 h a v s = Inr (x, t)"
    and "\<And>off. decode_addr (a AND 0xFFFFFF) = (R_HW, off) \<Longrightarrow> \<not> dma_own (to16 off)"
  shows "dma t = dma s"
proof -
  obtain rg off where d: "decode_addr (a AND 0xFFFFFF) = (rg, off)" by fastforce
  show ?thesis
  proof (cases "rg = R_HW")
    case False
    then show ?thesis using assms(2) d by (cases rg) (auto simp: write8_def Let_def accesses_dma)
  next
    case True
    let ?i = "to16 (off - HW_BASE)" and ?s = "set_mdr v (log_access (bus_access_clocks (a AND 0xFFFFFF) s)
      (to8 (bus_access_clocks (a AND 0xFFFFFF) s OR CT_BUS_WRITE)) s)"
    obtain f where f: "hw_wr h ?i = Some f" "f (to16 off) v ?s = Inr (x, t)"
      using assms(2) d True by (auto simp: write8_def Let_def split: option.splits)
    have "to16 (off - HW_BASE) + 0x2000 = to16 off"
      unfolding HW_BASE_def by (rule to16_minus)
    then have "\<not> dma_own (?i + 0x2000)" using assms(3) d True by simp
    then have "dma t = dma ?s" using assms(1) f unfolding hooks_dma_def by blast
    then show ?thesis by (simp add: accesses_dma)
  qed
qed

lemma b_bus_register: "decode_addr ((0x2100 + to32 (b :: u8)) AND 0xFFFFFF) = (R_HW, off) \<Longrightarrow> \<not> dma_own (to16 off)"
proof -
  assume d: "decode_addr ((0x2100 + to32 b) AND 0xFFFFFF) = (R_HW, off)"
  have m: "(0xFFFFFF :: u32) = mask 24" by (simp add: mask_eq_exp_minus_1)
  have b: "unat b < 256" using unat_bounds(1)[of b] by simp
  have u: "unat (0x2100 + to32 b) = 0x2100 + unat b" using b by (simp add: unat_word_ariths)
  then have "unat (take_bit 24 (0x2100 + to32 b)) = unat (0x2100 + to32 b)"
    unfolding unsigned_take_bit_eq u using b by (simp add: take_bit_eq_mod)
  then have e: "(0x2100 + to32 b) AND 0xFFFFFF = 0x2100 + to32 b"
    unfolding m by (simp only: take_bit_eq_mask word_unat_eq_iff)
  have l: "unat (to16 (0x2100 + to32 b :: u32)) = 0x2100 + unat b" using u b by (simp add: unsigned_ucast_eq take_bit_eq_mod)
  have "off = to32 (to16 (0x2100 + to32 b :: u32))" using d unfolding e by (auto simp: decode_addr_def Let_def split: if_splits)
  then have "to16 off = to16 (0x2100 + to32 b :: u32)" by simp
  then show ?thesis using l b by (auto simp: dma_own_def word_le_nat_alt word_less_nat_alt word_unat_eq_iff)
qed

lemma transfer_dma:
  assumes "hooks_dma h" "\<not> to_dma b" "run_transfer1 h b s = Inr (x, t)"
  shows "dma t = dma s"
proof -
  obtain a bank ba fromB where b: "b = (a, bank, ba, fromB)" by (cases b) auto
  show ?thesis
  proof (cases fromB)
    case True
    then obtain v u where u: "read8 h (0x2100 + to32 ba) s = Inr (v, u)" "write8 h (addr24 bank a) v u = Inr (x, t)"
      using assms(3) by (auto simp: b run_transfer1_def dma_transferByte_def snes_readBBus_def bnd_Inr)
    have "dma t = dma u" by (rule write8_dma[OF assms(1) u(2)]) (use assms(2) True in \<open>auto simp: b to_dma_def\<close>)
    then show ?thesis using read8_dma[OF assms(1) u(1)] by simp
  next
    case False
    then obtain v u where u: "read8 h (addr24 bank a) s = Inr (v, u)" "write8 h (0x2100 + to32 ba) v u = Inr (x, t)"
      using assms(3) by (auto simp: b run_transfer1_def dma_transferByte_def snes_writeBBus_def bnd_Inr)
    have "dma t = dma u" by (rule write8_dma[OF assms(1) u(2)]) (rule b_bus_register)
    then show ?thesis using read8_dma[OF assms(1) u(1)] by simp
  qed
qed

text \<open>The registers while each byte is moved: the step in the mode's pattern is already counted.\<close>

definition dma_during :: "nat \<Rightarrow> dma_regs \<Rightarrow> dma_regs" where
  "dma_during i = upd_chan i (\<lambda>c. c\<lparr>ch_offIndex := ch_offIndex c + 1\<rparr>)"

fun dma_course :: "nat \<Rightarrow> dma_regs \<Rightarrow> dma_regs list" where
  "dma_course 0 d = []"
| "dma_course (Suc n) d = dma_during (first_active d) d # dma_course n (dma_step (first_active d) d)"

text \<open>Bytes in order, each with the channel registers as they are then.\<close>

fun run_at :: "('a dev_state_scheme) hooks \<Rightarrow> (transfer \<times> dma_regs) list \<Rightarrow> ('a dev_state_scheme, unit) act" where
  "run_at h [] = ret ()"
| "run_at h ((b, d) # bs) = thn (dma_do (\<lambda>_. d)) (thn (run_transfer1 h b) (run_at h bs))"

lemma run_at_from:
  "(case run_at h bs (s\<lparr>dma := d\<rparr>) of Inl e \<Rightarrow> Inl e | Inr (x, t) \<Rightarrow> Inr ((), t\<lparr>dma := d'\<rparr>)) =
   (case run_at h bs s of Inl e \<Rightarrow> Inl e | Inr (x, t) \<Rightarrow> Inr ((), t\<lparr>dma := d'\<rparr>))"
  by (cases bs; cases "hd bs") (simp_all add: dma_do_def thn_modify)

lemma dma_doDma_step:
  assumes "hooks_dma h" "first_active (dma s) < 8"
  defines "i \<equiv> first_active (dma s)"
  assumes o: "unat (ch_offIndex (channel (dma s) i)) < 4"
  defines "b \<equiv> byte_at (channel (dma s) i) 0"
  assumes "\<not> to_dma b"
  shows "dma_doDma h s = (case run_transfer1 h b (s\<lparr>dma := dma_during i (dma s)\<rparr>) of
    Inl e \<Rightarrow> Inl e | Inr (x, t) \<Rightarrow> Inr ((), t\<lparr>dma := dma_step i (dma s)\<rparr>))"
proof -
  let ?c = "channel (dma s) i" and ?d = "dma_during i (dma s)"
  have i8: "i \<noteq> 8" using assms(2) by (simp add: i_def)
  have b: "run_transfer1 h b = dma_transferByte h (ch_aAdr ?c) (ch_aBank ?c) (ch_bAdr ?c + b_offset (ch_mode ?c) (ch_offIndex ?c)) (ch_fromB ?c)"
    using o by (simp add: b_def byte_at_def moved_adr_def run_transfer1_def)
  have st: "(let d1 = upd_chan i chan_step ?d in d1\<lparr>dmaTimer := dmaTimer d1 + 6 + (if ch_size (channel d1 i) = 0 then 8 else 0)\<rparr>) = dma_step i (dma s)"
    by (simp add: dma_step_def dma_during_def upd_chan_def chan_next_def Let_def)
  have t: "dma t = ?d" if "run_transfer1 h b (s\<lparr>dma := ?d\<rparr>) = Inr (x, t)" for x t
    using transfer_dma[OF assms(1,6) that] by simp
  have "dma_doDma h s = thn (run_transfer1 h b) (dma_do (\<lambda>d. let d1 = upd_chan i chan_step d in
      d1\<lparr>dmaTimer := dmaTimer d1 + 6 + (if ch_size (channel d1 i) = 0 then 8 else 0)\<rparr>)) (s\<lparr>dma := ?d\<rparr>)"
    using i8 by (simp add: dma_doDma_def bnd_gets i_def[symmetric] Let_def chan_do_def dma_do_def thn_modify b dma_during_def)
  then show ?thesis using t st by (auto simp: thn_def bnd_def dma_do_def split: sum.splits)
qed

lemma dma_loop_transfers:
  assumes "hooks_dma h" "dmaBusy (dma s)" "offs_ok (dma s)" "length (dma_bytes (dma s)) + 2 \<le> fuel" "\<forall>b\<in>set (dma_bytes (dma s)). \<not> to_dma b"
  shows "dma_loop fuel h s = (case run_at h (zip (dma_bytes (dma s)) (dma_course (length (dma_bytes (dma s))) (dma s))) s of
    Inl e \<Rightarrow> Inl e | Inr (x, t) \<Rightarrow> Inr ((), t\<lparr>dma := dma_done (dma s)\<rparr>))"
  using assms
proof (induction fuel arbitrary: s)
  case (Suc fuel)
  let ?d = "dma s"
  show ?case
  proof (cases rule: first_active_cases[of ?d])
    case 1
    then have none: "dma_bytes ?d = []" "filter (\<lambda>i. ch_dmaActive (channel ?d i)) [0..<8] = []"
      by (auto simp: dma_bytes_def chan_bytes_def filter_empty_conv)
    have "(\<lambda>i. if i < 8 then chan_done (channel ?d i) else channel ?d i) = channel ?d"
      using 1(2) by (auto simp: chan_done_def)
    then have "dma_done ?d = ?d\<lparr>dmaBusy := False\<rparr>" by (simp add: dma_done_def none)
    moreover obtain n where "fuel = Suc n" using Suc.prems(4) by (cases fuel) auto
    ultimately show ?thesis
      using Suc.prems(2) 1(1) none(1) by (simp add: bnd_gets dma_doDma_def Let_def dma_do_def thn_modify)
  next
    case 2
    define i where "i = first_active ?d"
    note st = dma_step_bytes[OF 2(1) Suc.prems(3), folded i_def]
    define b where "b = byte_at (channel ?d i) 0"
    have o: "unat (ch_offIndex (channel ?d i)) < 4" using Suc.prems(3) 2(1) by (simp add: offs_ok_def i_def)
    have bs: "dma_bytes ?d = b # dma_bytes (dma_step i ?d)" using st(1) by (simp add: b_def)
    have nb: "\<not> to_dma b" "\<forall>b\<in>set (dma_bytes (dma_step i ?d)). \<not> to_dma b" using Suc.prems(5) bs by simp_all
    note step = dma_doDma_step[OF Suc.prems(1) 2(1), folded i_def, OF o, folded b_def, OF nb(1)]
    have c: "dma_course (length (dma_bytes ?d)) ?d = dma_during i ?d # dma_course (length (dma_bytes (dma_step i ?d))) (dma_step i ?d)"
      by (simp add: bs i_def)
    show ?thesis
    proof (cases "run_transfer1 h b (s\<lparr>dma := dma_during i ?d\<rparr>)")
      case (Inl e)
      then have "run_at h (zip (dma_bytes ?d) (dma_course (length (dma_bytes ?d)) ?d)) s = Inl e"
        unfolding c bs by (simp add: dma_do_def thn_modify thn_def bnd_def i_def[symmetric])
      then show ?thesis using Suc.prems(2) step Inl by (simp add: bnd_gets thn_def bnd_def)
    next
      case (Inr p)
      obtain x t where t: "run_transfer1 h b (s\<lparr>dma := dma_during i ?d\<rparr>) = Inr (x, t)" using Inr by (cases p) auto
      let ?t = "t\<lparr>dma := dma_step i ?d\<rparr>"
      have "dma_loop (Suc fuel) h s = dma_loop fuel h ?t"
        using Suc.prems(2) step t by (simp add: bnd_gets thn_def bnd_def)
      also have "\<dots> = (case run_at h (zip (dma_bytes (dma ?t)) (dma_course (length (dma_bytes (dma ?t))) (dma ?t))) ?t of
          Inl e \<Rightarrow> Inl e | Inr (x, u) \<Rightarrow> Inr ((), u\<lparr>dma := dma_done (dma ?t)\<rparr>))"
        using Suc.prems st bs nb by (intro Suc.IH) simp_all
      also have "\<dots> = (case run_at h (zip (dma_bytes (dma_step i ?d)) (dma_course (length (dma_bytes (dma_step i ?d))) (dma_step i ?d))) t of
          Inl e \<Rightarrow> Inl e | Inr (x, u) \<Rightarrow> Inr ((), u\<lparr>dma := dma_done ?d\<rparr>))"
      proof -
        have e: "dma ?t = dma_step i ?d" by simp
        show ?thesis unfolding e st(3) run_at_from ..
      qed
      also have "\<dots> = (case run_at h (zip (dma_bytes ?d) (dma_course (length (dma_bytes ?d)) ?d)) s of
          Inl e \<Rightarrow> Inl e | Inr (x, u) \<Rightarrow> Inr ((), u\<lparr>dma := dma_done ?d\<rparr>))"
        unfolding c bs using t by (simp add: dma_do_def thn_modify thn_def bnd_def i_def[symmetric])
      finally show ?thesis .
    qed
  qed
qed simp

text \<open>A general DMA started with the channels of \<open>v\<close>: the bytes it moves, each with the registers as they are then.\<close>

lemma dma_runs:
  assumes "hooks_dma h" "offs_ok (dma s)" "v \<noteq> 0" "8 * 65536 + 2 \<le> fuel"
  defines "d \<equiv> dma_startDma v False (dma s)"
  assumes "\<forall>b\<in>set (dma_bytes d). \<not> to_dma b"
  shows "dma_loop fuel h (s\<lparr>dma := d\<rparr>) = (case run_at h (zip (dma_bytes d) (dma_course (length (dma_bytes d)) d)) s of
    Inl e \<Rightarrow> Inl e | Inr (x, t) \<Rightarrow> Inr ((), t\<lparr>dma := dma_done d\<rparr>))"
proof -
  have busy: "dmaBusy d" "offs_ok d" using assms(2,3) by (simp_all add: d_def dma_startDma_def offs_ok_def Let_def)
  have len: "length (chan_bytes c) \<le> 65536" for c
    using unat_bounds(2)[of "ch_size c"] by (simp add: chan_bytes_def chan_len_def)
  have "length (dma_bytes d) \<le> 8 * 65536"
  proof -
    have "length (concat (map (\<lambda>i. chan_bytes (channel d i)) xs)) \<le> length xs * 65536" for xs
    proof (induction xs)
      case (Cons x xs)
      then show ?case using len[of "channel d x"] by simp
    qed simp
    from this[of "[0..<8]"] show ?thesis by (simp add: dma_bytes_def)
  qed
  then have l: "length (dma_bytes d) + 2 \<le> fuel" using assms(4) by linarith
  have e: "dma (s\<lparr>dma := d\<rparr>) = d" by simp
  have "dma_loop fuel h (s\<lparr>dma := d\<rparr>) = (case run_at h (zip (dma_bytes d) (dma_course (length (dma_bytes d)) d)) (s\<lparr>dma := d\<rparr>) of
    Inl e \<Rightarrow> Inl e | Inr (x, t) \<Rightarrow> Inr ((), t\<lparr>dma := dma_done d\<rparr>))"
    using dma_loop_transfers[of h "s\<lparr>dma := d\<rparr>" fuel, unfolded e, OF assms(1) busy l assms(6)] .
  then show ?thesis unfolding run_at_from .
qed

text \<open>A channel set to copy two bytes of WRAM to the WRAM port.\<close>

definition demo_chan :: dma_chan where
  "demo_chan = chan_reset\<lparr>ch_bAdr := 0x80, ch_aBank := 0x7E, ch_aAdr := 0x10, ch_size := 2, ch_mode := 0,
     ch_fixed := False, ch_decrement := False, ch_indirect := False, ch_fromB := False\<rparr>"

definition dma_zero :: dma_regs where
  "dma_zero = \<lparr>channel = (\<lambda>_. chan_reset), hdmaTimer = 0, dmaTimer = 0, dmaBusy = False, openBus = 0\<rparr>"

definition dev_zero :: dev_state where
  "dev_zero = ovl_state.extend ovl_zero \<lparr>dma = dma_zero\<rparr>"

lemmas dev_zero_simps = dev_zero_def dev_state.defs dma_zero_def ovl_zero_simps

section \<open>Bounds of the HDMA costs\<close>

lemma sum_list_bound:
  "(\<And>i. f i \<le> (k :: nat) \<and> 8 dvd f i) \<Longrightarrow> sum_list (map f xs) \<le> k * length xs \<and> 8 dvd sum_list (map f xs)"
proof (induction xs)
  case (Cons x xs)
  then have "f x \<le> k" "8 dvd f x" "sum_list (map f xs) \<le> k * length xs" "8 dvd sum_list (map f xs)" by auto
  then show ?case by simp
qed simp

lemma hdma_len_bound: "hdma_len ! unat (m AND 7 :: u8) \<le> 4"
proof -
  have "unat (m AND 7) \<le> 7" using word_and_le1[of m 7] by (simp add: word_le_nat_alt)
  moreover have "\<forall>k\<in>set [0..<8]. hdma_len ! k \<le> 4" by (simp add: upt_rec hdma_len_def)
  ultimately show ?thesis by simp
qed

text \<open>An HDMA costs a multiple of 8 clocks, at least the 8 of overhead and at most 456; its init at
  most 200, and both exactly the 8 when no channel is enabled.\<close>

theorem hdma_cost_bounds:
  "8 dvd snes_hdma_cost s \<and> 8 \<le> snes_hdma_cost s \<and> snes_hdma_cost s \<le> 456 \<and>
   8 dvd snes_hdma_init_cost s \<and> 8 \<le> snes_hdma_init_cost s \<and> snes_hdma_init_cost s \<le> 200 \<and>
   (snes_hdma_enabled (dma s) \<or> snes_hdma_cost s = 8 \<and> snes_hdma_init_cost s = 8)"
proof -
  have t: "transfer_cost c \<le> 32 \<and> 8 dvd transfer_cost c" for c
    using hdma_len_bound[of "ch_mode c"] by (simp add: transfer_cost_def)
  have r: "reload_cost (dma s) s i \<le> 24 \<and> 8 dvd reload_cost (dma s) s i" for i
    by (simp add: reload_cost_def Let_def)
  have c: "init_chan_cost s c \<le> 24 \<and> 8 dvd init_chan_cost s c" for c by (simp add: init_chan_cost_def)
  have cost: "snes_hdma_cost s \<le> 456 \<and> 8 dvd snes_hdma_cost s"
    using sum_list_bound[of "\<lambda>i. transfer_cost (channel (dma s) i)" 32 "[0..<8]", OF t]
      sum_list_bound[of "reload_cost (dma s) s" 24 "[0..<8]", OF r]
    unfolding snes_hdma_cost_def by simp
  have init: "snes_hdma_init_cost s \<le> 200 \<and> 8 dvd snes_hdma_init_cost s"
    using sum_list_bound[of "\<lambda>i. init_chan_cost s (channel (dma s) i)" 24 "[0..<8]", OF c]
    unfolding snes_hdma_init_cost_def by simp
  have off: "snes_hdma_cost s = 8 \<and> snes_hdma_init_cost s = 8" if "\<not> snes_hdma_enabled (dma s)"
  proof -
    have n: "\<not> ch_hdmaActive (channel (dma s) i)" if "i \<in> set [0..<8]" for i
      using that \<open>\<not> snes_hdma_enabled (dma s)\<close> by (auto simp: snes_hdma_enabled_def)
    have "map (\<lambda>i. transfer_cost (channel (dma s) i)) [0..<8] = map (\<lambda>_. 0) [0..<8]"
      "map (reload_cost (dma s) s) [0..<8] = map (\<lambda>_. 0) [0..<8]"
      "map (\<lambda>i. init_chan_cost s (channel (dma s) i)) [0..<8] = map (\<lambda>_. 0) [0..<8]"
      by (rule map_cong; simp add: transfer_cost_def reload_cost_def init_chan_cost_def n Let_def del: set_upt)+
    then show ?thesis unfolding snes_hdma_cost_def snes_hdma_init_cost_def by (simp only: sum_list_0) simp
  qed
  show ?thesis using cost init off by (auto simp: snes_hdma_cost_def snes_hdma_init_cost_def)
qed

end
