(* ===== verification/Ct_Adapter.thy ===== *)
theory Ct_Adapter
  imports Ct_Dma
begin

text \<open>
  \<open>runtime/snes_adapter.c\<close>, the PPU and APU sides: the registers \<open>$2100-$213F\<close> (OAM, VRAM and
  CGRAM ports with their latches and open-bus values) and the communication ports
  \<open>$2140-$217F\<close>. The vendored PPU behind them (\<open>ppu_read\<close>, \<open>ppu_write\<close>, \<open>ppu_drawTo\<close>) is the record
  \<open>ppu_dev\<close>; of its state the model has what the adapter touches. The SPC700's time is the
  scheduler's and floating point, so catching up is an argument, as is the comparison of a port
  write with it.
\<close>

section \<open>State\<close>

record ppu_regs =
  oam :: "nat \<Rightarrow> u16"
  oamAdr :: u16
  oamSecondWrite :: bool
  oamBuffer :: u8
  vram :: "u16 \<Rightarrow> u16"
  vramPointer :: u16
  vramIncrement :: u16
  vramIncrementOnHigh :: bool
  cgram :: "u8 \<Rightarrow> u16"
  cgramPointer :: u8
  cgramSecondWrite :: bool
  forcedBlank :: bool
  drawX :: int

record adapter_state = dev_state +
  ppu :: ppu_regs
  ppu1_mdr :: u8
  ppu2_mdr :: u8
  vram_latch :: u16
  oamadd_reload :: u16
  port_new :: "nat \<Rightarrow> u8"
  port_vis :: "nat \<Rightarrow> u8"
  port_pending :: bool
  inPorts :: "nat \<Rightarrow> u8"
  outPorts :: "nat \<Rightarrow> u8"

record 's ppu_dev =
  ppu_read :: "u8 \<Rightarrow> 's \<Rightarrow> u8"
  ppu_write :: "u8 \<Rightarrow> u8 \<Rightarrow> 's \<Rightarrow> 's"
  ppu_drawTo :: "int \<Rightarrow> 's \<Rightarrow> 's"
  snes_ppu_dot :: "('s, int) act option"

definition ppu_do :: "(ppu_regs \<Rightarrow> ppu_regs) \<Rightarrow> 'a adapter_state_scheme \<Rightarrow> 'a adapter_state_scheme" where
  "ppu_do f s = s\<lparr>ppu := f (ppu s)\<rparr>"

definition snes_ppu2_mdr :: "'a adapter_state_scheme \<Rightarrow> u8" where "snes_ppu2_mdr s = ppu2_mdr s"
definition snes_set_ppu2_mdr :: "u8 \<Rightarrow> 'a adapter_state_scheme \<Rightarrow> 'a adapter_state_scheme" where
  "snes_set_ppu2_mdr v s = s\<lparr>ppu2_mdr := v\<rparr>"

section \<open>OAM\<close>

text \<open>The byte address: word address and flip-flop.\<close>

definition oam_addr :: "ppu_regs \<Rightarrow> nat" where
  "oam_addr p = unat ((push_bit 1 (to32 (oamAdr p)) OR of_bool (oamSecondWrite p)) AND 0x3FF)"

definition oam_word :: "nat \<Rightarrow> nat" where
  "oam_word b = (if b < 0x200 then b div 2 else 0x100 + b mod 0x20 div 2)"

definition oam_byte :: "ppu_regs \<Rightarrow> nat \<Rightarrow> u8" where
  "oam_byte p b = to8 (drop_bit (b mod 2 * 8) (oam p (oam_word b)))"

definition oam_next :: "nat \<Rightarrow> ppu_regs \<Rightarrow> ppu_regs" where
  "oam_next b p = (let b1 = (b + 1) mod 0x400 in p\<lparr>oamAdr := word_of_nat (b1 div 2), oamSecondWrite := odd b1\<rparr>)"

definition oam_write :: "u8 \<Rightarrow> ppu_regs \<Rightarrow> ppu_regs" where
  "oam_write v p =
     (let b = oam_addr p in
      oam_next b
       (if b < 0x200 then
          (if even b then p\<lparr>oamBuffer := v\<rparr> else p\<lparr>oam := (oam p)(b div 2 := word16 (oamBuffer p) v)\<rparr>)
        else
          let w = oam p (0x100 + b mod 0x20 div 2) in
          p\<lparr>oam := (oam p)(0x100 + b mod 0x20 div 2 :=
             (if odd b then high_byte v w else low_byte v w))\<rparr>))"

definition snes_oam_vblank_reload :: "'a adapter_state_scheme \<Rightarrow> 'a adapter_state_scheme" where
  "snes_oam_vblank_reload s =
     (if forcedBlank (ppu s) then s else ppu_do (\<lambda>p. p\<lparr>oamAdr := oamadd_reload s, oamSecondWrite := False\<rparr>) s)"

section \<open>PPU registers\<close>

definition vram_prefetch_increment :: "'a adapter_state_scheme \<Rightarrow> 'a adapter_state_scheme" where
  "vram_prefetch_increment s =
     ppu_do (\<lambda>p. p\<lparr>vramPointer := vramPointer p + vramIncrement p\<rparr>)
       (s\<lparr>vram_latch := vram (ppu s) (vramPointer (ppu s) AND 0x7FFF)\<rparr>)"

definition ppu1_out :: "u8 \<Rightarrow> ('a adapter_state_scheme, u8) act" where
  "ppu1_out v = thn (modify (\<lambda>s. s\<lparr>ppu1_mdr := v\<rparr>)) (ret v)"

definition oamdata_read :: "('a adapter_state_scheme, u8) act" where
  "oamdata_read = bnd (gets ppu) (\<lambda>p. let b = oam_addr p in
     thn (modify (ppu_do (oam_next b))) (ppu1_out (oam_byte p b)))"

definition vram_read :: "bool \<Rightarrow> ('a adapter_state_scheme, u8) act" where
  "vram_read high = bnd (gets (\<lambda>s. if high then to8 (drop_bit 8 (vram_latch s)) else to8 (vram_latch s))) (\<lambda>v.
     bnd (gets (\<lambda>s. vramIncrementOnHigh (ppu s))) (\<lambda>on_high.
     thn (whenM (on_high = high) (modify vram_prefetch_increment)) (ppu1_out v)))"

definition cgdata_read :: "('a adapter_state_scheme, u8) act" where
  "cgdata_read = bnd (gets (\<lambda>s. (ppu s, ppu2_mdr s))) (\<lambda>(p, mdr).
     let c = cgram p (cgramPointer p);
         v = (if \<not> cgramSecondWrite p then to8 c else (mdr AND 0x80) OR (to8 (drop_bit 8 c) AND 0x7F)) in
     thn (modify (\<lambda>s. ppu_do (\<lambda>p. p\<lparr>cgramPointer := (if cgramSecondWrite p then cgramPointer p + 1 else cgramPointer p),
              cgramSecondWrite := \<not> cgramSecondWrite p\<rparr>) (snes_set_ppu2_mdr v s))) (ret v))"

definition ppu1_open_regs :: "u16 list" where
  "ppu1_open_regs = [0x2104, 0x2105, 0x2106, 0x2108, 0x2109, 0x210A, 0x2114, 0x2115, 0x2116, 0x2118, 0x2119, 0x211A,
     0x2124, 0x2125, 0x2126, 0x2128, 0x2129, 0x212A]"

definition ppu_reg_read :: "('a adapter_state_scheme) ppu_dev \<Rightarrow> ('a adapter_state_scheme) hw_read_fn" where
  "ppu_reg_read dev reg =
     (if reg \<in> set ppu1_open_regs then gets ppu1_mdr
      else if reg \<in> {0x2134, 0x2135, 0x2136} then bnd (gets (ppu_read dev (to8 (reg - 0x2100)))) ppu1_out
      else if reg = 0x2138 then oamdata_read
      else if reg = 0x2139 then vram_read False
      else if reg = 0x213A then vram_read True
      else if reg = 0x213B then cgdata_read
      else if reg = 0x213E then
        thn (modify (\<lambda>s. s\<lparr>hw_notes := hw_note ''$213E STAT77: OBJ time/range overflow flags not modeled (read as 0)'' (hw_notes s)\<rparr>))
          (bnd (gets ppu1_mdr) (\<lambda>m. ppu1_out ((m AND 0x10) OR 0x01)))
      else if reg \<in> {0x2137, 0x213C, 0x213D, 0x213F} then die (Ppu_counters reg)
      else bus_open_bus reg)"

text \<open>The line is drawn up to the write's dot first.\<close>

definition draw_before_write :: "('a adapter_state_scheme) ppu_dev \<Rightarrow> ('a adapter_state_scheme, unit) act" where
  "draw_before_write dev = bnd (gets (\<lambda>s. drawX (ppu s) < 256)) (\<lambda>b.
     case snes_ppu_dot dev of
       Some f \<Rightarrow> if b then bnd f (\<lambda>dot. whenM (dot > 22) (modify (ppu_drawTo dev (dot - 21)))) else ret ()
     | None \<Rightarrow> ret ())"

definition oamadd_write :: "('a adapter_state_scheme) ppu_dev \<Rightarrow> u16 \<Rightarrow> u8 \<Rightarrow> 'a adapter_state_scheme \<Rightarrow> 'a adapter_state_scheme" where
  "oamadd_write dev reg v s =
     (let s1 = ppu_write dev (to8 (reg - 0x2100)) v s;
          r = (if reg = 0x2102 then (oamadd_reload s1 AND 0x100) OR to16 v
               else high_byte (v AND 1) (oamadd_reload s1))
      in ppu_do (\<lambda>p. p\<lparr>oamAdr := r, oamSecondWrite := False\<rparr>) (s1\<lparr>oamadd_reload := r\<rparr>))"

definition ppu_reg_write :: "('a adapter_state_scheme) ppu_dev \<Rightarrow> ('a adapter_state_scheme) hw_write_fn" where
  "ppu_reg_write dev reg v =
     (if reg \<ge> 0x2134 then bus_readonly_write reg v
      else thn (draw_before_write dev) (modify (\<lambda>s.
        if reg = 0x2104 then ppu_do (oam_write v) s
        else if reg = 0x2102 \<or> reg = 0x2103 then oamadd_write dev reg v s
        else let s1 = ppu_write dev (to8 (reg - 0x2100)) v s in
          if reg = 0x2116 \<or> reg = 0x2117 then s1\<lparr>vram_latch := vram (ppu s1) (vramPointer (ppu s1) AND 0x7FFF)\<rparr> else s1)))"

section \<open>APU ports\<close>

text \<open>\<open>sync\<close> is \<open>snes_apu_sync\<close>; \<open>early\<close> its argument.\<close>

definition apu_reg_read ::
  "(nat \<Rightarrow> ('a adapter_state_scheme, unit) act) option \<Rightarrow> ('a adapter_state_scheme) hw_read_fn" where
  "apu_reg_read sync reg =
     thn (case sync of Some f \<Rightarrow> f 4 | None \<Rightarrow> ret ()) (gets (\<lambda>s. outPorts s (unat (reg AND 3))))"

text \<open>\<open>in_step\<close>: the SPC700 is within one half-cycle of the CPU's time.\<close>

definition apu_reg_write ::
  "(nat \<Rightarrow> ('a adapter_state_scheme, unit) act) option \<Rightarrow> ('a adapter_state_scheme, bool) act
   \<Rightarrow> ('a adapter_state_scheme) hw_write_fn" where
  "apu_reg_write sync in_step reg v =
     thn (case sync of Some f \<Rightarrow> f 0 | None \<Rightarrow> ret ()) (let p = unat (reg AND 3) in
     bnd (gets (\<lambda>s. port_new s p = v)) (\<lambda>same.
     if same then ret ()
     else thn (modify (\<lambda>s. s\<lparr>port_new := (port_new s)(p := v), inPorts := (inPorts s)(p := v)\<rparr>))
       (bnd in_step (\<lambda>b. modify (\<lambda>s. if b then s\<lparr>port_vis := (port_vis s)(p := v)\<rparr> else s\<lparr>port_pending := True\<rparr>)))))"

definition inport_read :: "nat \<Rightarrow> 'a adapter_state_scheme \<Rightarrow> u8" where "inport_read port s = port_vis s port"

definition spc_cycle_end :: "'a adapter_state_scheme \<Rightarrow> 'a adapter_state_scheme" where
  "spc_cycle_end s = (if port_pending s then s\<lparr>port_vis := port_new s, port_pending := False\<rparr> else s)"

definition clear_ports :: "nat set \<Rightarrow> 'a adapter_state_scheme \<Rightarrow> 'a adapter_state_scheme" where
  "clear_ports P s = s\<lparr>port_new := (\<lambda>i. if i \<in> P then 0 else port_new s i), port_vis := (\<lambda>i. if i \<in> P then 0 else port_vis s i)\<rparr>"

definition spc_write :: "u16 \<Rightarrow> u8 \<Rightarrow> 'a adapter_state_scheme \<Rightarrow> 'a adapter_state_scheme" where
  "spc_write address v s =
     (if address \<noteq> 0xF1 then s
      else let s1 = (if v AND 0x10 \<noteq> 0 then clear_ports {0, 1} s else s)
           in if v AND 0x20 \<noteq> 0 then clear_ports {2, 3} s1 else s1)"

section \<open>Reset\<close>

text \<open>\<open>snes_hw_reset\<close>, with the resets of the vendored PPU and APU as an argument.\<close>

definition snes_hw_reset :: "('a adapter_state_scheme \<Rightarrow> 'a adapter_state_scheme) \<Rightarrow> ('a adapter_state_scheme \<Rightarrow> 'a adapter_state_scheme)
   \<Rightarrow> 'a adapter_state_scheme \<Rightarrow> 'a adapter_state_scheme" where
  "snes_hw_reset ppu_reset apu_reset s =
     apu_reset ((\<lambda>s. s\<lparr>ppu1_mdr := 0, ppu2_mdr := 0, vram_latch := 0, oamadd_reload := 0, port_new := (\<lambda>_. 0),
       port_vis := (\<lambda>_. 0), port_pending := False, dma := dma_reset (dma s)\<rparr>) (ppu_reset s))"

text \<open>\<open>snes_hw_soft_reset\<close>, with the part that resets the APU and keeps its memory as an argument.\<close>

definition snes_hw_soft_reset :: "('a adapter_state_scheme \<Rightarrow> 'a adapter_state_scheme) \<Rightarrow> 'a adapter_state_scheme \<Rightarrow> 'a adapter_state_scheme" where
  "snes_hw_soft_reset apu_soft_reset s =
     apu_soft_reset (ppu_do (\<lambda>p. p\<lparr>forcedBlank := True, drawX := 256\<rparr>)
       (s\<lparr>dma := (dma s)\<lparr>channel := (\<lambda>i. if i < 8 then (channel (dma s) i)\<lparr>ch_dmaActive := False, ch_hdmaActive := False\<rparr>
                                   else channel (dma s) i), dmaBusy := False\<rparr>,
          port_new := (\<lambda>_. 0), port_vis := (\<lambda>_. 0), port_pending := False\<rparr>))"

section \<open>OAM written and read as bytes\<close>

lemma oam_addr_bound: "oam_addr p < 0x400"
proof -
  have "(x :: u32) AND 0x3FF \<le> 0x3FF" for x by (rule word_and_le1)
  then have "oam_addr p \<le> 0x3FF" unfolding oam_addr_def word_le_nat_alt by fastforce
  then show ?thesis by simp
qed

lemma oam_addr_next:
  assumes "b < 0x400"
  shows "oam_addr (oam_next b p) = (b + 1) mod 0x400"
proof -
  define n where "n = (b + 1) mod 0x400"
  have n: "n < 0x400" by (simp add: n_def)
  have "push_bit 1 (to32 (word_of_nat (n div 2) :: u16)) OR of_bool (odd n) = (word_of_nat n :: u32)"
  proof -
    have "push_bit 1 x AND of_bool c = 0" for x :: u32 and c by (rule bit_word_eqI) (auto simp: bit_simps bit_0)
    then have "push_bit 1 x OR of_bool c = push_bit 1 x + of_bool c" for x :: u32 and c
      by (simp add: disjunctive_add_eq_or)
    moreover have "unat (word_of_nat (n div 2) :: u16) = n div 2" using n by (simp add: unat_of_nat)
    moreover have "unat (push_bit 1 (to32 (word_of_nat (n div 2) :: u16)) + of_bool (odd n)) = n"
      using n calculation(2) by (simp add: unat_word_ariths push_bit_eq_mult unat_of_nat, presburger)
    moreover have "unat (word_of_nat n :: u32) = n" using n by (simp add: unat_of_nat)
    ultimately show ?thesis by (metis word_unat_eq_iff)
  qed
  moreover have "(word_of_nat n :: u32) AND 0x3FF = word_of_nat n"
  proof -
    have "(0x3FF :: u32) = mask 10" by (simp add: mask_eq_exp_minus_1)
    moreover have "take_bit 10 (word_of_nat n :: u32) = word_of_nat n"
      using n by (simp add: word_unat_eq_iff unsigned_take_bit_eq unat_of_nat unat_mod take_bit_eq_mod)
    ultimately show ?thesis by (simp add: take_bit_eq_mask)
  qed
  moreover have f: "oamAdr (oam_next b p) = word_of_nat (n div 2)" "oamSecondWrite (oam_next b p) = odd n"
    by (simp_all add: oam_next_def Let_def n_def)
  ultimately have "oam_addr (oam_next b p) = unat (word_of_nat n :: u32)" unfolding oam_addr_def f by (simp only:)
  then show ?thesis unfolding n_def[symmetric] using n by (simp add: unat_of_nat)
qed

lemma oam_next_same: "oam (oam_next b p) = oam p" "oamBuffer (oam_next b p) = oamBuffer p"
  by (simp_all add: oam_next_def Let_def)

text \<open>What a byte written does to the bytes: an even one of the low table waits for the odd one.\<close>

lemma oam_write_byte:
  assumes "b = oam_addr p" "k < 0x220" "b < 0x220"
  shows "oam_byte (oam_write v p) k =
    (if b < 0x200 then (if odd b \<and> k = b then v else if odd b \<and> k + 1 = b then oamBuffer p else oam_byte p k)
     else if k = b then v else oam_byte p k)"
proof -
  define w where "w = oam p (oam_word b)"
  have o: "oam (oam_write v p) = (oam p)(oam_word b :=
      (if b < 0x200 then (if even b then w else word16 (oamBuffer p) v)
       else if odd b then high_byte v w else low_byte v w))"
    unfolding oam_write_def Let_def assms(1)[symmetric] oam_next_same w_def by (auto simp: oam_word_def oam_next_same)
  have same: "oam_word k = oam_word b \<longleftrightarrow> k div 2 = b div 2"
  proof (cases "b < 0x200"; cases "k < 0x200")
    assume h: "b < 0x200" "\<not> k < 0x200"
    then have "b div 2 < 256" "256 \<le> k div 2" by simp_all
    then show ?thesis using h by (auto simp: oam_word_def)
  next
    assume h: "\<not> b < 0x200" "k < 0x200"
    then have "k div 2 < 256" "256 \<le> b div 2" by simp_all
    then show ?thesis using h by (auto simp: oam_word_def)
  next
    assume h: "\<not> b < 0x200" "\<not> k < 0x200"
    have "b = 0x200 + (b - 0x200)" "k = 0x200 + (k - 0x200)" using h by simp_all
    then obtain d e where de: "b = 0x200 + d" "k = 0x200 + e" by blast
    then have "d < 0x20" "e < 0x20" using assms(2,3) by simp_all
    moreover have "(0x200 + x) mod 0x20 = x mod 0x20" "(0x200 + x) div 2 = 0x100 + x div 2" for x :: nat
      using mod_mult_self1[of x 16 "0x20"] div_mult_self1[of 2 x "0x100"] by (simp_all add: add.commute)
    ultimately show ?thesis using h de by (simp add: oam_word_def)
  qed (simp add: oam_word_def)
  have k: "k div 2 = b div 2 \<longleftrightarrow> k = b \<or> (if odd b then k + 1 = b else k = b + 1)" by presburger
  show ?thesis
  proof (cases "oam_word k = oam_word b")
    case False
    then show ?thesis using same k by (auto simp: oam_byte_def o)
  next
    case True
    then have kb: "k = b \<or> (if odd b then k + 1 = b else k = b + 1)" using same k by blast
    have w: "oam p (oam_word k) = w" using True by (simp add: w_def)
    consider "k = b" "odd b" | "k = b" "even b" | "k + 1 = b" "odd b" "even k" | "k = b + 1" "even b" "odd k"
      using kb by (cases "odd b") auto
    then show ?thesis
      by cases (simp_all add: oam_byte_def o True w low_high_byte odd_iff_mod_2_eq_one even_iff_mod_2_eq_zero w_def[symmetric])
  qed
qed

definition write_bytes :: "u8 list \<Rightarrow> ppu_regs \<Rightarrow> ppu_regs" where
  "write_bytes vs p = foldl (\<lambda>p v. oam_write v p) p vs"

lemma oam_write_addr: "oam_addr (oam_write v p) = (oam_addr p + 1) mod 0x400"
  unfolding oam_write_def Let_def by (rule oam_addr_next[OF oam_addr_bound])

lemma oam_write_buffer: "oam_addr p < 0x200 \<Longrightarrow> even (oam_addr p) \<Longrightarrow> oamBuffer (oam_write v p) = v"
  by (simp add: oam_write_def Let_def oam_next_same)

text \<open>What is in OAM after \<open>n\<close> bytes from an even address: all of them but a last even one of the
  low table, which is in the buffer.\<close>

definition landed :: "nat \<Rightarrow> nat \<Rightarrow> nat" where
  "landed a n = (if a + n < 0x200 \<and> odd n then n - 1 else n)"

lemma write_bytes_lands:
  assumes "oam_addr p = a" "even a" "a + length vs \<le> 0x220"
  shows "oam_addr (write_bytes vs p) = a + length vs"
    "\<And>k. k < 0x220 \<Longrightarrow> oam_byte (write_bytes vs p) k =
      (if a \<le> k \<and> k < a + landed a (length vs) then vs ! (k - a) else oam_byte p k)"
    "odd (length vs) \<Longrightarrow> a + length vs < 0x200 \<Longrightarrow> oamBuffer (write_bytes vs p) = last vs"
  using assms(3)
proof (induction vs rule: rev_induct)
  case Nil
  { case 1 show ?case using assms(1) by (simp add: write_bytes_def) }
  { case 2 then show ?case by (auto simp: write_bytes_def landed_def) }
  { case 3 then show ?case by simp }
next
  case (snoc v vs)
  let ?q = "write_bytes vs p" and ?n = "length vs"
  have w: "write_bytes (vs @ [v]) p = oam_write v ?q" by (simp add: write_bytes_def)
  have IH: "a + ?n < 0x220 \<Longrightarrow> oam_addr ?q = a + ?n" using snoc.IH(1) by simp
  { case 1
    then show ?case using IH oam_write_addr[of v ?q] by (simp add: w) }
  { case 2
    then have b: "oam_addr ?q = a + ?n" "a + ?n < 0x220" using IH by simp_all
    note step = oam_write_byte[OF b(1)[symmetric] 2(1) b(2), of v]
    have old: "oam_byte ?q k = (if a \<le> k \<and> k < a + landed a ?n then vs ! (k - a) else oam_byte p k)"
      using snoc.IH(2)[of k] 2 by simp
    have buf: "oamBuffer ?q = last vs" if "odd ?n" "a + ?n < 0x200" using snoc.IH(3) that 2 by simp
    have lst: "vs ! (?n - 1) = last vs" if "0 < ?n" using that by (simp add: last_conv_nth)
    let ?k = "vs @ [v]"
    consider (wait) "a + ?n < 0x200" "even ?n" | (pair) "a + ?n < 0x200" "odd ?n" | (high) "0x200 \<le> a + ?n" by linarith
    then show ?case
    proof cases
      case wait
      then have "a + Suc ?n < 0x200" using assms(2) by presburger
      then have "landed a ?n = ?n" "landed a (length ?k) = ?n" using wait by (simp_all add: landed_def)
      then show ?thesis unfolding w step old using wait assms(2) by (auto simp: nth_append)
    next
      case pair
      then have "landed a ?n = ?n - 1" "landed a (length ?k) = ?n + 1" "0 < ?n" by (auto simp: landed_def odd_pos)
      moreover have "?k ! (k - a) = last vs" if "k + 1 = a + ?n"
      proof -
        have "k - a = ?n - 1" "a \<le> k" using that \<open>0 < ?n\<close> by linarith+
        then show ?thesis using lst \<open>0 < ?n\<close> by (simp add: nth_append)
      qed
      ultimately show ?thesis unfolding w step old using pair assms(2) buf[OF pair(2,1)] by (auto simp: nth_append)
    next
      case high
      then have "landed a ?n = ?n" "landed a (length ?k) = ?n + 1" by (simp_all add: landed_def)
      then show ?thesis unfolding w step old using high by (auto simp: nth_append)
    qed }
  { case 3
    then show ?case using IH oam_write_buffer[of ?q v] assms(2) by (simp add: w) }
qed

text \<open>Reading through \<open>$2138\<close>.\<close>

fun read_oam :: "nat \<Rightarrow> ('a adapter_state_scheme, u8 list) act" where
  "read_oam 0 = ret []"
| "read_oam (Suc n) = bnd oamdata_read (\<lambda>v. bnd (read_oam n) (\<lambda>vs. ret (v # vs)))"

lemma oamdata_read_step:
  "oamdata_read s = Inr (oam_byte (ppu s) (oam_addr (ppu s)),
     (ppu_do (oam_next (oam_addr (ppu s))) s)\<lparr>ppu1_mdr := oam_byte (ppu s) (oam_addr (ppu s))\<rparr>)"
  by (simp add: oamdata_read_def bnd_gets Let_def thn_modify ppu1_out_def)

lemma read_oam_bytes:
  "oam_addr (ppu s) + n \<le> 0x220 \<Longrightarrow> \<exists>t. read_oam n s = Inr (map (\<lambda>k. oam_byte (ppu s) (oam_addr (ppu s) + k)) [0..<n], t) \<and>
    oam (ppu t) = oam (ppu s)"
proof (induction n arbitrary: s)
  case (Suc n)
  let ?b = "oam_addr (ppu s)"
  let ?t = "(ppu_do (oam_next ?b) s)\<lparr>ppu1_mdr := oam_byte (ppu s) ?b\<rparr>"
  have a: "oam_addr (ppu ?t) = ?b + 1"
    using Suc.prems oam_addr_next[of ?b "ppu s"] by (simp add: ppu_do_def)
  have o: "oam (ppu ?t) = oam (ppu s)" by (simp add: ppu_do_def oam_next_same)
  then have e: "oam_byte (ppu ?t) k = oam_byte (ppu s) k" for k by (simp add: oam_byte_def)
  have "\<exists>u. read_oam n ?t = Inr (map (\<lambda>k. oam_byte (ppu ?t) (oam_addr (ppu ?t) + k)) [0..<n], u) \<and> oam (ppu u) = oam (ppu ?t)"
    using Suc.prems a by (intro Suc.IH) simp
  then obtain u where u: "read_oam n ?t = Inr (map (\<lambda>k. oam_byte (ppu s) (?b + Suc k)) [0..<n], u)" "oam (ppu u) = oam (ppu s)"
    unfolding a o e by auto
  have "map (\<lambda>k. oam_byte (ppu s) (?b + k)) [0..<Suc n] = oam_byte (ppu s) ?b # map (\<lambda>k. oam_byte (ppu s) (?b + Suc k)) [0..<n]"
    unfolding map_upt_Suc by simp
  then show ?case using u by (simp add: oamdata_read_step bnd_def ret_def del: upt_Suc)
qed simp

text \<open>C36. What is written to OAM is read back: any bytes written through \<open>$2104\<close> from an even byte address
  inside the 544 bytes (an even number of them if they end in the low table, which is written by
  pairs) are what \<open>$2138\<close> returns from that address on, across the two tables, and no other OAM byte
  has changed.\<close>

theorem oam_reads_back:
  assumes "oam_addr (ppu s) = a" "even a" "a + length vs \<le> 0x220" "even (length vs) \<or> 0x200 \<le> a + length vs"
  shows "\<exists>t. read_oam (length vs) (ppu_do (\<lambda>p. (write_bytes vs p)\<lparr>oamAdr := oamAdr (ppu s), oamSecondWrite := oamSecondWrite (ppu s)\<rparr>) s) = Inr (vs, t) \<and>
    (\<forall>k<0x220. \<not> (a \<le> k \<and> k < a + length vs) \<longrightarrow> oam_byte (ppu t) k = oam_byte (ppu s) k)"
proof -
  let ?p = "(write_bytes vs (ppu s))\<lparr>oamAdr := oamAdr (ppu s), oamSecondWrite := oamSecondWrite (ppu s)\<rparr>"
  let ?s = "ppu_do (\<lambda>p. (write_bytes vs p)\<lparr>oamAdr := oamAdr (ppu s), oamSecondWrite := oamSecondWrite (ppu s)\<rparr>) s"
  have p: "ppu ?s = ?p" by (simp add: ppu_do_def)
  have a: "oam_addr ?p = a" using assms(1) by (simp add: oam_addr_def)
  have l: "landed a (length vs) = length vs" using assms(4) by (auto simp: landed_def)
  have b: "oam_byte ?p k = (if a \<le> k \<and> k < a + length vs then vs ! (k - a) else oam_byte (ppu s) k)" if "k < 0x220" for k
    using write_bytes_lands(2)[OF assms(1-3) that] by (simp add: oam_byte_def l)
  obtain t where t: "read_oam (length vs) ?s = Inr (map (\<lambda>k. oam_byte ?p (a + k)) [0..<length vs], t)" "oam (ppu t) = oam ?p"
    using read_oam_bytes[of ?s "length vs"] assms(3) unfolding p a by blast
  have "map (\<lambda>k. oam_byte ?p (a + k)) [0..<length vs] = vs"
    using b assms(3) by (intro nth_equalityI) auto
  moreover have "oam_byte (ppu t) k = oam_byte ?p k" for k using t(2) by (simp add: oam_byte_def)
  ultimately show ?thesis using t(1) b by auto
qed

section \<open>The VRAM prefetch\<close>

fun read_words :: "nat \<Rightarrow> ('a adapter_state_scheme, u16 list) act" where
  "read_words 0 = ret []"
| "read_words (Suc n) = bnd (vram_read False) (\<lambda>lo. bnd (vram_read True) (\<lambda>hi. bnd (read_words n) (\<lambda>ws. ret (word16 lo hi # ws))))"

definition at_vram :: "ppu_regs \<Rightarrow> nat \<Rightarrow> u16" where
  "at_vram p k = vram p ((vramPointer p + word_of_nat k * vramIncrement p) AND 0x7FFF)"

lemma read_words_latch:
  "vramIncrementOnHigh (ppu s) \<Longrightarrow> \<exists>t. read_words n s = Inr (if n = 0 then [] else vram_latch s # map (at_vram (ppu s)) [0..<n - 1], t)"
proof (induction n arbitrary: s)
  case (Suc n)
  define s1 where "s1 = s\<lparr>ppu1_mdr := to8 (vram_latch s)\<rparr>"
  define s2 where "s2 = (vram_prefetch_increment s1)\<lparr>ppu1_mdr := to8 (drop_bit 8 (vram_latch s))\<rparr>"
  have 1: "vram_read False s = Inr (to8 (vram_latch s), s1)"
    using Suc.prems by (simp add: vram_read_def bnd_gets ppu1_out_def thn_modify s1_def whenM_def thn_def)
  have 2: "vram_read True s1 = Inr (to8 (drop_bit 8 (vram_latch s)), s2)"
    using Suc.prems by (simp add: vram_read_def bnd_gets ppu1_out_def thn_modify s1_def s2_def whenM_def thn_def)
  have p: "vramIncrementOnHigh (ppu s2)" "vram_latch s2 = at_vram (ppu s) 0" "at_vram (ppu s2) k = at_vram (ppu s) (Suc k)" for k
    using Suc.prems by (simp_all add: s2_def s1_def vram_prefetch_increment_def ppu_do_def at_vram_def algebra_simps)
  obtain t where t: "read_words n s2 = Inr (if n = 0 then [] else at_vram (ppu s) 0 # map (at_vram (ppu s)) [Suc 0..<n], t)"
  proof -
    have "map (at_vram (ppu s2)) [0..<n - 1] = map (at_vram (ppu s)) [Suc 0..<n]" if "n \<noteq> 0"
    proof -
      have "map (at_vram (ppu s)) [Suc 0..<n] = map (at_vram (ppu s)) (map Suc [0..<n - 1])"
        using that by (simp add: map_Suc_upt)
      then show ?thesis by (simp add: p(3) comp_def)
    qed
    then show ?thesis using Suc.IH[OF p(1)] that p(2) by auto
  qed
  have "(if n = 0 then [] else at_vram (ppu s) 0 # map (at_vram (ppu s)) [Suc 0..<n]) = map (at_vram (ppu s)) [0..<n]"
    by (simp add: upt_conv_Cons)
  then show ?case using t by (simp add: 1 2)
qed simp

text \<open>Reading VRAM as words goes through the prefetch: after an address is set (which loads the latch),
  with the increment on the high byte, the word at the address comes twice and then the ones that
  follow, in steps of the increment.\<close>

theorem vram_word_comes_twice:
  assumes "vramIncrementOnHigh (ppu s)" "vram_latch s = vram (ppu s) (vramPointer (ppu s) AND 0x7FFF)"
  shows "\<exists>t. read_words (Suc n) s = Inr (at_vram (ppu s) 0 # map (at_vram (ppu s)) [0..<n], t)"
  using read_words_latch[of s "Suc n"] assms by (simp add: at_vram_def)

section \<open>The APU ports\<close>

text \<open>What can happen to the ports, with what the CPU last wrote to each (0 after a clear): a CPU write, before which
  \<open>snes_apu_sync\<close> lets the SPC700 run, in step or not; the end of an SPC700 cycle; and the SPC700's
  own write to its control register.\<close>

definition cleared :: "u16 \<Rightarrow> u8 \<Rightarrow> (nat \<Rightarrow> u8) \<Rightarrow> nat \<Rightarrow> u8" where
  "cleared a v sent p = (if a = 0xF1 \<and> (p \<in> {0, 1} \<and> bit v 4 \<or> p \<in> {2, 3} \<and> bit v 5) then 0 else sent p)"

inductive port_run :: "'a adapter_state_scheme \<Rightarrow> (nat \<Rightarrow> u8) \<Rightarrow> bool" where
  start: "port_new s = (\<lambda>_. 0) \<Longrightarrow> port_vis s = (\<lambda>_. 0) \<Longrightarrow> \<not> port_pending s \<Longrightarrow> port_run s (\<lambda>_. 0)"
| cpu: "port_run s sent \<Longrightarrow> sync 0 s = Inr ((), u) \<Longrightarrow> port_run u sent' \<Longrightarrow>
    apu_reg_write (Some sync) (gets in_step) reg v s = Inr ((), t) \<Longrightarrow> port_run t (sent'(unat (reg AND 3) := v))"
| cycle: "port_run s sent \<Longrightarrow> port_run (spc_cycle_end s) sent"
| control: "port_run s sent \<Longrightarrow> port_run (spc_write a v s) (cleared a v sent)"

lemma spc_write_ports:
  "port_new (spc_write a v s) = cleared a v (port_new s)" "port_vis (spc_write a v s) = cleared a v (port_vis s)"
  "port_pending (spc_write a v s) = port_pending s"
proof -
  have b: "v AND 0x10 \<noteq> 0 \<longleftrightarrow> bit v 4" "v AND 0x20 \<noteq> 0 \<longleftrightarrow> bit v 5"
    using and_exp_eq_0_iff_not_bit[of v 4] and_exp_eq_0_iff_not_bit[of v 5] by simp_all
  show "port_new (spc_write a v s) = cleared a v (port_new s)" "port_vis (spc_write a v s) = cleared a v (port_vis s)"
    "port_pending (spc_write a v s) = port_pending s"
    by (auto simp: spc_write_def clear_ports_def Let_def cleared_def b fun_eq_iff)
qed

lemma port_run_inv: "port_run s sent \<Longrightarrow> port_new s = sent \<and> (port_pending s \<or> port_vis s = sent)"
proof (induction rule: port_run.induct)
  case (cpu s sent sync u sent' in_step reg v t)
  let ?p = "unat (reg AND 3)"
  have w: "(if port_new u ?p = v then ret () else thn (modify (\<lambda>s. s\<lparr>port_new := (port_new s)(?p := v), inPorts := (inPorts s)(?p := v)\<rparr>))
       (bnd (gets in_step) (\<lambda>b. modify (\<lambda>s. if b then s\<lparr>port_vis := (port_vis s)(?p := v)\<rparr> else s\<lparr>port_pending := True\<rparr>)))) u = Inr ((), t)"
    using cpu.hyps(2,4) by (auto simp: apu_reg_write_def Let_def thn_def bnd_gets bnd_def split: if_splits)
  show ?case
  proof (cases "port_new u ?p = v")
    case True
    then show ?thesis using w cpu.IH(2) by (auto simp: ret_def)
  next
    case False
    then show ?thesis using w cpu.IH(2) by (auto simp: thn_modify bnd_gets modify_def)
  qed
qed (auto simp: spc_cycle_end_def spc_write_ports)

text \<open>C22. No port write is lost or torn: whatever CPU writes (the SPC700 run up to each first, in any way), SPC700 cycles and
  port clears came, after the end of an SPC700 cycle it reads in each port what the CPU last wrote to that
  port, or 0 after a clear, and at any time it does if none is pending.\<close>

theorem ports_delivered:
  assumes "port_run s sent"
  shows "inport_read p (spc_cycle_end s) = sent p \<and> (port_pending s \<or> inport_read p s = sent p)"
  using port_run_inv[OF assms] by (auto simp: spc_cycle_end_def inport_read_def)

section \<open>Examples\<close>

definition ppu_zero :: ppu_regs where
  "ppu_zero = \<lparr>oam = (\<lambda>_. 0), oamAdr = 0, oamSecondWrite = False, oamBuffer = 0, vram = (\<lambda>_. 0), vramPointer = 0,
     vramIncrement = 1, vramIncrementOnHigh = True, cgram = (\<lambda>_. 0), cgramPointer = 0, cgramSecondWrite = False,
     forcedBlank = False, drawX = 256\<rparr>"

definition adapter_zero :: adapter_state where
  "adapter_zero = dev_state.extend dev_zero
     \<lparr>ppu = ppu_zero, ppu1_mdr = 0, ppu2_mdr = 0, vram_latch = 0, oamadd_reload = 0, port_new = (\<lambda>_. 0),
      port_vis = (\<lambda>_. 0), port_pending = False, inPorts = (\<lambda>_. 0), outPorts = (\<lambda>_. 0)\<rparr>"

lemmas adapter_zero_simps = adapter_zero_def adapter_state.defs ppu_zero_def dev_zero_simps

lemma adapter_zero_fields:
  "ppu adapter_zero = ppu_zero" "vram_latch adapter_zero = 0" "port_new adapter_zero = (\<lambda>_. 0)"
  "port_vis adapter_zero = (\<lambda>_. 0)" "\<not> port_pending adapter_zero"
  by (simp_all add: adapter_zero_simps)

text \<open>Four bytes across the end of the low table.\<close>

theorem oam_reads_back_witness:
  "\<exists>t. read_oam 4 (ppu_do (\<lambda>p. (write_bytes [1, 2, 3, 4] p)\<lparr>oamAdr := 0xFF, oamSecondWrite := False\<rparr>)
      (ppu_do (\<lambda>p. p\<lparr>oamAdr := 0xFF\<rparr>) adapter_zero)) = Inr ([1, 2, 3, 4], t)"
proof -
  let ?s = "ppu_do (\<lambda>p. p\<lparr>oamAdr := 0xFF\<rparr>) adapter_zero"
  have p: "ppu ?s = ppu_zero\<lparr>oamAdr := 0xFF\<rparr>" by (simp add: ppu_do_def adapter_zero_fields)
  have "oam_addr (ppu ?s) = 0x1FE" unfolding p by (simp add: oam_addr_def ppu_zero_def)
  note r = oam_reads_back[OF this, of "[1, 2, 3, 4]"]
  have f: "oamAdr (ppu ?s) = 0xFF" "oamSecondWrite (ppu ?s) = False" unfolding p by (simp_all add: ppu_zero_def)
  have l: "length [1, 2, 3, 4 :: u8] = 4" by simp
  show ?thesis using r unfolding f l by auto
qed

theorem vram_word_comes_twice_witness:
  "\<exists>t. read_words 3 adapter_zero = Inr ([0, 0, 0], t)"
  using vram_word_comes_twice[of adapter_zero 2]
  by (simp add: adapter_zero_fields ppu_zero_def at_vram_def numeral_3_eq_3 upt_rec)

text \<open>A write out of reach is pending, and read after the cycle.\<close>

theorem ports_delivered_witness:
  "\<exists>t. apu_reg_write (Some (\<lambda>_. ret ())) (gets (\<lambda>_. False)) 0x2141 7 adapter_zero = Inr ((), t) \<and> inport_read 1 t = 0 \<and>
     inport_read 1 (spc_cycle_end t) = 7 \<and> inport_read 0 (spc_cycle_end t) = 0"
proof -
  obtain t where t: "apu_reg_write (Some (\<lambda>_. ret ())) (gets (\<lambda>_. False)) 0x2141 7 adapter_zero = Inr ((), t)" "port_vis t 1 = 0"
    by (simp add: apu_reg_write_def Let_def thn_def bnd_gets bnd_def ret_def adapter_zero_fields)
  have z: "port_run adapter_zero (\<lambda>_. 0)" by (rule port_run.start) (simp_all add: adapter_zero_fields)
  have r: "port_run t ((\<lambda>_. 0)(unat ((0x2141 :: u16) AND 3) := 7))" by (rule port_run.cpu[OF z _ z t(1)]) (simp add: ret_def)
  have "unat ((0x2141 :: u16) AND 3) = 1" by simp
  with ports_delivered[OF r, of 1] ports_delivered[OF r, of 0] t show ?thesis by (auto simp: inport_read_def)
qed

end
