(* ===== verification/Ct_Walk.thy ===== *)
theory Ct_Walk
  imports Ct_Cycles
begin

text \<open>
  The cycle-level timing of \<open>runtime/sched.c\<close>: the walk of an instruction's cycles against the
  events of the video signal (DRAM refresh, HDMA, HDMA init, NMI, H/V IRQ, end of line).
  Master clocks are natural numbers (\<open>uint64_t\<close> in C, 27 thousand years before it wraps), frame
  numbers integers. What the walk reads and does not change (registers, the HDMA costs of
  \<open>snes_adapter.c\<close>) is the record \<open>walk_env\<close>; the walk and the static \<open>pend\<close> are its state.
\<close>

section \<open>The video signal\<close>

definition SCHED_CLOCKS_PER_LINE :: nat where "SCHED_CLOCKS_PER_LINE = 1364"
definition SCHED_LINES :: nat where "SCHED_LINES = 262"
definition SCHED_HBLANK_CLOCK :: nat where "SCHED_HBLANK_CLOCK = 1096"
definition SCHED_HDMA_CLOCK :: nat where "SCHED_HDMA_CLOCK = 1104"
definition SCHED_VBLANK_LINE :: nat where "SCHED_VBLANK_LINE = 225"
definition REFRESH_CLOCKS :: nat where "REFRESH_CLOCKS = 40"

lemmas sched_consts = SCHED_CLOCKS_PER_LINE_def SCHED_LINES_def SCHED_HBLANK_CLOCK_def
  SCHED_HDMA_CLOCK_def SCHED_VBLANK_LINE_def REFRESH_CLOCKS_def

section \<open>State\<close>

record pend =
  p_delay :: bool
  p_hdma :: bool
  p_init :: bool
  p_dma :: bool
  hdma_cost :: nat
  init_cost :: nat
  dma_after :: int
  dma_sizes :: "nat list"
  nmi_count :: nat
  need_nmi :: bool
  irq_line :: bool
  prev_irq :: bool
  nmi_after :: int

definition pend_reset :: pend where
  "pend_reset = \<lparr>p_delay = False, p_hdma = False, p_init = False, p_dma = False, hdma_cost = 0, init_cost = 0,
     dma_after = - 1, dma_sizes = replicate 8 0, nmi_count = 0, need_nmi = False, irq_line = False,
     prev_irq = False, nmi_after = - 1\<rparr>"

record walk =
  w_t :: nat
  w_ls :: nat
  w_line :: nat
  w_frame :: int
  w_refresh_done :: bool
  w_hdma_done :: bool
  w_init_done :: bool
  w_nmi_done :: bool
  w_irq_done :: bool
  w_irq_at :: int
  refreshes :: nat
  w_edge :: bool
  undo_from :: int
  w_dma_lo :: nat
  w_dma_hi :: nat

record walk_env =
  we_nmitimen :: u8
  we_htime :: u16
  we_vtime :: u16
  we_field_base :: int
  we_hdma_enabled :: bool
  we_hdma_cost :: nat
  we_init_cost :: nat
  we_count8 :: bool

type_synonym 'a walking = "(walk \<times> pend, 'a) act"

section \<open>Lines and timer clocks\<close>

text \<open>\<open>irq_clock_for\<close>: the clock of line \<open>ln\<close> at which the H/V timer raises the IRQ line, or -1.\<close>

definition irq_clock_for :: "u8 \<Rightarrow> u16 \<Rightarrow> u16 \<Rightarrow> nat \<Rightarrow> fatal + int" where
  "irq_clock_for nmitimen htime vtime ln =
     (let mode = drop_bit 4 nmitimen AND 3 in
      if mode = 0 then Inr (- 1)
      else if mode = 2 then Inr (if ln = unat vtime then (if vtime \<noteq> 0 then 14 else 10) else - 1)
      else if mode = 3 \<and> ln \<noteq> unat vtime then Inr (- 1)
      else if htime > 339 then Inr (- 1)
      else if htime \<ge> 337 then Inl (Htime_end_of_line htime)
      else Inr (18 + 4 * int (unat htime)))"

text \<open>Clocks of line \<open>ln\<close> of frame \<open>frame\<close>: \<open>line_clocks\<close> and \<open>walk_line_clocks\<close>.\<close>

definition line_clocks :: "int \<Rightarrow> int \<Rightarrow> nat \<Rightarrow> nat" where
  "line_clocks field_base frame ln =
     (if ln = 240 \<and> odd (frame - field_base) then SCHED_CLOCKS_PER_LINE - 4 else SCHED_CLOCKS_PER_LINE)"

definition walk_line_clocks :: "walk_env \<Rightarrow> walk \<Rightarrow> nat" where
  "walk_line_clocks E w = line_clocks (we_field_base E) (w_frame w) (w_line w)"

section \<open>The next event\<close>

datatype ev = Ev_refresh | Ev_hdma | Ev_init | Ev_line | Ev_nmi | Ev_irq

definition sooner :: "bool \<Rightarrow> ev \<Rightarrow> nat \<Rightarrow> ev \<times> nat \<Rightarrow> ev \<times> nat" where
  "sooner c k at b = (if c \<and> at < snd b then (k, at) else b)"

definition init_at :: "nat \<Rightarrow> nat" where "init_at ls = ls + 12 + ls mod 8"
definition refresh_clock :: "nat \<Rightarrow> nat" where "refresh_clock ls = ls + 538 - ls mod 8"

definition walk_next :: "walk_env \<Rightarrow> walk \<Rightarrow> ev \<times> nat" where
  "walk_next E w =
     sooner (\<not> w_hdma_done w \<and> w_line w < SCHED_VBLANK_LINE) Ev_hdma (w_ls w + SCHED_HDMA_CLOCK)
     (sooner (\<not> w_refresh_done w) Ev_refresh (refresh_clock (w_ls w))
     (sooner (w_line w = 0 \<and> \<not> w_init_done w) Ev_init (init_at (w_ls w))
     (sooner (\<not> w_irq_done w \<and> 0 \<le> w_irq_at w) Ev_irq (w_ls w + nat (w_irq_at w))
     (sooner (w_line w = SCHED_VBLANK_LINE \<and> \<not> w_nmi_done w) Ev_nmi (w_ls w + 6)
     (Ev_line, w_ls w + walk_line_clocks E w)))))"

section \<open>Letting time pass\<close>

definition next_line :: "nat \<Rightarrow> walk \<Rightarrow> walk" where
  "next_line e w =
     (let ln = w_line w + 1; wrap = (ln = SCHED_LINES) in
      w\<lparr>w_ls := e, w_line := (if wrap then 0 else ln), w_frame := (if wrap then w_frame w + 1 else w_frame w),
        w_edge := w_edge w \<or> wrap, w_refresh_done := False, w_hdma_done := False, w_init_done := False,
        w_nmi_done := False, w_irq_done := False\<rparr>)"

definition walk_event :: "walk_env \<Rightarrow> ev \<Rightarrow> nat \<Rightarrow> walk \<times> pend \<Rightarrow> fatal + walk \<times> pend" where
  "walk_event E k e = (\<lambda>(w, p). case k of
     Ev_refresh \<Rightarrow> Inr (w\<lparr>w_refresh_done := True, refreshes := refreshes w + 1\<rparr>, p)
   | Ev_hdma \<Rightarrow> Inr (w\<lparr>w_hdma_done := True\<rparr>,
       if we_hdma_enabled E then p\<lparr>p_hdma := True, hdma_cost := we_hdma_cost E, p_delay := True\<rparr> else p)
   | Ev_init \<Rightarrow> Inr (w\<lparr>w_init_done := True\<rparr>,
       let p1 = p\<lparr>p_delay := True\<rparr> in
       if we_hdma_enabled E then p1\<lparr>p_init := True, init_cost := we_init_cost E\<rparr> else p1)
   | Ev_nmi \<Rightarrow> Inr (w\<lparr>w_nmi_done := True\<rparr>,
       if we_nmitimen E AND 0x80 \<noteq> 0 then p\<lparr>nmi_count := 1\<rparr> else p)
   | Ev_irq \<Rightarrow> Inr (w\<lparr>w_irq_done := True\<rparr>, p\<lparr>irq_line := True\<rparr>)
   | Ev_line \<Rightarrow>
       (let w1 = next_line e w in
        case irq_clock_for (we_nmitimen E) (we_htime E) (we_vtime E) (w_line w1) of
          Inl err \<Rightarrow> Inl err
        | Inr at \<Rightarrow> Inr (w1\<lparr>w_irq_at := at\<rparr>, p)))"

text \<open>The loop of \<open>walk_pass\<close>: \<open>end\<close> and \<open>smp\<close>, both moved on by a refresh on the way.\<close>

definition undone :: "walk \<Rightarrow> nat" where
  "undone w = of_bool (\<not> w_refresh_done w) + of_bool (\<not> w_hdma_done w) + of_bool (\<not> w_init_done w)
     + of_bool (\<not> w_nmi_done w) + of_bool (\<not> w_irq_done w)"

lemma soonerE: "sooner c k at b = r \<Longrightarrow> (c \<Longrightarrow> r = (k, at) \<Longrightarrow> P) \<Longrightarrow> (b = r \<Longrightarrow> P) \<Longrightarrow> P"
  by (auto simp: sooner_def split: if_splits)

lemma sooner_le: "snd (sooner c k at b) \<le> snd b" "c \<Longrightarrow> snd (sooner c k at b) \<le> at"
  by (auto simp: sooner_def)

lemma walk_next_cases:
  obtains "walk_next E w = (Ev_line, w_ls w + walk_line_clocks E w)"
  | "\<not> w_nmi_done w" "walk_next E w = (Ev_nmi, w_ls w + 6)" "w_line w = SCHED_VBLANK_LINE"
  | "\<not> w_irq_done w" "walk_next E w = (Ev_irq, w_ls w + nat (w_irq_at w))" "0 \<le> w_irq_at w"
  | "\<not> w_init_done w" "walk_next E w = (Ev_init, init_at (w_ls w))" "w_line w = 0"
  | "\<not> w_refresh_done w" "walk_next E w = (Ev_refresh, refresh_clock (w_ls w))"
  | "\<not> w_hdma_done w" "walk_next E w = (Ev_hdma, w_ls w + SCHED_HDMA_CLOCK)" "w_line w < SCHED_VBLANK_LINE"
proof -
  obtain r where "walk_next E w = r" by blast
  then have "sooner (\<not> w_hdma_done w \<and> w_line w < SCHED_VBLANK_LINE) Ev_hdma (w_ls w + SCHED_HDMA_CLOCK)
     (sooner (\<not> w_refresh_done w) Ev_refresh (refresh_clock (w_ls w))
     (sooner (w_line w = 0 \<and> \<not> w_init_done w) Ev_init (init_at (w_ls w))
     (sooner (\<not> w_irq_done w \<and> 0 \<le> w_irq_at w) Ev_irq (w_ls w + nat (w_irq_at w))
     (sooner (w_line w = SCHED_VBLANK_LINE \<and> \<not> w_nmi_done w) Ev_nmi (w_ls w + 6)
     (Ev_line, w_ls w + walk_line_clocks E w))))) = r" by (simp only: walk_next_def)
  then show ?thesis
    by (elim soonerE conjE) (insert that[unfolded \<open>walk_next E w = r\<close>], blast+)
qed

lemma line_clocks_bounds: "1360 \<le> line_clocks b f l" "line_clocks b f l \<le> 1364"
  by (simp_all add: line_clocks_def sched_consts)

definition to_go :: "nat \<Rightarrow> walk \<Rightarrow> nat" where
  "to_go endc w = endc + (if w_refresh_done w then 0 else REFRESH_CLOCKS) - w_ls w"

lemma walk_event_walk:
  assumes "walk_event E k e (w, p) = Inr (w', p')"
  shows "k = Ev_refresh \<Longrightarrow> w' = w\<lparr>w_refresh_done := True, refreshes := refreshes w + 1\<rparr>"
    "k = Ev_hdma \<Longrightarrow> w' = w\<lparr>w_hdma_done := True\<rparr>"
    "k = Ev_init \<Longrightarrow> w' = w\<lparr>w_init_done := True\<rparr>"
    "k = Ev_nmi \<Longrightarrow> w' = w\<lparr>w_nmi_done := True\<rparr>"
    "k = Ev_irq \<Longrightarrow> w' = w\<lparr>w_irq_done := True\<rparr>"
    "k = Ev_line \<Longrightarrow> \<exists>at. w' = (next_line e w)\<lparr>w_irq_at := at\<rparr> \<and>
       irq_clock_for (we_nmitimen E) (we_htime E) (we_vtime E) (w_line (next_line e w)) = Inr at"
  using assms unfolding walk_event_def by (simp_all add: Let_def split: sum.splits)

lemma walk_event_progress:
  assumes "walk_event E (fst (walk_next E w)) (snd (walk_next E w)) (w, p) = Inr (w', p')"
    and "snd (walk_next E w) \<le> endc"
  defines "endc' \<equiv> if fst (walk_next E w) = Ev_refresh then endc + REFRESH_CLOCKS else endc"
  shows "to_go endc' w' < to_go endc w \<or> to_go endc' w' = to_go endc w \<and> undone w' < undone w"
proof -
  have len: "1360 \<le> walk_line_clocks E w" by (simp add: walk_line_clocks_def line_clocks_bounds)
  note w' = walk_event_walk[OF assms(1)]
  show ?thesis
  proof (cases rule: walk_next_cases[of E w])
    case 1
    then show ?thesis using w'(6) assms(2) len by (auto simp: endc'_def to_go_def next_line_def Let_def sched_consts)
  next
    case 2
    then show ?thesis using w'(4) by (simp add: endc'_def to_go_def undone_def)
  next
    case 3
    then show ?thesis using w'(5) by (simp add: endc'_def to_go_def undone_def)
  next
    case 4
    then show ?thesis using w'(3) by (simp add: endc'_def to_go_def undone_def)
  next
    case 5
    then show ?thesis using w'(1) by (simp add: endc'_def to_go_def undone_def)
  next
    case 6
    then show ?thesis using w'(2) by (simp add: endc'_def to_go_def undone_def)
  qed
qed

function walk_loop :: "walk_env \<Rightarrow> nat \<Rightarrow> nat \<Rightarrow> walk \<times> pend \<Rightarrow> fatal + nat \<times> walk \<times> pend" where
  "walk_loop E endc smp (w, p) =
     (let (k, e) = walk_next E w in
      if e > endc then Inr (smp, w\<lparr>w_t := endc\<rparr>, p)
      else case walk_event E k e (w, p) of
        Inl err \<Rightarrow> Inl err
      | Inr wp \<Rightarrow> walk_loop E (if k = Ev_refresh then endc + REFRESH_CLOCKS else endc)
          (if k = Ev_refresh \<and> e \<le> smp then smp + REFRESH_CLOCKS else smp) wp)"
  by pat_completeness auto
termination
proof (relation "measures [\<lambda>(E, endc, smp, w, p). to_go endc w, \<lambda>(E, endc, smp, w, p). undone w]", goal_cases)
  case 1
  show ?case by simp
next
  case (2 E endc smp w p kk k e wp)
  then have k: "k = fst (walk_next E w)" "e = snd (walk_next E w)" by (metis fst_conv, metis snd_conv)
  moreover obtain w' p' where "wp = (w', p')" by fastforce
  ultimately show ?case using walk_event_progress[of E w p w' p' endc] 2(3,4) by auto
qed

declare walk_loop.simps [simp del]

text \<open>\<open>clocks\<close> of CPU or DMA time; the result is the sample clock, \<open>sample\<close> clocks in.\<close>

definition walk_pass :: "walk_env \<Rightarrow> nat \<Rightarrow> nat \<Rightarrow> nat walking" where
  "walk_pass E clocks sample = (\<lambda>(w, p). walk_loop E (w_t w + clocks) (w_t w + sample) (w, p))"

definition pass :: "walk_env \<Rightarrow> nat \<Rightarrow> unit walking" where
  "pass E clocks = thn (walk_pass E clocks 0) (ret ())"

section \<open>Pending transfers\<close>

definition get_p :: "(pend \<Rightarrow> 'a) \<Rightarrow> 'a walking" where "get_p f = gets (\<lambda>(w, p). f p)"
definition get_w :: "(walk \<Rightarrow> 'a) \<Rightarrow> 'a walking" where "get_w f = gets (\<lambda>(w, p). f w)"
definition put_p :: "(pend \<Rightarrow> pend) \<Rightarrow> unit walking" where "put_p f = modify (\<lambda>(w, p). (w, f p))"
definition put_w :: "(walk \<Rightarrow> walk) \<Rightarrow> unit walking" where "put_w f = modify (\<lambda>(w, p). (f w, p))"

text \<open>HDMA or init inside a general DMA; the result is what is added to \<open>*count\<close>.\<close>

definition walk_dma_pending :: "walk_env \<Rightarrow> nat walking" where
  "walk_dma_pending E = bnd (get_p id) (\<lambda>p.
     if p_delay p then thn (put_p (p_delay_update (\<lambda>_. False))) (ret 0)
     else if p_hdma p then
       thn (put_p (p_hdma_update (\<lambda>_. False))) (thn (pass E (hdma_cost p)) (bnd (get_p hdma_cost) ret))
     else if p_init p then
       thn (put_p (p_init_update (\<lambda>_. False))) (thn (pass E (init_cost p)) (bnd (get_p init_cost) ret))
     else ret 0)"

text \<open>The loop over the bytes of a channel.\<close>

fun walk_bytes :: "walk_env \<Rightarrow> nat \<Rightarrow> nat walking" where
  "walk_bytes E 0 = ret 0"
| "walk_bytes E (Suc n) = thn (pass E 8) (bnd (walk_dma_pending E) (\<lambda>a. bnd (walk_bytes E n) (\<lambda>b. ret (a + b))))"

text \<open>The loop over the channels, from the sizes of the remaining ones; \<open>count\<close> so far.\<close>

fun walk_channels :: "walk_env \<Rightarrow> nat list \<Rightarrow> nat \<Rightarrow> nat walking" where
  "walk_channels E [] count = ret count"
| "walk_channels E (n # ns) count =
     (if n = 0 then walk_channels E ns count
      else thn (pass E 8) (bnd (walk_dma_pending E) (\<lambda>a. bnd (walk_bytes E n) (\<lambda>b.
        walk_channels E ns (count + 8 + a + b + 8 * (if we_count8 E then n mod 256 else n))))))"

text \<open>
  The transfer of \<open>walk_pending\<close>, after the sync; the result is \<open>count\<close>. The sizes are read before
  the DMA starts: nothing in it changes them.
\<close>

definition run_transfer :: "walk_env \<Rightarrow> nat \<Rightarrow> nat walking" where
  "run_transfer E count = bnd (get_p id) (\<lambda>p.
     if p_hdma p \<or> p_init p then
       let n = (if p_hdma p then hdma_cost p else init_cost p) in
       thn (put_p (if p_hdma p then p_hdma_update (\<lambda>_. False) else p_init_update (\<lambda>_. False)))
         (thn (pass E n) (ret (count + n)))
     else
       thn (put_p (p_dma_update (\<lambda>_. False))) (thn (bnd (get_w w_t) (\<lambda>t. put_w (w_dma_lo_update (\<lambda>_. t))))
         (thn (pass E 8) (bnd (walk_dma_pending E) (\<lambda>a.
           bnd (walk_channels E (dma_sizes p) (count + 8 + a)) (\<lambda>count.
           thn (bnd (get_w w_t) (\<lambda>t. put_w (w_dma_hi_update (\<lambda>_. t)))) (ret count)))))))"

text \<open>At the start of a CPU cycle of \<open>speed\<close> clocks; the result is whether a transfer ran (\<open>lock\<close>).\<close>

definition walk_pending :: "walk_env \<Rightarrow> nat \<Rightarrow> bool walking" where
  "walk_pending E speed = bnd (get_p id) (\<lambda>p.
     if \<not> (p_delay p \<or> p_hdma p \<or> p_init p \<or> p_dma p) then ret False
     else if p_delay p then thn (put_p (p_delay_update (\<lambda>_. False))) (ret False)
     else bnd (get_w w_t) (\<lambda>t. let sync = 8 - t mod 8 in
       thn (pass E sync) (bnd (run_transfer E sync) (\<lambda>count.
       thn (pass E (speed - count mod speed)) (ret True)))))"

section \<open>CPU cycles\<close>

text \<open>\<open>walk_cycle_start\<close>: a pending transfer, then the NMI counter and the IRQ line are sampled.\<close>

definition sample_lines :: "bool \<Rightarrow> bool \<Rightarrow> pend \<Rightarrow> pend" where
  "sample_lines lock i p =
     (let p1 = (if nmi_count p \<noteq> 0
                then let p' = p\<lparr>nmi_count := nmi_count p - 1\<rparr> in
                     if nmi_count p' = 0 then (if lock then p'\<lparr>nmi_count := 1\<rparr> else p'\<lparr>need_nmi := True\<rparr>) else p'
                else p)
      in p1\<lparr>prev_irq := \<not> lock \<and> irq_line p1 \<and> \<not> i\<rparr>)"

definition walk_cycle_start :: "walk_env \<Rightarrow> nat \<Rightarrow> bool \<Rightarrow> unit walking" where
  "walk_cycle_start E speed i = bnd (walk_pending E speed) (\<lambda>lock. put_p (sample_lines lock i))"

text \<open>The body of the loop of \<open>walk_insn\<close>; the result is the cycle's sample clock.\<close>

definition after_access :: "int \<Rightarrow> pend \<Rightarrow> pend" where
  "after_access idx p =
     (let p1 = (if 0 \<le> idx \<and> idx = dma_after p then p\<lparr>p_dma := True, p_delay := True, dma_after := - 1\<rparr> else p)
      in if 0 \<le> idx \<and> idx = nmi_after p1 then p1\<lparr>nmi_count := 2, nmi_after := - 1\<rparr> else p1)"

definition walk_cycle :: "walk_env \<Rightarrow> bool \<Rightarrow> cycle \<Rightarrow> nat walking" where
  "walk_cycle E i = (\<lambda>(clk, kind, idx).
     let c = unat clk; smp = (if kind = CY_READ then unat (to32 clk - 4) else c) in
     thn (walk_cycle_start E c i) (bnd (walk_pass E c smp) (\<lambda>sampled.
     thn (put_w (\<lambda>w. if w_edge w \<and> undo_from w < 0 \<and> 0 \<le> idx \<and> kind = CY_WRITE
                     then w\<lparr>undo_from := idx\<rparr> else w))
     (thn (put_p (after_access idx)) (ret sampled)))))"

text \<open>The loop: the sample clock of the last cycle, or of the start without cycles.\<close>

fun walk_cycles :: "walk_env \<Rightarrow> bool \<Rightarrow> cycle list \<Rightarrow> nat \<Rightarrow> nat walking" where
  "walk_cycles E i [] sampled = ret sampled"
| "walk_cycles E i (c # cs) sampled = bnd (walk_cycle E i c) (walk_cycles E i cs)"

section \<open>What the loop keeps\<close>

text \<open>An invariant of the loop's arguments that every event within the time keeps holds at its end.\<close>

lemma walk_loop_keeps:
  assumes "walk_loop E endc smp (w, p) = Inr (smp', w', p')" "I endc smp w p"
    and step: "\<And>endc smp w p k e w1 p1. I endc smp w p \<Longrightarrow> walk_next E w = (k, e) \<Longrightarrow> e \<le> endc \<Longrightarrow>
      walk_event E k e (w, p) = Inr (w1, p1) \<Longrightarrow>
      I (if k = Ev_refresh then endc + REFRESH_CLOCKS else endc)
        (if k = Ev_refresh \<and> e \<le> smp then smp + REFRESH_CLOCKS else smp) w1 p1"
  shows "\<exists>v. w' = v\<lparr>w_t := w_t w'\<rparr> \<and> I (w_t w') smp' v p' \<and> w_t w' < snd (walk_next E v)"
  using assms
proof (induction E endc smp "(w, p)" arbitrary: w p rule: walk_loop.induct)
  case (1 E endc smp w p)
  note step = 1(4)
  obtain k e where ke: "walk_next E w = (k, e)" by fastforce
  show ?case
  proof (cases "e > endc")
    case True
    then have "w' = w\<lparr>w_t := endc\<rparr>" "smp' = smp" "p' = p"
      using 1(2) by (simp_all add: walk_loop.simps[of E endc smp w p] ke)
    then show ?thesis using 1(3) ke True by (intro exI[of _ w]) simp
  next
    case False
    then obtain w1 p1 where ev: "walk_event E k e (w, p) = Inr (w1, p1)"
      using 1(2) by (auto simp: walk_loop.simps[of E endc smp w p] ke split: sum.splits)
    then have "walk_loop E (if k = Ev_refresh then endc + REFRESH_CLOCKS else endc)
        (if k = Ev_refresh \<and> e \<le> smp then smp + REFRESH_CLOCKS else smp) (w1, p1) = Inr (smp', w', p')"
      using 1(2) ke False by (simp add: walk_loop.simps[of E endc smp w p])
    moreover have "e \<le> endc" using False by simp
    ultimately show ?thesis
      by (intro 1(1)[OF refl ke[symmetric] False ev _ step[OF 1(3) ke _ ev]] step) simp_all
  qed
qed

section \<open>The beam\<close>

text \<open>
  The specification: the master clock at which line \<open>l\<close> of frame \<open>f\<close> begins (both counted from
  the last reset), and the frame and line the beam is in at a master clock, in closed form.
\<close>

definition line_begin :: "int \<Rightarrow> nat \<Rightarrow> int" where
  "line_begin f l = 262 * 1364 * f - 4 * (f div 2) + 1364 * int l - (if odd f \<and> 240 < l then 4 else 0)"

definition beam :: "int \<Rightarrow> int \<times> nat" where
  "beam t =
     (let q = t div 714732; r = t mod 714732 in
      if r < 357368 then (2 * q, nat (r div 1364))
      else let r = r - 357368 in
           (2 * q + 1, nat (if r < 240 * 1364 + 1360 then r div 1364 else (r + 4) div 1364)))"

lemma line_begin_Suc: "l < 261 \<Longrightarrow> line_begin (f - b) (Suc l) = line_begin (f - b) l + int (line_clocks b f l)"
  by (auto simp: line_begin_def line_clocks_def sched_consts)

lemma line_begin_frame: "line_begin (f + 1 - b) 0 = line_begin (f - b) 261 + int (line_clocks b f 261)"
proof -
  have "(f + 1 - b) div 2 = (f - b) div 2 + (if odd (f - b) then 1 else 0)" by presburger
  then show ?thesis by (simp add: line_begin_def line_clocks_def sched_consts)
qed

lemma beam_line:
  assumes "l < 262" "line_begin (f - b) l \<le> t" "t < line_begin (f - b) l + int (line_clocks b f l)"
  shows "beam t = (f - b, l)"
proof -
  define d q where "d = f - b" and "q = d div 2"
  have d: "d = 2 * q + (if odd d then 1 else 0)" unfolding q_def by presburger
  have div: "r div n = k" if "n * k \<le> r" "r < n * k + n" for r n k :: int
    using that by (intro int_div_pos_eq[where r = "r - n * k"]) auto
  let ?r = "t - 714732 * q"
  have lb: "line_begin (f - b) l = 714732 * q + (if odd d then 357368 else 0) + 1364 * int l - (if odd d \<and> 240 < l then 4 else 0)"
    using d unfolding line_begin_def d_def[symmetric] q_def[symmetric] by (cases "odd d") auto
  have r: "0 \<le> ?r" "?r < 714732"
    using assms unfolding lb by (auto simp: line_clocks_def sched_consts d_def[symmetric] split: if_splits)
  have q: "t div 714732 = q" using r by (intro div) simp_all
  then have m: "t mod 714732 = ?r" by (simp add: minus_mult_div_eq_mod[symmetric])
  show ?thesis
  proof (cases "odd d")
    case False
    then have "?r div 1364 = int l" "?r < 357368"
      using assms unfolding lb by (auto intro!: div simp: line_clocks_def sched_consts d_def[symmetric])
    moreover have "f - b = 2 * q" using d False by (simp add: d_def[symmetric])
    ultimately show ?thesis by (simp add: beam_def q m Let_def)
  next
    case True
    then have "\<not> ?r < 357368" using assms unfolding lb by (auto split: if_splits)
    moreover have "(if ?r - 357368 < 240 * 1364 + 1360 then (?r - 357368) div 1364 else (?r - 357368 + 4) div 1364) = int l"
    proof (cases "240 < l")
      case True
      then show ?thesis using assms \<open>odd d\<close> unfolding lb
        by (auto intro!: div simp: line_clocks_def sched_consts d_def[symmetric])
    next
      case False
      then show ?thesis using assms \<open>odd d\<close> unfolding lb
        by (auto intro!: div simp: line_clocks_def sched_consts d_def[symmetric] split: if_splits)
    qed
    moreover have "f - b = 2 * q + 1" using d True by (simp add: d_def[symmetric])
    ultimately show ?thesis by (simp add: beam_def q m Let_def)
  qed
qed

text \<open>The walk is where the beam is.\<close>

definition tracks :: "walk_env \<Rightarrow> walk \<Rightarrow> bool" where
  "tracks E w \<longleftrightarrow> w_line w < SCHED_LINES \<and>
     int (w_ls w) = line_begin (w_frame w - we_field_base E) (w_line w)"

text \<open>No event of the line is marked done before its time, and the line has begun.\<close>

definition punctual :: "nat \<Rightarrow> walk \<Rightarrow> bool" where
  "punctual t w \<longleftrightarrow> w_ls w \<le> t \<and>
     (w_refresh_done w \<longrightarrow> refresh_clock (w_ls w) \<le> t) \<and>
     (w_line w < SCHED_VBLANK_LINE \<and> w_hdma_done w \<longrightarrow> w_ls w + SCHED_HDMA_CLOCK \<le> t) \<and>
     (w_line w = 0 \<and> w_init_done w \<longrightarrow> init_at (w_ls w) \<le> t) \<and>
     (w_line w = SCHED_VBLANK_LINE \<and> w_nmi_done w \<longrightarrow> w_ls w + 6 \<le> t) \<and>
     (0 \<le> w_irq_at w \<and> w_irq_done w \<longrightarrow> w_ls w + nat (w_irq_at w) \<le> t)"

lemma walk_event_same:
  assumes "walk_event E k e (w, p) = Inr (w', p')" "k \<noteq> Ev_line"
  shows "w_ls w' = w_ls w" "w_line w' = w_line w" "w_frame w' = w_frame w" "w_irq_at w' = w_irq_at w"
    "w_t w' = w_t w" "w_edge w' = w_edge w"
  using assms unfolding walk_event_def by (cases k; auto)+

lemma tracks_event:
  assumes "tracks E w" "walk_next E w = (k, e)" "walk_event E k e (w, p) = Inr (w1, p1)"
  shows "tracks E w1"
proof (cases "k = Ev_line")
  case True
  then have e: "e = w_ls w + walk_line_clocks E w"
    using assms(2) by (cases rule: walk_next_cases[of E w]) simp_all
  obtain at where w1: "w1 = (next_line e w)\<lparr>w_irq_at := at\<rparr>" using walk_event_walk(6)[OF assms(3) True] by blast
  show ?thesis
  proof (cases "w_line w = 261")
    case True
    then show ?thesis using assms(1) line_begin_frame[of "w_frame w" "we_field_base E"]
      by (simp add: w1 e tracks_def next_line_def Let_def sched_consts(2) walk_line_clocks_def)
  next
    case False
    then show ?thesis using assms(1) line_begin_Suc[of "w_line w" "w_frame w" "we_field_base E"]
      by (simp add: w1 e tracks_def next_line_def Let_def sched_consts(2) walk_line_clocks_def)
  qed
next
  case False
  then show ?thesis using assms(1) walk_event_same[OF assms(3)] by (simp add: tracks_def)
qed

lemma punctual_later: "punctual t w \<Longrightarrow> t \<le> t' \<Longrightarrow> punctual t' w"
  unfolding punctual_def by (meson order_trans)

lemma punctual_event:
  assumes "punctual endc w" "walk_next E w = (k, e)" "e \<le> endc" "walk_event E k e (w, p) = Inr (w1, p1)" "endc \<le> endc'"
  shows "punctual endc' w1"
proof (cases "k = Ev_line")
  case True
  obtain at where w1: "w1 = (next_line e w)\<lparr>w_irq_at := at\<rparr>" using walk_event_walk(6)[OF assms(4) True] by blast
  then show ?thesis using assms(3,5) by (simp add: punctual_def next_line_def Let_def)
next
  case False
  note same = walk_event_same[OF assms(4) False]
  have "punctual endc w1"
  proof (cases rule: walk_next_cases[of E w])
    case 1
    then show ?thesis using False assms(2) by simp
  next
    case 2
    then show ?thesis using walk_event_walk(4)[OF assms(4)] assms(1-3) by (simp add: punctual_def)
  next
    case 3
    then show ?thesis using walk_event_walk(5)[OF assms(4)] assms(1-3) by (simp add: punctual_def)
  next
    case 4
    then show ?thesis using walk_event_walk(3)[OF assms(4)] assms(1-3) by (simp add: punctual_def)
  next
    case 5
    then show ?thesis using walk_event_walk(1)[OF assms(4)] assms(1-3) by (simp add: punctual_def)
  next
    case 6
    then show ?thesis using walk_event_walk(2)[OF assms(4)] assms(1-3) by (simp add: punctual_def)
  qed
  then show ?thesis using assms(5) by (rule punctual_later)
qed

lemma walk_loop_tracks:
  assumes "walk_loop E endc smp (w, p) = Inr (smp', w', p')" "tracks E w"
  shows "tracks E w'"
proof -
  have "\<exists>v. w' = v\<lparr>w_t := w_t w'\<rparr> \<and> tracks E v \<and> w_t w' < snd (walk_next E v)"
    by (rule walk_loop_keeps[OF assms(1), where I = "\<lambda>_ _ w _. tracks E w"]) (use assms(2) tracks_event in blast)+
  then show ?thesis by (metis (no_types, lifting) tracks_def walk.select_convs walk.surjective walk.update_convs(1))
qed

text \<open>
  After time has passed the walk is settled: its clock is inside its line, and exactly the events
  of the line whose clock has come are done.
\<close>

definition settled :: "walk_env \<Rightarrow> walk \<Rightarrow> bool" where
  "settled E w \<longleftrightarrow> w_ls w \<le> w_t w \<and> w_t w < w_ls w + walk_line_clocks E w \<and>
     (w_refresh_done w \<longleftrightarrow> refresh_clock (w_ls w) \<le> w_t w) \<and>
     (w_line w < SCHED_VBLANK_LINE \<longrightarrow> (w_hdma_done w \<longleftrightarrow> w_ls w + SCHED_HDMA_CLOCK \<le> w_t w)) \<and>
     (w_line w = 0 \<longrightarrow> (w_init_done w \<longleftrightarrow> init_at (w_ls w) \<le> w_t w)) \<and>
     (w_line w = SCHED_VBLANK_LINE \<longrightarrow> (w_nmi_done w \<longleftrightarrow> w_ls w + 6 \<le> w_t w)) \<and>
     (0 \<le> w_irq_at w \<longrightarrow> (w_irq_done w \<longleftrightarrow> w_ls w + nat (w_irq_at w) \<le> w_t w))"

lemma walk_next_le:
  shows "snd (walk_next E w) \<le> w_ls w + walk_line_clocks E w"
    and "\<not> w_refresh_done w \<Longrightarrow> snd (walk_next E w) \<le> refresh_clock (w_ls w)"
    and "\<not> w_hdma_done w \<Longrightarrow> w_line w < SCHED_VBLANK_LINE \<Longrightarrow> snd (walk_next E w) \<le> w_ls w + SCHED_HDMA_CLOCK"
    and "\<not> w_init_done w \<Longrightarrow> w_line w = 0 \<Longrightarrow> snd (walk_next E w) \<le> init_at (w_ls w)"
    and "\<not> w_nmi_done w \<Longrightarrow> w_line w = SCHED_VBLANK_LINE \<Longrightarrow> snd (walk_next E w) \<le> w_ls w + 6"
    and "\<not> w_irq_done w \<Longrightarrow> 0 \<le> w_irq_at w \<Longrightarrow> snd (walk_next E w) \<le> w_ls w + nat (w_irq_at w)"
proof -
  note le = order_trans[OF sooner_le(1)]
  show "snd (walk_next E w) \<le> w_ls w + walk_line_clocks E w"
    unfolding walk_next_def by (rule le, rule le, rule le, rule le, rule le) simp
  show "\<not> w_refresh_done w \<Longrightarrow> snd (walk_next E w) \<le> refresh_clock (w_ls w)"
    unfolding walk_next_def by (rule le, rule sooner_le(2))
  show "\<not> w_hdma_done w \<Longrightarrow> w_line w < SCHED_VBLANK_LINE \<Longrightarrow> snd (walk_next E w) \<le> w_ls w + SCHED_HDMA_CLOCK"
    unfolding walk_next_def by (rule sooner_le(2)) simp
  show "\<not> w_init_done w \<Longrightarrow> w_line w = 0 \<Longrightarrow> snd (walk_next E w) \<le> init_at (w_ls w)"
    unfolding walk_next_def by (rule le, rule le, rule sooner_le(2)) simp
  show "\<not> w_nmi_done w \<Longrightarrow> w_line w = SCHED_VBLANK_LINE \<Longrightarrow> snd (walk_next E w) \<le> w_ls w + 6"
    unfolding walk_next_def by (rule le, rule le, rule le, rule le, rule sooner_le(2)) simp
  show "\<not> w_irq_done w \<Longrightarrow> 0 \<le> w_irq_at w \<Longrightarrow> snd (walk_next E w) \<le> w_ls w + nat (w_irq_at w)"
    unfolding walk_next_def by (rule le, rule le, rule le, rule sooner_le(2)) simp
qed

lemma settled_at_end:
  assumes "punctual t w" "t < snd (walk_next E w)" "w_t v = t" "v = w\<lparr>w_t := t\<rparr>"
  shows "settled E v"
proof -
  note le = walk_next_le[where w = w and E = E]
  note lt = order_less_le_trans[OF assms(2)]
  have v: "w_ls v = w_ls w" "w_line v = w_line w" "w_frame v = w_frame w" "w_irq_at v = w_irq_at w"
    "w_refresh_done v = w_refresh_done w" "w_hdma_done v = w_hdma_done w" "w_init_done v = w_init_done w"
    "w_nmi_done v = w_nmi_done w" "w_irq_done v = w_irq_done w" "walk_line_clocks E v = walk_line_clocks E w"
    by (simp_all add: assms(4) walk_line_clocks_def)
  have p: "punctual t w" by (rule assms(1))
  show ?thesis
    unfolding settled_def v assms(3)
  proof (intro conjI impI iffI)
    show "w_ls w \<le> t" using p by (simp add: punctual_def)
    show "t < w_ls w + walk_line_clocks E w" by (rule lt[OF le(1)])
    show "w_refresh_done w \<Longrightarrow> refresh_clock (w_ls w) \<le> t" using p by (simp add: punctual_def)
    show "w_line w < SCHED_VBLANK_LINE \<Longrightarrow> w_hdma_done w \<Longrightarrow> w_ls w + SCHED_HDMA_CLOCK \<le> t" using p by (simp add: punctual_def)
    show "w_line w = 0 \<Longrightarrow> w_init_done w \<Longrightarrow> init_at (w_ls w) \<le> t" using p by (simp add: punctual_def)
    show "w_line w = SCHED_VBLANK_LINE \<Longrightarrow> w_nmi_done w \<Longrightarrow> w_ls w + 6 \<le> t" using p by (simp add: punctual_def)
    show "0 \<le> w_irq_at w \<Longrightarrow> w_irq_done w \<Longrightarrow> w_ls w + nat (w_irq_at w) \<le> t" using p by (simp add: punctual_def)
  qed (use lt[OF le(2)] lt[OF le(3)] lt[OF le(4)] lt[OF le(5)] lt[OF le(6)] in force)+
qed

lemma walk_loop_settles:
  assumes "walk_loop E endc smp (w, p) = Inr (smp', w', p')" "punctual endc w"
  shows "settled E w'" "punctual (w_t w') w'"
proof -
  have "\<exists>v. w' = v\<lparr>w_t := w_t w'\<rparr> \<and> punctual (w_t w') v \<and> w_t w' < snd (walk_next E v)"
    by (rule walk_loop_keeps[OF assms(1), where I = "\<lambda>t _ w _. punctual t w"], rule assms(2))
      (erule (3) punctual_event, simp)
  then obtain v where v: "w' = v\<lparr>w_t := w_t w'\<rparr>" "punctual (w_t w') v" "w_t w' < snd (walk_next E v)" by blast
  then show "settled E w'" using settled_at_end by metis
  have "punctual (w_t w') (v\<lparr>w_t := w_t w'\<rparr>)" using v(2) by (simp add: punctual_def)
  then show "punctual (w_t w') w'" using v(1) by metis
qed

text \<open>Time: the clocks asked for and 40 for every refresh on the way; the sample is on the way.\<close>

lemma walk_event_refreshes:
  "walk_event E k e (v, q) = Inr (w1, p1) \<Longrightarrow>
    refreshes w1 = (if k = Ev_refresh then Suc (refreshes v) else refreshes v)"
  unfolding walk_event_def by (cases k) (auto simp: next_line_def Let_def split: sum.splits)

lemma walk_loop_time:
  assumes "walk_loop E endc smp (w, p) = Inr (smp', w', p')"
  shows "refreshes w \<le> refreshes w'" "w_t w' = endc + REFRESH_CLOCKS * (refreshes w' - refreshes w)"
    "smp \<le> smp'" "smp \<le> endc \<Longrightarrow> smp' \<le> w_t w'"
proof -
  let ?I = "\<lambda>t s v (q :: pend). refreshes w \<le> refreshes v \<and> t = endc + REFRESH_CLOCKS * (refreshes v - refreshes w) \<and>
    smp \<le> s \<and> (smp \<le> endc \<longrightarrow> s \<le> t)"
  have "\<exists>v. w' = v\<lparr>w_t := w_t w'\<rparr> \<and> ?I (w_t w') smp' v p' \<and> w_t w' < snd (walk_next E v)"
  proof (rule walk_loop_keeps[OF assms(1), where I = ?I])
    show "?I endc smp w p" by simp
    fix t s v q k e w1 p1
    assume I: "?I t s v q" and ev: "walk_event E k e (v, q) = Inr (w1, p1)"
    have "refreshes w1 = (if k = Ev_refresh then Suc (refreshes v) else refreshes v)"
      by (rule walk_event_refreshes[OF ev])
    then show "?I (if k = Ev_refresh then t + REFRESH_CLOCKS else t)
        (if k = Ev_refresh \<and> e \<le> s then s + REFRESH_CLOCKS else s) w1 p1"
      using I by (auto simp: Suc_diff_le)
  qed
  then obtain v where v: "w' = v\<lparr>w_t := w_t w'\<rparr>" "?I (w_t w') smp' v p'" by blast
  moreover have "refreshes w' = refreshes v" by (subst v(1)) simp
  ultimately show "refreshes w \<le> refreshes w'" "w_t w' = endc + REFRESH_CLOCKS * (refreshes w' - refreshes w)"
    "smp \<le> smp'" "smp \<le> endc \<Longrightarrow> smp' \<le> w_t w'" by simp_all
qed

section \<open>From passing time to whole instructions\<close>

text \<open>
  A relation that passing time gives, that is transitive and that the bookkeeping of transfers and
  samples respects, holds between the start and the end of an instruction.
\<close>

definition same_clock :: "walk \<times> pend \<Rightarrow> walk \<times> pend \<Rightarrow> bool" where
  "same_clock s s' \<longleftrightarrow> (\<exists>a b c. fst s' = (fst s)\<lparr>undo_from := a, w_dma_lo := b, w_dma_hi := c\<rparr>) \<and>
     irq_line (snd s') = irq_line (snd s)"

lemma same_clock_p: "irq_line q = irq_line p \<Longrightarrow> same_clock (w, p) (w, q)"
  unfolding same_clock_def by (intro conjI exI[of _ "undo_from w"] exI[of _ "w_dma_lo w"] exI[of _ "w_dma_hi w"]) simp_all

lemma same_clock_w:
  "same_clock (w, p) (w\<lparr>undo_from := a\<rparr>, p)" "same_clock (w, p) (w\<lparr>w_dma_lo := b\<rparr>, p)"
  "same_clock (w, p) (w\<lparr>w_dma_hi := b\<rparr>, p)" "same_clock (w, p) (w, p)"
  unfolding same_clock_def
  by (rule conjI, rule exI[of _ a], rule exI[of _ "w_dma_lo w"], rule exI[of _ "w_dma_hi w"], simp_all)
    (rule exI[of _ "undo_from w"], rule exI[of _ b], rule exI[of _ "w_dma_hi w"], simp,
     rule exI[of _ "undo_from w"], rule exI[of _ "w_dma_lo w"], rule exI[of _ b], simp,
     rule exI[of _ "undo_from w"], rule exI[of _ "w_dma_lo w"], rule exI[of _ "w_dma_hi w"], simp)

lemma sample_lines_irq [simp]: "irq_line (sample_lines lock i p) = irq_line p"
  by (simp add: sample_lines_def Let_def)

lemma after_access_irq [simp]: "irq_line (after_access idx p) = irq_line p"
  by (simp add: after_access_def Let_def)

locale walk_order =
  fixes R :: "walk_env \<Rightarrow> walk \<times> pend \<Rightarrow> walk \<times> pend \<Rightarrow> bool"
  assumes trans: "R E a b \<Longrightarrow> R E b c \<Longrightarrow> R E a c"
    and loop: "walk_loop E (w_t w + clocks) smp (w, p) = Inr (x, s) \<Longrightarrow> R E (w, p) s"
    and book: "same_clock a b \<Longrightarrow> R E a b"
begin

lemma keeps_pass [keeps_intro]: "keeps (R E s) (walk_pass E clocks smp)"
  by (rule hoareI) (auto simp: walk_pass_def intro: trans loop)

lemma keeps_pass' [keeps_intro]: "keeps (R E s) (pass E clocks)"
  unfolding pass_def by (intro keeps_intro)

lemma keeps_put_p: "(\<And>p. irq_line (f p) = irq_line p) \<Longrightarrow> keeps (R E s) (put_p f)"
proof (rule hoareI)
  fix a x b
  assume f: "\<And>p. irq_line (f p) = irq_line p" and a: "R E s a" and b: "put_p f a = Inr (x, b)"
  obtain w p where "a = (w, p)" by fastforce
  then have "R E a b" using b f by (auto simp: put_p_def intro: book same_clock_p)
  with a show "R E s b" by (rule trans)
qed

lemma keeps_dma_pending [keeps_intro]: "keeps (R E s) (walk_dma_pending E)"
  unfolding walk_dma_pending_def get_p_def by (intro keeps_intro keeps_put_p) simp_all

lemma keeps_bytes [keeps_intro]: "keeps (R E s) (walk_bytes E n)"
  by (induction n; simp only: walk_bytes.simps; intro keeps_intro; (assumption)?)

lemma keeps_channels [keeps_intro]: "keeps (R E s) (walk_channels E ns count)"
  by (induction ns arbitrary: count; simp only: walk_channels.simps; intro keeps_intro; (assumption)?)

lemma keeps_put_w: "(\<And>w p. same_clock (w, p) (f w, p)) \<Longrightarrow> keeps (R E s) (put_w f)"
proof (rule hoareI)
  fix a x b
  assume f: "\<And>w p. same_clock (w, p) (f w, p)" and a: "R E s a" and b: "put_w f a = Inr (x, b)"
  obtain w p where "a = (w, p)" by fastforce
  then have "R E a b" using b f by (auto simp: put_w_def intro: book)
  with a show "R E s b" by (rule trans)
qed

lemma keeps_transfer [keeps_intro]: "keeps (R E s) (run_transfer E count)"
  unfolding run_transfer_def get_p_def get_w_def Let_def
  by (intro keeps_intro keeps_put_p keeps_put_w same_clock_w) simp_all

lemma keeps_pending [keeps_intro]: "keeps (R E s) (walk_pending E speed)"
  unfolding walk_pending_def get_p_def get_w_def Let_def
  by (intro keeps_intro keeps_put_p keeps_put_w same_clock_w) simp_all

lemma keeps_cycle [keeps_intro]: "keeps (R E s) (walk_cycle E i c)"
  unfolding walk_cycle_def walk_cycle_start_def Let_def
  by (cases c; simp only: prod.case; intro keeps_intro keeps_put_p keeps_put_w)
    (auto intro: same_clock_w)

lemma keeps_cycles: "keeps (R E s) (walk_cycles E i cs smp)"
  by (induction cs arbitrary: smp; simp only: walk_cycles.simps; intro keeps_intro; (assumption)?)

lemma whole: "walk_cycles E i cs smp s = Inr (x, s') \<Longrightarrow> R E s s'"
  using hoareD[OF keeps_cycles, of E s s] book[OF same_clock_w(4)] by (cases s) blast

end

section \<open>Position, clock and events\<close>

text \<open>Clock and refreshes only go on, no event is done early, the beam is followed.\<close>

definition goes_on :: "walk_env \<Rightarrow> walk \<times> pend \<Rightarrow> walk \<times> pend \<Rightarrow> bool" where
  "goes_on E a b \<longleftrightarrow> w_t (fst a) \<le> w_t (fst b) \<and> refreshes (fst a) \<le> refreshes (fst b) \<and>
     (tracks E (fst a) \<longrightarrow> tracks E (fst b)) \<and>
     (punctual (w_t (fst a)) (fst a) \<longrightarrow> punctual (w_t (fst b)) (fst b))"

lemma same_clock_fields:
  assumes "same_clock a b"
  shows "w_t (fst b) = w_t (fst a)" "refreshes (fst b) = refreshes (fst a)" "w_line (fst b) = w_line (fst a)"
    "w_ls (fst b) = w_ls (fst a)" "w_frame (fst b) = w_frame (fst a)" "w_irq_at (fst b) = w_irq_at (fst a)"
    "w_refresh_done (fst b) = w_refresh_done (fst a)" "w_hdma_done (fst b) = w_hdma_done (fst a)"
    "w_init_done (fst b) = w_init_done (fst a)" "w_nmi_done (fst b) = w_nmi_done (fst a)"
    "w_irq_done (fst b) = w_irq_done (fst a)" "irq_line (snd b) = irq_line (snd a)"
  using assms unfolding same_clock_def by auto

lemma punctual_pass: "punctual (w_t w) w \<Longrightarrow> punctual (w_t w + n) w"
  by (erule punctual_later) (rule le_add1)

interpretation clocking: walk_order goes_on
proof (unfold_locales, goal_cases)
  case (1 E a b c)
  then show ?case unfolding goes_on_def by (meson order_trans)
next
  case (2 E w clocks smp p x s)
  obtain w' p' where s: "s = (w', p')" by fastforce
  note l = 2[unfolded s]
  show ?case
    using walk_loop_time[OF l] walk_loop_tracks[OF l] walk_loop_settles(2)[OF l punctual_pass]
    by (simp add: goes_on_def s)
next
  case (3 a b E)
  note f = same_clock_fields[OF 3]
  show ?case by (simp add: goes_on_def tracks_def punctual_def f)
qed

lemma tracks_same: "same_clock a b \<Longrightarrow> tracks E (fst b) = tracks E (fst a)"
  by (simp add: tracks_def same_clock_fields)

lemma settled_same: "same_clock a b \<Longrightarrow> settled E (fst b) = settled E (fst a)"
  by (simp add: settled_def walk_line_clocks_def same_clock_fields)

text \<open>Every cycle ends settled.\<close>

lemma put_same:
  "put_p f a = Inr (x, b) \<Longrightarrow> (\<And>p. irq_line (f p) = irq_line p) \<Longrightarrow> same_clock a b"
  "put_w g a = Inr (x, b) \<Longrightarrow> (\<And>w p. same_clock (w, p) (g w, p)) \<Longrightarrow> same_clock a b"
  by (cases a; auto simp: put_p_def put_w_def intro: same_clock_p)+

lemma walk_cycle_settles:
  assumes "walk_cycle E i c s = Inr (smp, s')" "punctual (w_t (fst s)) (fst s)"
  shows "settled E (fst s')"
proof -
  obtain clk kind idx where c: "c = (clk, kind, idx)" by (metis prod_cases3)
  obtain s1 s2 s3 n where 1: "walk_cycle_start E (unat clk) i s = Inr ((), s1)"
    and 2: "walk_pass E (unat clk) n s1 = Inr (smp, s2)"
    and 3: "put_w (\<lambda>w. if w_edge w \<and> undo_from w < 0 \<and> 0 \<le> idx \<and> kind = CY_WRITE
                     then w\<lparr>undo_from := idx\<rparr> else w) s2 = Inr ((), s3)"
    and 4: "put_p (after_access idx) s3 = Inr ((), s')"
    using assms(1) unfolding walk_cycle_def c Let_def prod.case thn_def
    by (auto simp: bnd_Inr)
  have "keeps (goes_on E s) (walk_cycle_start E (unat clk) i)"
    unfolding walk_cycle_start_def by (intro keeps_intro clocking.keeps_pending clocking.keeps_put_p) simp
  then have "goes_on E s s1" using 1 clocking.book[OF same_clock_w(4)] by (cases s) (meson hoareD)
  then have "punctual (w_t (fst s1)) (fst s1)" using assms(2) by (simp add: goes_on_def)
  then have "settled E (fst s2)"
    using 2 walk_loop_settles(1)[OF _ punctual_pass] by (cases s1; cases s2) (auto simp: walk_pass_def)
  moreover have "same_clock s2 s3" by (rule put_same(2)[OF 3]) (auto intro: same_clock_w)
  moreover have "same_clock s3 s'" by (rule put_same(1)[OF 4]) simp
  ultimately show ?thesis using settled_same by metis
qed

lemma walk_cycles_settle:
  assumes "walk_cycles E i cs smp s = Inr (x, s')" "punctual (w_t (fst s)) (fst s)" "cs \<noteq> []"
  shows "settled E (fst s')"
  using assms
proof (induction cs arbitrary: smp s)
  case (Cons c cs)
  then obtain y s1 where c: "walk_cycle E i c s = Inr (y, s1)" "walk_cycles E i cs y s1 = Inr (x, s')"
    by (auto simp: bnd_Inr)
  show ?case
  proof (cases "cs = []")
    case True
    then show ?thesis using c Cons.prems(2) walk_cycle_settles by auto
  next
    case False
    have "goes_on E s s1" using c(1) clocking.keeps_cycle[of E s i c] clocking.book[OF same_clock_w(4)]
      by (cases s) (meson hoareD)
    then show ?thesis using Cons.IH[OF c(2) _ False] Cons.prems(2) by (simp add: goes_on_def)
  qed
qed simp

text \<open>C10. A walk knows where the beam is: after the cycles of any instruction, through whatever
  refreshes and transfers they met, its frame, line and line start are those of its master clock
  (in closed form), and exactly the events of that line whose clock has come are done.\<close>

theorem walk_follows_beam:
  assumes "tracks E w" "punctual (w_t w) w" "cs \<noteq> []"
    and "walk_cycles E i cs smp (w, p) = Inr (x, w', p')"
  shows "beam (int (w_t w')) = (w_frame w' - we_field_base E, w_line w') \<and>
    int (w_ls w') = line_begin (w_frame w' - we_field_base E) (w_line w') \<and>
    settled E w' \<and> w_t w \<le> w_t w'"
proof -
  have g: "goes_on E (w, p) (w', p')" by (rule clocking.whole[OF assms(4)])
  then have t: "tracks E w'" "w_t w \<le> w_t w'" using assms(1) by (simp_all add: goes_on_def)
  then have ls: "int (w_ls w') = line_begin (w_frame w' - we_field_base E) (w_line w')" by (simp add: tracks_def)
  have s: "settled E w'" using walk_cycles_settle[OF assms(4)] assms(2,3) by simp
  have "beam (int (w_t w')) = (w_frame w' - we_field_base E, w_line w')"
    using t s by (intro beam_line) (simp_all add: tracks_def settled_def walk_line_clocks_def sched_consts(2) ls[symmetric])
  with t ls s show ?thesis by blast
qed

section \<open>The H/V timer\<close>

definition later :: "int \<times> nat \<Rightarrow> int \<times> nat \<Rightarrow> bool" where
  "later a b \<longleftrightarrow> fst a < fst b \<or> fst a = fst b \<and> snd a < snd b"

text \<open>The clocks at which the timer raises the IRQ line from here on: on the walk's line if it has
  not yet, and on every later line, when the clock is inside the line.\<close>

definition irq_times :: "walk_env \<Rightarrow> walk \<Rightarrow> int set" where
  "irq_times E w =
     {int (w_ls w) + w_irq_at w |_::unit. \<not> w_irq_done w \<and> 0 \<le> w_irq_at w \<and> w_irq_at w < int (walk_line_clocks E w)} \<union>
     {line_begin (f - we_field_base E) l + a |f l a. l < SCHED_LINES \<and> later (w_frame w, w_line w) (f, l) \<and>
        irq_clock_for (we_nmitimen E) (we_htime E) (we_vtime E) l = Inr a \<and> 0 \<le> a \<and>
        a < int (line_clocks (we_field_base E) f l)}"

definition line_irqs :: "walk_env \<Rightarrow> int \<Rightarrow> nat \<Rightarrow> int \<Rightarrow> int set" where
  "line_irqs E f l at = (if 0 \<le> at \<and> at < int (line_clocks (we_field_base E) f l)
     then {line_begin (f - we_field_base E) l + at} else {})"

definition later_irqs :: "walk_env \<Rightarrow> int \<times> nat \<Rightarrow> int set" where
  "later_irqs E b = {a. \<exists>f l at. l < SCHED_LINES \<and> later b (f, l) \<and>
     irq_clock_for (we_nmitimen E) (we_htime E) (we_vtime E) l = Inr at \<and> a \<in> line_irqs E f l at}"

lemma irq_times_split:
  assumes "tracks E w"
  shows "irq_times E w = (if w_irq_done w then {} else line_irqs E (w_frame w) (w_line w) (w_irq_at w)) \<union>
    later_irqs E (w_frame w, w_line w)"
  using assms unfolding irq_times_def later_irqs_def line_irqs_def walk_line_clocks_def tracks_def
  by (auto 0 4)

definition step_line :: "int \<times> nat \<Rightarrow> int \<times> nat" where
  "step_line b = (if snd b = 261 then (fst b + 1, 0) else (fst b, Suc (snd b)))"

lemma later_step:
  assumes "snd b < 262" "l < 262"
  shows "later b (f, l) \<longleftrightarrow> (f, l) = step_line b \<or> later (step_line b) (f, l)"
  using assms by (cases b) (auto simp: later_def step_line_def)

lemma later_irqs_step:
  assumes "snd b < 262"
    "irq_clock_for (we_nmitimen E) (we_htime E) (we_vtime E) (snd (step_line b)) = Inr at"
  shows "later_irqs E b = line_irqs E (fst (step_line b)) (snd (step_line b)) at \<union> later_irqs E (step_line b)"
proof -
  have "snd (step_line b) < 262" using assms(1) by (simp add: step_line_def)
  then have s: "(l < 262 \<and> later b (f, l)) = (l < 262 \<and> ((f, l) = step_line b \<or> later (step_line b) (f, l)))" for f l
    using later_step[OF assms(1)] by blast
  obtain f0 l0 where b: "step_line b = (f0, l0)" by fastforce
  show ?thesis
    unfolding later_irqs_def sched_consts(2) conj_assoc[symmetric] s
    using assms(2) \<open>snd (step_line b) < 262\<close> unfolding b fst_conv snd_conv
    by (intro equalityI subsetI; elim UnE CollectE exE conjE disjE; auto)
qed

text \<open>Later lines begin where this one ends, or after.\<close>

lemma line_begin_mono: "f \<le> f' \<Longrightarrow> later (f, l) (f', l') \<Longrightarrow> l < 262 \<Longrightarrow> l' < 262 \<Longrightarrow>
   line_begin (f - b) l + int (line_clocks b f l) \<le> line_begin (f' - b) l'"
proof -
  assume a: "f \<le> f'" "later (f, l) (f', l')" "l < 262" "l' < 262"
  define d d' where "d = f - b" and "d' = f' - b"
  have o: "4 * (d div 2) = 2 * d - (if odd d then 2 else 0)" "4 * (d' div 2) = 2 * d' - (if odd d' then 2 else 0)"
    by presburger+
  have e: "d < d' \<Longrightarrow> even d = even d' \<Longrightarrow> d + 2 \<le> d'" by presburger
  have "d < d' \<or> d = d' \<and> l < l'" using a(2) by (auto simp: later_def d_def d'_def)
  then show ?thesis
    using a(3,4) e unfolding line_begin_def line_clocks_def sched_consts d_def[symmetric] d'_def[symmetric] o
    by (auto split: if_splits)
qed

lemma step_line_next: "w_line w < 262 \<Longrightarrow> (w_frame (next_line e w), w_line (next_line e w)) = step_line (w_frame w, w_line w)"
  by (simp add: next_line_def step_line_def Let_def sched_consts(2))

lemma no_irq_left:
  assumes "walk_next E w = (Ev_line, e)" "\<not> w_irq_done w"
  shows "line_irqs E (w_frame w) (w_line w) (w_irq_at w) = {}"
proof -
  have "w_ls w + walk_line_clocks E w = e" using assms(1) by (cases rule: walk_next_cases[of E w]) simp_all
  then show ?thesis
    using walk_next_le(6)[where w = w and E = E] assms by (auto simp: line_irqs_def walk_line_clocks_def)
qed

lemma walk_next_in_line: "snd (walk_next E w) < w_ls w + walk_line_clocks E w \<or> fst (walk_next E w) = Ev_line"
proof -
  let ?P = "\<lambda>b. (snd b < w_ls w + walk_line_clocks E w \<or> fst b = Ev_line) \<and> snd b \<le> w_ls w + walk_line_clocks E w"
  have s: "?P b \<Longrightarrow> ?P (sooner c k at b)" for c k at b by (auto simp: sooner_def)
  have "?P (walk_next E w)" unfolding walk_next_def by (rule s, rule s, rule s, rule s, rule s) simp
  then show ?thesis ..
qed

lemma walk_event_irq:
  assumes "walk_event E k e (w, p) = Inr (w', p')" "k \<noteq> Ev_irq"
  shows "irq_line p' = irq_line p" "k \<noteq> Ev_line \<Longrightarrow> w_irq_done w' = w_irq_done w"
  using assms by (cases k; auto simp: walk_event_def Let_def split: sum.splits if_splits)+

lemma irq_times_event:
  assumes "tracks E w" "walk_next E w = (k, e)" "walk_event E k e (w, p) = Inr (w1, p1)"
  shows "if k = Ev_irq then irq_times E w = insert (int e) (irq_times E w1) \<and> irq_line p1
    else irq_times E w = irq_times E w1 \<and> irq_line p1 = irq_line p"
proof (cases "k = Ev_line")
  case True
  have ln: "w_line w < 262" using assms(1) by (simp add: tracks_def sched_consts(2))
  have p: "irq_line p1 = irq_line p" using walk_event_irq(1)[OF assms(3)] True by simp
  obtain at where w1: "w1 = (next_line e w)\<lparr>w_irq_at := at\<rparr>"
    "irq_clock_for (we_nmitimen E) (we_htime E) (we_vtime E) (w_line (next_line e w)) = Inr at"
    using walk_event_walk(6)[OF assms(3) True] by blast
  note st = step_line_next[OF ln, of e]
  have "irq_times E w = later_irqs E (w_frame w, w_line w)"
    using no_irq_left[of E w e] assms(2) True by (auto simp: irq_times_split[OF assms(1)])
  also have "\<dots> = line_irqs E (w_frame w1) (w_line w1) at \<union> later_irqs E (w_frame w1, w_line w1)"
    using later_irqs_step[of "(w_frame w, w_line w)" E at] ln w1(2) st[symmetric] by (simp add: w1(1))
  also have "\<dots> = irq_times E w1"
    using irq_times_split[OF tracks_event[OF assms]] by (simp add: w1(1) next_line_def Let_def)
  finally show ?thesis using True p by simp
next
  case False
  note same = walk_event_same[OF assms(3) False]
  note i = irq_times_split[OF assms(1)] irq_times_split[OF tracks_event[OF assms]]
  show ?thesis
  proof (cases "k = Ev_irq")
    case True
    have e: "e = w_ls w + nat (w_irq_at w)" "0 \<le> w_irq_at w" "\<not> w_irq_done w"
      using assms(2) True by (cases rule: walk_next_cases[of E w]; simp)+
    have "e < w_ls w + walk_line_clocks E w" using walk_next_in_line[of E w] assms(2) True by simp
    then have "line_irqs E (w_frame w) (w_line w) (w_irq_at w) = {int e}"
      using e assms(1) by (auto simp: line_irqs_def walk_line_clocks_def tracks_def)
    moreover have "w_irq_done w1" "irq_line p1"
      using assms(3) True unfolding walk_event_def by auto
    ultimately show ?thesis using True e(3) by (simp add: i same)
  next
    case nirq: False
    have "w_irq_done w1 = w_irq_done w" "irq_line p1 = irq_line p"
      using walk_event_irq[OF assms(3) nirq] False by simp_all
    then show ?thesis using nirq by (simp add: i same)
  qed
qed

text \<open>What is raised is what has come.\<close>

definition irq_due :: "walk_env \<Rightarrow> walk \<times> pend \<Rightarrow> walk \<times> pend \<Rightarrow> bool" where
  "irq_due E a b \<longleftrightarrow> (tracks E (fst a) \<longrightarrow> tracks E (fst b) \<and> w_t (fst a) \<le> w_t (fst b) \<and>
     (\<exists>D. irq_times E (fst a) = D \<union> irq_times E (fst b) \<and> (\<forall>x\<in>D. x \<le> int (w_t (fst b))) \<and>
       (irq_line (snd b) \<longleftrightarrow> irq_line (snd a) \<or> D \<noteq> {})))"

lemma irq_loop:
  assumes "walk_loop E endc smp (w, p) = Inr (smp', w', p')" "tracks E w"
  shows "\<exists>D. irq_times E w = D \<union> irq_times E w' \<and> (\<forall>x\<in>D. x \<le> int (w_t w')) \<and> (irq_line p' \<longleftrightarrow> irq_line p \<or> D \<noteq> {})"
proof -
  let ?I = "\<lambda>t s v q. tracks E v \<and> (\<exists>D. irq_times E w = D \<union> irq_times E v \<and> (\<forall>x\<in>D. x \<le> int t) \<and>
      (irq_line q \<longleftrightarrow> irq_line p \<or> D \<noteq> {}))"
  have "\<exists>v. w' = v\<lparr>w_t := w_t w'\<rparr> \<and> ?I (w_t w') smp' v p' \<and> w_t w' < snd (walk_next E v)"
  proof (rule walk_loop_keeps[OF assms(1), where I = ?I])
    show "?I endc smp w p" using assms(2) by (intro conjI exI[of _ "{}"]) auto
    fix t s v q k e w1 p1
    assume I: "?I t s v q" and k: "walk_next E v = (k, e)" and e: "e \<le> t" and ev: "walk_event E k e (v, q) = Inr (w1, p1)"
    then obtain D where D: "irq_times E w = D \<union> irq_times E v" "\<forall>x\<in>D. x \<le> int t" "irq_line q \<longleftrightarrow> irq_line p \<or> D \<noteq> {}" by blast
    have t: "tracks E w1" using tracks_event[OF _ k ev] I by blast
    let ?D = "if k = Ev_irq then insert (int e) D else D"
    note i = irq_times_event[OF _ k ev]
    have "irq_times E w = ?D \<union> irq_times E w1" "irq_line p1 \<longleftrightarrow> irq_line p \<or> ?D \<noteq> {}"
      using i I D by (cases "k = Ev_irq"; simp)+
    moreover have "\<forall>x\<in>?D. x \<le> int (if k = Ev_refresh then t + REFRESH_CLOCKS else t)" using D(2) e by auto
    ultimately show "?I (if k = Ev_refresh then t + REFRESH_CLOCKS else t)
        (if k = Ev_refresh \<and> e \<le> s then s + REFRESH_CLOCKS else s) w1 p1" using t by blast
  qed
  then obtain v where v: "w' = v\<lparr>w_t := w_t w'\<rparr>" "?I (w_t w') smp' v p'" by blast
  have "irq_times E w' = irq_times E v" by (subst v(1)) (simp add: irq_times_def walk_line_clocks_def)
  then show ?thesis using v(2) by simp
qed

interpretation timer: walk_order irq_due
proof (unfold_locales, goal_cases)
  case (1 E a b c)
  show ?case unfolding irq_due_def
  proof (intro impI)
    assume t: "tracks E (fst a)"
    then obtain D where D: "tracks E (fst b)" "w_t (fst a) \<le> w_t (fst b)" "irq_times E (fst a) = D \<union> irq_times E (fst b)"
      "\<forall>x\<in>D. x \<le> int (w_t (fst b))" "irq_line (snd b) \<longleftrightarrow> irq_line (snd a) \<or> D \<noteq> {}"
      using 1(1) unfolding irq_due_def by blast
    obtain D' where D': "tracks E (fst c)" "w_t (fst b) \<le> w_t (fst c)" "irq_times E (fst b) = D' \<union> irq_times E (fst c)"
      "\<forall>x\<in>D'. x \<le> int (w_t (fst c))" "irq_line (snd c) \<longleftrightarrow> irq_line (snd b) \<or> D' \<noteq> {}"
      using 1(2) D(1) unfolding irq_due_def by blast
    have "\<forall>x\<in>D \<union> D'. x \<le> int (w_t (fst c))" using D(4) D'(2,4) by fastforce
    then show "tracks E (fst c) \<and> w_t (fst a) \<le> w_t (fst c) \<and>
       (\<exists>D. irq_times E (fst a) = D \<union> irq_times E (fst c) \<and> (\<forall>x\<in>D. x \<le> int (w_t (fst c))) \<and>
         (irq_line (snd c) \<longleftrightarrow> irq_line (snd a) \<or> D \<noteq> {}))"
      using D D' by (intro conjI exI[of _ "D \<union> D'"]) auto
  qed
next
  case (2 E w clocks smp p x s)
  obtain w' p' where s: "s = (w', p')" by fastforce
  note l = 2[unfolded s]
  show ?case
    using irq_loop[OF l] walk_loop_tracks[OF l] walk_loop_time(2)[OF l] by (simp add: irq_due_def s)
next
  case (3 a b E)
  note f = same_clock_fields[OF 3]
  have "irq_times E (fst b) = irq_times E (fst a)" by (simp add: irq_times_def walk_line_clocks_def f)
  then show ?case using tracks_same[OF 3] by (auto simp: irq_due_def f intro!: exI[of _ "{}"])
qed

text \<open>When settled, what is left is in the future.\<close>

lemma irq_times_future:
  assumes "tracks E w" "settled E w" "x \<in> irq_times E w"
  shows "int (w_t w) < x"
proof -
  have t: "int (w_t w) < line_begin (w_frame w - we_field_base E) (w_line w) + int (line_clocks (we_field_base E) (w_frame w) (w_line w))"
    and l: "w_line w < 262"
    using assms(1,2) unfolding tracks_def settled_def walk_line_clocks_def sched_consts(2) by linarith+
  from assms(3) consider "\<not> w_irq_done w" "x \<in> line_irqs E (w_frame w) (w_line w) (w_irq_at w)"
    | "x \<in> later_irqs E (w_frame w, w_line w)"
    by (auto simp: irq_times_split[OF assms(1)] split: if_splits)
  then show ?thesis
  proof cases
    case 1
    then show ?thesis using assms(1,2) by (auto simp: line_irqs_def settled_def tracks_def split: if_splits)
  next
    case 2
    then obtain f k at where f: "k < 262" "later (w_frame w, w_line w) (f, k)" "x \<in> line_irqs E f k at"
      by (auto simp: later_irqs_def sched_consts(2))
    have "w_frame w \<le> f" using f(2) by (auto simp: later_def)
    from line_begin_mono[OF this f(2) l f(1)] t f(3) show ?thesis
      by (auto simp: line_irqs_def split: if_splits) (smt (verit))
  qed
qed

text \<open>C34. The H/V timer: over the cycles of any instruction the IRQ line comes up exactly when a
  timer clock of a line the walk has reached (the line's own, or those the registers give for the
  lines entered) lies at or before the clock it ends at.\<close>

theorem walk_raises_irq:
  assumes "tracks E w" "punctual (w_t w) w" "cs \<noteq> []"
    and "walk_cycles E i cs smp (w, p) = Inr (x, w', p')"
  shows "irq_line p' \<longleftrightarrow> irq_line p \<or> (\<exists>a\<in>irq_times E w. a \<le> int (w_t w'))"
proof -
  obtain D where D: "tracks E w'" "irq_times E w = D \<union> irq_times E w'" "\<forall>x\<in>D. x \<le> int (w_t w')"
      "irq_line p' \<longleftrightarrow> irq_line p \<or> D \<noteq> {}"
    using timer.whole[OF assms(4)] assms(1) unfolding irq_due_def by auto
  have "settled E w'" using walk_cycles_settle[OF assms(4)] assms(2,3) by simp
  then have "\<forall>x\<in>irq_times E w'. int (w_t w') < x" using irq_times_future[OF D(1)] by blast
  then show ?thesis using D(2,3,4) by fastforce
qed

text \<open>An instruction of three fetches from the start of line 0, with an H timer IRQ due at clock 18.\<close>

definition demo_env :: walk_env where
  "demo_env = \<lparr>we_nmitimen = 0x10, we_htime = 0, we_vtime = 0, we_field_base = 0, we_hdma_enabled = False,
     we_hdma_cost = 8, we_init_cost = 8, we_count8 = False\<rparr>"

definition demo_walk :: walk where
  "demo_walk = \<lparr>w_t = 0, w_ls = 0, w_line = 0, w_frame = 0, w_refresh_done = False, w_hdma_done = False,
     w_init_done = False, w_nmi_done = True, w_irq_done = False, w_irq_at = 18, refreshes = 0, w_edge = False,
     undo_from = - 1, w_dma_lo = 0, w_dma_hi = 0\<rparr>"

definition demo_cycles :: "cycle list" where "demo_cycles = replicate 3 (8, CY_READ, - 1)"

lemma demo_ready: "tracks demo_env demo_walk" "punctual (w_t demo_walk) demo_walk" "demo_cycles \<noteq> []"
  by (simp_all add: tracks_def punctual_def demo_walk_def demo_env_def demo_cycles_def line_begin_def sched_consts)

lemma demo_runs: "\<exists>x w' p'. walk_cycles demo_env False demo_cycles 0 (demo_walk, pend_reset) = Inr (x, w', p') \<and> w_t w' = 24"
proof -
  have "case walk_cycles demo_env False demo_cycles 0 (demo_walk, pend_reset) of Inl _ \<Rightarrow> False | Inr (x, w', p') \<Rightarrow> w_t w' = 24"
    by code_simp
  then show ?thesis by (auto split: sum.splits prod.splits)
qed

theorem walk_follows_beam_witness:
  "\<exists>w' p' x. walk_cycles demo_env False demo_cycles 0 (demo_walk, pend_reset) = Inr (x, w', p') \<and>
     beam 24 = (w_frame w', w_line w') \<and> settled demo_env w'"
  using demo_runs walk_follows_beam[OF demo_ready] by (fastforce simp: demo_env_def)

theorem walk_raises_irq_witness:
  "\<exists>w' p' x. walk_cycles demo_env False demo_cycles 0 (demo_walk, pend_reset) = Inr (x, w', p') \<and> irq_line p'"
proof -
  have "18 \<in> irq_times demo_env demo_walk"
    by (simp add: irq_times_def demo_env_def demo_walk_def walk_line_clocks_def line_clocks_def sched_consts)
  then show ?thesis using demo_runs walk_raises_irq[OF demo_ready] by fastforce
qed

text \<open>The timer clock of a line: none without a timer mode or off the line of a V match, and
  otherwise on the line, after its start, but for two exceptions: HTIME 337 to 339 is the error, and HTIME
  336 on the short line 240, whose clock 1362 is past its end.\<close>

theorem irq_clock_in_line:
  "case irq_clock_for n h v l of
     Inl err \<Rightarrow> err = Htime_end_of_line h \<and> h \<in> {337, 338, 339} \<and> n AND 0x10 \<noteq> 0
   | Inr at \<Rightarrow> at = - 1 \<or> (10 \<le> at \<and> n AND 0x30 \<noteq> 0 \<and> (n AND 0x20 = 0 \<or> l = unat v) \<and>
       (at < int (line_clocks b f l) \<or> h = 336 \<and> l = 240 \<and> odd (f - b)))"
proof -
  let ?m = "drop_bit 4 n AND 3 :: u8"
  have b0: "bit ?m 0 \<longleftrightarrow> bit n 4" "bit ?m 1 \<longleftrightarrow> bit n 5" by (simp_all add: bit_simps numeral_eq_Suc)
  have "?m \<in> {0, 1, 2, 3}"
  proof -
    have "unat ?m < 4" using word_and_le1[of "drop_bit 4 n" 3] by (simp add: word_le_nat_alt)
    moreover have "x \<in> {0, 1, 2, 3}" if "unat x < 4" for x :: u8
      using that by (auto simp: word_unat_eq_iff)
    ultimately show ?thesis by blast
  qed
  then have m: "?m = (if bit n 4 then if bit n 5 then 3 else 1 else if bit n 5 then 2 else 0)"
    using b0 by auto
  have n: "n AND 0x10 \<noteq> 0 \<longleftrightarrow> bit n 4" "n AND 0x20 \<noteq> 0 \<longleftrightarrow> bit n 5" "n AND 0x30 \<noteq> 0 \<longleftrightarrow> bit n 4 \<or> bit n 5"
  proof -
    show 4: "n AND 0x10 \<noteq> 0 \<longleftrightarrow> bit n 4" using and_exp_eq_0_iff_not_bit[of n 4] by simp
    show 5: "n AND 0x20 \<noteq> 0 \<longleftrightarrow> bit n 5" using and_exp_eq_0_iff_not_bit[of n 5] by simp
    have "n AND 0x30 = (n AND 0x10) OR (n AND 0x20)" by (simp flip: bit.conj_disj_distrib)
    then show "n AND 0x30 \<noteq> 0 \<longleftrightarrow> bit n 4 \<or> bit n 5" using 4 5 by (simp add: or_eq_0_iff)
  qed
  have h: "h \<in> {337, 338, 339}" if "337 \<le> h" "\<not> 339 < h"
  proof -
    have "unat h \<in> {337, 338, 339}" using that by (auto simp: word_le_nat_alt word_less_nat_alt)
    then show ?thesis by (auto simp: word_unat_eq_iff)
  qed
  have at: "18 + 4 * int (unat h) < int (line_clocks b f l) \<or> h = 336 \<and> l = 240 \<and> odd (f - b)" if "\<not> 337 \<le> h"
  proof (cases "h = 336")
    case False
    then have "unat h < 336" using that by (auto simp: word_le_nat_alt word_unat_eq_iff)
    then show ?thesis using line_clocks_bounds(1)[of b f l] by (intro disjI1) linarith
  qed (simp add: line_clocks_def sched_consts)
  show ?thesis
    using h at line_clocks_bounds(1)[of b f l]
    by (auto simp: irq_clock_for_def Let_def m n simp del: insert_iff)
qed

section \<open>How long transfers hold the CPU\<close>

text \<open>From \<open>a\<close> to \<open>b\<close> pass \<open>n\<close> clocks, refreshes apart.\<close>

definition took :: "walk \<times> pend \<Rightarrow> nat \<Rightarrow> walk \<times> pend \<Rightarrow> bool" where
  "took a n b \<longleftrightarrow> w_t (fst b) + REFRESH_CLOCKS * refreshes (fst a) = w_t (fst a) + n + REFRESH_CLOCKS * refreshes (fst b)"

lemma took_trans: "took a n b \<Longrightarrow> took b m c \<Longrightarrow> took a (n + m) c"
  unfolding took_def by linarith

text \<open>Inside a general DMA a transfer that is pending came due in this walk: its recorded cost is that of the registers.\<close>

definition costs_ok :: "walk_env \<Rightarrow> pend \<Rightarrow> bool" where
  "costs_ok E p \<longleftrightarrow> (p_hdma p \<longrightarrow> hdma_cost p = we_hdma_cost E) \<and> (p_init p \<longrightarrow> init_cost p = we_init_cost E)"

definition lasted :: "walk_env \<Rightarrow> walk \<times> pend \<Rightarrow> nat \<Rightarrow> walk \<times> pend \<Rightarrow> bool" where
  "lasted E a n b \<longleftrightarrow> costs_ok E (snd b) \<and> took a n b"

lemma lasted_trans: "lasted E a n b \<Longrightarrow> lasted E b m c \<Longrightarrow> lasted E a (n + m) c"
  unfolding lasted_def by (blast intro: took_trans)

lemma lasted_put: "costs_ok E q \<Longrightarrow> lasted E (w, p) 0 (w, q)"
  by (simp add: lasted_def took_def)

lemma walk_event_costs:
  assumes "walk_event E k e (v, q) = Inr (w1, p1)"
  shows "costs_ok E q \<Longrightarrow> costs_ok E p1" "hdma_cost p1 \<in> {hdma_cost q, we_hdma_cost E}"
    "init_cost p1 \<in> {init_cost q, we_init_cost E}"
  using assms by (cases k; auto simp: walk_event_def costs_ok_def Let_def split: sum.splits if_splits)+

lemma loop_costs:
  assumes "walk_loop E endc smp (w, p) = Inr (smp', w', p')"
  shows "costs_ok E p \<Longrightarrow> costs_ok E p'" "hdma_cost p' \<in> {hdma_cost p, we_hdma_cost E}"
    "init_cost p' \<in> {init_cost p, we_init_cost E}"
proof -
  let ?I = "\<lambda>(t :: nat) (s :: nat) (v :: walk) q. (costs_ok E p \<longrightarrow> costs_ok E q) \<and>
     hdma_cost q \<in> {hdma_cost p, we_hdma_cost E} \<and> init_cost q \<in> {init_cost p, we_init_cost E}"
  have "\<exists>v. w' = v\<lparr>w_t := w_t w'\<rparr> \<and> ?I (w_t w') smp' v p' \<and> w_t w' < snd (walk_next E v)"
  proof (rule walk_loop_keeps[OF assms(1), where I = ?I])
    show "?I endc smp w p" by simp
    fix t s v q k e w1 p1
    assume I: "?I t s v q" and ev: "walk_event E k e (v, q) = Inr (w1, p1)"
    from walk_event_costs[OF ev] I show "?I (if k = Ev_refresh then t + REFRESH_CLOCKS else t)
        (if k = Ev_refresh \<and> e \<le> s then s + REFRESH_CLOCKS else s) w1 p1"
      by auto
  qed
  then show "costs_ok E p \<Longrightarrow> costs_ok E p'" "hdma_cost p' \<in> {hdma_cost p, we_hdma_cost E}"
    "init_cost p' \<in> {init_cost p, we_init_cost E}" by blast+
qed

lemma pass_took:
  assumes "pass E n s = Inr (u, s')"
  shows "took s n s'"
proof -
  obtain w p w' p' where s: "s = (w, p)" "s' = (w', p')" by fastforce
  obtain x where "walk_loop E (w_t w + n) (w_t w) (w, p) = Inr (x, w', p')"
    using assms by (auto simp: pass_def thn_def bnd_Inr walk_pass_def s ret_def)
  from walk_loop_time(1,2)[OF this] show ?thesis by (auto simp: took_def s sched_consts(6))
qed

lemma pass_lasts:
  assumes "pass E n s = Inr (u, s')" "costs_ok E (snd s)"
  shows "lasted E s n s'" "hdma_cost (snd s') \<in> {hdma_cost (snd s), we_hdma_cost E}"
    "init_cost (snd s') \<in> {init_cost (snd s), we_init_cost E}"
proof -
  obtain w p where s: "s = (w, p)" by fastforce
  obtain w' p' where s': "s' = (w', p')" by fastforce
  obtain x where l: "walk_loop E (w_t w + n) (w_t w) (w, p) = Inr (x, w', p')"
    using assms(1) by (auto simp: pass_def thn_def bnd_Inr walk_pass_def s s' ret_def)
  show "lasted E s n s'" "hdma_cost (snd s') \<in> {hdma_cost (snd s), we_hdma_cost E}"
    "init_cost (snd s') \<in> {init_cost (snd s), we_init_cost E}"
    using pass_took[OF assms(1)] loop_costs[OF l] assms(2) by (auto simp: lasted_def s s')
qed

lemma dma_pending_lasts:
  assumes "walk_dma_pending E s = Inr (n, s')" "costs_ok E (snd s)"
  shows "lasted E s n s'"
proof -
  obtain w p where s: "s = (w, p)" by fastforce
  consider "p_delay p" | "\<not> p_delay p" "p_hdma p" | "\<not> p_delay p" "\<not> p_hdma p" "p_init p"
    | "\<not> p_delay p" "\<not> p_hdma p" "\<not> p_init p" by blast
  then show ?thesis
  proof cases
    case 1
    then show ?thesis using assms by (auto simp: walk_dma_pending_def get_p_def put_p_def bnd_gets thn_modify s lasted_def took_def costs_ok_def)
  next
    case 2
    let ?q = "p\<lparr>p_hdma := False\<rparr>"
    have q: "costs_ok E ?q" using assms(2) by (simp add: s costs_ok_def)
    obtain t where t: "pass E (hdma_cost p) (w, ?q) = Inr ((), t)" "n = hdma_cost (snd t)" "s' = t"
      using assms(1) 2 by (auto simp: walk_dma_pending_def get_p_def put_p_def bnd_gets thn_modify s thn_def bnd_Inr split: prod.splits)
    note l = pass_lasts[OF t(1), simplified, OF q]
    have "hdma_cost p = we_hdma_cost E" using assms(2) 2 by (simp add: s costs_ok_def)
    then show ?thesis using l lasted_trans[OF lasted_put[OF q, of w p] l(1)] t by (simp add: s)
  next
    case 3
    let ?q = "p\<lparr>p_init := False\<rparr>"
    have q: "costs_ok E ?q" using assms(2) by (simp add: s costs_ok_def)
    obtain t where t: "pass E (init_cost p) (w, ?q) = Inr ((), t)" "n = init_cost (snd t)" "s' = t"
      using assms(1) 3 by (auto simp: walk_dma_pending_def get_p_def put_p_def bnd_gets thn_modify s thn_def bnd_Inr split: prod.splits)
    note l = pass_lasts[OF t(1), simplified, OF q]
    have "init_cost p = we_init_cost E" using assms(2) 3 by (simp add: s costs_ok_def)
    then show ?thesis using l lasted_trans[OF lasted_put[OF q, of w p] l(1)] t by (simp add: s)
  next
    case 4
    then show ?thesis using assms by (auto simp: walk_dma_pending_def get_p_def bnd_gets s lasted_def took_def)
  qed
qed

lemma lasted_costs: "lasted E a n b \<Longrightarrow> costs_ok E (snd b)" by (simp add: lasted_def)

lemma bytes_last:
  "walk_bytes E n s = Inr (c, s') \<Longrightarrow> costs_ok E (snd s) \<Longrightarrow> lasted E s (8 * n + c) s'"
proof (induction n arbitrary: s c)
  case 0
  then show ?case by (simp add: lasted_def took_def)
next
  case (Suc n)
  then obtain s1 a s2 b where 1: "pass E 8 s = Inr ((), s1)" and 2: "walk_dma_pending E s1 = Inr (a, s2)"
    and 3: "walk_bytes E n s2 = Inr (b, s')" and c: "c = a + b"
    by (auto simp: thn_def bnd_Inr)
  note l1 = pass_lasts(1)[OF 1 Suc.prems(2)]
  note l2 = dma_pending_lasts[OF 2 lasted_costs[OF l1]]
  show ?case
    using lasted_trans[OF lasted_trans[OF l1 l2] Suc.IH[OF 3 lasted_costs[OF l2]]] by (simp add: c algebra_simps)
qed

lemma channels_last:
  "walk_channels E ns count s = Inr (c, s') \<Longrightarrow> costs_ok E (snd s) \<Longrightarrow> \<not> we_count8 E \<Longrightarrow>
    count \<le> c \<and> lasted E s (c - count) s'"
proof (induction ns arbitrary: s count)
  case Nil
  then show ?case by (simp add: lasted_def took_def)
next
  case (Cons n ns)
  show ?case
  proof (cases "n = 0")
    case True
    then show ?thesis using Cons by simp
  next
    case False
    then obtain s1 a s2 b s3 where 1: "pass E 8 s = Inr ((), s1)" and 2: "walk_dma_pending E s1 = Inr (a, s2)"
      and 3: "walk_bytes E n s2 = Inr (b, s3)" and 4: "walk_channels E ns (count + 8 + a + b + 8 * n) s3 = Inr (c, s')"
      using Cons.prems(1,3) by (auto simp: thn_def bnd_Inr)
    note l1 = pass_lasts(1)[OF 1 Cons.prems(2)]
    note l2 = dma_pending_lasts[OF 2 lasted_costs[OF l1]]
    note l3 = bytes_last[OF 3 lasted_costs[OF l2]]
    note l4 = Cons.IH[OF 4 lasted_costs[OF l3] Cons.prems(3)]
    show ?thesis
      using lasted_trans[OF lasted_trans[OF lasted_trans[OF l1 l2] l3] conjunct2[OF l4]] l4
      by (simp add: algebra_simps)
  qed
qed

lemma lasted_w: "lasted E a n (w, p) \<Longrightarrow> lasted E a n (w\<lparr>w_dma_lo := x\<rparr>, p)" "lasted E a n (w, p) \<Longrightarrow> lasted E a n (w\<lparr>w_dma_hi := x\<rparr>, p)"
  by (simp_all add: lasted_def took_def)

lemma rest_of_cycle: "0 < (speed :: nat) \<Longrightarrow> \<exists>k. count + (speed - count mod speed) = speed * k"
proof (rule exI[of _ "Suc (count div speed)"])
  assume "0 < speed"
  then have "count mod speed \<le> speed" by (simp add: less_imp_le)
  moreover have "speed * (count div speed) + count mod speed = count" by (rule mult_div_mod_eq)
  ultimately show "count + (speed - count mod speed) = speed * Suc (count div speed)"
    by (simp only: mult_Suc_right)
qed

text \<open>An HDMA or its init takes the cost recorded, whenever that was; when a general DMA starts, neither is pending.\<close>

lemma transfer_took:
  assumes "run_transfer E count (w, p) = Inr (c, s')" "\<not> we_count8 E"
  shows "count \<le> c \<and> took (w, p) (c - count) s'"
proof (cases "p_hdma p \<or> p_init p")
  case True
  let ?q = "if p_hdma p then p\<lparr>p_hdma := False\<rparr> else p\<lparr>p_init := False\<rparr>"
  obtain n where t: "pass E n (w, ?q) = Inr ((), s')" "c = count + n"
    using assms(1) True
    by (auto simp: run_transfer_def get_p_def put_p_def bnd_gets thn_modify thn_def bnd_Inr Let_def split: if_splits)
  show ?thesis
    using pass_took[OF t(1)] t(2) by (simp add: took_def)
next
  case False
  let ?q = "p\<lparr>p_dma := False\<rparr>"
  let ?w = "w\<lparr>w_dma_lo := w_t w\<rparr>"
  obtain s1 a s2 s3 where 1: "pass E 8 (?w, ?q) = Inr ((), s1)" and 2: "walk_dma_pending E s1 = Inr (a, s2)"
    and 3: "walk_channels E (dma_sizes p) (count + 8 + a) s2 = Inr (c, s3)"
    and 4: "s' = ((fst s3)\<lparr>w_dma_hi := w_t (fst s3)\<rparr>, snd s3)"
    using assms(1) False
    by (auto simp: run_transfer_def get_p_def put_p_def get_w_def put_w_def bnd_gets thn_modify thn_def bnd_Inr split: prod.splits)
  have q: "lasted E (w, p) 0 (?w, ?q)" using False by (simp add: lasted_def took_def costs_ok_def)
  note l1 = pass_lasts(1)[OF 1 lasted_costs[OF q]]
  note l2 = dma_pending_lasts[OF 2 lasted_costs[OF l1]]
  note l3 = channels_last[OF 3 lasted_costs[OF l2] assms(2)]
  have "lasted E (w, p) (0 + 8 + a + (c - (count + 8 + a))) s3"
    using lasted_trans[OF lasted_trans[OF lasted_trans[OF q l1] l2] conjunct2[OF l3]] .
  then show ?thesis using l3 unfolding 4 by (cases s3) (auto simp: lasted_def took_def)
qed

text \<open>C18. Transfers hold the CPU for whole cycles: when a DMA, HDMA or HDMA init runs at a cycle start,
  the time it takes, refreshes apart, is a positive number of that cycle's clocks, whatever channels,
  sizes and HDMA in the middle there are, and in whichever instruction the HDMA or init came due. The count of
  the reference quirk \<open>mesen-dma-count8\<close>, which takes sizes modulo 256, is off.\<close>

theorem transfer_whole_cycles:
  assumes "walk_pending E speed (w, p) = Inr (True, w', p')" "\<not> we_count8 E" "0 < speed"
  shows "\<exists>k>0. w_t w' + REFRESH_CLOCKS * refreshes w = w_t w + speed * k + REFRESH_CLOCKS * refreshes w'"
proof -
  have "\<not> (p_delay p \<or> \<not> (p_hdma p \<or> p_init p \<or> p_dma p))"
    using assms(1) by (auto simp: walk_pending_def get_p_def put_p_def bnd_gets thn_modify split: if_splits)
  then obtain n s1 count s2 where 1: "pass E n (w, p) = Inr ((), s1)" "0 < n" and 2: "run_transfer E n s1 = Inr (count, s2)"
    and 3: "pass E (speed - count mod speed) s2 = Inr ((), w', p')"
    using assms(1) by (auto simp: walk_pending_def get_p_def get_w_def bnd_gets Let_def thn_def bnd_Inr)
  obtain w1 p1 where s1: "s1 = (w1, p1)" by fastforce
  note l2 = transfer_took[OF 2[unfolded s1] assms(2), folded s1]
  have "took (w, p) (n + (count - n) + (speed - count mod speed)) (w', p')"
    using took_trans[OF took_trans[OF pass_took[OF 1(1)]] pass_took[OF 3]] l2 by blast
  moreover obtain k where "count + (speed - count mod speed) = speed * k" using rest_of_cycle[OF assms(3)] by blast
  moreover have "k > 0" using calculation(2) 1(2) l2 by (cases k) auto
  ultimately show ?thesis using l2 by (intro exI[of _ k]) (simp add: took_def)
qed

text \<open>At a cycle start: an HDMA recorded under other registers, with a DMA of 3 and 2 bytes pending.\<close>

theorem transfer_whole_cycles_witness:
  "\<exists>w' p' k. walk_pending demo_env 6 (demo_walk, pend_reset\<lparr>p_hdma := True, hdma_cost := 40, p_dma := True, dma_sizes := [3, 2, 0, 0, 0, 0, 0, 0]\<rparr>)
      = Inr (True, w', p') \<and> k > 0 \<and> w_t w' = 6 * k + 40 * refreshes w'"
proof -
  let ?p = "pend_reset\<lparr>p_hdma := True, hdma_cost := 40, p_dma := True, dma_sizes := [3, 2, 0, 0, 0, 0, 0, 0]\<rparr>"
  have "case walk_pending demo_env 6 (demo_walk, ?p) of Inl _ \<Rightarrow> False | Inr (lock, _) \<Rightarrow> lock"
    by code_simp
  then obtain w' p' where r: "walk_pending demo_env 6 (demo_walk, ?p) = Inr (True, w', p')"
    by (auto split: sum.splits prod.splits)
  have "\<not> we_count8 demo_env" by (simp add: demo_env_def)
  from transfer_whole_cycles[OF r this] show ?thesis using r by (auto simp: demo_walk_def sched_consts)
qed

section \<open>When nothing happens\<close>

text \<open>Nothing pending: no transfer, no NMI under way, no access to wait for.\<close>

definition quiet :: "pend \<Rightarrow> bool" where
  "quiet p \<longleftrightarrow> \<not> (p_delay p \<or> p_hdma p \<or> p_init p \<or> p_dma p) \<and> nmi_count p = 0 \<and> dma_after p < 0 \<and> nmi_after p < 0"

definition cycles_clocks :: "cycle list \<Rightarrow> nat" where
  "cycles_clocks cs = sum_list (map (\<lambda>(clk, _, _). unat clk) cs)"

lemma walk_next_t [simp]: "walk_next E (w\<lparr>w_t := t\<rparr>) = walk_next E w"
  by (simp add: walk_next_def walk_line_clocks_def)

lemma quiet_pass:
  assumes "w_t w + clocks < snd (walk_next E w)"
  shows "walk_pass E clocks smp (w, p) = Inr (w_t w + smp, w\<lparr>w_t := w_t w + clocks\<rparr>, p)"
  using assms by (cases "walk_next E w") (simp add: walk_pass_def walk_loop.simps[of E _ _ w])

lemma quiet_start: "quiet p \<Longrightarrow> walk_cycle_start E c i (w, p) = Inr ((), w, p\<lparr>prev_irq := irq_line p \<and> \<not> i\<rparr>)"
  by (simp add: quiet_def walk_cycle_start_def walk_pending_def get_p_def put_p_def bnd_def sample_lines_def)

lemma quiet_cycle:
  assumes "quiet p" "\<not> w_edge w" "w_t w + unat clk < snd (walk_next E w)"
  shows "\<exists>x. walk_cycle E i (clk, kind, idx) (w, p) =
    Inr (x, w\<lparr>w_t := w_t w + unat clk\<rparr>, p\<lparr>prev_irq := irq_line p \<and> \<not> i\<rparr>)"
proof -
  have "after_access idx q = q" if "quiet q" for q using that by (auto simp: quiet_def after_access_def)
  moreover have "quiet (p\<lparr>prev_irq := b\<rparr>)" for b using assms(1) by (simp add: quiet_def)
  ultimately show ?thesis
    using assms(2) by (simp add: walk_cycle_def Let_def quiet_start[OF assms(1)] quiet_pass[OF assms(3)] put_w_def put_p_def thn_modify)
qed

lemma quiet_walk:
  assumes "quiet p" "\<not> w_edge w" "w_t w + cycles_clocks cs < snd (walk_next E w)" "cs \<noteq> []"
  shows "\<exists>x. walk_cycles E i cs smp (w, p) =
    Inr (x, w\<lparr>w_t := w_t w + cycles_clocks cs\<rparr>, p\<lparr>prev_irq := irq_line p \<and> \<not> i\<rparr>)"
  using assms
proof (induction cs arbitrary: w p smp)
  case (Cons c cs)
  obtain clk kind idx where c: "c = (clk, kind, idx)" by (metis prod_cases3)
  let ?w = "w\<lparr>w_t := w_t w + unat clk\<rparr>" and ?p = "p\<lparr>prev_irq := irq_line p \<and> \<not> i\<rparr>"
  obtain x where x: "walk_cycle E i c (w, p) = Inr (x, ?w, ?p)"
    using quiet_cycle[OF Cons.prems(1,2), of clk E i kind idx] Cons.prems(3) by (auto simp: c cycles_clocks_def)
  show ?case
  proof (cases "cs = []")
    case True
    then show ?thesis using x by (simp add: c cycles_clocks_def ret_def)
  next
    case False
    have "quiet ?p" "\<not> w_edge ?w" "w_t ?w + cycles_clocks cs < snd (walk_next E ?w)"
      using Cons.prems by (simp_all add: c quiet_def cycles_clocks_def)
    from Cons.IH[OF this False, of x] show ?thesis using x by (simp add: c cycles_clocks_def add.assoc)
  qed
qed simp

end
