(* ===== verification/Ct_Regs.thy ===== *)
theory Ct_Regs
  imports Ct_Adapter Ct_Walk
begin

text \<open>
  The registers of \<open>runtime/sched.c\<close>: \<open>$4200\<close>, \<open>$4201\<close>, the H/V timer targets, the NMI and IRQ flags,
  the H/V counters, the automatic joypad read, and the clock of the CPU access being made, which
  they all see. The statics of the file are three records in the state: \<open>timing\<close> (the position in
  the video signal), \<open>vregs\<close> (the registers) and \<open>pend\<close> (transfers and interrupt lines, \<open>Ct_Walk\<close>).
  The four-element arrays of the joypads are functions of the port.
\<close>

section \<open>State\<close>

record timing =
  line :: nat
  hclock :: nat
  line_start :: nat
  frames :: int
  irq_at :: int
  irq_done :: bool
  hblank_done :: bool
  refresh_at :: nat
  refresh_done :: bool
  refresh_paid :: nat
  init_done :: bool
  nmi_done :: bool
  rdnmi_cleared :: bool
  need_start :: bool
  start_delay :: nat
  frame_done :: bool
  dma_lo :: nat
  dma_hi :: nat
  edge_in_dma :: bool
  frame_clock :: nat
  field_base :: int
  walked :: bool
  edge_undo_from :: int

record vregs =
  nmitimen :: u8
  rdnmi :: u8
  rdnmi_set :: bool
  in_vblank :: bool
  autojoy_busy :: bool
  autojoy_step :: nat
  autojoy_on :: bool
  autojoy_start :: nat
  autojoy_pad :: "nat \<Rightarrow> u16"
  wrio :: u8
  htime :: u16
  vtime :: u16
  timeup :: u8
  lat_h :: u16
  lat_v :: u16
  lat_flag :: bool
  ophct_hi :: bool
  opvct_hi :: bool
  pad :: "nat \<Rightarrow> u16"
  joy :: "nat \<Rightarrow> u16"

text \<open>\<open>count8\<close> is the bit of \<open>snes_ref_quirks\<close> the scheduler reads.\<close>

record sched_state = adapter_state +
  tm :: timing
  vr :: vregs
  pnd :: pend
  insn_i :: bool
  count8 :: bool

definition tm_do :: "(timing \<Rightarrow> timing) \<Rightarrow> ('a sched_state_scheme, unit) act" where
  "tm_do f = modify (\<lambda>s. s\<lparr>tm := f (tm s)\<rparr>)"

definition vr_do :: "(vregs \<Rightarrow> vregs) \<Rightarrow> ('a sched_state_scheme, unit) act" where
  "vr_do f = modify (\<lambda>s. s\<lparr>vr := f (vr s)\<rparr>)"

definition pnd_do :: "(pend \<Rightarrow> pend) \<Rightarrow> ('a sched_state_scheme, unit) act" where
  "pnd_do f = modify (\<lambda>s. s\<lparr>pnd := f (pnd s)\<rparr>)"

section \<open>The clock of an access\<close>

definition sched_clock :: "'a sched_state_scheme \<Rightarrow> nat" where
  "sched_clock s = line_start (tm s) + hclock (tm s)"

definition tm_line_clocks :: "timing \<Rightarrow> nat" where
  "tm_line_clocks m = line_clocks (field_base m) (frames m) (line m)"

text \<open>What a walk reads of the state, and where it starts.\<close>

definition env_of :: "'a sched_state_scheme \<Rightarrow> walk_env" where
  "env_of s = \<lparr>we_nmitimen = nmitimen (vr s), we_htime = htime (vr s), we_vtime = vtime (vr s),
     we_field_base = field_base (tm s), we_hdma_enabled = snes_hdma_enabled (dma s),
     we_hdma_cost = snes_hdma_cost s, we_init_cost = snes_hdma_init_cost s, we_count8 = count8 s\<rparr>"

definition walk_init :: "timing \<Rightarrow> walk" where
  "walk_init m = \<lparr>w_t = line_start m + hclock m, w_ls = line_start m, w_line = line m, w_frame = frames m,
     w_refresh_done = refresh_done m, w_hdma_done = hblank_done m, w_init_done = init_done m,
     w_nmi_done = nmi_done m, w_irq_done = irq_done m, w_irq_at = irq_at m, refreshes = 0, w_edge = False,
     undo_from = - 1, w_dma_lo = 0, w_dma_hi = 0\<rparr>"

text \<open>\<open>walk_insn\<close>: the sample clock, the walk and \<open>pend\<close> at its end.\<close>

definition walk_insn :: "u32 \<Rightarrow> 'a sched_state_scheme \<Rightarrow> fatal + nat \<times> walk \<times> pend" where
  "walk_insn lim s = (let w = walk_init (tm s) in
     walk_cycles (env_of s) (insn_i s) (cyc_cycles s 160 lim) (w_t w) (w, pnd s))"

text \<open>\<open>access_clock\<close>; \<open>pend\<close> is put back, so the walk only gives its sample clock.\<close>

definition access_clock :: "('a sched_state_scheme, nat) act" where
  "access_clock s =
     (if \<not> cyc_in_progress s then Inr (sched_clock s, s)
      else if ct_bus_n s = 0 \<or> ct_bus_n s > CT_BUS_LOG then Inr (sched_clock s + unat (cyc_elapsed s), s)
      else case walk_insn (ct_bus_n s - 1) s of Inl e \<Rightarrow> Inl e | Inr (sampled, _) \<Rightarrow> Inr (sampled, s))"

section \<open>H/V counters\<close>

text \<open>Line and clock in it of a master clock, at most in the next line.\<close>

definition hv_at :: "timing \<Rightarrow> nat \<Rightarrow> nat \<times> nat" where
  "hv_at m at =
     (let len = tm_line_clocks m; h = at - line_start m in
      if h \<ge> len then (if line m + 1 = SCHED_LINES then 0 else line m + 1, h - len) else (line m, h))"

definition access_hv :: "('a sched_state_scheme, nat \<times> nat) act" where
  "access_hv = bnd access_clock (\<lambda>at. gets (\<lambda>s. hv_at (tm s) at))"

definition dot_of :: "nat \<Rightarrow> nat" where
  "dot_of h = (if h \<le> 1292 then h div 4 else if h \<le> 1310 then (h - 2) div 4 else (h - 4) div 4)"

definition ppu_dot :: "('a sched_state_scheme, int) act" where
  "ppu_dot = bnd access_clock (\<lambda>at. gets (\<lambda>s.
     let h = at - line_start (tm s) in if h \<ge> tm_line_clocks (tm s) then 400 else int (dot_of h)))"

definition latch_counters :: "('a sched_state_scheme, unit) act" where
  "latch_counters = bnd access_hv (\<lambda>(ln, h). vr_do (\<lambda>v. v\<lparr>lat_h := word_of_nat (if h div 4 > 339 then 339 else h div 4),
     lat_v := word_of_nat ln, lat_flag := True\<rparr>))"

definition slhv_read :: "('a sched_state_scheme) hw_read_fn" where
  "slhv_read reg = bnd (gets (\<lambda>s. wrio (vr s))) (\<lambda>w.
     thn (whenM (w AND 0x80 \<noteq> 0) latch_counters) (bus_open_bus reg))"

definition counter_value :: "u16 \<Rightarrow> bool \<Rightarrow> u8 \<Rightarrow> u8" where
  "counter_value v9 hi mdr = (if hi then (mdr AND 0xFE) OR to8 (drop_bit 8 v9 AND 1) else to8 v9)"

definition ophct_read :: "('a sched_state_scheme) hw_read_fn" where
  "ophct_read reg = bnd (gets (\<lambda>s. counter_value (lat_h (vr s)) (ophct_hi (vr s)) (snes_ppu2_mdr s))) (\<lambda>v.
     thn (vr_do (\<lambda>r. r\<lparr>ophct_hi := \<not> ophct_hi r\<rparr>)) (thn (modify (snes_set_ppu2_mdr v)) (ret v)))"

definition opvct_read :: "('a sched_state_scheme) hw_read_fn" where
  "opvct_read reg = bnd (gets (\<lambda>s. counter_value (lat_v (vr s)) (opvct_hi (vr s)) (snes_ppu2_mdr s))) (\<lambda>v.
     thn (vr_do (\<lambda>r. r\<lparr>opvct_hi := \<not> opvct_hi r\<rparr>)) (thn (modify (snes_set_ppu2_mdr v)) (ret v)))"

definition stat78_read :: "('a sched_state_scheme) hw_read_fn" where
  "stat78_read reg = bnd (gets (\<lambda>s.
       push_bit 7 (of_bool (odd (frames (tm s) - field_base (tm s)))) OR push_bit 6 (of_bool (lat_flag (vr s)))
       OR (snes_ppu2_mdr s AND 0x20) OR 3)) (\<lambda>v.
     thn (vr_do (\<lambda>r. r\<lparr>lat_flag := False, ophct_hi := False, opvct_hi := False\<rparr>))
       (thn (modify (snes_set_ppu2_mdr v)) (ret v)))"

section \<open>NMITIMEN, the I/O port, the timer targets\<close>

definition nmitimen_write :: "('a sched_state_scheme) hw_write_fn" where
  "nmitimen_write reg v = bnd (gets id) (\<lambda>s.
     thn (whenM (nmitimen (vr s) AND 0x80 = 0 \<and> v AND 0x80 \<noteq> 0 \<and> rdnmi (vr s) AND 0x80 \<noteq> 0)
           (pnd_do (\<lambda>p. if cyc_in_progress s then p\<lparr>nmi_after := int (unat (ct_bus_n s)) - 1\<rparr> else p\<lparr>nmi_count := 2\<rparr>)))
    (thn (whenM (v AND 0x30 = 0) (thn (vr_do (\<lambda>r. r\<lparr>timeup := 0\<rparr>)) (pnd_do (\<lambda>p. p\<lparr>irq_line := False\<rparr>))))
      (vr_do (\<lambda>r. r\<lparr>nmitimen := v\<rparr>))))"

definition rdio_read :: "('a sched_state_scheme) hw_read_fn" where
  "rdio_read reg = gets (\<lambda>s. wrio (vr s))"

definition wrio_write :: "('a sched_state_scheme) hw_write_fn" where
  "wrio_write reg v = bnd (gets (\<lambda>s. wrio (vr s))) (\<lambda>w.
     thn (whenM (w AND 0x80 \<noteq> 0 \<and> v AND 0x80 = 0) latch_counters) (vr_do (\<lambda>r. r\<lparr>wrio := v\<rparr>)))"

definition time_byte :: "u16 \<Rightarrow> u8 \<Rightarrow> u16 \<Rightarrow> u16" where
  "time_byte reg v t =
     (if reg AND 1 \<noteq> 0 then (t AND 0x100) OR to16 v else (t AND 0xFF) OR push_bit 8 (to16 (v AND 1)))"

definition htime_vtime_write :: "('a sched_state_scheme) hw_write_fn" where
  "htime_vtime_write reg v =
     vr_do (\<lambda>r. if reg < 0x4209 then r\<lparr>htime := time_byte reg v (htime r)\<rparr> else r\<lparr>vtime := time_byte reg v (vtime r)\<rparr>)"

section \<open>Automatic joypad read\<close>

definition autojoy_arm :: "nat \<Rightarrow> vregs \<Rightarrow> vregs" where
  "autojoy_arm now v =
     (let r = now + 130 in
      v\<lparr>autojoy_start := (r + 255) div 256 * 256 - 128, autojoy_step := 0, autojoy_pad := pad v\<rparr>)"

text \<open>The body of the loop of \<open>autojoy_update\<close>.\<close>

definition autojoy_run :: "vregs \<Rightarrow> vregs" where
  "autojoy_run v =
     (let st = autojoy_step v;
          v1 = (if st = 1 then
                  let on = bit (nmitimen v) 0 in
                  v\<lparr>autojoy_on := on, autojoy_busy := on, joy := (if on then (\<lambda>_. 0) else joy v)\<rparr>
                else if st \<ge> 4 \<and> even st \<and> autojoy_on v then
                  let k = (st - 4) div 2 + 1 in v\<lparr>joy := (\<lambda>p. drop_bit (16 - k) (autojoy_pad v p))\<rparr>
                else v);
          v2 = (if st = 34 then v1\<lparr>autojoy_busy := False\<rparr> else v1)
      in v2\<lparr>autojoy_step := st + 1\<rparr>)"

function autojoy_update :: "nat \<Rightarrow> vregs \<Rightarrow> vregs" where
  "autojoy_update now v =
     (if autojoy_step v \<le> 34 \<and> autojoy_start v + 128 * autojoy_step v \<le> now
      then autojoy_update now (autojoy_run v) else v)"
  by pat_completeness auto
termination
  by (relation "measure (\<lambda>(now, v). 35 - autojoy_step v)") (simp, simp add: autojoy_run_def Let_def, linarith)

declare autojoy_update.simps [simp del]

text \<open>\<open>reg\<close> is one of \<open>$4218-$421F\<close>, the only ones hooked to it.\<close>

definition joy_read :: "('a sched_state_scheme) hw_read_fn" where
  "joy_read reg = bnd access_clock (\<lambda>at. thn (vr_do (autojoy_update at)) (gets (\<lambda>s.
     let v = joy (vr s) (unat (reg - 0x4218) div 2) in if reg AND 1 \<noteq> 0 then to8 (drop_bit 8 v) else to8 v)))"

definition sched_set_joypad :: "int \<Rightarrow> u16 \<Rightarrow> ('a sched_state_scheme, unit) act" where
  "sched_set_joypad port buttons =
     whenM (0 \<le> port \<and> port < 4) (vr_do (\<lambda>r. r\<lparr>pad := (pad r)(nat port := buttons)\<rparr>))"

section \<open>NMI and IRQ flags, HVBJOY\<close>

text \<open>The flag as the read finds it: set at clock 2 of line 225, cleared at clock 2 of line 0.\<close>

definition rdnmi_due :: "nat \<Rightarrow> nat \<Rightarrow> nat \<Rightarrow> vregs \<Rightarrow> vregs" where
  "rdnmi_due cur_line ln h r =
     (let r1 = (if ln = SCHED_VBLANK_LINE \<and> h \<ge> 2 \<and> \<not> rdnmi_set r then r\<lparr>rdnmi := 0x80, rdnmi_set := True\<rparr> else r)
      in if ln = 0 \<and> h \<ge> 2 \<and> cur_line \<noteq> 0 then r1\<lparr>rdnmi := 0\<rparr> else r1)"

definition rdnmi_read :: "('a sched_state_scheme) hw_read_fn" where
  "rdnmi_read reg = bnd access_hv (\<lambda>(ln, h).
     thn (bnd (gets (\<lambda>s. line (tm s))) (\<lambda>cur_line. vr_do (rdnmi_due cur_line ln h)))
    (bnd (gets (\<lambda>s. rdnmi (vr s) OR 0x02 OR (bus_mdr s AND 0x70))) (\<lambda>v.
     thn (whenM (\<not> (ln = SCHED_VBLANK_LINE \<and> h < 6)) (vr_do (\<lambda>r. r\<lparr>rdnmi := 0\<rparr>))) (ret v))))"

definition timeup_read :: "('a sched_state_scheme) hw_read_fn" where
  "timeup_read reg = bnd (gets (\<lambda>s. timeup (vr s))) (\<lambda>v.
     thn (vr_do (\<lambda>r. r\<lparr>timeup := 0\<rparr>)) (thn (pnd_do (\<lambda>p. p\<lparr>irq_line := False\<rparr>)) (ret v)))"

definition hvbjoy_read :: "('a sched_state_scheme) hw_read_fn" where
  "hvbjoy_read reg = bnd access_hv (\<lambda>(ln, h). bnd access_clock (\<lambda>at. thn (vr_do (autojoy_update at)) (gets (\<lambda>s.
     push_bit 7 (of_bool (ln \<ge> SCHED_VBLANK_LINE)) OR push_bit 6 (of_bool (h < 4 \<or> h > SCHED_HBLANK_CLOCK))
     OR (bus_mdr s AND 0x3E) OR of_bool (autojoy_busy (vr s))))))"

section \<open>DMA started by an instruction\<close>

definition dma_start :: "nat list \<Rightarrow> ('a sched_state_scheme, unit) act" where
  "dma_start sizes = bnd (gets ct_bus_n) (\<lambda>n. pnd_do (\<lambda>p. p\<lparr>dma_sizes := sizes, dma_after := int (unat n) - 1\<rparr>))"

definition walk_reset :: "('a sched_state_scheme, unit) act" where
  "walk_reset = thn (pnd_do (\<lambda>_. pend_reset)) (tm_do (\<lambda>m. m\<lparr>refresh_paid := 0\<rparr>))"

section \<open>The joypad read follows its schedule\<close>

text \<open>The steps the read has run by clock \<open>now\<close>, from the clock of step 0.\<close>

definition autojoy_due :: "nat \<Rightarrow> nat \<Rightarrow> nat" where
  "autojoy_due start now = (if now < start then 0 else min 35 ((now - start) div 128 + 1))"

lemma autojoy_due_step: "st < autojoy_due start now \<longleftrightarrow> st \<le> 34 \<and> start + 128 * st \<le> now"
proof (cases "now < start")
  case False
  then have "start + 128 * st \<le> now \<longleftrightarrow> st \<le> (now - start) div 128"
    by (subst less_eq_div_iff_mult_less_eq) (auto simp: mult.commute)
  then show ?thesis using False by (auto simp: autojoy_due_def)
qed (simp add: autojoy_due_def)

lemma autojoy_due_mono: "autojoy_due start (max a b) = max (autojoy_due start a) (autojoy_due start b)"
proof -
  have "autojoy_due start a \<le> autojoy_due start b" if "a \<le> b" for a b
    using that by (auto simp: autojoy_due_def min.coboundedI2 div_le_mono diff_le_mono min.mono)
  from this[of a b] this[of b a] show ?thesis unfolding max_def by (cases "a \<le> b") auto
qed

lemma autojoy_run_fixed [simp]:
  "autojoy_step (autojoy_run v) = autojoy_step v + 1" "autojoy_start (autojoy_run v) = autojoy_start v"
  "autojoy_pad (autojoy_run v) = autojoy_pad v" "nmitimen (autojoy_run v) = nmitimen v"
  by (simp_all add: autojoy_run_def Let_def)

lemma autojoy_runs_fixed:
  "autojoy_step ((autojoy_run ^^ n) v) = autojoy_step v + n" "autojoy_start ((autojoy_run ^^ n) v) = autojoy_start v"
  "autojoy_pad ((autojoy_run ^^ n) v) = autojoy_pad v" "nmitimen ((autojoy_run ^^ n) v) = nmitimen v"
  by (induction n) simp_all

lemma autojoy_update_runs:
  "autojoy_update now v = (autojoy_run ^^ (autojoy_due (autojoy_start v) now - autojoy_step v)) v"
proof (induction now v rule: autojoy_update.induct)
  case (1 now v)
  show ?case
  proof (cases "autojoy_step v < autojoy_due (autojoy_start v) now")
    case True
    then have "autojoy_due (autojoy_start v) now - autojoy_step v = Suc (autojoy_due (autojoy_start v) now - autojoy_step (autojoy_run v))"
      by simp
    then show ?thesis using 1 True
      by (simp add: autojoy_update.simps[of now v] autojoy_due_step funpow_Suc_right del: funpow.simps)
  next
    case False
    then show ?thesis by (simp add: autojoy_update.simps[of now v] autojoy_due_step[symmetric])
  qed
qed

lemma autojoy_update_twice: "autojoy_update b (autojoy_update a v) = autojoy_update (max a b) v"
proof -
  let ?d = "autojoy_due (autojoy_start v)" and ?s = "autojoy_step v"
  have "(?d b - (?s + (?d a - ?s))) + (?d a - ?s) = max (?d a) (?d b) - ?s" by linarith
  then show ?thesis
    by (simp add: autojoy_update_runs autojoy_runs_fixed autojoy_due_mono flip: funpow_add[unfolded comp_def, THEN fun_cong, simplified])
qed

lemma autojoy_run_shift:
  "4 \<le> autojoy_step u \<Longrightarrow> even (autojoy_step u) \<Longrightarrow>
     joy (autojoy_run u) = (if autojoy_on u then (\<lambda>p. drop_bit (16 - ((autojoy_step u - 4) div 2 + 1)) (autojoy_pad u p)) else joy u) \<and>
     autojoy_busy (autojoy_run u) = (autojoy_step u \<noteq> 34 \<and> autojoy_busy u) \<and> autojoy_on (autojoy_run u) = autojoy_on u"
  by (simp add: autojoy_run_def Let_def)

lemma autojoy_runs:
  assumes "autojoy_step v = 0" "n \<le> 35"
  shows "autojoy_busy ((autojoy_run ^^ n) v) = (if n < 2 then autojoy_busy v else bit (nmitimen v) 0 \<and> n < 35) \<and>
    (2 \<le> n \<longrightarrow> autojoy_on ((autojoy_run ^^ n) v) = bit (nmitimen v) 0) \<and>
    joy ((autojoy_run ^^ n) v) =
      (if n < 2 \<or> \<not> bit (nmitimen v) 0 then joy v else (\<lambda>p. drop_bit (16 - ((n - 1) div 2 - 1)) (autojoy_pad v p)))"
  using assms(2)
proof (induction n)
  case (Suc n)
  let ?u = "(autojoy_run ^^ n) v"
  have s: "autojoy_step ?u = n" "autojoy_pad ?u = autojoy_pad v" "nmitimen ?u = nmitimen v"
    by (simp_all add: autojoy_runs_fixed assms(1))
  have IH: "autojoy_busy ?u = (if n < 2 then autojoy_busy v else bit (nmitimen v) 0 \<and> n < 35)"
    "2 \<le> n \<Longrightarrow> autojoy_on ?u = bit (nmitimen v) 0"
    "joy ?u = (if n < 2 \<or> \<not> bit (nmitimen v) 0 then joy v else (\<lambda>p. drop_bit (16 - ((n - 1) div 2 - 1)) (autojoy_pad v p)))"
    using Suc by simp_all
  have zero: "drop_bit 16 w = (0 :: u16)" for w by (rule bit_word_eqI) (auto simp: bit_simps dest: bit_imp_le_length)
  consider "n = 0" | "n = 1" | "2 \<le> n" "n < 4 \<or> odd n" | "4 \<le> n" "even n" by linarith
  then show ?case
  proof cases
    case 1
    then show ?thesis using IH s by (simp add: autojoy_run_def Let_def)
  next
    case 2
    then show ?thesis using IH s by (simp add: autojoy_run_def Let_def zero fun_eq_iff)
  next
    case 3
    have "(n - 1) div 2 - 1 = (Suc n - 1) div 2 - 1"
    proof (cases "odd n")
      case False
      then have "n < 4" "n \<noteq> 3" using 3 by auto
      then have "n = 2" using 3(1) by linarith
      then show ?thesis by simp
    qed (auto elim!: oddE)
    moreover have "n \<noteq> 34" using 3(2) by auto
    moreover have "Suc n < 35" "n < 35" using \<open>n \<noteq> 34\<close> Suc.prems by linarith+
    moreover have "joy (autojoy_run ?u) = joy ?u" "autojoy_on (autojoy_run ?u) = autojoy_on ?u" "autojoy_busy (autojoy_run ?u) = autojoy_busy ?u"
      using 3 \<open>n \<noteq> 34\<close> s(1) by (simp_all add: autojoy_run_def Let_def) (auto simp: not_le)
    ultimately show ?thesis using 3(1) IH by simp
  next
    case 4
    then have "(n - 4) div 2 + 1 = n div 2 - 1" by (auto elim!: evenE)
    moreover have "autojoy_on ?u = bit (nmitimen v) 0" using IH(2) 4(1) by simp
    moreover have "joy (autojoy_run ?u) = (if autojoy_on ?u then (\<lambda>p. drop_bit (16 - ((n - 4) div 2 + 1)) (autojoy_pad v p)) else joy ?u) \<and>
        autojoy_busy (autojoy_run ?u) = (n \<noteq> 34 \<and> autojoy_busy ?u) \<and> autojoy_on (autojoy_run ?u) = autojoy_on ?u"
      using autojoy_run_shift[of ?u, unfolded s] 4 by blast
    moreover have "Suc n < 35 \<longleftrightarrow> n \<noteq> 34 \<and> n < 35" by auto
    ultimately show ?thesis using 4(1) IH(1,3) by simp
  qed
qed simp

text \<open>C35. The automatic joypad read, brought up to date at any clocks in any order, is the read of hardware:
  at clock \<open>t\<close> the result is what it was before step 1 ran, and from then on, if \<open>$4200\<close> enables
  it, the bits of the buttons held when the read was armed that have been shifted in (busy until all 16
  are), the buttons themselves 4609 clocks after the start of line 225 at the latest; updating twice is
  updating once at the later clock.\<close>

theorem autojoy_reads_pads:
  "let v0 = autojoy_arm now v; u = autojoy_update t v0; n = autojoy_due (autojoy_start v0) t; on = bit (nmitimen v) 0 in
     autojoy_update t' u = autojoy_update (max t t') v0 \<and>
     autojoy_busy u = (if n < 2 then autojoy_busy v else on \<and> n < 35) \<and>
     joy u = (if 2 \<le> n \<and> on then (\<lambda>p. drop_bit (16 - ((n - 1) div 2 - 1)) (pad v p)) else joy v) \<and>
     (t < now + 4609 \<or> n = 35 \<and> joy u = (if on then pad v else joy v))"
proof -
  define v0 where "v0 = autojoy_arm now v"
  define n where "n = autojoy_due (autojoy_start v0) t"
  define u where "u = autojoy_update t v0"
  have f: "autojoy_step v0 = 0" "autojoy_pad v0 = pad v" "nmitimen v0 = nmitimen v" "autojoy_busy v0 = autojoy_busy v"
    "joy v0 = joy v" "autojoy_start v0 = (now + 130 + 255) div 256 * 256 - 128"
    by (simp_all add: v0_def autojoy_arm_def Let_def)
  have n: "n \<le> 35" by (simp add: n_def autojoy_due_def)
  have u: "u = (autojoy_run ^^ n) v0" by (simp add: u_def n_def autojoy_update_runs f(1))
  note r = autojoy_runs[OF f(1) n, folded u, unfolded f(2-5)]
  have late: "n = 35" if "\<not> t < now + 4609"
  proof -
    have "autojoy_start v0 + 128 * 34 \<le> now + 4609" unfolding f(6) by linarith
    then have "34 < n" using that by (simp add: n_def autojoy_due_step)
    then show ?thesis using n by simp
  qed
  have "t < now + 4609 \<or> n = 35 \<and> joy u = (if bit (nmitimen v) 0 then pad v else joy v)"
  proof (cases "t < now + 4609")
    case False
    from late[OF this] have e: "n = 35" .
    show ?thesis using r unfolding e by simp
  qed simp
  moreover have "joy u = (if 2 \<le> n \<and> bit (nmitimen v) 0 then (\<lambda>p. drop_bit (16 - ((n - 1) div 2 - 1)) (pad v p)) else joy v)"
    using r by (cases "n < 2"; cases "bit (nmitimen v) 0") (simp_all add: not_le)
  ultimately show ?thesis
    using r autojoy_update_twice[of t' t v0] unfolding Let_def v0_def[symmetric] u_def[symmetric] n_def[symmetric]
    by (simp only: max.commute simp_thms)
qed

section \<open>The registers stay in their ranges\<close>

text \<open>The flags of \<open>$4210\<close> and \<open>$4211\<close> are bit 7, the timer targets have 9 bits, the latched H counter is a dot of the
  line, and the joypad read is in one of its steps, busy only when it is on.\<close>

definition regs_ok :: "vregs \<Rightarrow> bool" where
  "regs_ok r \<longleftrightarrow> (rdnmi r = 0 \<or> rdnmi r = 0x80) \<and> (timeup r = 0 \<or> timeup r = 0x80) \<and> htime r < 0x200 \<and> vtime r < 0x200 \<and>
     lat_h r \<le> 339 \<and> autojoy_step r \<le> 35 \<and> (autojoy_busy r \<longrightarrow> autojoy_on r)"

definition typed :: "(vregs \<Rightarrow> vregs) \<Rightarrow> bool" where
  "typed f \<longleftrightarrow> (\<forall>r. regs_ok r \<longrightarrow> regs_ok (f r))"

named_theorems typed_intro \<open>updates of the registers that keep them in their ranges\<close>

lemma typed_fields [typed_intro]:
  "typed (\<lambda>r. r\<lparr>lat_h := word_of_nat (if n > 339 then 339 else n), lat_v := l, lat_flag := b\<rparr>)"
  "typed (\<lambda>r. r\<lparr>ophct_hi := f r\<rparr>)" "typed (\<lambda>r. r\<lparr>opvct_hi := f r\<rparr>)" "typed (\<lambda>r. r\<lparr>lat_flag := a, ophct_hi := b, opvct_hi := b'\<rparr>)"
  "typed (\<lambda>r. r\<lparr>timeup := 0\<rparr>)" "typed (\<lambda>r. r\<lparr>timeup := 0x80\<rparr>)" "typed (\<lambda>r. r\<lparr>rdnmi := 0\<rparr>)" "typed (\<lambda>r. r\<lparr>rdnmi := 0x80, rdnmi_set := b\<rparr>)"
  "typed (\<lambda>r. r\<lparr>nmitimen := v\<rparr>)" "typed (\<lambda>r. r\<lparr>wrio := v\<rparr>)" "typed (\<lambda>r. r\<lparr>in_vblank := b, rdnmi_set := b'\<rparr>)" "typed (\<lambda>r. r\<lparr>in_vblank := b\<rparr>)"
  "typed (\<lambda>r. r\<lparr>pad := p r\<rparr>)" "typed (autojoy_arm t)" "typed (rdnmi_due c k hh)"
proof -
  show "typed (\<lambda>r. r\<lparr>lat_h := word_of_nat (if n > 339 then 339 else n), lat_v := l, lat_flag := b\<rparr>)"
  proof (cases "n > 339")
    case False
    then have "unat (word_of_nat n :: u16) = n" by (simp add: unat_of_nat)
    then have "(word_of_nat n :: u16) \<le> 339" using False by (simp add: word_le_nat_alt)
    then show ?thesis using False by (simp add: typed_def regs_ok_def)
  qed (simp add: typed_def regs_ok_def)
qed (auto simp: typed_def regs_ok_def autojoy_arm_def rdnmi_due_def Let_def)

lemma time_byte_bound: "t < 0x200 \<Longrightarrow> time_byte reg v t < 0x200"
proof -
  assume t: "t < 0x200"
  have b: "x < 0x200" if "\<And>n. 9 \<le> n \<Longrightarrow> \<not> bit x n" for x :: u16
  proof -
    have "take_bit 9 x = x" by (rule bit_word_eqI) (use that not_le in \<open>auto simp: bit_take_bit_iff\<close>)
    then have "unat x = take_bit 9 (unat x)" by (metis unsigned_take_bit_eq)
    then have "unat x < 2 ^ 9" by (metis take_bit_nat_less_exp)
    then show ?thesis by (simp add: word_less_nat_alt)
  qed
  have i: "bit (256 :: int) n \<longleftrightarrow> n = 8" for n using bit_exp_iff[where 'a = int, of 8 n] by simp
  have j: "bit (255 :: int) n \<longleftrightarrow> n < 8" for n
    using bit_mask_iff[where 'a = int, of 8 n] by (simp add: mask_eq_exp_minus_1)
  show ?thesis unfolding time_byte_def
    by (intro b) (auto simp: bit_simps bit_1_iff i j dest: bit_imp_le_length)
qed

lemma typed_target [typed_intro]: "typed (\<lambda>r. if b then r\<lparr>htime := time_byte reg v (htime r)\<rparr> else r\<lparr>vtime := time_byte reg v (vtime r)\<rparr>)"
  by (simp add: typed_def regs_ok_def time_byte_bound)

lemma typed_autojoy [typed_intro]: "typed (autojoy_update t)"
proof -
  have run: "regs_ok r \<Longrightarrow> autojoy_step r \<le> 34 \<Longrightarrow> regs_ok (autojoy_run r)" for r
    by (auto simp: regs_ok_def autojoy_run_def Let_def)
  have "regs_ok r \<Longrightarrow> regs_ok (autojoy_update t r)" for r
  proof (induction t r rule: autojoy_update.induct)
    case (1 t r)
    then show ?case using run by (subst autojoy_update.simps) auto
  qed
  then show ?thesis by (simp add: typed_def)
qed

end
