(* ===== verification/Ct_Advance.thy ===== *)
theory Ct_Advance
  imports Ct_Regs
begin

text \<open>
  The clock and the line events of \<open>runtime/sched.c\<close>: the start of a line, and \<open>advance\<close>, which lets
  master clocks pass and fires in time order the events they have reached. The vendored PPU and APU
  and the callers' hooks are the record \<open>video\<close>; \<open>yield_frame\<close>, which hands control to the caller of
  \<open>sched_run_frame\<close> until it calls again, is what that caller does in between. The reset hook, which leaves
  the instruction under way, is not set here.
\<close>

section \<open>State\<close>

definition SCHED_HEIGHT :: nat where "SCHED_HEIGHT = 224"

record frame_state = sched_state +
  fb :: "nat \<Rightarrow> u8"
  present :: "nat \<Rightarrow> u8"

record 's video =
  v_ppu :: "'s ppu_dev"
  v_begin :: "'s \<Rightarrow> 's"
  v_run_line :: "nat \<Rightarrow> 's \<Rightarrow> 's"
  v_apu_catch_up :: "nat \<Rightarrow> 's \<Rightarrow> 's"
  v_frame_hook :: "(int \<Rightarrow> ('s, unit) act) option"
  v_yield_frame :: "('s, unit) act"

section \<open>The start of a line\<close>

definition get_line :: "('a sched_state_scheme, nat) act" where
  "get_line = gets (\<lambda>s. line (tm s))"

definition apu_sync :: "('a frame_state_scheme) video \<Rightarrow> nat \<Rightarrow> ('a frame_state_scheme, unit) act" where
  "apu_sync V early = bnd access_clock (\<lambda>at. modify (v_apu_catch_up V at))"

definition draw_rest :: "('a frame_state_scheme) video \<Rightarrow> ('a frame_state_scheme, unit) act" where
  "draw_rest V = modify (ppu_drawTo (v_ppu V) 256)"

definition start_frame ::
  "('a frame_state_scheme) video \<Rightarrow> ('a frame_state_scheme) hooks \<Rightarrow> ('a frame_state_scheme, unit) act" where
  "start_frame V h =
     thn (vr_do (\<lambda>r. r\<lparr>in_vblank := False, rdnmi_set := False\<rparr>)) (thn (tm_do (\<lambda>m. m\<lparr>rdnmi_cleared := False\<rparr>))
    (thn (modify (v_begin V)) (dma_initHdma h)))"

definition start_vblank :: "('a frame_state_scheme) video \<Rightarrow> ('a frame_state_scheme, unit) act" where
  "start_vblank V =
     thn (draw_rest V) (thn (modify (\<lambda>s. s\<lparr>present := fb s\<rparr>)) (thn (vr_do (\<lambda>r. r\<lparr>in_vblank := True\<rparr>))
    (thn (modify snes_oam_vblank_reload) (bnd (gets (\<lambda>s. line_start (tm s))) (\<lambda>t. vr_do (autojoy_arm t))))))"

definition start_line ::
  "('a frame_state_scheme) video \<Rightarrow> ('a frame_state_scheme) hooks \<Rightarrow> ('a frame_state_scheme, unit) act" where
  "start_line V h =
     thn (bnd get_line (\<lambda>ln. whenM (ln = 0) (start_frame V h)))
    (thn (bnd get_line (\<lambda>ln. whenM (ln = SCHED_VBLANK_LINE) (start_vblank V)))
    (thn (bnd (gets (\<lambda>s. line_start (tm s))) (\<lambda>t. vr_do (autojoy_update t)))
         (bnd get_line (\<lambda>ln. whenM (ln \<le> SCHED_HEIGHT) (modify (v_run_line V ln))))))"

definition begin_tm :: "int \<Rightarrow> timing \<Rightarrow> timing" where
  "begin_tm at m = m\<lparr>irq_at := at, irq_done := at < 0, hblank_done := False, init_done := line m \<noteq> 0,
     nmi_done := line m \<noteq> SCHED_VBLANK_LINE, refresh_at := 538 - line_start m mod 8, refresh_done := False\<rparr>"

definition irq_clock :: "'a sched_state_scheme \<Rightarrow> fatal + int" where
  "irq_clock s = irq_clock_for (nmitimen (vr s)) (htime (vr s)) (vtime (vr s)) (line (tm s))"

definition begin_line ::
  "('a frame_state_scheme) video \<Rightarrow> ('a frame_state_scheme) hooks \<Rightarrow> ('a frame_state_scheme, unit) act" where
  "begin_line V h = thn (start_line V h) (bnd (gets irq_clock) (\<lambda>r.
     case r of Inl e \<Rightarrow> die e | Inr at \<Rightarrow> tm_do (begin_tm at)))"

section \<open>The frame edge\<close>

text \<open>The frame hook sees the memory of the edge: the writes of the instruction after it are taken back
  (from the journal of its writes) and put again.\<close>

definition undo_write :: "nat \<Rightarrow> 'a bus_state_scheme \<Rightarrow> 'a bus_state_scheme" where
  "undo_write k s = (let off = ct_bus_wram_off s (word_of_nat k) in
     if off \<noteq> 0 then s\<lparr>wram := (wram s)(off - 1 := ct_bus_wram_old s (word_of_nat k))\<rparr> else s)"

definition redo_write :: "nat \<Rightarrow> 'a bus_state_scheme \<Rightarrow> 'a bus_state_scheme" where
  "redo_write k s = (let off = ct_bus_wram_off s (word_of_nat k) in
     if off \<noteq> 0 then s\<lparr>wram := (wram s)(off - 1 := ct_bus_wram_new s (word_of_nat k))\<rparr> else s)"

definition edge_writes :: "'a sched_state_scheme \<Rightarrow> nat list" where
  "edge_writes s = (let f = edge_undo_from (tm s) in if f \<ge> 0 then [nat f..<logged s] else [])"

text \<open>The numbers of the writes are those of the start: the hook runs no instruction.\<close>

definition edge_hook :: "(int \<Rightarrow> ('a frame_state_scheme, unit) act) \<Rightarrow> ('a frame_state_scheme, unit) act" where
  "edge_hook hook =
     thn (tm_do (\<lambda>m. m\<lparr>edge_in_dma := dma_lo m < line_start m \<and> line_start m < dma_hi m\<rparr>))
    (bnd (gets edge_writes) (\<lambda>ks.
     thn (modify (fold undo_write (rev ks)))
    (thn (bnd (gets (\<lambda>s. frames (tm s))) hook)
         (modify (fold redo_write ks)))))"

section \<open>Letting clocks pass\<close>

datatype adv = Adv_set_rdnmi | Adv_clear_rdnmi | Adv_nmi | Adv_refresh | Adv_irq | Adv_hblank | Adv_line | Adv_none

definition uns :: "int \<Rightarrow> nat" where "uns x = nat (x mod 2 ^ 32)"

definition adv_next :: "vregs \<Rightarrow> timing \<Rightarrow> adv" where
  "adv_next v m =
     (if line m = SCHED_VBLANK_LINE \<and> \<not> rdnmi_set v \<and> hclock m \<ge> 2 then Adv_set_rdnmi
      else if line m = 0 \<and> \<not> rdnmi_cleared m \<and> hclock m \<ge> 2 then Adv_clear_rdnmi
      else if \<not> nmi_done m \<and> hclock m \<ge> 6 then Adv_nmi
      else if \<not> refresh_done m \<and> hclock m \<ge> refresh_at m then Adv_refresh
      else if \<not> irq_done m \<and> irq_at m < int SCHED_HDMA_CLOCK \<and> hclock m \<ge> uns (irq_at m) then Adv_irq
      else if \<not> hblank_done m \<and> hclock m \<ge> SCHED_HDMA_CLOCK then Adv_hblank
      else if \<not> irq_done m \<and> hclock m \<ge> uns (irq_at m) then Adv_irq
      else if hclock m \<ge> tm_line_clocks m then Adv_line
      else Adv_none)"

definition end_line :: "timing \<Rightarrow> timing" where
  "end_line m =
     (let len = tm_line_clocks m; m1 = m\<lparr>hclock := hclock m - len, line_start := line_start m + len, line := line m + 1\<rparr>
      in if line m1 = SCHED_LINES
         then m1\<lparr>line := 0, frames := frames m1 + 1, frame_clock := line_start m1, frame_done := True\<rparr> else m1)"

definition adv_line ::
  "('a frame_state_scheme) video \<Rightarrow> ('a frame_state_scheme) hooks \<Rightarrow> ('a frame_state_scheme, unit) act" where
  "adv_line V h = thn (apu_sync V 0) (thn (tm_do end_line) (bnd get_line (\<lambda>ln.
     thn (whenM (ln = 0) (case v_frame_hook V of Some f \<Rightarrow> edge_hook f | None \<Rightarrow> ret ()))
    (thn (begin_line V h) (whenM (ln = 0) (v_yield_frame V))))))"

definition advance_event ::
  "('a frame_state_scheme) video \<Rightarrow> ('a frame_state_scheme) hooks \<Rightarrow> adv \<Rightarrow> ('a frame_state_scheme, unit) act" where
  "advance_event V h k = (case k of
     Adv_set_rdnmi \<Rightarrow> vr_do (\<lambda>r. r\<lparr>rdnmi := 0x80, rdnmi_set := True\<rparr>)
   | Adv_clear_rdnmi \<Rightarrow> thn (vr_do (\<lambda>r. r\<lparr>rdnmi := 0\<rparr>)) (tm_do (\<lambda>m. m\<lparr>rdnmi_cleared := True\<rparr>))
   | Adv_nmi \<Rightarrow> thn (tm_do (\<lambda>m. m\<lparr>nmi_done := True\<rparr>)) (bnd (gets id) (\<lambda>s.
       whenM (\<not> walked (tm s) \<and> nmitimen (vr s) AND 0x80 \<noteq> 0) (pnd_do (\<lambda>p. p\<lparr>nmi_count := 1\<rparr>))))
   | Adv_refresh \<Rightarrow> tm_do (\<lambda>m. (if refresh_paid m \<noteq> 0 then m\<lparr>refresh_paid := refresh_paid m - 1\<rparr>
       else m\<lparr>hclock := hclock m + REFRESH_CLOCKS\<rparr>)\<lparr>refresh_done := True\<rparr>)
   | Adv_irq \<Rightarrow> thn (vr_do (\<lambda>r. r\<lparr>timeup := 0x80\<rparr>)) (thn (pnd_do (\<lambda>p. p\<lparr>irq_line := True\<rparr>)) (tm_do (\<lambda>m. m\<lparr>irq_done := True\<rparr>)))
   | Adv_hblank \<Rightarrow> thn (bnd get_line (\<lambda>ln. whenM (ln < SCHED_VBLANK_LINE) (thn (draw_rest V) (dma_doHdma h))))
       (tm_do (\<lambda>m. m\<lparr>hblank_done := True\<rparr>))
   | Adv_line \<Rightarrow> adv_line V h
   | Adv_none \<Rightarrow> ret ())"

fun advance_loop ::
  "nat \<Rightarrow> ('a frame_state_scheme) video \<Rightarrow> ('a frame_state_scheme) hooks \<Rightarrow> ('a frame_state_scheme, unit) act" where
  "advance_loop 0 V h = die Out_of_fuel"
| "advance_loop (Suc fuel) V h = bnd (gets (\<lambda>s. adv_next (vr s) (tm s))) (\<lambda>k.
     if k = Adv_none then ret () else thn (advance_event V h k) (advance_loop fuel V h))"

text \<open>Enough fuel for the loop: 8 for every clock, and for the clocks of a refresh.\<close>

definition adv_fuel :: "timing \<Rightarrow> nat" where
  "adv_fuel m = 8 * (hclock m + REFRESH_CLOCKS) + 8"

definition advance ::
  "('a frame_state_scheme) video \<Rightarrow> ('a frame_state_scheme) hooks \<Rightarrow> nat \<Rightarrow> ('a frame_state_scheme, unit) act" where
  "advance V h clocks = thn (tm_do (\<lambda>m. m\<lparr>hclock := hclock m + clocks\<rparr>))
     (bnd (gets (\<lambda>s. adv_fuel (tm s))) (\<lambda>fuel. advance_loop fuel V h))"

text \<open>\<open>walk_commit\<close>: \<open>advance\<close> over a walked instruction.\<close>

definition note_walk :: "walk \<Rightarrow> timing \<Rightarrow> timing" where
  "note_walk w m =
     (let m1 = m\<lparr>refresh_paid := refresh_paid m + refreshes w, edge_undo_from := undo_from w\<rparr>;
          m2 = (if w_dma_hi w \<noteq> 0 then m1\<lparr>dma_lo := w_dma_lo w, dma_hi := w_dma_hi w\<rparr> else m1)
      in m2\<lparr>walked := True\<rparr>)"

definition walk_commit ::
  "('a frame_state_scheme) video \<Rightarrow> ('a frame_state_scheme) hooks \<Rightarrow> walk \<Rightarrow> nat \<Rightarrow> nat \<Rightarrow> ('a frame_state_scheme, unit) act" where
  "walk_commit V h w start t =
     thn (tm_do (note_walk w)) (thn (advance V h (t - start))
    (tm_do (\<lambda>m. let m1 = m\<lparr>walked := False, edge_undo_from := - 1\<rparr> in
       if line m1 = w_line w then m1\<lparr>init_done := init_done m1 \<or> w_init_done w, nmi_done := nmi_done m1 \<or> w_nmi_done w\<rparr>
       else m1)))"

section \<open>What handlers leave alone\<close>

text \<open>
  No register handler and no bus access moves the clock or changes the CPU registers, the read of \<open>$4210\<close> can only set \<open>rdnmi_set\<close>,
  and the registers stay in their ranges: \<open>steady s0 s\<close> is what holds between any two states with only such in between.
\<close>

definition steady :: "'a sched_state_scheme \<Rightarrow> 'a sched_state_scheme \<Rightarrow> bool" where
  "steady s0 s \<longleftrightarrow> tm s = tm s0 \<and> cpu s = cpu s0 \<and> (rdnmi_set (vr s0) \<longrightarrow> rdnmi_set (vr s)) \<and> (regs_ok (vr s0) \<longrightarrow> regs_ok (vr s))"

lemma steady_refl: "steady s s" by (simp add: steady_def)

lemma steady_trans: "steady a b \<Longrightarrow> steady b c \<Longrightarrow> steady a c" by (simp add: steady_def)

lemma keeps_still: "(\<And>s. tm (f s) = tm s \<and> vr (f s) = vr s \<and> cpu (f s) = cpu s) \<Longrightarrow> keeps (steady s0) (modify f)"
  by (rule keeps_modify) (simp add: steady_def)

lemma keeps_pnd [keeps_intro]: "keeps (steady s0) (pnd_do f)"
  unfolding pnd_do_def by (rule keeps_still) simp

lemma keeps_vr: "typed f \<Longrightarrow> (\<And>r. rdnmi_set r \<Longrightarrow> rdnmi_set (f r)) \<Longrightarrow> keeps (steady s0) (vr_do f)"
  unfolding vr_do_def typed_def by (rule keeps_modify) (simp add: steady_def)

lemma keeps_access_clock [keeps_intro]: "keeps (steady s0) access_clock"
  by (rule hoareI) (auto simp: access_clock_def split: if_splits sum.splits prod.splits)

text \<open>The bus.\<close>

definition hooks_steady :: "('a sched_state_scheme) hooks \<Rightarrow> bool" where
  "hooks_steady h \<longleftrightarrow> (\<forall>s0. (\<forall>r f reg. hw_rd h r = Some f \<longrightarrow> keeps (steady s0) (f reg)) \<and>
     (\<forall>r f reg v. hw_wr h r = Some f \<longrightarrow> keeps (steady s0) (f reg v)))"

lemma log_access_still: "tm (log_access ck e s) = tm s" "vr (log_access ck e s) = vr s" "cpu (log_access ck e s) = cpu s"
  by (simp_all add: log_access_def Let_def)

lemma set_mdr_still: "tm (set_mdr v s) = tm s" "vr (set_mdr v s) = vr s" "cpu (set_mdr v s) = cpu s"
  by (simp_all add: set_mdr_def)

lemma wram_store_still: "tm (wram_store off v s) = tm s" "vr (wram_store off v s) = vr s" "cpu (wram_store off v s) = cpu s"
proof -
  have j: "tm (wram_journal off v s) = tm s" "vr (wram_journal off v s) = vr s" "cpu (wram_journal off v s) = cpu s" for s :: "'a sched_state_scheme"
    by (simp_all add: wram_journal_def)
  have b: "tm (if b then s\<lparr>ct_wram_hit := True\<rparr> else s) = tm s" "vr (if b then s\<lparr>ct_wram_hit := True\<rparr> else s) = vr s" "cpu (if b then s\<lparr>ct_wram_hit := True\<rparr> else s) = cpu s"
    for b and s :: "'a sched_state_scheme" by simp_all
  have u: "tm (s\<lparr>wram := m\<rparr>) = tm s" "vr (s\<lparr>wram := m\<rparr>) = vr s" "cpu (s\<lparr>wram := m\<rparr>) = cpu s" "tm (s\<lparr>ct_wram_gen := g\<rparr>) = tm s" "vr (s\<lparr>ct_wram_gen := g\<rparr>) = vr s" "cpu (s\<lparr>ct_wram_gen := g\<rparr>) = cpu s"
    for s :: "'a sched_state_scheme" and m g by simp_all
  show "tm (wram_store off v s) = tm s" "vr (wram_store off v s) = vr s" "cpu (wram_store off v s) = cpu s"
    unfolding wram_store_def Let_def u j b by (rule refl)+
qed

lemma steady_logged: "steady s0 (log_access ck e s) \<longleftrightarrow> steady s0 s" "steady s0 (set_mdr v s) \<longleftrightarrow> steady s0 s"
  "steady s0 (wram_store off v s) \<longleftrightarrow> steady s0 s"
  by (simp_all add: steady_def log_access_still set_mdr_still wram_store_still)

lemma keeps_set_mdr [keeps_intro]: "keeps (steady s0) (modify (set_mdr v))"
  by (rule keeps_modify) (simp add: steady_logged)

lemma keeps_read8 [keeps_intro]:
  assumes "hooks_steady h"
  shows "keeps (steady s0) (read8 h a)"
proof (rule hoareI)
  fix s x t
  assume p: "steady s0 s" and r: "read8 h a s = Inr (x, t)"
  have f: "keeps (steady s0) (bnd (f (to16 off)) (\<lambda>v. thn (modify (set_mdr v)) (ret v)))" if "hw_rd h r = Some f" for r f off
    using assms that by (intro keeps_intro) (auto simp: hooks_steady_def)
  obtain rg off where a: "decode_addr (a AND 0xFFFFFF) = (rg, off)" by fastforce
  show "steady s0 t"
  proof (cases "rg = R_HW")
    case True
    obtain g where g: "hw_rd h (to16 (off - HW_BASE)) = Some g"
      using r True by (cases "hw_rd h (to16 (off - HW_BASE))") (simp_all add: read8_def Let_def a)
    have "bnd (g (to16 off)) (\<lambda>v. thn (modify (set_mdr v)) (ret v))
        (log_access (bus_access_clocks (a AND 0xFFFFFF) s) (to8 (bus_access_clocks (a AND 0xFFFFFF) s) OR ct_bus_fetch s) s) = Inr (x, t)"
      using r True by (simp add: read8_def Let_def a g)
    from hoareD[OF f[OF g] _ this] p show ?thesis by (simp add: steady_logged)
  next
    case False
    then show ?thesis using r p by (cases rg) (auto simp: read8_def Let_def a steady_logged)
  qed
qed

lemma keeps_write8 [keeps_intro]:
  assumes "hooks_steady h"
  shows "keeps (steady s0) (write8 h a v)"
proof (rule hoareI)
  fix s x t
  assume p: "steady s0 s" and r: "write8 h a v s = Inr (x, t)"
  have f: "keeps (steady s0) (f (to16 off) v)" if "hw_wr h r = Some f" for r f off
    using assms that by (auto simp: hooks_steady_def)
  obtain rg off where a: "decode_addr (a AND 0xFFFFFF) = (rg, off)" by fastforce
  have e: "steady s0 (s'\<lparr>sram := m\<rparr>) = steady s0 s'" for s' m by (simp add: steady_def)
  show "steady s0 t"
  proof (cases "rg = R_HW")
    case True
    obtain g where g: "hw_wr h (to16 (off - HW_BASE)) = Some g"
      using r True by (cases "hw_wr h (to16 (off - HW_BASE))") (simp_all add: write8_def Let_def a)
    have "g (to16 off) v (set_mdr v (log_access (bus_access_clocks (a AND 0xFFFFFF) s)
        (to8 (bus_access_clocks (a AND 0xFFFFFF) s OR CT_BUS_WRITE)) s)) = Inr (x, t)"
      using r True by (simp add: write8_def Let_def a g)
    from hoareD[OF f[OF g] _ this] p show ?thesis by (simp add: steady_logged)
  next
    case False
    then show ?thesis using r p by (cases rg) (auto simp: write8_def Let_def a steady_logged e)
  qed
qed

text \<open>DMA and HDMA.\<close>

lemma keeps_dma_do [keeps_intro]: "keeps (steady s0) (dma_do f)"
  unfolding dma_do_def by (rule keeps_still) simp

lemma keeps_chan [keeps_intro]: "keeps (steady s0) (chan_do i f)" "keeps (steady s0) (chan_get i)"
  unfolding chan_do_def chan_get_def by (intro keeps_intro)+

lemma keeps_transferByte [keeps_intro]: "hooks_steady h \<Longrightarrow> keeps (steady s0) (dma_transferByte h a b c d)"
  unfolding dma_transferByte_def snes_readBBus_def snes_writeBBus_def by (intro keeps_intro)

lemma keeps_doDma [keeps_intro]: "hooks_steady h \<Longrightarrow> keeps (steady s0) (dma_doDma h)"
  unfolding dma_doDma_def Let_def by (intro keeps_intro)

lemma keeps_dma_loop [keeps_intro]:
  assumes "hooks_steady h"
  shows "keeps (steady s0) (dma_loop n h)"
  by (induction n; simp only: dma_loop.simps; intro keeps_intro assms; assumption)

lemma keeps_table [keeps_intro]: "hooks_steady h \<Longrightarrow> keeps (steady s0) (next_table h i)"
  unfolding next_table_def by (intro keeps_intro)

lemma keeps_indirect [keeps_intro]: "hooks_steady h \<Longrightarrow> keeps (steady s0) (load_indirect h i)"
  unfolding load_indirect_def by (intro keeps_intro)

lemma keeps_init_chan: "hooks_steady h \<Longrightarrow> keeps (steady s0) (init_chan h i)"
  unfolding init_chan_def by (intro keeps_intro)

lemma keeps_hdma_bytes [keeps_intro]:
  assumes "hooks_steady h"
  shows "keeps (steady s0) (hdma_bytes h i n j)"
  by (induction n arbitrary: j; simp only: hdma_bytes.simps hdma_byte_def Let_def; intro keeps_intro assms; assumption)

lemma keeps_hdma_chan: "hooks_steady h \<Longrightarrow> keeps (steady s0) (hdma_chan h i)"
  unfolding hdma_chan_def by (intro keeps_intro)

lemma keeps_round: "(\<And>i. keeps (steady s0) (f i)) \<Longrightarrow> keeps (steady s0) (hdma_round f)"
proof -
  assume f: "\<And>i. keeps (steady s0) (f i)"
  have "keeps (steady s0) (any_chan f is)" for "is"
    by (induction "is"; simp only: any_chan.simps; intro keeps_intro f; assumption)
  then show ?thesis unfolding hdma_round_def by (intro keeps_intro)
qed

lemma keeps_hdma [keeps_intro]:
  assumes "hooks_steady h"
  shows "keeps (steady s0) (dma_doHdma h)" "keeps (steady s0) (dma_initHdma h)"
  unfolding dma_doHdma_def dma_initHdma_def
  by (intro keeps_round keeps_hdma_chan[OF assms] keeps_init_chan[OF assms])+

text \<open>The scheduler's own handlers.\<close>

lemma autojoy_keeps_set: "rdnmi_set (autojoy_update t r) = rdnmi_set r"
proof (induction t r rule: autojoy_update.induct)
  case (1 t r)
  have "rdnmi_set (autojoy_run r) = rdnmi_set r" by (simp add: autojoy_run_def Let_def)
  then show ?case using 1 by (simp add: autojoy_update.simps[of t r])
qed

lemma keeps_access_hv [keeps_intro]: "keeps (steady s0) access_hv"
  unfolding access_hv_def by (intro keeps_intro)

lemma keeps_latch [keeps_intro]: "keeps (steady s0) latch_counters"
  unfolding latch_counters_def case_prod_unfold by (intro keeps_intro keeps_vr typed_intro) simp

lemma keeps_ppu2 [keeps_intro]: "keeps (steady s0) (modify (snes_set_ppu2_mdr v))"
  unfolding snes_set_ppu2_mdr_def by (rule keeps_still) simp

lemma regs_steady:
  "keeps (steady s0) (slhv_read reg)" "keeps (steady s0) (ophct_read reg)" "keeps (steady s0) (opvct_read reg)"
  "keeps (steady s0) (stat78_read reg)" "keeps (steady s0) (nmitimen_write reg v)" "keeps (steady s0) (rdio_read reg)"
  "keeps (steady s0) (wrio_write reg v)" "keeps (steady s0) (htime_vtime_write reg v)" "keeps (steady s0) (joy_read reg)"
  "keeps (steady s0) (rdnmi_read reg)" "keeps (steady s0) (timeup_read reg)" "keeps (steady s0) (hvbjoy_read reg)"
  unfolding slhv_read_def ophct_read_def opvct_read_def stat78_read_def nmitimen_write_def rdio_read_def wrio_write_def
    htime_vtime_write_def joy_read_def rdnmi_read_def timeup_read_def hvbjoy_read_def case_prod_unfold bus_open_bus_def Let_def
  by (intro keeps_intro keeps_vr typed_intro; (simp add: autojoy_keeps_set rdnmi_due_def Let_def)?)+

text \<open>The vendored PPU and APU and the callers' hooks leave the clock and the CPU alone too.\<close>

definition still :: "('a sched_state_scheme \<Rightarrow> 'a sched_state_scheme) \<Rightarrow> bool" where
  "still f \<longleftrightarrow> (\<forall>s. tm (f s) = tm s \<and> vr (f s) = vr s \<and> cpu (f s) = cpu s)"

definition video_steady :: "('a frame_state_scheme) video \<Rightarrow> bool" where
  "video_steady V \<longleftrightarrow> (\<forall>n. still (ppu_drawTo (v_ppu V) n)) \<and> still (v_begin V) \<and> (\<forall>n. still (v_run_line V n)) \<and>
     (\<forall>n. still (v_apu_catch_up V n)) \<and>
     (\<forall>f n s0. v_frame_hook V = Some f \<longrightarrow> keeps (steady s0) (f n)) \<and> (\<forall>s0. keeps (steady s0) (v_yield_frame V))"

lemma video_steadyD:
  assumes "video_steady V"
  shows "keeps (steady s0) (modify (ppu_drawTo (v_ppu V) n))" "keeps (steady s0) (modify (v_begin V))"
    "keeps (steady s0) (modify (v_run_line V k))" "keeps (steady s0) (modify (v_apu_catch_up V k))"
    "v_frame_hook V = Some f \<Longrightarrow> keeps (steady s0) (f i)" "keeps (steady s0) (v_yield_frame V)"
  using assms unfolding video_steady_def still_def by (auto intro!: keeps_still)

lemma keeps_line [keeps_intro]: "keeps (steady s0) get_line"
  unfolding get_line_def by (rule keeps_gets)

lemma keeps_draw [keeps_intro]: "video_steady V \<Longrightarrow> keeps (steady s0) (draw_rest V)"
  unfolding draw_rest_def by (rule video_steadyD)

lemma keeps_apu_sync [keeps_intro]: "video_steady V \<Longrightarrow> keeps (steady s0) (apu_sync V n)"
  unfolding apu_sync_def by (intro keeps_intro video_steadyD)

lemma keeps_vblank [keeps_intro]: "video_steady V \<Longrightarrow> keeps (steady s0) (start_vblank V)"
  unfolding start_vblank_def
  by (intro keeps_intro keeps_vr typed_intro keeps_still) (simp_all add: snes_oam_vblank_reload_def ppu_do_def autojoy_arm_def Let_def)

lemma undo_still: "tm (undo_write k s) = tm s" "vr (undo_write k s) = vr s" "cpu (undo_write k s) = cpu s"
  "tm (redo_write k s) = tm s" "vr (redo_write k s) = vr s" "cpu (redo_write k s) = cpu s"
  by (simp_all add: undo_write_def redo_write_def Let_def)

lemma keeps_undo [keeps_intro]: "keeps (steady s0) (modify (fold undo_write ks))" "keeps (steady s0) (modify (fold redo_write ks))"
proof -
  have "tm (fold undo_write ks s) = tm s \<and> vr (fold undo_write ks s) = vr s \<and> cpu (fold undo_write ks s) = cpu s" for s :: "'a sched_state_scheme"
    by (induction ks arbitrary: s) (simp_all add: undo_still)
  then show "keeps (steady s0) (modify (fold undo_write ks))" by (rule keeps_still)
  have "tm (fold redo_write ks s) = tm s \<and> vr (fold redo_write ks s) = vr s \<and> cpu (fold redo_write ks s) = cpu s" for s :: "'a sched_state_scheme"
    by (induction ks arbitrary: s) (simp_all add: undo_still)
  then show "keeps (steady s0) (modify (fold redo_write ks))" by (rule keeps_still)
qed

section \<open>What an event does to the clock\<close>

text \<open>What is kept from the position \<open>m\<close>, whatever the registers do.\<close>

abbreviation at_tm :: "timing \<Rightarrow> 'a sched_state_scheme \<Rightarrow> bool" where "at_tm m \<equiv> \<lambda>s. tm s = m"

lemma steady_tm: "(\<And>s0. keeps (steady s0) m) \<Longrightarrow> keeps (at_tm c) m"
  unfolding hoare_def using steady_refl steady_def by blast

lemma hoare_thn: "hoare P m (\<lambda>_. R) \<Longrightarrow> hoare R k Q \<Longrightarrow> hoare P (thn m k) Q"
  unfolding thn_def by (rule hoare_bnd)

lemma hoare_gets: "(\<And>s. P s \<Longrightarrow> Q (f s) s) \<Longrightarrow> hoare P (gets f) Q"
  by (simp add: hoare_def)

lemma hoare_tm: "hoare (at_tm m) (tm_do f) (\<lambda>_. at_tm (f m))"
  by (simp add: hoare_def tm_do_def)

lemma hoare_line: "hoare (at_tm m) get_line (\<lambda>ln s. tm s = m \<and> ln = line m)"
  by (auto simp: hoare_def get_line_def)

lemma on_line: "hoare (at_tm m) (f (line m)) Q \<Longrightarrow> hoare (at_tm m) (bnd get_line f) Q"
  by (auto simp: hoare_def get_line_def bnd_gets)

text \<open>The position after the start of line 0 forgets that the NMI flag was cleared.\<close>

definition started :: "timing \<Rightarrow> timing" where
  "started m = (if line m = 0 then m\<lparr>rdnmi_cleared := False\<rparr> else m)"

lemma start_line_tm:
  assumes "hooks_steady h" "video_steady V"
  shows "hoare (at_tm m) (start_line V h) (\<lambda>_. at_tm (started m))"
proof -
  note k = keeps_intro assms video_steadyD[OF assms(2)]
  have v: "keeps (at_tm c) (vr_do f)" for c f by (simp add: hoare_def vr_do_def)
  have sf: "hoare (at_tm m) (start_frame V h) (\<lambda>_. at_tm (m\<lparr>rdnmi_cleared := False\<rparr>))"
    unfolding start_frame_def by (intro hoare_thn[OF v] hoare_thn[OF hoare_tm] steady_tm k)
  have 1: "hoare (at_tm m) (bnd get_line (\<lambda>ln. whenM (ln = 0) (start_frame V h))) (\<lambda>_. at_tm (started m))"
    by (rule on_line) (use sf in \<open>auto simp: started_def whenM_def intro: keeps_ret\<close>)
  have 2: "keeps (at_tm c) (bnd get_line (\<lambda>ln. whenM (ln = SCHED_VBLANK_LINE) (start_vblank V)))" for c
    by (intro steady_tm k)
  have 3: "keeps (at_tm c) (bnd (gets (\<lambda>s. line_start (tm s))) (\<lambda>t. vr_do (autojoy_update t)))" for c
    by (intro steady_tm keeps_intro keeps_vr typed_intro) (simp add: autojoy_keeps_set)
  have 4: "keeps (at_tm c) (bnd get_line (\<lambda>ln. whenM (ln \<le> SCHED_HEIGHT) (modify (v_run_line V ln))))" for c
    by (intro steady_tm k)
  show ?thesis
    unfolding start_line_def by (rule hoare_thn[OF 1 hoare_thn[OF 2 hoare_thn[OF 3 4]]])
qed

lemma irq_clock_range:
  assumes "irq_clock_for n h v l = Inr at"
  shows "- 1 \<le> at \<and> at < 2000"
proof (cases "h \<ge> 337")
  case False
  then have "uint h < 337" by (simp add: word_le_def)
  then show ?thesis using assms by (auto simp: irq_clock_for_def Let_def split: if_splits)
qed (use assms in \<open>auto simp: irq_clock_for_def Let_def split: if_splits\<close>)

lemma begin_line_tm:
  assumes "hooks_steady h" "video_steady V"
  shows "hoare (at_tm m) (begin_line V h) (\<lambda>_ s. \<exists>at. - 1 \<le> at \<and> at < 2000 \<and> tm s = begin_tm at (started m))"
  unfolding begin_line_def
proof (rule hoare_thn[OF start_line_tm[OF assms]], rule hoareI)
  fix s x t
  assume "tm s = started m" "bnd (gets irq_clock) (\<lambda>r. case r of Inl e \<Rightarrow> die e | Inr at \<Rightarrow> tm_do (begin_tm at)) s = Inr (x, t)"
  then obtain at where "irq_clock s = Inr at" "tm t = begin_tm at (started m)"
    by (auto simp: bnd_gets tm_do_def split: sum.splits)
  then show "\<exists>at. - 1 \<le> at \<and> at < 2000 \<and> tm t = begin_tm at (started m)"
    using irq_clock_range[of _ _ _ _ at] unfolding irq_clock_def by blast
qed

definition still_running :: "timing \<Rightarrow> timing" where "still_running m = m\<lparr>edge_in_dma := dma_lo m < line_start m \<and> line_start m < dma_hi m\<rparr>"

definition new_line :: "timing \<Rightarrow> timing \<Rightarrow> bool" where
  "new_line m m' \<longleftrightarrow> (\<exists>at b. - 1 \<le> at \<and> at < 2000 \<and> m' = begin_tm at (started ((end_line m)\<lparr>edge_in_dma := b\<rparr>)))"

lemma adv_line_tm:
  assumes "hooks_steady h" "video_steady V"
  shows "hoare (at_tm m) (adv_line V h) (\<lambda>_ s. new_line m (tm s))"
proof -
  note k = keeps_intro assms video_steadyD[OF assms(2)]
  let ?Q = "\<lambda>s. \<exists>b. tm s = (end_line m)\<lparr>edge_in_dma := b\<rparr>"
  have e: "hoare (at_tm (end_line m)) (whenM (line (end_line m) = 0)
      (case v_frame_hook V of Some f \<Rightarrow> edge_hook f | None \<Rightarrow> ret ())) (\<lambda>_. ?Q)"
  proof (cases "v_frame_hook V")
    case None
    then show ?thesis by (auto simp: whenM_def hoare_def intro!: exI[of _ "edge_in_dma (end_line m)"])
  next
    case (Some f)
    have f: "keeps (steady s0) (f i)" for s0 i using video_steadyD(5)[OF assms(2) Some] .
    have "hoare (at_tm (end_line m)) (edge_hook f) (\<lambda>_. at_tm (still_running (end_line m)))"
      unfolding edge_hook_def
      by (rule hoare_thn[OF hoare_tm[of _ still_running, unfolded still_running_def]])
        (intro steady_tm keeps_intro f | simp add: still_running_def)+
    then have "hoare (at_tm (end_line m)) (edge_hook f) (\<lambda>_. ?Q)"
      by (rule hoare_weaken) (auto simp: still_running_def)
    then show ?thesis using Some by (auto simp: whenM_def hoare_def intro!: exI[of _ "edge_in_dma (end_line m)"])
  qed
  have b: "hoare ?Q (begin_line V h) (\<lambda>_ s. new_line m (tm s))"
    using begin_line_tm[OF assms] unfolding hoare_def new_line_def by blast
  have y: "keeps (\<lambda>s. new_line m (tm s)) (whenM c (v_yield_frame V))" for c
  proof (rule hoareI)
    fix s x t
    assume "new_line m (tm s)" "whenM c (v_yield_frame V) s = Inr (x, t)"
    moreover have "keeps (steady s) (whenM c (v_yield_frame V))" by (intro k)
    from hoareD[OF this] calculation(2) have "steady s t" using steady_refl by blast
    ultimately show "new_line m (tm t)"
      by (simp add: steady_def)
  qed
  show ?thesis
    unfolding adv_line_def
    by (rule hoare_thn[OF steady_tm]) (intro k, rule hoare_thn[OF hoare_tm], rule on_line, rule hoare_thn[OF e hoare_thn[OF b y]])
qed

definition adv_tm :: "adv \<Rightarrow> timing \<Rightarrow> timing" where
  "adv_tm k m = (case k of
     Adv_clear_rdnmi \<Rightarrow> m\<lparr>rdnmi_cleared := True\<rparr>
   | Adv_nmi \<Rightarrow> m\<lparr>nmi_done := True\<rparr>
   | Adv_refresh \<Rightarrow> (if refresh_paid m \<noteq> 0 then m\<lparr>refresh_paid := refresh_paid m - 1\<rparr>
       else m\<lparr>hclock := hclock m + REFRESH_CLOCKS\<rparr>)\<lparr>refresh_done := True\<rparr>
   | Adv_irq \<Rightarrow> m\<lparr>irq_done := True\<rparr>
   | Adv_hblank \<Rightarrow> m\<lparr>hblank_done := True\<rparr>
   | _ \<Rightarrow> m)"

text \<open>The effect of an event on the position and on \<open>rdnmi_set\<close>.\<close>

definition adv_effect :: "adv \<Rightarrow> vregs \<times> timing \<Rightarrow> vregs \<times> timing \<Rightarrow> bool" where
  "adv_effect k a b \<longleftrightarrow>
     (if k = Adv_line then new_line (snd a) (snd b)
      else snd b = adv_tm k (snd a) \<and> (rdnmi_set (fst a) \<or> k = Adv_set_rdnmi \<longrightarrow> rdnmi_set (fst b)))"

lemma advance_event_effect:
  assumes "hooks_steady h" "video_steady V" "advance_event V h k s = Inr (x, t)"
  shows "adv_effect k (vr s, tm s) (vr t, tm t)"
proof -
  note k = keeps_intro assms(1,2)
  have hb: "steady s u" if "bnd get_line (\<lambda>ln. whenM (ln < SCHED_VBLANK_LINE) (thn (draw_rest V) (dma_doHdma h))) s = Inr (y, u)" for y u
  proof -
    have "keeps (steady s) (bnd get_line (\<lambda>ln. whenM (ln < SCHED_VBLANK_LINE) (thn (draw_rest V) (dma_doHdma h))))" by (intro k)
    from hoareD[OF this steady_refl that] show ?thesis .
  qed
  show ?thesis
  proof (cases k)
    case Adv_line
    then show ?thesis using hoareD[OF adv_line_tm[OF assms(1,2)], of s "tm s" x t] assms(3)
      by (simp add: adv_effect_def advance_event_def)
  next
    case Adv_hblank
    then show ?thesis using assms(3) hb
      by (auto simp: adv_effect_def adv_tm_def advance_event_def thn_def bnd_Inr tm_do_def steady_def)
  next
    case Adv_nmi
    then show ?thesis using assms(3)
      by (auto simp: adv_effect_def adv_tm_def advance_event_def tm_do_def thn_modify bnd_gets pnd_do_def whenM_def split: if_splits)
  qed (use assms(3) in \<open>auto simp: adv_effect_def adv_tm_def advance_event_def tm_do_def vr_do_def pnd_do_def thn_modify\<close>)
qed

section \<open>The loop ends\<close>

definition adv_left :: "vregs \<Rightarrow> timing \<Rightarrow> nat" where
  "adv_left v m = of_bool (\<not> rdnmi_set v) + of_bool (\<not> rdnmi_cleared m) + of_bool (\<not> nmi_done m)
     + of_bool (\<not> refresh_done m) + of_bool (\<not> irq_done m) + of_bool (\<not> hblank_done m)"

definition adv_measure :: "vregs \<Rightarrow> timing \<Rightarrow> nat" where
  "adv_measure v m = 8 * (hclock m + (if refresh_done m then 0 else REFRESH_CLOCKS)) + adv_left v m"

lemma adv_left_le: "adv_left v m \<le> 6" by (simp add: adv_left_def)

lemma adv_measure_fuel: "adv_measure v m < adv_fuel m"
  using adv_left_le[of v m] by (simp add: adv_measure_def adv_fuel_def sched_consts)

lemma tm_line_clocks_bounds: "1360 \<le> tm_line_clocks m" "tm_line_clocks m \<le> 1364"
  by (simp_all add: tm_line_clocks_def line_clocks_bounds)

lemma if_elim: "(if c then a else b) = r \<Longrightarrow> (c \<Longrightarrow> a = r \<Longrightarrow> P) \<Longrightarrow> (\<not> c \<Longrightarrow> b = r \<Longrightarrow> P) \<Longrightarrow> P"
  by (cases c) simp_all

lemma adv_next_cases:
  assumes "adv_next v m = k"
  obtains "k = Adv_set_rdnmi" "\<not> rdnmi_set v"
  | "k = Adv_clear_rdnmi" "\<not> rdnmi_cleared m"
  | "k = Adv_nmi" "\<not> nmi_done m" "6 \<le> hclock m"
  | "k = Adv_refresh" "\<not> refresh_done m" "refresh_at m \<le> hclock m"
  | "k = Adv_irq" "\<not> irq_done m" "uns (irq_at m) \<le> hclock m"
  | "k = Adv_hblank" "\<not> hblank_done m" "SCHED_HDMA_CLOCK \<le> hclock m"
  | "k = Adv_line" "tm_line_clocks m \<le> hclock m" "\<not> (\<not> refresh_done m \<and> refresh_at m \<le> hclock m)"
  | "k = Adv_none" "hclock m < tm_line_clocks m" "\<not> (\<not> refresh_done m \<and> refresh_at m \<le> hclock m)"
      "\<not> (\<not> nmi_done m \<and> 6 \<le> hclock m)" "\<not> (\<not> irq_done m \<and> uns (irq_at m) \<le> hclock m)"
      "\<not> (\<not> hblank_done m \<and> SCHED_HDMA_CLOCK \<le> hclock m)"
  using assms unfolding adv_next_def
  by (elim if_elim) (rule that; simp; fail)+

lemma new_line_tm:
  assumes "new_line m m'"
  shows "line m' = (if line m + 1 = SCHED_LINES then 0 else line m + 1)"
    "frames m' = (if line m + 1 = SCHED_LINES then frames m + 1 else frames m)"
    "hclock m' = hclock m - tm_line_clocks m" "line_start m' = line_start m + tm_line_clocks m"
    "refresh_done m' = False" "refresh_at m' = 538 - line_start m' mod 8" "hblank_done m' = False"
    "irq_done m' = (irq_at m' < 0)" "nmi_done m' = (line m' \<noteq> SCHED_VBLANK_LINE)" "init_done m' = (line m' \<noteq> 0)"
    "refresh_paid m' = refresh_paid m" "walked m' = walked m" "field_base m' = field_base m"
    "edge_undo_from m' = edge_undo_from m"
proof -
  define e where "e = end_line m"
  have e: "line e = (if line m + 1 = SCHED_LINES then 0 else line m + 1)"
    "frames e = (if line m + 1 = SCHED_LINES then frames m + 1 else frames m)"
    "hclock e = hclock m - tm_line_clocks m" "line_start e = line_start m + tm_line_clocks m"
    "refresh_paid e = refresh_paid m" "walked e = walked m" "field_base e = field_base m"
    "edge_undo_from e = edge_undo_from m"
    unfolding e_def end_line_def Let_def by (cases "line m + 1 = SCHED_LINES"; simp)+
  obtain at b where m': "m' = begin_tm at (started (e\<lparr>edge_in_dma := b\<rparr>))"
    using assms unfolding new_line_def e_def by blast
  define g where "g = started (e\<lparr>edge_in_dma := b\<rparr>)"
  have g: "line g = line e" "frames g = frames e" "hclock g = hclock e" "line_start g = line_start e"
    "refresh_paid g = refresh_paid e" "walked g = walked e" "field_base g = field_base e" "edge_undo_from g = edge_undo_from e"
    unfolding g_def started_def by (cases "line (e\<lparr>edge_in_dma := b\<rparr>) = 0"; simp)+
  show "line m' = (if line m + 1 = SCHED_LINES then 0 else line m + 1)"
    "frames m' = (if line m + 1 = SCHED_LINES then frames m + 1 else frames m)"
    "hclock m' = hclock m - tm_line_clocks m" "line_start m' = line_start m + tm_line_clocks m"
    "refresh_done m' = False" "refresh_at m' = 538 - line_start m' mod 8" "hblank_done m' = False"
    "irq_done m' = (irq_at m' < 0)" "nmi_done m' = (line m' \<noteq> SCHED_VBLANK_LINE)" "init_done m' = (line m' \<noteq> 0)"
    "refresh_paid m' = refresh_paid m" "walked m' = walked m" "field_base m' = field_base m"
    "edge_undo_from m' = edge_undo_from m"
    unfolding m' g_def[symmetric] begin_tm_def by (simp_all add: g e)
qed

lemma adv_effect_measure:
  assumes "adv_next v m = k" "k \<noteq> Adv_none" "adv_effect k (v, m) (v', m')"
  shows "adv_measure v' m' < adv_measure v m"
proof (cases "k = Adv_line")
  case True
  have len: "tm_line_clocks m \<le> hclock m" using assms(1) True by (cases rule: adv_next_cases) simp_all
  have "hclock m' = hclock m - tm_line_clocks m" using new_line_tm(3)[of m m'] assms(3) True by (simp add: adv_effect_def)
  then have "hclock m' + 1360 \<le> hclock m" using len tm_line_clocks_bounds(1)[of m] by linarith
  then show ?thesis using adv_left_le[of v' m'] by (simp add: adv_measure_def sched_consts)
next
  case False
  then have e: "m' = adv_tm k m" "rdnmi_set v \<or> k = Adv_set_rdnmi \<longrightarrow> rdnmi_set v'" using assms(3) by (simp_all add: adv_effect_def)
  show ?thesis using assms(1)
    by (cases rule: adv_next_cases) (use False assms(2) e in \<open>auto simp: adv_measure_def adv_left_def adv_tm_def sched_consts\<close>)
qed

text \<open>The events as a step relation, without fuel.\<close>

inductive adv_step ::
  "('a frame_state_scheme) video \<Rightarrow> ('a frame_state_scheme) hooks \<Rightarrow> 'a frame_state_scheme \<Rightarrow> 'a frame_state_scheme \<Rightarrow> bool"
  for V h where
  event: "adv_next (vr s) (tm s) = k \<Longrightarrow> k \<noteq> Adv_none \<Longrightarrow> advance_event V h k s = Inr ((), t) \<Longrightarrow> adv_step V h s t"

inductive_cases adv_stepE: "adv_step V h s t"

lemma adv_step_measure:
  assumes "hooks_steady h" "video_steady V" "adv_step V h s t"
  shows "adv_measure (vr t) (tm t) < adv_measure (vr s) (tm s)"
  using assms(3)
proof (rule adv_stepE)
  assume k: "adv_next (vr s) (tm s) \<noteq> Adv_none" "advance_event V h (adv_next (vr s) (tm s)) s = Inr ((), t)"
  show ?thesis using adv_effect_measure[OF refl k(1) advance_event_effect[OF assms(1,2) k(2)]] .
qed

definition adv_over :: "('a frame_state_scheme) video \<Rightarrow> ('a frame_state_scheme) hooks \<Rightarrow> 'a frame_state_scheme \<Rightarrow> fatal + unit \<times> 'a frame_state_scheme \<Rightarrow> bool" where
  "adv_over V h s r \<longleftrightarrow> (\<exists>u. (adv_step V h)\<^sup>*\<^sup>* s u \<and>
     (let k = adv_next (vr u) (tm u) in if k = Adv_none then r = Inr ((), u) else \<exists>e. advance_event V h k u = Inl e \<and> r = Inl e))"

lemma advance_loop_over:
  assumes "hooks_steady h" "video_steady V"
  shows "adv_measure (vr s) (tm s) < n \<Longrightarrow> adv_over V h s (advance_loop n V h s)"
proof (induction n arbitrary: s)
  case (Suc n)
  let ?k = "adv_next (vr s) (tm s)"
  show ?case
  proof (cases "?k = Adv_none \<or> (\<exists>e. advance_event V h ?k s = Inl e)")
    case True
    then show ?thesis unfolding adv_over_def by (intro exI[of _ s]) (auto simp: bnd_gets Let_def)
  next
    case False
    then obtain t where t: "advance_event V h ?k s = Inr ((), t)" by (cases "advance_event V h ?k s") auto
    have st: "adv_step V h s t" using False t by (blast intro: adv_step.event)
    have "adv_measure (vr t) (tm t) < n" using adv_step_measure[OF assms st] Suc.prems by simp
    from Suc.IH[OF this] obtain u where u: "(adv_step V h)\<^sup>*\<^sup>* t u"
      "let k = adv_next (vr u) (tm u) in if k = Adv_none then advance_loop n V h t = Inr ((), u)
         else \<exists>e. advance_event V h k u = Inl e \<and> advance_loop n V h t = Inl e"
      unfolding adv_over_def by blast
    have "advance_loop (Suc n) V h s = advance_loop n V h t" using t False by (simp add: bnd_gets)
    moreover have "(adv_step V h)\<^sup>*\<^sup>* s u" using st u(1) by (rule converse_rtranclp_into_rtranclp)
    ultimately show ?thesis using u(2) unfolding adv_over_def by (metis (full_types))
  qed
qed simp

text \<open>An invariant of the position that every event keeps holds at the end, where no event is due.\<close>

lemma advance_loop_keeps:
  assumes "hooks_steady h" "video_steady V" "advance_loop n V h s = Inr (x, t)" "I (tm s)"
    and step: "\<And>v m v' m' k. I m \<Longrightarrow> adv_next v m = k \<Longrightarrow> k \<noteq> Adv_none \<Longrightarrow> adv_effect k (v, m) (v', m') \<Longrightarrow> I m'"
  shows "I (tm t) \<and> adv_next (vr t) (tm t) = Adv_none"
  using assms(3,4)
proof (induction n arbitrary: s)
  case (Suc n)
  let ?k = "adv_next (vr s) (tm s)"
  show ?case
  proof (cases "?k = Adv_none")
    case True
    then show ?thesis using Suc.prems by (simp add: bnd_gets)
  next
    case False
    then obtain u where u: "advance_event V h ?k s = Inr ((), u)" "advance_loop n V h u = Inr (x, t)"
      using Suc.prems(1) by (auto simp: bnd_gets thn_def bnd_Inr)
    then show ?thesis using Suc.IH[OF u(2)] step[OF Suc.prems(2) refl False advance_event_effect[OF assms(1,2) u(1)]] by blast
  qed
qed simp

section \<open>An instance\<close>

text \<open>Line 10 of the first frame, 100 clocks in, with an idle device behind every interface.\<close>

definition line10 :: timing where
  "line10 = \<lparr>line = 10, hclock = 100, line_start = 13640, frames = 0, irq_at = - 1, irq_done = True, hblank_done = False,
     refresh_at = 538, refresh_done = False, refresh_paid = 0, init_done = True, nmi_done = True, rdnmi_cleared = True,
     need_start = False, start_delay = 0, frame_done = False, dma_lo = 0, dma_hi = 0, edge_in_dma = False, frame_clock = 0,
     field_base = 0, walked = False, edge_undo_from = - 1\<rparr>"

definition vregs_zero :: vregs where
  "vregs_zero = \<lparr>nmitimen = 0, rdnmi = 0, rdnmi_set = False, in_vblank = False, autojoy_busy = False, autojoy_step = 0,
     autojoy_on = False, autojoy_start = 0, autojoy_pad = (\<lambda>_. 0), wrio = 0xFF, htime = 0x1FF, vtime = 0x1FF, timeup = 0,
     lat_h = 0, lat_v = 0, lat_flag = False, ophct_hi = False, opvct_hi = False, pad = (\<lambda>_. 0), joy = (\<lambda>_. 0)\<rparr>"

definition frame_zero :: frame_state where
  "frame_zero = adapter_state.extend adapter_zero \<lparr>tm = line10, vr = vregs_zero, pnd = pend_reset, insn_i = False, count8 = False,
     fb = (\<lambda>_. 0), present = (\<lambda>_. 0)\<rparr>"

lemmas frame_zero_simps = frame_zero_def adapter_zero_simps

definition idle_video :: "'s video" where
  "idle_video = \<lparr>v_ppu = \<lparr>ppu_read = (\<lambda>_ _. 0), ppu_write = (\<lambda>_ _ s. s), ppu_drawTo = (\<lambda>_ s. s), snes_ppu_dot = None\<rparr>,
     v_begin = (\<lambda>s. s), v_run_line = (\<lambda>_ s. s), v_apu_catch_up = (\<lambda>_ s. s), v_frame_hook = None, v_yield_frame = ret ()\<rparr>"

lemma no_hooks_steady: "hooks_steady no_hooks"
  by (simp add: hooks_steady_def no_hooks_def)

lemma idle_video_steady: "video_steady idle_video"
  by (simp add: video_steady_def idle_video_def still_def keeps_intro)

lemma advance_idle:
  assumes "adv_next (vr s) ((tm s)\<lparr>hclock := hclock (tm s) + clocks\<rparr>) = Adv_none"
  shows "advance V h clocks s = Inr ((), s\<lparr>tm := (tm s)\<lparr>hclock := hclock (tm s) + clocks\<rparr>\<rparr>)"
proof -
  let ?s = "s\<lparr>tm := (tm s)\<lparr>hclock := hclock (tm s) + clocks\<rparr>\<rparr>"
  obtain f where f: "adv_fuel (tm ?s) = Suc f" by (cases "adv_fuel (tm ?s)") (simp_all add: adv_fuel_def)
  have "advance_loop (Suc f) V h ?s = Inr ((), ?s)" using assms by (simp add: bnd_gets)
  then show ?thesis by (simp only: advance_def tm_do_def thn_modify bnd_gets f)
qed

text \<open>C14. \<open>advance\<close> ends whatever the clocks are: the events are a well-founded step relation, and the
  loop, whose fuel is never what stops it, either goes through them to a state where no event is due or
  fails with the error of the handler of an event it came to.\<close>

theorem advance_ends:
  assumes "hooks_steady h" "video_steady V"
  shows "wfp (adv_step V h)\<inverse>\<inverse> \<and> adv_over V h (s\<lparr>tm := (tm s)\<lparr>hclock := hclock (tm s) + clocks\<rparr>\<rparr>) (advance V h clocks s)"
proof
  have "(adv_step V h)\<inverse>\<inverse> b a \<Longrightarrow> adv_measure (vr b) (tm b) < adv_measure (vr a) (tm a)" for a b
    using adv_step_measure[OF assms, of a b] by simp
  then show "wfp (adv_step V h)\<inverse>\<inverse>" by (rule wfp_if_convertible_to_nat)
  show "adv_over V h (s\<lparr>tm := (tm s)\<lparr>hclock := hclock (tm s) + clocks\<rparr>\<rparr>) (advance V h clocks s)"
    by (simp only: advance_def tm_do_def thn_modify bnd_gets) (rule advance_loop_over[OF assms adv_measure_fuel])
qed

theorem advance_ends_witness:
  "adv_over idle_video no_hooks (frame_zero\<lparr>tm := (tm frame_zero)\<lparr>hclock := hclock (tm frame_zero) + 5000\<rparr>\<rparr>)
     (advance idle_video no_hooks 5000 frame_zero)"
  using advance_ends[OF no_hooks_steady idle_video_steady] by blast

section \<open>What letting clocks pass leaves alone\<close>

text \<open>What the register handlers keep, and what does not look at the clock and the interrupt lines, \<open>advance\<close> and
  \<open>walk_commit\<close> keep: the CPU registers, and the ranges of the scheduler's own.\<close>

named_theorems pass_intro \<open>rules for what \<open>advance\<close> leaves alone\<close>

locale passing_time =
  fixes J :: "'a frame_state_scheme \<Rightarrow> bool"
  assumes by_steady: "J s0 \<Longrightarrow> steady s0 s \<Longrightarrow> J s"
    and by_clock: "J s \<Longrightarrow> J (s\<lparr>tm := m\<rparr>)" "J s \<Longrightarrow> J (s\<lparr>pnd := p\<rparr>)" "J s \<Longrightarrow> typed f \<Longrightarrow> J (s\<lparr>vr := f (vr s)\<rparr>)"
begin

lemma steady_keeps: "(\<And>s0. keeps (steady s0) m) \<Longrightarrow> keeps J m"
  unfolding hoare_def using steady_refl by_steady by metis

lemma parts [pass_intro]: "keeps J (tm_do f)" "typed r \<Longrightarrow> keeps J (vr_do r)" "keeps J (pnd_do k)" "keeps J get_line"
  by (auto simp: hoare_def tm_do_def vr_do_def pnd_do_def get_line_def intro: by_clock)

lemma keeps_start_line [pass_intro]:
  assumes "hooks_steady h" "video_steady V"
  shows "keeps J (start_line V h)"
proof -
  note k = keeps_intro assms video_steadyD[OF assms(2)]
  have f: "keeps J (start_frame V h)"
    unfolding start_frame_def
    by (intro keeps_intro pass_intro typed_intro steady_keeps[OF keeps_hdma(2)[OF assms(1)]] steady_keeps[OF video_steadyD(2)[OF assms(2)]])
  have v: "keeps J (start_vblank V)" by (intro steady_keeps k)
  have r: "keeps J (modify (v_run_line V ln))" for ln by (intro steady_keeps k)
  show ?thesis unfolding start_line_def by (intro keeps_intro pass_intro typed_intro f v r)
qed

lemma keeps_begin_line [pass_intro]:
  assumes "hooks_steady h" "video_steady V"
  shows "keeps J (begin_line V h)"
  unfolding begin_line_def
proof (intro keeps_intro keeps_start_line assms)
  show "keeps J (case r of Inl e \<Rightarrow> die e | Inr at \<Rightarrow> tm_do (begin_tm at))" for r
    by (cases r) (simp_all add: keeps_intro parts)
qed

lemma keeps_edge_hook:
  assumes "\<And>n s0. keeps (steady s0) (f n)"
  shows "keeps J (edge_hook f)"
  unfolding edge_hook_def by (intro keeps_intro pass_intro steady_keeps[OF keeps_undo(1)] steady_keeps[OF keeps_undo(2)] steady_keeps[OF assms])

lemma keeps_adv_line [pass_intro]:
  assumes "hooks_steady h" "video_steady V"
  shows "keeps J (adv_line V h)"
proof -
  note v = video_steadyD[OF assms(2)]
  have e: "keeps J (case v_frame_hook V of Some f \<Rightarrow> edge_hook f | None \<Rightarrow> ret ())"
    by (cases "v_frame_hook V") (auto intro!: keeps_intro keeps_edge_hook v(5))
  show ?thesis unfolding adv_line_def
    by (intro keeps_intro pass_intro assms e steady_keeps[OF keeps_apu_sync[OF assms(2)]] steady_keeps[OF v(6)])
qed

lemma keeps_advance_event [pass_intro]:
  assumes "hooks_steady h" "video_steady V"
  shows "keeps J (advance_event V h k)"
proof -
  note d = steady_keeps[OF keeps_draw[OF assms(2)]] steady_keeps[OF keeps_hdma(1)[OF assms(1)]]
  show ?thesis by (cases k; simp only: advance_event_def adv.case; intro keeps_intro pass_intro typed_intro assms d)
qed

lemma keeps_advance [pass_intro]:
  assumes "hooks_steady h" "video_steady V"
  shows "keeps J (advance V h n)"
proof -
  have "keeps J (advance_loop k V h)" for k
    by (induction k; simp only: advance_loop.simps; intro keeps_intro pass_intro assms; assumption)
  then show ?thesis unfolding advance_def by (intro keeps_intro pass_intro)
qed

lemma keeps_walk_commit [pass_intro]: "hooks_steady h \<Longrightarrow> video_steady V \<Longrightarrow> keeps J (walk_commit V h w a b)"
  unfolding walk_commit_def by (intro keeps_intro pass_intro)

end

abbreviation at_cpu :: "cpu \<Rightarrow> 'a sched_state_scheme \<Rightarrow> bool" where "at_cpu c \<equiv> \<lambda>s. cpu s = c"

definition typed_regs :: "'a sched_state_scheme \<Rightarrow> bool" where "typed_regs s \<longleftrightarrow> regs_ok (vr s)"

interpretation cpu_alone: passing_time "at_cpu c" for c
  by unfold_locales (simp_all add: steady_def)

interpretation regs_typed: passing_time typed_regs
  by unfold_locales (simp_all add: steady_def typed_regs_def typed_def)

end
