(* ===== verification/Ct_Clock.thy ===== *)
theory Ct_Clock
  imports Ct_Advance
begin

text \<open>
  The clock of the scheduler stays on the beam: \<open>advance\<close> keeps line, frame and line start those of
  the master clock and ends with exactly the events done that it has reached; and committing a walk
  (\<open>walk_commit\<close>) lands exactly where the walk ended, every refresh the walk paid for counted once.
\<close>

section \<open>Position\<close>

text \<open>On the beam, and no event marked done before its clock.\<close>

definition placed :: "timing \<Rightarrow> bool" where
  "placed m \<longleftrightarrow> line m < SCHED_LINES \<and> int (line_start m) = line_begin (frames m - field_base m) (line m) \<and>
     refresh_at m = 538 - line_start m mod 8 \<and> (refresh_done m \<longrightarrow> refresh_at m \<le> hclock m) \<and>
     - 1 \<le> irq_at m \<and> irq_at m < 2000 \<and> (irq_at m < 0 \<longrightarrow> irq_done m) \<and>
     (0 \<le> irq_at m \<and> irq_done m \<longrightarrow> nat (irq_at m) \<le> hclock m) \<and>
     (hblank_done m \<longrightarrow> SCHED_HDMA_CLOCK \<le> hclock m) \<and>
     (line m = SCHED_VBLANK_LINE \<and> nmi_done m \<longrightarrow> 6 \<le> hclock m) \<and> (line m \<noteq> SCHED_VBLANK_LINE \<longrightarrow> nmi_done m) \<and>
     (line m = 0 \<and> init_done m \<longrightarrow> 12 + line_start m mod 8 \<le> hclock m)"

lemma uns_irq: "- 1 \<le> a \<Longrightarrow> a < 2000 \<Longrightarrow> 0 \<le> a \<Longrightarrow> uns a = nat a"
  by (simp add: uns_def)

lemma placed_new_line:
  assumes "placed m" "new_line m m'" "tm_line_clocks m \<le> hclock m"
  shows "placed m'"
proof -
  note n = new_line_tm[OF assms(2)]
  obtain at b where at: "- 1 \<le> at" "at < 2000" "m' = begin_tm at (started ((end_line m)\<lparr>edge_in_dma := b\<rparr>))"
    using assms(2) unfolding new_line_def by blast
  have i: "irq_at m' = at" by (simp add: at(3) begin_tm_def)
  have p: "line m < SCHED_LINES" "int (line_start m) = line_begin (frames m - field_base m) (line m)"
    using assms(1) by (simp_all add: placed_def)
  have b: "int (line_start m') = line_begin (frames m' - field_base m') (line m')"
  proof (cases "line m = 261")
    case True
    then show ?thesis using p line_begin_frame[of "frames m" "field_base m"]
      by (simp add: n sched_consts(2) tm_line_clocks_def)
  next
    case False
    then have "line m < 261" using p(1) by (simp add: sched_consts(2))
    from line_begin_Suc[OF this, of "frames m" "field_base m"] show ?thesis
      using p False by (simp add: n sched_consts(2) tm_line_clocks_def)
  qed
  have "line m' < SCHED_LINES" using p(1) by (simp add: n(1) sched_consts(2))
  then show ?thesis unfolding placed_def n(5-10) i using b at(1,2) by auto
qed

lemma placed_effect:
  assumes "placed m" "adv_next v m = k" "adv_effect k (v, m) (v', m')"
  shows "placed m'"
proof (cases "k = Adv_line")
  case True
  from assms(2) have "tm_line_clocks m \<le> hclock m" by (cases rule: adv_next_cases) (use True in simp_all)
  then show ?thesis using placed_new_line[OF assms(1)] assms(3) True by (simp add: adv_effect_def)
next
  case False
  then have m': "m' = adv_tm k m" using assms(3) by (simp add: adv_effect_def)
  show ?thesis using assms(2)
  proof (cases rule: adv_next_cases)
    case 3
    then show ?thesis using assms(1) unfolding m' placed_def by (auto simp: adv_tm_def)
  next
    case 4
    then show ?thesis using assms(1) unfolding m' placed_def by (simp add: adv_tm_def) linarith
  next
    case 5
    have "0 \<le> irq_at m \<Longrightarrow> nat (irq_at m) \<le> hclock m" using assms(1) 5 uns_irq[of "irq_at m"] by (simp add: placed_def)
    then show ?thesis using 5 assms(1) unfolding m' placed_def by (auto simp: adv_tm_def)
  next
    case 6
    then show ?thesis using assms(1) unfolding m' placed_def by (auto simp: adv_tm_def)
  next
    case 7
    then show ?thesis using False by simp
  next
    case 2
    have "placed (m\<lparr>rdnmi_cleared := True\<rparr>) = placed m" by (simp add: placed_def)
    then show ?thesis using 2 assms(1) by (simp add: m' adv_tm_def)
  qed (use assms(1) in \<open>simp_all add: m' adv_tm_def\<close>)
qed

text \<open>Settled: inside its line, and exactly the events done whose clock has come.\<close>

definition in_time :: "timing \<Rightarrow> bool" where
  "in_time m \<longleftrightarrow> placed m \<and> hclock m < tm_line_clocks m \<and> (refresh_done m \<longleftrightarrow> refresh_at m \<le> hclock m) \<and>
     (hblank_done m \<longleftrightarrow> SCHED_HDMA_CLOCK \<le> hclock m) \<and>
     (line m = SCHED_VBLANK_LINE \<longrightarrow> (nmi_done m \<longleftrightarrow> 6 \<le> hclock m)) \<and>
     (0 \<le> irq_at m \<longrightarrow> (irq_done m \<longleftrightarrow> nat (irq_at m) \<le> hclock m))"

lemma in_time_if_none:
  assumes "placed m" "adv_next v m = Adv_none"
  shows "in_time m"
  using assms(2)
proof (cases rule: adv_next_cases)
  case 8
  have p: "refresh_done m \<Longrightarrow> refresh_at m \<le> hclock m" "hblank_done m \<Longrightarrow> SCHED_HDMA_CLOCK \<le> hclock m"
    "0 \<le> irq_at m \<Longrightarrow> irq_done m \<Longrightarrow> nat (irq_at m) \<le> hclock m"
    "line m = SCHED_VBLANK_LINE \<Longrightarrow> nmi_done m \<Longrightarrow> 6 \<le> hclock m"
    "0 \<le> irq_at m \<Longrightarrow> uns (irq_at m) = nat (irq_at m)"
    using assms(1) uns_irq[of "irq_at m"] by (simp_all add: placed_def)
  have i: "irq_done m = (nat (irq_at m) \<le> hclock m)" if "0 \<le> irq_at m" using 8(5)[unfolded p(5)[OF that]] p(3)[OF that] by blast
  have n: "nmi_done m = (6 \<le> hclock m)" if "line m = SCHED_VBLANK_LINE" using 8(4) p(4)[OF that] by blast
  have b: "hblank_done m = (SCHED_HDMA_CLOCK \<le> hclock m)" using 8(6) p(2) by blast
  have r: "refresh_done m = (refresh_at m \<le> hclock m)" using 8(3) p(1) by blast
  show ?thesis unfolding in_time_def by (intro conjI impI assms(1) 8(2) i n b r)
qed simp_all

lemma placed_later: "placed m \<Longrightarrow> placed (m\<lparr>hclock := hclock m + n\<rparr>)"
proof -
  have l: "x \<le> y \<Longrightarrow> x \<le> y + n" for x y :: nat by (rule trans_le_add1)
  show "placed m \<Longrightarrow> placed (m\<lparr>hclock := hclock m + n\<rparr>)"
    by (cases m; simp only: placed_def timing.simps) (blast intro: l)
qed

lemma advance_in_time:
  assumes "hooks_steady h" "video_steady V" "advance V h clocks s = Inr (x, t)" "placed (tm s)"
  shows "in_time (tm t)"
proof -
  let ?s = "s\<lparr>tm := (tm s)\<lparr>hclock := hclock (tm s) + clocks\<rparr>\<rparr>"
  have l: "advance_loop (adv_fuel (tm ?s)) V h ?s = Inr (x, t)"
    using assms(3) by (simp add: advance_def tm_do_def thn_modify bnd_gets)
  have "placed (tm ?s)" using placed_later[OF assms(4)] by simp
  then have "placed (tm t) \<and> adv_next (vr t) (tm t) = Adv_none"
    by (rule advance_loop_keeps[OF assms(1,2) l]) (rule placed_effect)
  then show ?thesis using in_time_if_none by blast
qed

text \<open>Where the clock of the video signal is, when settled.\<close>

lemma in_time_beam:
  assumes "in_time m"
  shows "beam (int (line_start m + hclock m)) = (frames m - field_base m, line m)"
proof -
  have "int (line_start m) = line_begin (frames m - field_base m) (line m)" "line m < 262" "hclock m < tm_line_clocks m"
    using assms by (simp_all add: in_time_def placed_def sched_consts(2))
  then show ?thesis by (intro beam_line) (simp_all add: tm_line_clocks_def)
qed

section \<open>Refreshes are counted once\<close>

text \<open>Refreshes since the last reset at a position: one per line, and the line's own when done.\<close>

definition passed_refreshes :: "int \<Rightarrow> nat \<Rightarrow> bool \<Rightarrow> int" where
  "passed_refreshes f l d = 262 * f + int l + of_bool d"

definition counted :: "walk_env \<Rightarrow> walk \<times> pend \<Rightarrow> walk \<times> pend \<Rightarrow> bool" where
  "counted E a b \<longleftrightarrow>
     int (refreshes (fst b)) - passed_refreshes (w_frame (fst b)) (w_line (fst b)) (w_refresh_done (fst b)) =
     int (refreshes (fst a)) - passed_refreshes (w_frame (fst a)) (w_line (fst a)) (w_refresh_done (fst a))"

lemma walk_line_after_refresh:
  assumes "walk_next E w = (Ev_line, e)"
  shows "w_refresh_done w"
proof (rule ccontr)
  assume "\<not> w_refresh_done w"
  then have "snd (walk_next E w) \<le> refresh_clock (w_ls w)" by (rule walk_next_le(2))
  moreover have "refresh_clock (w_ls w) < w_ls w + walk_line_clocks E w"
    using line_clocks_bounds(1)[of "we_field_base E" "w_frame w" "w_line w"]
    by (simp add: refresh_clock_def walk_line_clocks_def)
  moreover have "e = w_ls w + walk_line_clocks E w" using assms by (cases rule: walk_next_cases[of E w]) simp_all
  ultimately show False using assms by simp
qed

lemma counted_event:
  assumes "walk_next E w = (k, e)" "walk_event E k e (w, p) = Inr (w1, p1)"
  shows "counted E (w, p) (w1, p1)"
proof -
  have r: "refreshes w1 = (if k = Ev_refresh then Suc (refreshes w) else refreshes w)" by (rule walk_event_refreshes[OF assms(2)])
  show ?thesis
  proof (cases "k = Ev_line")
    case True
    obtain at where w1: "w1 = (next_line e w)\<lparr>w_irq_at := at\<rparr>" using walk_event_walk(6)[OF assms(2) True] by blast
    have "w_refresh_done w" using walk_line_after_refresh assms(1) True by blast
    then show ?thesis using r True
      by (auto simp: counted_def passed_refreshes_def w1 next_line_def Let_def sched_consts(2))
  next
    case False
    note same = walk_event_same[OF assms(2) False]
    show ?thesis
    proof (cases "k = Ev_refresh")
      case True
      then have "\<not> w_refresh_done w" using assms(1) by (cases rule: walk_next_cases[of E w]) simp_all
      moreover have "w_refresh_done w1" using walk_event_walk(1)[OF assms(2) True] by simp
      ultimately show ?thesis using r True by (simp add: counted_def passed_refreshes_def same)
    next
      case False
      have "w_refresh_done w1 = w_refresh_done w" using assms(2) False \<open>k \<noteq> Ev_line\<close>
        by (cases k) (auto dest: walk_event_walk)
      then show ?thesis using r False by (simp add: counted_def passed_refreshes_def same)
    qed
  qed
qed

lemma counted_trans: "counted E a b \<Longrightarrow> counted E b c \<Longrightarrow> counted E a c"
  unfolding counted_def by (rule trans)

interpretation refreshing: walk_order counted
proof (unfold_locales, goal_cases)
  case (1 E a b c)
  then show ?case by (rule counted_trans)
next
  case (2 E w clocks smp p x s)
  obtain w' p' where s: "s = (w', p')" by fastforce
  have "\<exists>v. w' = v\<lparr>w_t := w_t w'\<rparr> \<and> counted E (w, p) (v, p') \<and> w_t w' < snd (walk_next E v)"
    by (rule walk_loop_keeps[OF 2[unfolded s], where I = "\<lambda>_ _ v q. counted E (w, p) (v, q)"])
      (simp add: counted_def, erule counted_trans, erule (1) counted_event)
  then obtain v where v: "w' = v\<lparr>w_t := w_t w'\<rparr>" "counted E (w, p) (v, p')" by blast
  from v(2) have "counted E (w, p) (v\<lparr>w_t := w_t w'\<rparr>, p')" by (simp add: counted_def)
  then show ?case unfolding s v(1)[symmetric] .
next
  case (3 a b E)
  then show ?case by (simp add: counted_def same_clock_fields)
qed

section \<open>Advancing to where a walk ended\<close>

abbreviation tm_refreshes :: "timing \<Rightarrow> int" where
  "tm_refreshes m \<equiv> passed_refreshes (frames m) (line m) (refresh_done m)"

abbreviation walk_refreshes :: "walk \<Rightarrow> int" where
  "walk_refreshes w \<equiv> passed_refreshes (w_frame w) (w_line w) (w_refresh_done w)"

text \<open>A line that has begun at the walk's clock is the walk's or an earlier one.\<close>

lemma line_not_later:
  assumes "tracks E w" "settled E w" "placed m" "field_base m = we_field_base E" "line_start m \<le> w_t w"
  shows "\<not> later (w_frame w, w_line w) (frames m, line m)"
proof
  assume l: "later (w_frame w, w_line w) (frames m, line m)"
  then have "w_frame w \<le> frames m" by (auto simp: later_def)
  from line_begin_mono[OF this l, of "we_field_base E"]
  have "line_begin (w_frame w - we_field_base E) (w_line w) + int (line_clocks (we_field_base E) (w_frame w) (w_line w)) \<le> int (line_start m)"
    using assms(1,3,4) by (simp add: tracks_def placed_def sched_consts(2))
  moreover have "w_t w < w_ls w + walk_line_clocks E w" using assms(2) by (simp add: settled_def)
  ultimately show False using assms(1,5) by (simp add: tracks_def walk_line_clocks_def)
qed

text \<open>So a refresh that has come by the walk's clock is one the walk has passed.\<close>

lemma refresh_passed:
  assumes "tracks E w" "settled E w" "placed m" "field_base m = we_field_base E" "line_start m + hclock m = w_t w"
    and "\<not> refresh_done m" "refresh_at m \<le> hclock m"
  shows "tm_refreshes m < walk_refreshes w"
proof -
  have "\<not> later (w_frame w, w_line w) (frames m, line m)" using assms(5) by (intro line_not_later[OF assms(1-4)]) simp
  moreover have "w_line w < 262" "line m < 262" using assms(1,3) by (simp_all add: tracks_def placed_def sched_consts(2))
  moreover have "w_refresh_done w" if "w_frame w = frames m" "w_line w = line m"
  proof -
    have "int (line_start m) = int (w_ls w)" using assms(1,3,4) that by (simp add: tracks_def placed_def)
    then have ls: "line_start m = w_ls w" by simp
    moreover have "refresh_at m = 538 - w_ls w mod 8" using assms(3) by (simp add: placed_def ls)
    moreover have "w_ls w mod 8 < 8" by simp
    ultimately have "refresh_clock (w_ls w) \<le> w_t w" using assms(5,7) unfolding refresh_clock_def by linarith
    then show ?thesis using assms(2) by (simp add: settled_def)
  qed
  ultimately show ?thesis using assms(6)
    by (cases "w_frame w = frames m"; cases "w_line w = line m") (auto simp: later_def passed_refreshes_def)
qed

lemma advance_to_walk:
  assumes "hooks_steady h" "video_steady V" "advance V h clocks s = Inr (x, t)" "placed (tm s)"
    and w: "tracks E w" "settled E w" "we_field_base E = field_base (tm s)"
    and "sched_clock s + clocks = w_t w" "int (refresh_paid (tm s)) + tm_refreshes (tm s) = walk_refreshes w"
  shows "in_time (tm t) \<and> line (tm t) = w_line w \<and> frames (tm t) = w_frame w \<and> line_start (tm t) = w_ls w \<and>
    sched_clock t = w_t w \<and> refresh_done (tm t) = w_refresh_done w \<and> refresh_paid (tm t) = 0 \<and>
    field_base (tm t) = field_base (tm s)"
proof -
  let ?s = "s\<lparr>tm := (tm s)\<lparr>hclock := hclock (tm s) + clocks\<rparr>\<rparr>"
  let ?J = "\<lambda>m. placed m \<and> field_base m = we_field_base E \<and> line_start m + hclock m = w_t w \<and>
    int (refresh_paid m) + tm_refreshes m = walk_refreshes w"
  have l: "advance_loop (adv_fuel (tm ?s)) V h ?s = Inr (x, t)"
    using assms(3) by (simp add: advance_def tm_do_def thn_modify bnd_gets)
  have "?J (tm ?s)" using placed_later[OF assms(4)] assms(7-9) by (simp add: sched_clock_def)
  then have e: "?J (tm t) \<and> adv_next (vr t) (tm t) = Adv_none"
  proof (rule advance_loop_keeps[OF assms(1,2) l, where I = ?J])
    fix v m v' m' k
    assume J: "?J m" and k: "adv_next v m = k" "k \<noteq> Adv_none" and ef: "adv_effect k (v, m) (v', m')"
    have p: "placed m'" using placed_effect[OF _ k(1) ef] J by blast
    show "?J m'" using k(1)
    proof (cases rule: adv_next_cases)
      case 7
      have nl: "new_line m m'" using ef 7(1) by (simp add: adv_effect_def)
      have "refresh_at m \<le> 538" "1360 \<le> tm_line_clocks m" using J tm_line_clocks_bounds by (auto simp: placed_def)
      then have "refresh_done m" using 7(2,3) by linarith
      then have "tm_refreshes m' = tm_refreshes m"
        by (auto simp: passed_refreshes_def new_line_tm[OF nl] sched_consts(2))
      then show ?thesis using p J 7(2) by (simp add: new_line_tm[OF nl])
    next
      case 4
      have m': "m' = adv_tm Adv_refresh m" using ef 4(1) by (simp add: adv_effect_def)
      have "tm_refreshes m < walk_refreshes w" using refresh_passed[OF w(1,2)] J 4(2,3) by blast
      then have "refresh_paid m \<noteq> 0" using J by auto
      then show ?thesis using p J 4(2) by (simp add: m' adv_tm_def passed_refreshes_def of_nat_diff)
    qed (use p J ef k(2) in \<open>auto simp: adv_effect_def adv_tm_def passed_refreshes_def\<close>)
  qed
  have it: "in_time (tm t)" using e in_time_if_none by blast
  let ?m = "tm t"
  have b: "(frames ?m - field_base ?m, line ?m) = (w_frame w - we_field_base E, w_line w)"
  proof -
    have "beam (int (w_t w)) = (frames ?m - field_base ?m, line ?m)" using in_time_beam[OF it] e by metis
    moreover have "beam (int (w_t w)) = (w_frame w - we_field_base E, w_line w)"
      using w(1,2) by (intro beam_line) (simp_all add: tracks_def settled_def walk_line_clocks_def sched_consts(2))
    ultimately show ?thesis by simp
  qed
  then have pos: "frames ?m = w_frame w" "line ?m = w_line w" using e by simp_all
  have "int (line_start ?m) = int (w_ls w)" using e w(1) pos by (simp add: placed_def tracks_def)
  then have ls: "line_start ?m = w_ls w" by simp
  have "refresh_at ?m = 538 - w_ls w mod 8" "w_ls w mod 8 < 8" using e ls by (auto simp: placed_def)
  then have "refresh_at ?m \<le> hclock ?m \<longleftrightarrow> refresh_clock (w_ls w) \<le> w_t w"
    using e ls unfolding refresh_clock_def by linarith
  then have rd: "refresh_done ?m = w_refresh_done w" using it w(2) by (simp add: in_time_def settled_def)
  then have "refresh_paid ?m = 0" using e pos by (simp add: passed_refreshes_def)
  then show ?thesis using it pos ls rd e w(3) by (simp add: sched_clock_def)
qed

end
