(* ===== verification/Ct_Charge.thy ===== *)
theory Ct_Charge
  imports Ct_Clock
begin

text \<open>
  Charging time to instructions in \<open>runtime/sched.c\<close>: \<open>charge\<close>, which adds a whole instruction to the
  clock when nothing happens inside it and walks its cycles otherwise, and \<open>wai_cycle\<close>, the idle cycles
  of WAI. Clock counts are natural numbers (\<open>unsigned\<close> in C; an instruction has a few hundred clocks).
\<close>

section \<open>Charging an instruction\<close>

record charge_state = frame_state +
  take_irq :: bool
  wai_over :: bool

definition busy :: "pend \<Rightarrow> bool" where
  "busy p \<longleftrightarrow> p_delay p \<or> p_hdma p \<or> p_init p \<or> p_dma p"

text \<open>Something can happen within the \<open>clocks\<close>.\<close>

definition charge_inside :: "nat \<Rightarrow> 'a sched_state_scheme \<Rightarrow> bool" where
  "charge_inside clocks s =
     (let m = tm s; p = pnd s; endc = hclock m + clocks in
      busy p \<or> dma_after p \<ge> 0 \<or> nmi_count p \<noteq> 0 \<or> nmi_after p \<ge> 0 \<or>
      (\<not> nmi_done m \<and> 6 \<le> endc) \<or> (\<not> irq_done m \<and> irq_at m \<ge> 0 \<and> nat (irq_at m) \<le> endc) \<or>
      endc \<ge> tm_line_clocks m \<or> (\<not> refresh_done m \<and> refresh_at m \<le> endc) \<or>
      (\<not> hblank_done m \<and> line m < SCHED_VBLANK_LINE \<and> SCHED_HDMA_CLOCK \<le> endc \<and> snes_hdma_enabled (dma s)) \<or>
      (line m = 0 \<and> \<not> init_done m \<and> 12 + line_start m mod 8 \<le> endc))"

definition charge_whole ::
  "('a charge_state_scheme) video \<Rightarrow> ('a charge_state_scheme) hooks \<Rightarrow> nat \<Rightarrow> ('a charge_state_scheme, unit) act" where
  "charge_whole V h clocks =
     thn (bnd (gets insn_i) (\<lambda>i. pnd_do (\<lambda>p. p\<lparr>prev_irq := irq_line p \<and> \<not> i\<rparr>)))
    (thn (modify (\<lambda>s. cyc_done (s\<lparr>take_irq := prev_irq (pnd s)\<rparr>))) (advance V h clocks))"

definition charge_walk ::
  "('a charge_state_scheme) video \<Rightarrow> ('a charge_state_scheme) hooks \<Rightarrow> ('a charge_state_scheme, unit) act" where
  "charge_walk V h = bnd (gets sched_clock) (\<lambda>start. bnd (gets (walk_insn 0xFFFFFFFF)) (\<lambda>r. case r of
     Inl e \<Rightarrow> die e
   | Inr (_, w, p) \<Rightarrow>
       thn (pnd_do (\<lambda>_. p)) (thn (modify cyc_done) (thn (pnd_do (\<lambda>p. p\<lparr>dma_after := - 1, nmi_after := - 1\<rparr>))
      (thn (modify (\<lambda>s. s\<lparr>take_irq := prev_irq (pnd s)\<rparr>)) (walk_commit V h w start (w_t w)))))))"

definition charge ::
  "('a charge_state_scheme) video \<Rightarrow> ('a charge_state_scheme) hooks \<Rightarrow> nat \<Rightarrow> ('a charge_state_scheme, unit) act" where
  "charge V h clocks = (if clocks = 0 then ret ()
     else bnd (gets (charge_inside clocks)) (\<lambda>inside. if inside then charge_walk V h else charge_whole V h clocks))"

section \<open>WAI\<close>

text \<open>The clocks up to the line's next event, and the run of idle cycles before it.\<close>

definition wai_next :: "timing \<Rightarrow> nat" where
  "wai_next m =
     (let n0 = tm_line_clocks m;
          n1 = (if \<not> refresh_done m \<and> refresh_at m < n0 then refresh_at m else n0);
          n2 = (if \<not> hblank_done m \<and> line m < SCHED_VBLANK_LINE \<and> SCHED_HDMA_CLOCK < n1 then SCHED_HDMA_CLOCK else n1);
          n3 = (if line m = 0 \<and> \<not> init_done m \<and> 12 + line_start m mod 8 < n2 then 12 + line_start m mod 8 else n2);
          n4 = (if \<not> nmi_done m \<and> 6 < n3 then 6 else n3)
      in if \<not> irq_done m \<and> irq_at m \<ge> 0 \<and> nat (irq_at m) < n4 then nat (irq_at m) else n4)"

definition wai_skip ::
  "('a charge_state_scheme) video \<Rightarrow> ('a charge_state_scheme) hooks \<Rightarrow> ('a charge_state_scheme, unit) act" where
  "wai_skip V h = bnd (gets id) (\<lambda>s. let p = pnd s; m = tm s; nx = wai_next m in
     whenM (\<not> busy p \<and> nmi_count p = 0 \<and> \<not> need_nmi p \<and> \<not> irq_line p \<and> nx > hclock m + 12)
       (advance V h (6 * ((nx - hclock m) div 6 - 1))))"

text \<open>The idle cycle itself: \<open>wai_over\<close> if an NMI or the IRQ line is seen at its start.\<close>

definition wai_walk :: "walk_env \<Rightarrow> bool \<Rightarrow> bool walking" where
  "wai_walk E i = thn (walk_cycle_start E 6 i) (bnd (get_p (\<lambda>p. need_nmi p \<or> irq_line p)) (\<lambda>seen.
     thn (walk_pass E 6 6) (ret seen)))"

definition wai_idle ::
  "('a charge_state_scheme) video \<Rightarrow> ('a charge_state_scheme) hooks \<Rightarrow> ('a charge_state_scheme, unit) act" where
  "wai_idle V h = bnd (gets id) (\<lambda>s. let w0 = walk_init (tm s) in
     case wai_walk (env_of s) (fl_i (cpu s) \<noteq> 0) (w0, pnd s) of
       Inl e \<Rightarrow> die e
     | Inr (seen, w, p) \<Rightarrow>
         thn (pnd_do (\<lambda>_. p)) (thn (whenM seen (modify (\<lambda>s. s\<lparr>wai_over := True\<rparr>))) (walk_commit V h w (w_t w0) (w_t w))))"

definition wai_cycle ::
  "('a charge_state_scheme) video \<Rightarrow> ('a charge_state_scheme) hooks \<Rightarrow> ('a charge_state_scheme, unit) act" where
  "wai_cycle V h = thn (wai_skip V h) (wai_idle V h)"

section \<open>On the beam\<close>

text \<open>Between instructions: settled, the HDMA init point included, and no refresh left to pay.\<close>

definition on_beam :: "'a sched_state_scheme \<Rightarrow> bool" where
  "on_beam s \<longleftrightarrow> in_time (tm s) \<and> refresh_paid (tm s) = 0 \<and>
     (line (tm s) = 0 \<longrightarrow> (init_done (tm s) \<longleftrightarrow> 12 + line_start (tm s) mod 8 \<le> hclock (tm s)))"

lemma env_of_base [simp]: "we_field_base (env_of s) = field_base (tm s)"
  by (simp add: env_of_def)

lemma walk_init_simps [simp]:
  "w_t (walk_init m) = line_start m + hclock m" "w_ls (walk_init m) = line_start m" "w_line (walk_init m) = line m"
  "w_frame (walk_init m) = frames m" "w_refresh_done (walk_init m) = refresh_done m" "w_hdma_done (walk_init m) = hblank_done m"
  "w_init_done (walk_init m) = init_done m" "w_nmi_done (walk_init m) = nmi_done m" "w_irq_done (walk_init m) = irq_done m"
  "w_irq_at (walk_init m) = irq_at m" "refreshes (walk_init m) = 0" "w_edge (walk_init m) = False"
  by (simp_all add: walk_init_def)

lemma walk_init_tracks: "placed (tm s) \<Longrightarrow> tracks (env_of s) (walk_init (tm s))"
  by (simp add: tracks_def placed_def)

lemma refresh_at_clock:
  "placed m \<Longrightarrow> refresh_at m \<le> hclock m \<longleftrightarrow> refresh_clock (line_start m) \<le> line_start m + hclock m"
proof -
  assume "placed m"
  then have "refresh_at m = 538 - line_start m mod 8" by (simp add: placed_def)
  moreover have "line_start m mod 8 < 8" by simp
  ultimately show ?thesis unfolding refresh_clock_def by linarith
qed

lemma walk_init_settled:
  assumes "on_beam s"
  shows "settled (env_of s) (walk_init (tm s))" "punctual (w_t (walk_init (tm s))) (walk_init (tm s))"
proof -
  have p: "placed (tm s)" "in_time (tm s)" using assms by (simp_all add: on_beam_def in_time_def)
  have len: "walk_line_clocks (env_of s) (walk_init (tm s)) = tm_line_clocks (tm s)"
    by (simp add: walk_line_clocks_def tm_line_clocks_def)
  have i: "init_at (line_start (tm s)) \<le> line_start (tm s) + hclock (tm s) \<longleftrightarrow> 12 + line_start (tm s) mod 8 \<le> hclock (tm s)"
    unfolding init_at_def by linarith
  show s: "settled (env_of s) (walk_init (tm s))"
    using assms unfolding settled_def len walk_init_simps i on_beam_def in_time_def
    by (auto simp: refresh_at_clock[OF p(1)])
  then show "punctual (w_t (walk_init (tm s))) (walk_init (tm s))"
    unfolding settled_def punctual_def by auto
qed

lemma placed_marks:
  assumes "placed m" "line m = SCHED_VBLANK_LINE \<Longrightarrow> b \<Longrightarrow> 6 \<le> hclock m" "line m = 0 \<Longrightarrow> a \<Longrightarrow> 12 + line_start m mod 8 \<le> hclock m"
  shows "placed (m\<lparr>walked := False, edge_undo_from := - 1, init_done := init_done m \<or> a, nmi_done := nmi_done m \<or> b\<rparr>)"
proof -
  let ?n = "m\<lparr>walked := False, edge_undo_from := - 1, init_done := init_done m \<or> a, nmi_done := nmi_done m \<or> b\<rparr>"
  have 1: "line m = SCHED_VBLANK_LINE \<and> (nmi_done m \<or> b) \<longrightarrow> 6 \<le> hclock m" "line m \<noteq> SCHED_VBLANK_LINE \<longrightarrow> nmi_done m \<or> b"
    "line m = 0 \<and> (init_done m \<or> a) \<longrightarrow> 12 + line_start m mod 8 \<le> hclock m"
    using assms by (auto simp: placed_def)
  have 2: "line ?n = line m" "line_start ?n = line_start m" "frames ?n = frames m" "field_base ?n = field_base m"
    "refresh_at ?n = refresh_at m" "refresh_done ?n = refresh_done m" "hclock ?n = hclock m" "irq_at ?n = irq_at m"
    "irq_done ?n = irq_done m" "hblank_done ?n = hblank_done m" "nmi_done ?n = (nmi_done m \<or> b)" "init_done ?n = (init_done m \<or> a)"
    by simp_all
  show ?thesis
    by (insert assms(1)[unfolded placed_def], unfold placed_def 2, elim conjE, intro conjI; (assumption | rule 1))
qed

text \<open>Committing a walk that started here.\<close>

lemma commit_on_beam:
  assumes "hooks_steady h" "video_steady V" "on_beam s" "walk_commit V h w (sched_clock s) (w_t w) s = Inr (x, t)"
    and w: "tracks E w" "settled E w" "we_field_base E = field_base (tm s)" "sched_clock s \<le> w_t w"
      "int (refreshes w) + tm_refreshes (tm s) = walk_refreshes w"
  shows "on_beam t \<and> line (tm t) = w_line w \<and> frames (tm t) = w_frame w \<and> line_start (tm t) = w_ls w \<and>
    sched_clock t = w_t w \<and> field_base (tm t) = field_base (tm s)"
proof -
  let ?s = "s\<lparr>tm := note_walk w (tm s)\<rparr>"
  let ?f = "\<lambda>m. let m1 = m\<lparr>walked := False, edge_undo_from := - 1\<rparr> in
       if line m1 = w_line w then m1\<lparr>init_done := init_done m1 \<or> w_init_done w, nmi_done := nmi_done m1 \<or> w_nmi_done w\<rparr> else m1"
  have ob: "placed (tm s)" "refresh_paid (tm s) = 0" using assms(3) by (simp_all add: on_beam_def in_time_def)
  obtain u where u: "advance V h (w_t w - sched_clock s) ?s = Inr ((), u)" "t = u\<lparr>tm := ?f (tm u)\<rparr>"
    using assms(4) by (auto simp: walk_commit_def tm_do_def thn_modify thn_def bnd_Inr)
  have n: "line (note_walk w m) = line m" "hclock (note_walk w m) = hclock m" "line_start (note_walk w m) = line_start m"
    "frames (note_walk w m) = frames m" "field_base (note_walk w m) = field_base m" "refresh_done (note_walk w m) = refresh_done m"
    "refresh_paid (note_walk w m) = refresh_paid m + refreshes w" "placed (note_walk w m) = placed m" for m
    by (simp_all add: note_walk_def Let_def placed_def)
  have "in_time (tm u) \<and> line (tm u) = w_line w \<and> frames (tm u) = w_frame w \<and> line_start (tm u) = w_ls w \<and>
      sched_clock u = w_t w \<and> refresh_done (tm u) = w_refresh_done w \<and> refresh_paid (tm u) = 0 \<and> field_base (tm u) = field_base (tm ?s)"
    by (rule advance_to_walk[OF assms(1,2) u(1) _ w(1,2)])
      (use ob w in \<open>simp_all add: n sched_clock_def\<close>)
  then have U: "in_time (tm u)" "line (tm u) = w_line w" "frames (tm u) = w_frame w" "line_start (tm u) = w_ls w"
    "w_ls w + hclock (tm u) = w_t w" "refresh_paid (tm u) = 0" "field_base (tm u) = field_base (tm s)"
    by (auto simp: sched_clock_def n)
  define m where "m = tm u"
  have f: "tm t = m\<lparr>walked := False, edge_undo_from := - 1, init_done := init_done m \<or> w_init_done w,
      nmi_done := nmi_done m \<or> w_nmi_done w\<rparr>"
    using U(2) by (simp add: u(2) Let_def m_def)
  note U = U[folded m_def]
  have p: "placed m" using U(1) by (simp add: in_time_def)
  have nmi: "w_line w = SCHED_VBLANK_LINE \<Longrightarrow> w_nmi_done w = nmi_done m"
  proof -
    assume l: "w_line w = SCHED_VBLANK_LINE"
    have "w_nmi_done w \<longleftrightarrow> w_ls w + 6 \<le> w_t w" using w(2) l by (simp add: settled_def)
    moreover have "nmi_done m \<longleftrightarrow> 6 \<le> hclock m" using U(1,2) l by (simp add: in_time_def)
    ultimately show ?thesis using U(5) by linarith
  qed
  have init: "w_line w = 0 \<Longrightarrow> w_init_done w = (12 + line_start m mod 8 \<le> hclock m)"
  proof -
    assume l: "w_line w = 0"
    then have "w_init_done w \<longleftrightarrow> w_ls w + 12 + w_ls w mod 8 \<le> w_t w" using w(2) by (simp add: settled_def init_at_def)
    then show ?thesis using U(5) unfolding U(4) by linarith
  qed
  have 1: "line (tm t) = line m" "hclock (tm t) = hclock m" "line_start (tm t) = line_start m" "frames (tm t) = frames m"
    "field_base (tm t) = field_base m" "refresh_paid (tm t) = refresh_paid m" "tm_line_clocks (tm t) = tm_line_clocks m"
    by (simp_all add: f tm_line_clocks_def)
  have "placed (tm t)" unfolding f
  proof (rule placed_marks[OF p])
    show "w_nmi_done w \<Longrightarrow> line m = SCHED_VBLANK_LINE \<Longrightarrow> 6 \<le> hclock m" using nmi U(1,2) by (simp add: in_time_def)
    show "w_init_done w \<Longrightarrow> line m = 0 \<Longrightarrow> 12 + line_start m mod 8 \<le> hclock m" using init U(2) by simp
  qed
  moreover have "in_time (tm t)"
  proof -
    have e: "refresh_done (tm t) = refresh_done m" "refresh_at (tm t) = refresh_at m" "hblank_done (tm t) = hblank_done m"
      "irq_at (tm t) = irq_at m" "irq_done (tm t) = irq_done m" "nmi_done (tm t) = (nmi_done m \<or> w_nmi_done w)"
      by (simp_all add: f)
    have "line m = SCHED_VBLANK_LINE \<longrightarrow> (nmi_done m \<or> w_nmi_done w \<longleftrightarrow> 6 \<le> hclock m)" using nmi U(1,2) by (simp add: in_time_def)
    then show ?thesis
      by (insert U(1)[unfolded in_time_def], unfold in_time_def 1 e, elim conjE, intro conjI calculation) assumption+
  qed
  moreover have "line m = 0 \<Longrightarrow> init_done m \<or> w_init_done w \<longleftrightarrow> 12 + line_start m mod 8 \<le> hclock m"
    using init U(2) p unfolding placed_def by auto
  then have "line (tm t) = 0 \<longrightarrow> (init_done (tm t) \<longleftrightarrow> 12 + line_start (tm t) mod 8 \<le> hclock (tm t))"
    unfolding 1 by (simp add: f)
  ultimately show ?thesis using U by (simp add: on_beam_def 1 sched_clock_def)
qed

text \<open>The walk of an instruction from a state on the beam.\<close>

lemma walk_insn_on_beam:
  assumes "on_beam s" "walk_insn lim s = Inr (x, w, p)"
  shows "tracks (env_of s) w" "settled (env_of s) w" "sched_clock s \<le> w_t w"
    "int (refreshes w) + tm_refreshes (tm s) = walk_refreshes w"
proof -
  let ?w = "walk_init (tm s)" and ?cs = "cyc_cycles s 160 lim"
  have c: "walk_cycles (env_of s) (insn_i s) ?cs (w_t ?w) (?w, pnd s) = Inr (x, w, p)"
    using assms(2) by (simp add: walk_insn_def Let_def)
  have g: "goes_on (env_of s) (?w, pnd s) (w, p)" by (rule clocking.whole[OF c])
  have "placed (tm s)" using assms(1) by (simp add: on_beam_def in_time_def)
  then show "tracks (env_of s) w" using g walk_init_tracks[of s] by (simp add: goes_on_def)
  show "sched_clock s \<le> w_t w" using g by (simp add: goes_on_def sched_clock_def)
  show "settled (env_of s) w"
  proof (cases "?cs = []")
    case True
    then show ?thesis using c walk_init_settled(1)[OF assms(1)] by (simp add: ret_def)
  next
    case False
    then show ?thesis using walk_cycles_settle[OF c _ False] walk_init_settled(2)[OF assms(1)] by simp
  qed
  show "int (refreshes w) + tm_refreshes (tm s) = walk_refreshes w"
    using refreshing.whole[OF c] by (simp add: counted_def)
qed

lemma on_beam_tm: "tm s' = tm s \<Longrightarrow> on_beam s' = on_beam s"
  by (simp add: on_beam_def)

lemma charge_walk_on_beam:
  assumes "hooks_steady h" "video_steady V" "on_beam s" "charge_walk V h s = Inr (y, t)"
  shows "\<exists>x w p. walk_insn 0xFFFFFFFF s = Inr (x, w, p) \<and> on_beam t \<and> sched_clock s \<le> w_t w \<and> line (tm t) = w_line w \<and>
    frames (tm t) = w_frame w \<and> line_start (tm t) = w_ls w \<and> sched_clock t = w_t w"
proof -
  obtain x w p where w: "walk_insn 0xFFFFFFFF s = Inr (x, w, p)"
    using assms(4) by (cases "walk_insn 0xFFFFFFFF s") (auto simp: charge_walk_def bnd_gets)
  define s1 where "s1 = (cyc_done (s\<lparr>pnd := p\<rparr>))\<lparr>pnd := p\<lparr>dma_after := - 1, nmi_after := - 1\<rparr>, take_irq := prev_irq p\<rparr>"
  have c: "walk_commit V h w (sched_clock s) (w_t w) s1 = Inr (y, t)"
    using assms(4) by (simp add: charge_walk_def bnd_gets w pnd_do_def thn_modify s1_def cyc_done_def)
  have e: "tm s1 = tm s" "sched_clock s1 = sched_clock s" by (simp_all add: s1_def cyc_done_def sched_clock_def)
  note f = walk_insn_on_beam[OF assms(3) w]
  have "on_beam s1" using assms(3) on_beam_tm[OF e(1)] by simp
  from commit_on_beam[OF assms(1,2) this c[folded e(2)] f(1,2)] f(3,4)
  show ?thesis using w by (simp add: e)
qed

text \<open>No event of the line but the NMI flag's and HDMA's point comes within the clocks.\<close>

definition quiet_tm :: "nat \<Rightarrow> timing \<Rightarrow> bool" where
  "quiet_tm clocks m \<longleftrightarrow> (let endc = hclock m + clocks in
     \<not> (\<not> nmi_done m \<and> 6 \<le> endc) \<and> \<not> (\<not> irq_done m \<and> irq_at m \<ge> 0 \<and> nat (irq_at m) \<le> endc) \<and>
     endc < tm_line_clocks m \<and> \<not> (\<not> refresh_done m \<and> refresh_at m \<le> endc) \<and>
     \<not> (line m = 0 \<and> \<not> init_done m \<and> 12 + line_start m mod 8 \<le> endc))"

lemma advance_quiet:
  assumes "hooks_steady h" "video_steady V" "placed (tm s)" "quiet_tm clocks (tm s)" "advance V h clocks s = Inr (x, t)"
  shows "\<exists>c b. tm t = (tm s)\<lparr>hclock := hclock (tm s) + clocks, rdnmi_cleared := c, hblank_done := b\<rparr>"
proof -
  define m where "m = (tm s)\<lparr>hclock := hclock (tm s) + clocks\<rparr>"
  let ?s = "s\<lparr>tm := m\<rparr>"
  have l: "advance_loop (adv_fuel (tm ?s)) V h ?s = Inr (x, t)"
    using assms(5) by (simp add: advance_def tm_do_def thn_modify bnd_gets m_def)
  let ?I = "\<lambda>n. \<exists>c b. n = m\<lparr>rdnmi_cleared := c, hblank_done := b\<rparr>"
  have no: "\<not> (\<not> nmi_done m \<and> 6 \<le> hclock m)" "\<not> (\<not> refresh_done m \<and> refresh_at m \<le> hclock m)" "hclock m < tm_line_clocks m"
    using assms(4) by (auto simp: quiet_tm_def Let_def m_def tm_line_clocks_def)
  have irq: "\<not> (\<not> irq_done m \<and> uns (irq_at m) \<le> hclock m)"
  proof (cases "0 \<le> irq_at m")
    case True
    then have "uns (irq_at m) = nat (irq_at m)" using assms(3) uns_irq by (simp add: placed_def m_def)
    then show ?thesis using assms(4) True by (auto simp: quiet_tm_def Let_def m_def)
  next
    case False
    then show ?thesis using assms(3) by (simp add: placed_def m_def)
  qed
  have "?I (tm ?s)" by (intro exI[of _ "rdnmi_cleared m"] exI[of _ "hblank_done m"]) simp
  then have "?I (tm t) \<and> adv_next (vr t) (tm t) = Adv_none"
  proof (rule advance_loop_keeps[OF assms(1,2) l, where I = ?I])
    fix v n v' n' k
    assume I: "?I n" and k: "adv_next v n = k" "k \<noteq> Adv_none" and ef: "adv_effect k (v, n) (v', n')"
    then obtain c b where n: "n = m\<lparr>rdnmi_cleared := c, hblank_done := b\<rparr>" by blast
    have f: "nmi_done n = nmi_done m" "refresh_done n = refresh_done m" "hclock n = hclock m" "irq_done n = irq_done m"
      "irq_at n = irq_at m" "refresh_at n = refresh_at m" "tm_line_clocks n = tm_line_clocks m"
      by (simp_all add: n tm_line_clocks_def)
    show "?I n'" using k(1)
    proof (cases rule: adv_next_cases)
      case 1
      then show ?thesis using ef n by (auto simp: adv_effect_def adv_tm_def)
    next
      case 2
      then have "n' = m\<lparr>rdnmi_cleared := True, hblank_done := b\<rparr>" using ef n by (simp add: adv_effect_def adv_tm_def)
      then show ?thesis by blast
    next
      case 6
      then have "n' = m\<lparr>rdnmi_cleared := c, hblank_done := True\<rparr>" using ef n by (simp add: adv_effect_def adv_tm_def)
      then show ?thesis by blast
    qed (use no irq k(2) f in auto)
  qed
  then show ?thesis by (auto simp: m_def)
qed

lemma advance_quiet_on_beam:
  assumes "hooks_steady h" "video_steady V" "on_beam s" "quiet_tm clocks (tm s)" "advance V h clocks s = Inr (x, t)"
  shows "on_beam t \<and> sched_clock t = sched_clock s + clocks \<and> field_base (tm t) = field_base (tm s)"
proof -
  have p: "placed (tm s)" using assms(3) by (simp add: on_beam_def in_time_def)
  obtain c b where m: "tm t = (tm s)\<lparr>hclock := hclock (tm s) + clocks, rdnmi_cleared := c, hblank_done := b\<rparr>"
    using advance_quiet[OF assms(1,2) p assms(4,5)] by blast
  have it: "in_time (tm t)" by (rule advance_in_time[OF assms(1,2,5) p])
  have "init_done (tm s) \<longleftrightarrow> 12 + line_start (tm s) mod 8 \<le> hclock (tm s) + clocks" if "line (tm s) = 0"
  proof -
    have "init_done (tm s) \<longleftrightarrow> 12 + line_start (tm s) mod 8 \<le> hclock (tm s)" using assms(3) that by (simp add: on_beam_def)
    moreover have "\<not> (\<not> init_done (tm s) \<and> 12 + line_start (tm s) mod 8 \<le> hclock (tm s) + clocks)"
      using assms(4) that by (simp add: quiet_tm_def Let_def)
    ultimately show ?thesis by linarith
  qed
  then show ?thesis using it assms(3) by (simp add: on_beam_def m sched_clock_def)
qed

lemma charge_whole_on_beam:
  assumes "hooks_steady h" "video_steady V" "on_beam s" "\<not> charge_inside clocks s" "charge_whole V h clocks s = Inr (x, t)"
  shows "on_beam t \<and> sched_clock t = sched_clock s + clocks"
proof -
  define s1 where "s1 = cyc_done (s\<lparr>pnd := (pnd s)\<lparr>prev_irq := irq_line (pnd s) \<and> \<not> insn_i s\<rparr>, take_irq := irq_line (pnd s) \<and> \<not> insn_i s\<rparr>)"
  have a: "advance V h clocks s1 = Inr (x, t)"
    using assms(5) by (simp add: charge_whole_def bnd_gets pnd_do_def thn_modify s1_def)
  have e: "tm s1 = tm s" by (simp add: s1_def cyc_done_def)
  have "quiet_tm clocks (tm s1)" unfolding e
    using assms(4) by (simp add: charge_inside_def quiet_tm_def Let_def)
  from advance_quiet_on_beam[OF assms(1,2) _ this a] show ?thesis
    using assms(3) on_beam_tm[OF e] by (simp add: sched_clock_def e)
qed

lemma charge_on_beam:
  assumes "hooks_steady h" "video_steady V" "on_beam s" "charge V h clocks s = Inr (x, t)"
  shows "on_beam t \<and> sched_clock s \<le> sched_clock t"
proof (cases "clocks = 0")
  case False
  show ?thesis
  proof (cases "charge_inside clocks s")
    case True
    then have "charge_walk V h s = Inr ((), t)" using assms(4) False by (simp add: charge_def bnd_gets)
    from charge_walk_on_beam[OF assms(1-3) this] show ?thesis by auto
  next
    case inside: False
    then have "charge_whole V h clocks s = Inr ((), t)" using assms(4) False by (simp add: charge_def bnd_gets)
    from charge_whole_on_beam[OF assms(1-3) inside this] show ?thesis by simp
  qed
qed (use assms in \<open>simp add: charge_def\<close>)

text \<open>WAI: no event comes in the run of idle cycles, and the last one is walked.\<close>

lemma wai_next_le:
  "wai_next m \<le> tm_line_clocks m"
  "\<not> refresh_done m \<Longrightarrow> wai_next m \<le> refresh_at m"
  "line m = 0 \<Longrightarrow> \<not> init_done m \<Longrightarrow> wai_next m \<le> 12 + line_start m mod 8"
  "\<not> nmi_done m \<Longrightarrow> wai_next m \<le> 6"
  "\<not> irq_done m \<Longrightarrow> 0 \<le> irq_at m \<Longrightarrow> wai_next m \<le> nat (irq_at m)"
proof -
  define n0 where "n0 = tm_line_clocks m"
  define n1 where "n1 = (if \<not> refresh_done m \<and> refresh_at m < n0 then refresh_at m else n0)"
  define n2 where "n2 = (if \<not> hblank_done m \<and> line m < SCHED_VBLANK_LINE \<and> SCHED_HDMA_CLOCK < n1 then SCHED_HDMA_CLOCK else n1)"
  define n3 where "n3 = (if line m = 0 \<and> \<not> init_done m \<and> 12 + line_start m mod 8 < n2 then 12 + line_start m mod 8 else n2)"
  define n4 where "n4 = (if \<not> nmi_done m \<and> 6 < n3 then 6 else n3)"
  define n5 where "n5 = (if \<not> irq_done m \<and> irq_at m \<ge> 0 \<and> nat (irq_at m) < n4 then nat (irq_at m) else n4)"
  have w: "wai_next m = n5" unfolding wai_next_def Let_def n5_def n4_def n3_def n2_def n1_def n0_def ..
  have l: "n1 \<le> n0" "n2 \<le> n1" "n3 \<le> n2" "n4 \<le> n3" "n5 \<le> n4"
    unfolding n1_def n2_def n3_def n4_def n5_def by simp_all
  have b: "\<not> refresh_done m \<Longrightarrow> n1 \<le> refresh_at m" "line m = 0 \<Longrightarrow> \<not> init_done m \<Longrightarrow> n3 \<le> 12 + line_start m mod 8"
    "\<not> nmi_done m \<Longrightarrow> n4 \<le> 6" "\<not> irq_done m \<Longrightarrow> 0 \<le> irq_at m \<Longrightarrow> n5 \<le> nat (irq_at m)"
    unfolding n1_def n3_def n4_def n5_def by simp_all
  show "wai_next m \<le> tm_line_clocks m" unfolding w n0_def[symmetric] using l by linarith
  show "\<not> refresh_done m \<Longrightarrow> wai_next m \<le> refresh_at m" unfolding w using l b(1) by linarith
  show "line m = 0 \<Longrightarrow> \<not> init_done m \<Longrightarrow> wai_next m \<le> 12 + line_start m mod 8" unfolding w using l b(2) by linarith
  show "\<not> nmi_done m \<Longrightarrow> wai_next m \<le> 6" unfolding w using l b(3) by linarith
  show "\<not> irq_done m \<Longrightarrow> 0 \<le> irq_at m \<Longrightarrow> wai_next m \<le> nat (irq_at m)" unfolding w using b(4) by blast
qed

lemma wai_next_quiet:
  assumes "hclock m + clocks < wai_next m"
  shows "quiet_tm clocks m"
  unfolding quiet_tm_def Let_def
  by (insert assms wai_next_le[of m], intro conjI notI; (elim conjE)?; fastforce)

lemma wai_skip_quiet:
  assumes "wai_skip V h s = Inr (x, t)"
  shows "t = s \<or> (\<exists>k. quiet_tm k (tm s) \<and> advance V h k s = Inr (x, t))"
proof -
  define n c where "n = wai_next (tm s)" and "c = hclock (tm s)"
  define k where "k = 6 * ((n - c) div 6 - 1)"
  have "t = s \<or> n > c + 12 \<and> advance V h k s = Inr (x, t)"
    using assms by (auto simp: wai_skip_def bnd_gets Let_def whenM_def n_def c_def k_def split: if_splits)
  moreover have "quiet_tm k (tm s)" if a: "n > c + 12"
  proof -
    have d: "6 * ((n - c) div 6) \<le> n - c" by simp
    have "k = 6 * ((n - c) div 6) - 6" unfolding k_def by (simp add: diff_mult_distrib2)
    then have "c + k < n" using d a by linarith
    then show ?thesis unfolding n_def c_def by (rule wai_next_quiet)
  qed
  ultimately show ?thesis by blast
qed

lemma wai_skip_on_beam:
  assumes "hooks_steady h" "video_steady V" "on_beam s" "wai_skip V h s = Inr (x, t)"
  shows "on_beam t \<and> sched_clock s \<le> sched_clock t \<and> field_base (tm t) = field_base (tm s)"
  using wai_skip_quiet[OF assms(4)] advance_quiet_on_beam[OF assms(1-3)] assms(3) by fastforce

lemma wai_walk_on_beam:
  assumes "on_beam s" "wai_walk (env_of s) i (walk_init (tm s), p0) = Inr (x, w, p)"
  shows "tracks (env_of s) w" "settled (env_of s) w" "sched_clock s + 6 \<le> w_t w"
    "int (refreshes w) + tm_refreshes (tm s) = walk_refreshes w"
proof -
  let ?E = "env_of s" and ?s0 = "(walk_init (tm s), p0)"
  obtain s1 y where 1: "walk_cycle_start ?E 6 i ?s0 = Inr ((), s1)" and 2: "walk_pass ?E 6 6 s1 = Inr (y, w, p)"
    using assms(2) by (auto simp: wai_walk_def thn_def bnd_Inr get_p_def)
  have start: "keeps (R ?E r) (walk_cycle_start ?E 6 i)" if "walk_order R" for R r
    unfolding walk_cycle_start_def
    by (intro keeps_intro walk_order.keeps_pending[OF that] walk_order.keeps_put_p[OF that]) simp
  have g1: "goes_on ?E ?s0 s1"
    using hoareD[OF start[OF clocking.walk_order_axioms, of ?s0] clocking.book[OF same_clock_w(4)] 1] .
  have c1: "counted ?E ?s0 s1"
    using hoareD[OF start[OF refreshing.walk_order_axioms, of ?s0] refreshing.book[OF same_clock_w(4)] 1] .
  have g: "goes_on ?E ?s0 (w, p)" using hoareD[OF clocking.keeps_pass g1 2] .
  have c: "counted ?E ?s0 (w, p)" using hoareD[OF refreshing.keeps_pass c1 2] .
  have p: "placed (tm s)" using assms(1) by (simp add: on_beam_def in_time_def)
  then show "tracks ?E w" using g walk_init_tracks[of s] by (simp add: goes_on_def)
  show "int (refreshes w) + tm_refreshes (tm s) = walk_refreshes w" using c by (simp add: counted_def)
  obtain w1 p1 where s1: "s1 = (w1, p1)" by fastforce
  have "w_t w1 + 6 \<le> w_t w" using 2 walk_loop_time(2)[of ?E "w_t w1 + 6"] by (auto simp: walk_pass_def s1)
  then show "sched_clock s + 6 \<le> w_t w" using g1 by (simp add: goes_on_def sched_clock_def s1)
  have "punctual (w_t w1) w1" using g1 walk_init_settled(2)[OF assms(1)] by (simp add: goes_on_def s1)
  then show "settled ?E w" using 2 walk_loop_settles(1)[OF _ punctual_pass] by (simp add: walk_pass_def s1)
qed

lemma wai_idle_on_beam:
  assumes "hooks_steady h" "video_steady V" "on_beam s" "wai_idle V h s = Inr (y, t)"
  shows "\<exists>seen w p. wai_walk (env_of s) (fl_i (cpu s) \<noteq> 0) (walk_init (tm s), pnd s) = Inr (seen, w, p) \<and> on_beam t \<and>
    sched_clock t = w_t w \<and> sched_clock s + 6 \<le> w_t w \<and> field_base (tm t) = field_base (tm s)"
proof -
  obtain seen w p where w: "wai_walk (env_of s) (fl_i (cpu s) \<noteq> 0) (walk_init (tm s), pnd s) = Inr (seen, w, p)"
    using assms(4) by (cases "wai_walk (env_of s) (fl_i (cpu s) \<noteq> 0) (walk_init (tm s), pnd s)") (auto simp: wai_idle_def bnd_gets Let_def)
  obtain s1 where s1: "tm s1 = tm s" "walk_commit V h w (w_t (walk_init (tm s))) (w_t w) s1 = Inr (y, t)"
  proof -
    have "walk_commit V h w (w_t (walk_init (tm s))) (w_t w)
        ((if seen then (s\<lparr>pnd := p\<rparr>)\<lparr>wai_over := True\<rparr> else s\<lparr>pnd := p\<rparr>)) = Inr (y, t)"
      using assms(4) by (auto simp: wai_idle_def bnd_gets Let_def w pnd_do_def thn_modify whenM_def thn_def)
    then show thesis by (rule that[rotated]) simp
  qed
  note f = wai_walk_on_beam[OF assms(3) w]
  have e: "sched_clock s1 = sched_clock s" "w_t (walk_init (tm s)) = sched_clock s" by (simp_all add: sched_clock_def s1(1))
  have "on_beam s1" using assms(3) on_beam_tm[OF s1(1)] by simp
  from commit_on_beam[OF assms(1,2) this s1(2)[unfolded e(2) e(1)[symmetric]] f(1,2)] f(3,4) w
  show ?thesis by (simp add: e s1(1))
qed

lemma wai_cycle_on_beam:
  assumes "hooks_steady h" "video_steady V" "on_beam s" "wai_cycle V h s = Inr (x, t)"
  shows "on_beam t \<and> sched_clock s + 6 \<le> sched_clock t \<and> field_base (tm t) = field_base (tm s)"
proof -
  obtain u where u: "wai_skip V h s = Inr ((), u)" "wai_idle V h u = Inr (x, t)"
    using assms(4) by (auto simp: wai_cycle_def thn_def bnd_Inr)
  then show ?thesis using wai_skip_on_beam[OF assms(1-3) u(1)] wai_idle_on_beam[OF assms(1,2) _ u(2)] by fastforce
qed

text \<open>Charging keeps the scheduler on the beam: after any instruction, interrupt entry or idle cycle of WAI,
  charged whole or walked, whatever DMA, HDMA and refreshes it met, frame and line are those of the
  master clock in closed form, no line event that has come is left undone and none was done early, no refresh is
  left to pay, and the clock has gone on.\<close>

lemma charge_beam:
  assumes "hooks_steady h" "video_steady V" "on_beam s"
    and "charge V h clocks s = Inr ((), t) \<or> wai_cycle V h s = Inr ((), t)"
  shows "on_beam t \<and> beam (int (sched_clock t)) = (frames (tm t) - field_base (tm t), line (tm t)) \<and> sched_clock s \<le> sched_clock t"
proof -
  have "on_beam t \<and> sched_clock s \<le> sched_clock t"
    using assms(4) charge_on_beam[OF assms(1-3)] wai_cycle_on_beam[OF assms(1-3)] by fastforce
  moreover from this have "in_time (tm t)" by (simp add: on_beam_def)
  ultimately show ?thesis using in_time_beam by (simp add: sched_clock_def)
qed

section \<open>What charging leaves alone\<close>

locale charging_time = passing_time J for J :: "'a charge_state_scheme \<Rightarrow> bool" +
  assumes by_charge: "J s \<Longrightarrow> J (s\<lparr>cur := k\<rparr>)" "J s \<Longrightarrow> J (s\<lparr>take_irq := b\<rparr>)" "J s \<Longrightarrow> J (s\<lparr>wai_over := b\<rparr>)"
begin

lemma charge_parts [pass_intro]:
  "keeps J (modify cyc_done)" "keeps J (modify (\<lambda>s. s\<lparr>take_irq := prev_irq (pnd s)\<rparr>))"
  "keeps J (modify (\<lambda>s. cyc_done (s\<lparr>take_irq := prev_irq (pnd s)\<rparr>)))" "keeps J (modify (\<lambda>s. s\<lparr>wai_over := b\<rparr>))"
  by (auto simp: hoare_def cyc_done_def intro!: by_charge)

lemma keeps_charge [pass_intro]:
  assumes "hooks_steady h" "video_steady V"
  shows "keeps J (charge V h clocks)"
proof -
  have "keeps J (charge_walk V h)"
    unfolding charge_walk_def
  proof (intro keeps_intro)
    show "keeps J (case r of Inl e \<Rightarrow> die e | Inr (_, w, p) \<Rightarrow>
       thn (pnd_do (\<lambda>_. p)) (thn (modify cyc_done) (thn (pnd_do (\<lambda>p. p\<lparr>dma_after := - 1, nmi_after := - 1\<rparr>))
      (thn (modify (\<lambda>s. s\<lparr>take_irq := prev_irq (pnd s)\<rparr>)) (walk_commit V h w start (w_t w))))))" for r :: "fatal + nat \<times> walk \<times> pend" and start
      by (cases r) (auto intro!: keeps_intro pass_intro assms)
  qed
  then show ?thesis unfolding charge_def charge_whole_def
    by (intro keeps_intro pass_intro assms)
qed

lemma keeps_wai [pass_intro]:
  assumes "hooks_steady h" "video_steady V"
  shows "keeps J (wai_cycle V h)"
proof -
  have "keeps J (case r of Inl e \<Rightarrow> die e | Inr (seen, w, p) \<Rightarrow>
         thn (pnd_do (\<lambda>_. p)) (thn (whenM seen (modify (\<lambda>s. s\<lparr>wai_over := True\<rparr>))) (walk_commit V h w t0 (w_t w))))"
    for r :: "fatal + bool \<times> walk \<times> pend" and t0
    by (cases r) (auto intro!: keeps_intro pass_intro assms)
  then have "keeps J (wai_idle V h)" unfolding wai_idle_def Let_def by (intro keeps_intro)
  moreover have "keeps J (wai_skip V h)" unfolding wai_skip_def Let_def by (intro keeps_intro pass_intro assms)
  ultimately show ?thesis unfolding wai_cycle_def by (intro keeps_intro)
qed

end

interpretation cpu_uncharged: charging_time "at_cpu c" for c
  by unfold_locales simp_all

interpretation regs_charged: charging_time typed_regs
  by unfold_locales (simp_all add: typed_regs_def)

section \<open>An instance\<close>

definition charge_zero :: charge_state where
  "charge_zero = frame_state.extend frame_zero \<lparr>take_irq = False, wai_over = False\<rparr>"

lemma charge_zero_fields:
  "tm charge_zero = line10" "vr charge_zero = vregs_zero" "pnd charge_zero = pend_reset" "dma charge_zero = dma_zero"
  by (simp_all add: charge_zero_def frame_state.defs frame_zero_simps)

lemma line10_on_beam: "on_beam charge_zero"
  by (simp add: on_beam_def in_time_def placed_def charge_zero_fields line10_def line_begin_def tm_line_clocks_def
      line_clocks_def sched_consts SCHED_HDMA_CLOCK_def)

lemma charge_zero_runs: "\<exists>t. charge idle_video h 6 charge_zero = Inr ((), t)"
proof -
  have "\<not> charge_inside 6 charge_zero"
    by (simp add: charge_inside_def charge_zero_fields line10_def pend_reset_def busy_def tm_line_clocks_def line_clocks_def
        sched_consts Let_def)
  moreover have "adv_next vregs_zero (line10\<lparr>hclock := 106\<rparr>) = Adv_none"
    by (simp add: adv_next_def line10_def vregs_zero_def tm_line_clocks_def line_clocks_def sched_consts)
  ultimately show ?thesis
    by (simp add: charge_def bnd_gets charge_whole_def thn_modify pnd_do_def advance_idle cyc_done_def charge_zero_fields line10_def)
qed

end
