(* ===== verification/Ct_Machine.thy ===== *)
theory Ct_Machine
  imports Ct_Charge
begin

text \<open>
  The machine put together: the register table with the handlers of \<open>runtime/bus.c\<close> (\<open>bus_setup\<close>),
  \<open>runtime/snes_adapter.c\<close> (\<open>snes_hw_init\<close>) and \<open>runtime/sched.c\<close> (\<open>sched_init\<close>), in the order
  the program installs them. A DMA accesses the bus through the same table, its \<open>$420B\<close> included: the table
  is built for any depth of DMAs started by DMAs.
\<close>

section \<open>The register table\<close>

type_synonym 's loop = "u16 list \<times> (u16 \<Rightarrow> 's hw_read_fn option) \<times> 's hw_write_fn option"

text \<open>What is not under \<open>src/\<close> or is vendored: the devices, whether the SPC700 is in step with the CPU (a comparison in
  floating point), and the fuel of the DMA loop.\<close>

record 's machine =
  m_video :: "'s video"
  m_in_step :: "('s, bool) act"
  m_fuel :: nat

definition machine_ppu :: "('a frame_state_scheme) machine \<Rightarrow> ('a frame_state_scheme) ppu_dev" where
  "machine_ppu M = (v_ppu (m_video M))\<lparr>snes_ppu_dot := Some ppu_dot\<rparr>"

definition adapter_loops :: "('a frame_state_scheme) machine \<Rightarrow> ('a frame_state_scheme) hooks \<Rightarrow> ('a frame_state_scheme) loop list" where
  "adapter_loops M h =
     [(regs 0x2100 0x213F, \<lambda>_. Some (ppu_reg_read (machine_ppu M)), Some (ppu_reg_write (machine_ppu M))),
      (regs 0x2140 0x217F, \<lambda>_. Some (apu_reg_read (Some (apu_sync (m_video M)))),
         Some (apu_reg_write (Some (apu_sync (m_video M))) (m_in_step M))),
      (regs 0x4300 0x437F, \<lambda>_. Some dma_reg_read, Some dma_reg_write),
      ([0x420B], \<lambda>_. Some bus_open_bus, Some (mdmaen_write (m_fuel M) (Some dma_start) h)),
      ([0x420C], \<lambda>_. Some bus_open_bus, Some hdmaen_write)]"

definition snes_hw_init ::
  "('a frame_state_scheme) machine \<Rightarrow> ('a frame_state_scheme) hooks \<Rightarrow> ('a frame_state_scheme) hooks \<Rightarrow> fatal + ('a frame_state_scheme) hooks" where
  "snes_hw_init M h = run_loops (adapter_loops M h)"

definition sched_loops :: "('a sched_state_scheme) loop list" where
  "sched_loops =
     [([0x4200], \<lambda>_. Some bus_open_bus, Some nmitimen_write),
      ([0x4201], \<lambda>_. Some bus_open_bus, Some wrio_write),
      (regs 0x4207 0x420A, \<lambda>_. Some bus_open_bus, Some htime_vtime_write),
      ([0x4210], \<lambda>_. Some rdnmi_read, Some bus_readonly_write),
      ([0x4211], \<lambda>_. Some timeup_read, Some bus_readonly_write),
      ([0x4212], \<lambda>_. Some hvbjoy_read, Some bus_readonly_write),
      (regs 0x4218 0x421F, \<lambda>_. Some joy_read, Some bus_readonly_write),
      ([0x4213], \<lambda>_. Some rdio_read, Some bus_readonly_write),
      ([0x2137], \<lambda>_. Some slhv_read, Some bus_readonly_write),
      ([0x213C], \<lambda>_. Some ophct_read, Some bus_readonly_write),
      ([0x213D], \<lambda>_. Some opvct_read, Some bus_readonly_write),
      ([0x213F], \<lambda>_. Some stat78_read, Some bus_readonly_write)]"

definition hook_registers :: "('a frame_state_scheme) machine \<Rightarrow> ('a frame_state_scheme) hooks \<Rightarrow> fatal + ('a frame_state_scheme) hooks" where
  "hook_registers M h = (case bus_setup (snes_hw_init M h) of Inl e \<Rightarrow> Inl e | Inr h' \<Rightarrow> run_loops sched_loops h')"

fun machine_hooks :: "('a frame_state_scheme) machine \<Rightarrow> nat \<Rightarrow> fatal + ('a frame_state_scheme) hooks" where
  "machine_hooks M 0 = hook_registers M no_hooks"
| "machine_hooks M (Suc n) = (case machine_hooks M n of Inl e \<Rightarrow> Inl e | Inr h \<Rightarrow> hook_registers M h)"

section \<open>Setting up never fails\<close>

definition in_window :: "'s loop \<Rightarrow> bool" where
  "in_window l \<longleftrightarrow> (\<forall>r\<in>set (fst l). 0x2000 \<le> r \<and> r < 0x6000)"

lemma run_loops_app: "run_loops (as @ bs) h = (case run_loops as h of Inl e \<Rightarrow> Inl e | Inr h' \<Rightarrow> run_loops bs h')"
  by (induction "as" h rule: run_loops.induct) (auto split: sum.splits)

lemma run_loops_ok: "list_all in_window ls \<Longrightarrow> \<exists>h'. run_loops ls h = Inr h'"
proof (induction ls h rule: run_loops.induct)
  case (2 rs rf wg ls h)
  have "hook_all rs rf wg h = Inr (over_hooks rs rf wg h)" using 2 by (intro hook_all_table) (simp add: in_window_def)
  then show ?case using 2 by simp
qed simp

lemma regs_window: "0x2000 \<le> a \<Longrightarrow> b < 0x6000 \<Longrightarrow> in_window (regs a b, x)"
  by (auto simp: in_window_def set_regs word_le_nat_alt word_less_nat_alt)

lemma loops_window: "list_all in_window setup_loops" "list_all in_window (adapter_loops M h)" "list_all in_window sched_loops"
proof -
  have f: "in_window (filter P (regs a b), x)" if "0x2000 \<le> a" "b < 0x6000" for P a b x
    using regs_window[OF that] by (auto simp: in_window_def)
  have one: "in_window ([r], x)" if "0x2000 \<le> r" "r < 0x6000" for r x using that by (simp add: in_window_def)
  show "list_all in_window setup_loops" "list_all in_window (adapter_loops M h)" "list_all in_window sched_loops"
    unfolding setup_loops_def adapter_loops_def sched_loops_def list.pred_inject
    by (intro conjI f regs_window one TrueI; simp)+
qed

lemma hook_registers_eq: "hook_registers M h = run_loops (setup_loops @ adapter_loops M h @ sched_loops) no_hooks"
  by (simp add: hook_registers_def bus_setup_def snes_hw_init_def run_loops_app split: sum.splits)

lemma machine_hooks_ok: "\<exists>h. machine_hooks M n = Inr h"
proof -
  have "\<exists>h'. hook_registers M h = Inr h'" for h
    unfolding hook_registers_eq by (rule run_loops_ok) (simp add: loops_window)
  then show ?thesis by (induction n) auto
qed

section \<open>No handler moves the clock\<close>

definition loop_steady :: "('a sched_state_scheme) loop \<Rightarrow> bool" where
  "loop_steady l \<longleftrightarrow> (\<forall>s0. (\<forall>r f reg. fst (snd l) r = Some f \<longrightarrow> keeps (steady s0) (f reg)) \<and>
     (\<forall>f reg v. snd (snd l) = Some f \<longrightarrow> keeps (steady s0) (f reg v)))"

lemma hook_all_steady:
  "hook_all rs rf wg h = Inr h' \<Longrightarrow> hooks_steady h \<Longrightarrow> loop_steady (rs, rf, wg) \<Longrightarrow> hooks_steady h'"
proof (induction rs rf wg h rule: hook_all.induct)
  case (2 r rs rf wg h)
  obtain h1 where h1: "bus_hook r (rf r) wg h = Inr h1" "hook_all rs rf wg h1 = Inr h'"
    using 2(2) by (auto split: sum.splits)
  have "hooks_steady h1" using h1(1) 2(3,4)
    by (auto simp: bus_hook_def hooks_steady_def loop_steady_def split: if_splits)
  moreover have "loop_steady (rs, rf, wg)" using 2(4) by (simp add: loop_steady_def)
  ultimately show ?case using 2(1)[OF h1(1)] h1(2) by blast
qed simp

lemma run_loops_steady: "run_loops ls h = Inr h' \<Longrightarrow> hooks_steady h \<Longrightarrow> list_all loop_steady ls \<Longrightarrow> hooks_steady h'"
proof (induction ls h rule: run_loops.induct)
  case (2 rs rf wg ls h)
  obtain h1 where h1: "hook_all rs rf wg h = Inr h1" "run_loops ls h1 = Inr h'" using 2(2) by (auto split: sum.splits)
  have "hooks_steady h1" using hook_all_steady[OF h1(1)] 2(3,4) by simp
  then show ?case using 2(1)[OF h1(1,2)] 2(4) by simp
qed simp

lemma loop_steadyI:
  assumes "\<And>s0 r f reg. rf r = Some f \<Longrightarrow> keeps (steady s0) (f reg)" "\<And>s0 f reg v. wg = Some f \<Longrightarrow> keeps (steady s0) (f reg v)"
  shows "loop_steady (rs, rf, wg)"
  using assms by (simp add: loop_steady_def)

text \<open>The handlers of the bus.\<close>

lemma wram_port_steady: "keeps (steady s0) (wram_port_write reg v)" "keeps (steady s0) (wram_port_read reg)"
  unfolding wram_port_write_def wram_port_read_def
  by (intro keeps_intro keeps_still; simp add: wram_store_still Let_def)+

lemma bus_regs_steady:
  "keeps (steady s0) (bus_open_bus reg)" "keeps (steady s0) (bus_readonly_write reg v)" "keeps (steady s0) (bus_unused_write reg v)"
  "keeps (steady s0) (math_write reg v)" "keeps (steady s0) (math_read reg)" "keeps (steady s0) (memsel_write reg v)"
  unfolding bus_open_bus_def bus_readonly_write_def bus_unused_write_def math_write_def math_read_def memsel_write_def
  by (intro keeps_intro keeps_still; simp)+

text \<open>The handlers of the adapter, over devices that leave clock and CPU alone.\<close>

definition machine_steady :: "('a frame_state_scheme) machine \<Rightarrow> bool" where
  "machine_steady M \<longleftrightarrow> video_steady (m_video M) \<and> (\<forall>a v. still (ppu_write (v_ppu (m_video M)) a v)) \<and> (\<forall>s0. keeps (steady s0) (m_in_step M))"

lemma adapter_still: "still (ppu_do f)" "still vram_prefetch_increment" "still (\<lambda>s. s\<lparr>ppu1_mdr := v\<rparr>)" "still (snes_set_ppu2_mdr v)"
  by (simp_all add: still_def ppu_do_def vram_prefetch_increment_def snes_set_ppu2_mdr_def Let_def)

lemma keeps_modify_still: "still f \<Longrightarrow> keeps (steady s0) (modify f)"
  by (rule keeps_still) (simp add: still_def)

lemma ppu_read_steady: "keeps (steady s0) (ppu_reg_read dev reg)"
proof -
  have o: "keeps (steady s0) (ppu1_out v)" for v unfolding ppu1_out_def by (intro keeps_intro keeps_modify_still adapter_still)
  have c: "keeps (steady s0) cgdata_read"
    unfolding cgdata_read_def case_prod_unfold Let_def
    by (intro keeps_intro keeps_modify_still) (simp add: still_def ppu_do_def snes_set_ppu2_mdr_def)
  have v: "keeps (steady s0) (vram_read b)" for b
    unfolding vram_read_def by (intro keeps_intro o keeps_modify_still adapter_still)
  have a: "keeps (steady s0) oamdata_read"
    unfolding oamdata_read_def Let_def by (intro keeps_intro o keeps_modify_still adapter_still)
  have n: "keeps (steady s0) (modify (\<lambda>s. s\<lparr>hw_notes := f (hw_notes s)\<rparr>))" for f by (rule keeps_still) simp
  show ?thesis unfolding ppu_reg_read_def
    by (intro keeps_intro o c v a n bus_regs_steady)
qed

lemma ppu_write_steady:
  assumes "machine_steady M"
  shows "keeps (steady s0) (ppu_reg_write (machine_ppu M) reg v)"
proof -
  let ?d = "machine_ppu M"
  have p: "still (ppu_write ?d a v)" "still (ppu_drawTo ?d n)" for a v n
    using assms by (simp_all add: machine_steady_def machine_ppu_def video_steady_def)
  have dot: "keeps (steady s0) ppu_dot" unfolding ppu_dot_def Let_def by (intro keeps_intro)
  have draw: "keeps (steady s0) (draw_before_write ?d)"
  proof -
    have d: "draw_before_write ?d = bnd (gets (\<lambda>s. drawX (ppu s) < 256)) (\<lambda>b. if b
        then bnd ppu_dot (\<lambda>dot. whenM (dot > 22) (modify (ppu_drawTo ?d (dot - 21)))) else ret ())"
    proof -
      have "snes_ppu_dot ?d = Some ppu_dot" by (simp add: machine_ppu_def)
      then show ?thesis by (simp add: draw_before_write_def)
    qed
    show ?thesis unfolding d by (intro keeps_intro dot keeps_modify_still p)
  qed
  have w: "still (\<lambda>s. if reg = 0x2104 then ppu_do (oam_write v) s
        else if reg = 0x2102 \<or> reg = 0x2103 then oamadd_write ?d reg v s
        else let s1 = ppu_write ?d (to8 (reg - 0x2100)) v s in
          if reg = 0x2116 \<or> reg = 0x2117 then s1\<lparr>vram_latch := vram (ppu s1) (vramPointer (ppu s1) AND 0x7FFF)\<rparr> else s1)"
    using p(1) by (simp add: still_def oamadd_write_def ppu_do_def Let_def)
  show ?thesis unfolding ppu_reg_write_def by (intro keeps_intro draw bus_regs_steady keeps_modify_still w)
qed

lemma apu_steady:
  assumes "machine_steady M"
  shows "keeps (steady s0) (apu_reg_read (Some (apu_sync (m_video M))) reg)"
    "keeps (steady s0) (apu_reg_write (Some (apu_sync (m_video M))) (m_in_step M) reg v)"
proof -
  have V: "video_steady (m_video M)" and i: "keeps (steady s0) (m_in_step M)" using assms by (simp_all add: machine_steady_def)
  show "keeps (steady s0) (apu_reg_read (Some (apu_sync (m_video M))) reg)"
    unfolding apu_reg_read_def option.case by (intro keeps_intro keeps_apu_sync V)
  show "keeps (steady s0) (apu_reg_write (Some (apu_sync (m_video M))) (m_in_step M) reg v)"
    unfolding apu_reg_write_def option.case Let_def
    by (intro keeps_intro keeps_apu_sync V i keeps_modify_still) (simp_all add: still_def)
qed

lemma dma_regs_steady:
  assumes "hooks_steady h"
  shows "keeps (steady s0) (dma_reg_read reg)" "keeps (steady s0) (dma_reg_write reg v)" "keeps (steady s0) (hdmaen_write reg v)"
    "keeps (steady s0) (mdmaen_write n (Some dma_start) h reg v)"
proof -
  show "keeps (steady s0) (dma_reg_read reg)" "keeps (steady s0) (dma_reg_write reg v)" "keeps (steady s0) (hdmaen_write reg v)"
    unfolding dma_reg_read_def dma_reg_write_def hdmaen_write_def by (intro keeps_intro bus_regs_steady)+
  have s: "keeps (steady s0) (dma_start sizes)" for sizes unfolding dma_start_def by (intro keeps_intro)
  have c: "keeps (steady s0) (modify (\<lambda>s. s\<lparr>ct_bus_clocks := a, ct_bus_n := b\<rparr>))" for a b by (rule keeps_still) simp
  show "keeps (steady s0) (mdmaen_write n (Some dma_start) h reg v)"
    unfolding mdmaen_write_def option.case case_prod_unfold by (intro keeps_intro keeps_dma_loop assms s c)
qed

lemma loops_steady:
  shows "list_all loop_steady setup_loops" "machine_steady M \<Longrightarrow> hooks_steady h \<Longrightarrow> list_all loop_steady (adapter_loops M h)"
    "list_all loop_steady sched_loops"
proof -
  show "list_all loop_steady setup_loops" unfolding setup_loops_def list.pred_inject
    by (intro conjI TrueI loop_steadyI; clarsimp split: if_splits simp: bus_regs_steady wram_port_steady)
  show "list_all loop_steady sched_loops" unfolding sched_loops_def list.pred_inject
    by (intro conjI TrueI loop_steadyI; clarsimp simp: bus_regs_steady regs_steady)
  assume a: "machine_steady M" "hooks_steady h"
  show "list_all loop_steady (adapter_loops M h)" unfolding adapter_loops_def list.pred_inject
    by (intro conjI TrueI loop_steadyI; clarsimp simp: bus_regs_steady ppu_read_steady ppu_write_steady[OF a(1)] apu_steady[OF a(1)] dma_regs_steady[OF a(2)])
qed

lemma hook_registers_steady:
  assumes "machine_steady M" "hooks_steady h" "hook_registers M h = Inr h'"
  shows "hooks_steady h'"
proof -
  have "list_all loop_steady (setup_loops @ adapter_loops M h @ sched_loops)"
    using loops_steady(1,3) loops_steady(2)[OF assms(1,2)] by simp
  from run_loops_steady[OF assms(3)[unfolded hook_registers_eq] no_hooks_steady this] show ?thesis .
qed

lemma machine_hooks_steady:
  assumes "machine_steady M"
  shows "machine_hooks M n = Inr h \<Longrightarrow> hooks_steady h"
  by (induction n arbitrary: h) (auto split: sum.splits intro: hook_registers_steady[OF assms] no_hooks_steady)

section \<open>The machine stays on the beam\<close>

text \<open>The machine stays on the beam. Its register table can be set up for any depth of DMAs, and with it, after
  any instruction, interrupt entry or idle cycle of WAI, charged whole or walked, whatever DMA, HDMA and refreshes it
  met, frame and line are those of the master clock in closed form, no line event that has come is left undone
  and none was done early, no refresh is left to pay, and the clock has gone on.\<close>

theorem machine_keeps_beam:
  assumes "machine_steady M"
  shows "\<exists>h. machine_hooks M n = Inr h \<and> (\<forall>s t clocks. on_beam s \<longrightarrow>
     charge (m_video M) h clocks s = Inr ((), t) \<or> wai_cycle (m_video M) h s = Inr ((), t) \<longrightarrow>
     on_beam t \<and> beam (int (sched_clock t)) = (frames (tm t) - field_base (tm t), line (tm t)) \<and> sched_clock s \<le> sched_clock t)"
proof -
  obtain h where h: "machine_hooks M n = Inr h" using machine_hooks_ok by blast
  have "video_steady (m_video M)" using assms by (simp add: machine_steady_def)
  from charge_beam[OF machine_hooks_steady[OF assms h] this] h show ?thesis by blast
qed

text \<open>A machine of idle devices, and a charge on it.\<close>

definition idle_machine :: "('a frame_state_scheme) machine" where
  "idle_machine = \<lparr>m_video = idle_video, m_in_step = ret True, m_fuel = 0\<rparr>"

lemma idle_machine_steady: "machine_steady (idle_machine :: ('a frame_state_scheme) machine)"
  using idle_video_steady by (simp add: machine_steady_def idle_machine_def still_def keeps_intro) (simp add: idle_video_def)

lemma idle_machine_video [simp]: "m_video idle_machine = idle_video"
  by (simp add: idle_machine_def)

theorem machine_keeps_beam_witness:
  "\<exists>h t. machine_hooks (idle_machine :: charge_state machine) 1 = Inr h \<and> charge idle_video h 6 charge_zero = Inr ((), t) \<and> on_beam t"
  using machine_keeps_beam[OF idle_machine_steady, where n = 1, unfolded idle_machine_video] charge_zero_runs line10_on_beam by blast

end
