(* ===== verification/Ct_Sched.thy ===== *)
theory Ct_Sched
  imports Ct_Machine
begin

text \<open>
  The dispatcher of \<open>runtime/sched.c\<close>: what runs at an instruction boundary (a due interrupt, an idle
  cycle of WAI, a recompiled function, one interpreted instruction), the tick of generated code, the
  native coverage profile, power-on and the reset button. Generated functions are numbers and an action
  that runs one; a function left through the \<open>longjmp\<close> of \<open>overlay_bail\<close> ends like one that returns.
  The loops that end only if the program does have fuel. C stack depth (\<open>note_stack\<close>) and the
  coroutine that \<open>sched_run_frame\<close> resumes are not modelled.
\<close>

section \<open>State\<close>

record ct_func =
  cf_addr :: u32
  cf_m :: u8
  cf_x :: u8
  cf_size :: u16
  cf_db :: int
  cf_dp :: int
  cf_extern :: bool
  cf_fn :: "nat option"

record sched_cpu = charge_state +
  skip_check :: bool
  nmis :: int
  int_depth :: int
  native_on :: bool
  native :: "ct_func list"
  overlay_strict :: bool
  prof_native :: u64
  prof_interp :: u64
  prof :: "(u64 \<times> u64) list"
  prof_shadow :: "(u64 \<times> u16) list"
  last_at :: u32
  mv_at :: u32

text \<open>\<open>prof_shadow\<close> is the array \<open>shadow\<close> with the newest entry first.\<close>

record 's sched_env =
  se_video :: "'s video"
  se_hooks :: "'s hooks"
  se_interp :: "'s interp_env"
  se_run :: "nat \<Rightarrow> ('s, unit) act"
  se_apu_soft_reset :: "'s \<Rightarrow> 's"

definition PROF_SLOTS :: nat where "PROF_SLOTS = 8192"
definition PROF_DEPTH :: nat where "PROF_DEPTH = 256"
definition PROF_REST :: u64 where "PROF_REST = push_bit 27 1"

abbreviation upd :: "('s \<Rightarrow> 's) \<Rightarrow> ('s, unit) act" where "upd \<equiv> modify"

section \<open>Native dispatch\<close>

text \<open>The order \<open>qsort\<close> leaves open is that of the table.\<close>

definition native_build :: "ct_func list \<Rightarrow> bool \<Rightarrow> overlay_func list \<Rightarrow> 'a sched_cpu_scheme \<Rightarrow> 'a sched_cpu_scheme" where
  "native_build funcs ovl_enabled ovls s =
     overlay_init ovl_enabled ovls (s\<lparr>native := sort_key cf_addr (filter (\<lambda>f. cf_fn f \<noteq> None \<and> \<not> cf_extern f) funcs)\<rparr>)"

text \<open>The entry state a function was compiled for; negative: any.\<close>

definition entry_match :: "ct_func \<Rightarrow> cpu \<Rightarrow> bool" where
  "entry_match f c \<longleftrightarrow> cf_m f = fl_m c \<and> cf_x f = fl_x c \<and> (cf_db f < 0 \<or> cf_db f = uint (rDB c)) \<and>
     (cf_dp f < 0 \<or> cf_dp f = uint (rDP c))"

fun native_scan :: "cpu \<Rightarrow> u32 \<Rightarrow> ct_func list \<Rightarrow> ct_func option" where
  "native_scan c at [] = None"
| "native_scan c at (f # fs) = (if cf_addr f \<noteq> at then None else if entry_match f c then Some f else native_scan c at fs)"

definition native_lookup :: "'a sched_cpu_scheme \<Rightarrow> ct_func option" where
  "native_lookup s = (let c = cpu s; at = addr24 (rPB c) (rPC c) in
     if \<not> native_on s \<or> fl_e c \<noteq> 0 \<or> native s = [] then None
     else native_scan c at (drop (first_from cf_addr (native s) at 0 (length (native s))) (native s)))"

section \<open>The native coverage profile\<close>

definition entry_key :: "cpu \<Rightarrow> u64" where
  "entry_key c = to64 (push_bit 16 (to32 (rPB c)) OR to32 (rPC c) OR push_bit 24 (to32 (fl_m c)) OR push_bit 25 (to32 (fl_x c)) OR
     push_bit 26 (to32 (fl_e c)) OR push_bit 31 (1 :: u32)) OR push_bit 32 (to64 (rDB c)) OR push_bit 40 (to64 (rDP c))"

definition shadow_settle :: "cpu \<Rightarrow> 'a sched_cpu_scheme \<Rightarrow> 'a sched_cpu_scheme" where
  "shadow_settle c s = s\<lparr>prof_shadow := dropWhile (\<lambda>e. rS c > snd e) (prof_shadow s)\<rparr>"

definition shadow_push_key :: "cpu \<Rightarrow> u64 \<Rightarrow> u16 \<Rightarrow> 'a sched_cpu_scheme \<Rightarrow> 'a sched_cpu_scheme" where
  "shadow_push_key c key s0 s = (let s1 = shadow_settle c s; es = prof_shadow s1 in
     s1\<lparr>prof_shadow := (key, s0) # (if length es = PROF_DEPTH then take (PROF_DEPTH - 1) es else es)\<rparr>)"

definition shadow_push :: "cpu \<Rightarrow> 'a sched_cpu_scheme \<Rightarrow> 'a sched_cpu_scheme" where
  "shadow_push c = shadow_push_key c (entry_key c) (rS c)"

definition shadow_rest :: "cpu \<Rightarrow> u16 \<Rightarrow> 'a sched_cpu_scheme \<Rightarrow> 'a sched_cpu_scheme" where
  "shadow_rest c s0 s = (let s1 = shadow_settle c s; key = entry_key c OR PROF_REST in
     case prof_shadow s1 of
       (k, t) # es \<Rightarrow> if k AND PROF_REST \<noteq> 0 \<and> t = s0 then s1\<lparr>prof_shadow := (key, t) # es\<rparr> else shadow_push_key c key s0 s1
     | [] \<Rightarrow> shadow_push_key c key s0 s1)"

text \<open>The table of counts: open addressing, from the slot of the key's hash.\<close>

fun prof_put :: "nat \<Rightarrow> nat \<Rightarrow> u64 \<Rightarrow> (u64 \<times> u64) list \<Rightarrow> (u64 \<times> u64) list" where
  "prof_put 0 k key t = t"
| "prof_put (Suc n) k key t =
     (if fst (t ! k) = key \<or> fst (t ! k) = 0 then t[k := (key, snd (t ! k) + 1)] else prof_put n ((k + 1) mod PROF_SLOTS) key t)"

definition prof_hash :: "u64 \<Rightarrow> nat" where
  "prof_hash key = unat ((to32 (key XOR drop_bit 29 key) * 2654435761 :: u32) AND 8191)"

definition prof_charge :: "'a sched_cpu_scheme \<Rightarrow> 'a sched_cpu_scheme" where
  "prof_charge s = (let s1 = shadow_settle (cpu s) s;
       key = (case prof_shadow s1 of (k, _) # _ \<Rightarrow> k | [] \<Rightarrow> push_bit 31 1)
     in s1\<lparr>prof := prof_put PROF_SLOTS (prof_hash key) key (prof s1)\<rparr>)"

definition sched_profile_clear :: "'a sched_cpu_scheme \<Rightarrow> 'a sched_cpu_scheme" where
  "sched_profile_clear s = s\<lparr>prof_native := 0, prof_interp := 0, prof := replicate PROF_SLOTS (0, 0)\<rparr>"

text \<open>Why the function at a key did not run natively; the texts of the report are constructors.\<close>

datatype not_native = Outside_call | Handed_over_known | Handed_over | Emulation | Overlay_stale | Overlay_runs | Not_recompiled
  | Unexplained | Dbdp_differ | Extern_hook | Other_mx

definition dbdp_match :: "ct_func \<Rightarrow> u8 \<Rightarrow> u16 \<Rightarrow> bool" where
  "dbdp_match f db dp \<longleftrightarrow> (cf_db f < 0 \<or> cf_db f = uint db) \<and> (cf_dp f < 0 \<or> cf_dp f = uint dp)"

definition not_compiled_reason :: "ct_func list \<Rightarrow> u32 \<Rightarrow> u8 \<Rightarrow> u8 \<Rightarrow> u8 \<Rightarrow> u16 \<Rightarrow> not_native" where
  "not_compiled_reason funcs addr m x db dp =
     (let fs = filter (\<lambda>f. cf_addr f = addr \<and> cf_fn f \<noteq> None) funcs;
          st = filter (\<lambda>f. \<not> cf_extern f \<and> cf_m f = m \<and> cf_x f = x) fs
      in if fs = [] then Not_recompiled
         else if \<exists>f\<in>set st. dbdp_match f db dp then Unexplained
         else if st \<noteq> [] then Dbdp_differ
         else if \<exists>f\<in>set fs. cf_extern f then Extern_hook
         else Other_mx)"

definition not_native_reason :: "ct_func list \<Rightarrow> u64 \<Rightarrow> 'a ovl_state_scheme \<Rightarrow> not_native \<times> 'a ovl_state_scheme" where
  "not_native_reason funcs key s =
     (let addr = to32 key AND 0xFFFFFF; m = to8 (drop_bit 24 key AND 1); x = to8 (drop_bit 25 key AND 1);
          e = to8 (drop_bit 26 key AND 1); db = to8 (drop_bit 32 key); dp = to16 (drop_bit 40 key)
      in if key AND 0xFFFFFF = 0 \<and> key AND 0x7F000000 = 0 then (Outside_call, s)
         else if key AND PROF_REST \<noteq> 0 then
           (if \<exists>f\<in>set funcs. cf_addr f = addr \<and> cf_fn f \<noteq> None then Handed_over_known else Handed_over, s)
         else if e \<noteq> 0 then (Emulation, s)
         else let ((any, stale), t) = overlay_state addr m x s in
           (if any then (if stale then Overlay_stale else Overlay_runs) else not_compiled_reason funcs addr m x db dp, t))"

section \<open>One step at an instruction boundary\<close>

definition env_charge :: "('a sched_cpu_scheme) sched_env \<Rightarrow> u32 \<Rightarrow> ('a sched_cpu_scheme, unit) act" where
  "env_charge E clocks = charge (se_video E) (se_hooks E) (unat clocks)"

definition charge_finish :: "('a sched_cpu_scheme) sched_env \<Rightarrow> ('a sched_cpu_scheme, unit) act" where
  "charge_finish E = bnd cyc_finish (env_charge E)"

text \<open>The entry of the interrupt that is due, in \<open>exec_one\<close> and in \<open>tick\<close>.\<close>

definition enter_interrupt :: "('a sched_cpu_scheme) sched_env \<Rightarrow> ('a sched_cpu_scheme, unit) act" where
  "enter_interrupt E = bnd (gets (\<lambda>s. need_nmi (pnd s))) (\<lambda>nmi.
     thn (whenM nmi (thn (pnd_do (\<lambda>p. p\<lparr>need_nmi := False\<rparr>)) (upd (\<lambda>s. s\<lparr>nmis := nmis s + 1\<rparr>))))
    (thn (upd (\<lambda>s. s\<lparr>take_irq := False, int_depth := int_depth s + 1, insn_i := True\<rparr>))
    (thn (bnd (interp_interrupt (se_hooks E) nmi) (env_charge E))
         (upd (\<lambda>s. shadow_push (cpu s) (s\<lparr>skip_check := True\<rparr>))))))"

text \<open>An overlay function: returned, or left through \<open>overlay_bail\<close>.\<close>

definition run_overlay :: "('a sched_cpu_scheme) sched_env \<Rightarrow> overlay_func \<Rightarrow> ('a sched_cpu_scheme, unit) act" where
  "run_overlay E f = bnd (gets (\<lambda>s. (overlay_last_idx s, rS (cpu s)))) (\<lambda>(k, s0).
     bnd (overlay_enter f k s0) (\<lambda>a. thn (case of_fn f of Some n \<Rightarrow> se_run E n | None \<Rightarrow> ret ()) (upd (overlay_leave a))))"

text \<open>The functions it tail-jumped to.\<close>

fun tail_loop :: "nat \<Rightarrow> ('a sched_cpu_scheme) sched_env \<Rightarrow> ('a sched_cpu_scheme, unit) act" where
  "tail_loop 0 E = die Out_of_fuel"
| "tail_loop (Suc fuel) E = bnd (gets ct_tail_fn) (\<lambda>t. case t of
     Tail_fn n \<Rightarrow> thn (upd (\<lambda>s. s\<lparr>ct_tail_fn := No_tail\<rparr>)) (thn (se_run E n) (tail_loop fuel E))
   | _ \<Rightarrow> ret ())"

definition exec_native :: "nat \<Rightarrow> ('a sched_cpu_scheme) sched_env \<Rightarrow> ('a sched_cpu_scheme, unit) act \<Rightarrow> ('a sched_cpu_scheme, unit) act" where
  "exec_native fuel E run = thn run (thn (tail_loop fuel E) (thn (charge_finish E)
     (bnd (gets ct_tail_fn) (\<lambda>t. whenM (t = Rest_runner)
       (upd (\<lambda>s. shadow_rest (cpu s) (ct_tail_s0 s) (s\<lparr>ct_tail_fn := No_tail\<rparr>)))))))"

definition exec_interp :: "('a sched_cpu_scheme) sched_env \<Rightarrow> ('a sched_cpu_scheme, unit) act" where
  "exec_interp E = bnd (gets pc_at) (\<lambda>at.
     thn (upd (\<lambda>s. if at \<noteq> mv_at s then prof_charge (s\<lparr>prof_interp := prof_interp s + 1\<rparr>) else s))
    (thn (upd (\<lambda>s. s\<lparr>insn_i := fl_i (cpu s) \<noteq> 0\<rparr>))
    (bnd (interp_step (se_interp E) (se_hooks E)) (\<lambda>clocks. bnd (gets interp_last_op) (\<lambda>op.
     thn (upd (\<lambda>s. if interp_waiting s then s\<lparr>wai_over := False\<rparr> else s))
    (thn (upd (\<lambda>s. s\<lparr>mv_at := (if (op = 0x54 \<or> op = 0x44) \<and> pc_at s = at then at else 0xFFFFFFFF)\<rparr>))
    (thn (upd (\<lambda>s. if op = 0x40 then s\<lparr>int_depth := int_depth s - 1\<rparr> else s))
    (thn (upd (\<lambda>s. if op = 0x20 \<or> op = 0x22 \<or> op = 0xFC then shadow_push (cpu s) s else s))
         (env_charge E clocks)))))))))"

definition exec_wai :: "('a sched_cpu_scheme) sched_env \<Rightarrow> ('a sched_cpu_scheme, unit) act" where
  "exec_wai E = bnd (gets wai_over) (\<lambda>over. thn (wai_cycle (se_video E) (se_hooks E))
     (whenM over (thn (upd (\<lambda>s. s\<lparr>wai_over := False\<rparr>)) (thn interp_wake (upd (\<lambda>s. s\<lparr>take_irq := prev_irq (pnd s)\<rparr>))))))"

definition exec_insn :: "nat \<Rightarrow> ('a sched_cpu_scheme) sched_env \<Rightarrow> ('a sched_cpu_scheme, unit) act" where
  "exec_insn fuel E = bnd (gets native_lookup) (\<lambda>f. case f of
     Some f \<Rightarrow> exec_native fuel E (case cf_fn f of Some n \<Rightarrow> se_run E n | None \<Rightarrow> ret ())
   | None \<Rightarrow> bnd (gets native_on) (\<lambda>on. bnd (if on then (\<lambda>s. Inr (overlay_lookup s)) else ret None) (\<lambda>v. case v of
       Some f \<Rightarrow> exec_native fuel E (run_overlay E f)
     | None \<Rightarrow> exec_interp E)))"

definition exec_one :: "nat \<Rightarrow> ('a sched_cpu_scheme) sched_env \<Rightarrow> ('a sched_cpu_scheme, unit) act" where
  "exec_one fuel E = bnd (gets id) (\<lambda>s.
     if \<not> skip_check s \<and> \<not> interp_waiting s \<and> (need_nmi (pnd s) \<or> take_irq s) then enter_interrupt E
     else thn (upd (\<lambda>s. s\<lparr>skip_check := False\<rparr>)) (if interp_waiting s then exec_wai E else exec_insn fuel E))"

section \<open>Generated code\<close>

fun run_until :: "nat \<Rightarrow> ('a sched_cpu_scheme) sched_env \<Rightarrow> ('a sched_cpu_scheme \<Rightarrow> bool) \<Rightarrow> ('a sched_cpu_scheme, unit) act" where
  "run_until 0 E stop = die Out_of_fuel"
| "run_until (Suc fuel) E stop = bnd (gets stop) (\<lambda>b. if b then ret () else thn (exec_one fuel E) (run_until fuel E stop))"

text \<open>Exactly the interrupted context: \<open>PB:PC\<close>, S, M, X and E.\<close>

definition same_context :: "cpu \<Rightarrow> cpu \<Rightarrow> bool" where
  "same_context a b \<longleftrightarrow> rPB a = rPB b \<and> rPC a = rPC b \<and> rS a = rS b \<and> fl_m a = fl_m b \<and> fl_x a = fl_x b \<and> fl_e a = fl_e b"

fun tick_interrupts :: "nat \<Rightarrow> ('a sched_cpu_scheme) sched_env \<Rightarrow> u32 \<Rightarrow> ('a sched_cpu_scheme, unit) act" where
  "tick_interrupts 0 E at = die Out_of_fuel"
| "tick_interrupts (Suc fuel) E at = bnd (gets id) (\<lambda>s.
     if \<not> need_nmi (pnd s) \<and> \<not> take_irq s then ret ()
     else thn (enter_interrupt E) (thn (run_until fuel E (\<lambda>t. int_depth t \<le> int_depth s))
       (bnd (gets cpu) (\<lambda>c. if \<not> same_context c (cpu s) then die (Interrupt_not_returned at)
          else thn (charge_finish E) (tick_interrupts fuel E at)))))"

text \<open>The result of \<open>overlay_bail\<close> and \<open>tick\<close>: the active function whose frame a \<open>longjmp\<close> goes to.\<close>

definition overlay_bail :: "nat \<Rightarrow> ('a sched_cpu_scheme) sched_env \<Rightarrow> nat \<Rightarrow> u32 \<Rightarrow> ('a sched_cpu_scheme, nat option) act" where
  "overlay_bail fuel E a at = bnd (gets id) (\<lambda>s.
     if overlay_strict s then die (Overlay_changed at)
     else let u = \<lparr>eu_back = 0xFFFFFFFF, eu_s = act_s0 (ct_ovl_act s ! a)\<rparr> in
       thn (run_until fuel E (\<lambda>t. ct_exec_done (cpu t) u)) (thn (upd (\<lambda>s. s\<lparr>ct_tail_fn := No_tail\<rparr>)) (ret (Some a))))"

text \<open>\<open>tick\<close> after its interrupts.\<close>

definition tick_rest :: "nat \<Rightarrow> ('a sched_cpu_scheme) sched_env \<Rightarrow> u32 \<Rightarrow> u8 \<Rightarrow> ('a sched_cpu_scheme, nat option) act" where
  "tick_rest fuel E at op =
     thn (upd (\<lambda>s. if op = 0x40 then s\<lparr>int_depth := int_depth s - 1\<rparr> else s))
    (thn (upd (\<lambda>s. if (op = 0x54 \<or> op = 0x44) \<and> at = last_at s then s else s\<lparr>prof_native := prof_native s + 1\<rparr>))
    (thn (upd (\<lambda>s. s\<lparr>last_at := at, insn_i := fl_i (cpu s) \<noteq> 0\<rparr>))
    (bnd (gets ct_wram_hit) (\<lambda>hit. bnd (if hit then thn (upd (\<lambda>s. s\<lparr>ct_wram_hit := False\<rparr>)) (\<lambda>s. Inr (overlay_stale_active s)) else ret None)
      (\<lambda>a. case a of Some a \<Rightarrow> overlay_bail fuel E a at
         | None \<Rightarrow> thn (upd (\<lambda>s. cyc_begin_compiled (cpu s) at op s)) (ret None))))))"

definition tick :: "nat \<Rightarrow> ('a sched_cpu_scheme) sched_env \<Rightarrow> u32 \<Rightarrow> u8 \<Rightarrow> ('a sched_cpu_scheme, nat option) act" where
  "tick fuel E at op =
     thn (cpu_do (\<lambda>c. c\<lparr>rPB := to8 (drop_bit 16 at), rPC := to16 at\<rparr>)) (thn (charge_finish E) (thn (tick_interrupts fuel E at)
       (tick_rest fuel E at op)))"

text \<open>\<open>ct_exec_hook\<close>.\<close>

definition exec_hook :: "nat \<Rightarrow> ('a sched_cpu_scheme) sched_env \<Rightarrow> exec_until \<Rightarrow> ('a sched_cpu_scheme, unit) act" where
  "exec_hook fuel E u = thn (charge_finish E)
     (thn (upd (\<lambda>s. if eu_back u \<noteq> 0xFFFFFFFF then shadow_push (cpu s) s else shadow_rest (cpu s) (eu_s u) s))
          (run_until fuel E (\<lambda>t. ct_exec_done (cpu t) u)))"

section \<open>Power-on, the reset button, the CPU loop\<close>

definition reset_delay :: "'a bus_state_scheme \<Rightarrow> nat" where
  "reset_delay s = 132 + unat (bus_access_clocks 0 s) + 6 + 3 * unat (bus_access_clocks 0x0100 s) +
     unat (bus_access_clocks 0xFFFC s) + unat (bus_access_clocks 0xFFFD s)"

text \<open>What both clear of the position and of the registers; \<open>restarted\<close> is without \<open>start_delay\<close>.\<close>

definition restarted :: "timing \<Rightarrow> timing" where
  "restarted m = m\<lparr>line := 0, hclock := 0, line_start := 0, frame_clock := 0, need_start := True, nmi_done := True,
     walked := False, dma_lo := 0, dma_hi := 0, edge_in_dma := False\<rparr>"

definition regs_cleared :: "vregs \<Rightarrow> vregs" where
  "regs_cleared r = r\<lparr>nmitimen := 0, rdnmi := 0, timeup := 0, in_vblank := False, autojoy_busy := False, autojoy_on := False,
     autojoy_step := 35\<rparr>"

definition charge_restarted :: "'a sched_cpu_scheme \<Rightarrow> 'a sched_cpu_scheme" where
  "charge_restarted s = s\<lparr>take_irq := False, wai_over := False, skip_check := False, insn_i := True, int_depth := 0, prof_shadow := []\<rparr>"

definition sched_init :: "ct_func list \<Rightarrow> bool \<Rightarrow> overlay_func list \<Rightarrow> ('a sched_cpu_scheme, unit) act" where
  "sched_init funcs ovl_enabled ovls =
     thn (upd (native_build funcs ovl_enabled ovls))
    (thn (upd (\<lambda>s. overlay_reset_active (s\<lparr>ct_tail_fn := No_tail\<rparr>)))
    (thn (upd (\<lambda>s. charge_restarted (s\<lparr>tm := (restarted (tm s))\<lparr>start_delay := (if fl_e (cpu s) \<noteq> 0 then reset_delay s else 0),
        frame_done := False, frames := 0, field_base := 0\<rparr>, nmis := 0\<rparr>)))
    (thn (upd (sched_profile_clear))
    (thn walk_reset
    (thn (vr_do (\<lambda>r. (regs_cleared r)\<lparr>wrio := 0xFF, htime := 0x1FF, vtime := 0x1FF, lat_h := 0, lat_v := 0, lat_flag := False,
        ophct_hi := False, opvct_hi := False, pad := (\<lambda>_. 0), joy := (\<lambda>_. 0)\<rparr>))
         (upd (\<lambda>s. s\<lparr>fb := (\<lambda>_. 0), present := (\<lambda>_. 0)\<rparr>)))))))"

definition soft_cpu :: "cpu \<Rightarrow> cpu" where
  "soft_cpu c = c\<lparr>fl_e := 1, fl_m := 1, fl_x := 1, fl_i := 1, fl_d := 0, rDB := 0, rDP := 0, rPB := 0, rX := rX c AND 0xFF,
     rY := rY c AND 0xFF, rS := 0x0100 OR (rS c AND 0xFF)\<rparr>"

definition soft_reset :: "('a sched_cpu_scheme) sched_env \<Rightarrow> ('a sched_cpu_scheme, unit) act" where
  "soft_reset E =
     thn (upd (\<lambda>s. s\<lparr>ct_tail_fn := No_tail\<rparr>))
    (thn (bnd (gets cyc_in_progress) (\<lambda>b. whenM b (bnd cyc_finish (\<lambda>_. ret ()))))
    (thn (upd cyc_done)
    (thn (upd (snes_hw_soft_reset (se_apu_soft_reset E)))
    (thn (cpu_do soft_cpu)
    (bnd (read8 (se_hooks E) 0xFFFC) (\<lambda>lo. bnd (read8 (se_hooks E) 0xFFFD) (\<lambda>hi.
     thn (cpu_do (\<lambda>c. c\<lparr>rPC := word16 lo hi\<rparr>))
    (thn interp_wake
    (thn (upd (\<lambda>s. s\<lparr>tm := (restarted (tm s))\<lparr>start_delay := reset_delay s, rdnmi_cleared := False, edge_undo_from := - 1\<rparr>\<rparr>))
    (thn (vr_do (\<lambda>r. (regs_cleared r)\<lparr>rdnmi_set := False\<rparr>))
    (thn (upd charge_restarted)
    (thn walk_reset
    (thn (upd overlay_reset_active)
    (thn (tm_do (\<lambda>m. m\<lparr>frames := frames m + 1, field_base := frames m + 1, frame_done := True\<rparr>))
         (case v_frame_hook (se_video E) of Some f \<Rightarrow> bnd (gets (\<lambda>s. frames (tm s))) f | None \<Rightarrow> ret ())))))))))))))))"

text \<open>An iteration of the loop of \<open>cpu_main\<close>.\<close>

definition cpu_start :: "('a sched_cpu_scheme) sched_env \<Rightarrow> ('a sched_cpu_scheme, unit) act" where
  "cpu_start E = thn (tm_do (\<lambda>m. m\<lparr>need_start := False\<rparr>)) (thn (begin_line (se_video E) (se_hooks E))
     (bnd (gets (\<lambda>s. start_delay (tm s))) (advance (se_video E) (se_hooks E))))"

definition cpu_step :: "nat \<Rightarrow> ('a sched_cpu_scheme) sched_env \<Rightarrow> ('a sched_cpu_scheme, unit) act" where
  "cpu_step fuel E = thn (bnd (gets (\<lambda>s. need_start (tm s))) (\<lambda>b. whenM b (cpu_start E))) (exec_one fuel E)"

end
