(* ===== verification/Ct_Dispatch.thy ===== *)
theory Ct_Dispatch
  imports Ct_Sched
begin

text \<open>
  What the dispatcher of \<open>Ct_Sched\<close> does: the lookup of recompiled functions finds what a search of the
  generated table would, the profile explains why a function did not run natively, its table
  counts, and an interrupt taken inside generated code comes back to exactly the code it left.
\<close>

section \<open>The lookup searches the generated table\<close>

lemma native_scan_find: "native_scan c at fs = find (entry_match_c c) (takeWhile (\<lambda>f. cf_addr f = at) fs)"
  if "entry_match_c = (\<lambda>c f. entry_match f c)" for entry_match_c
  by (induction fs) (simp_all add: that)

lemma find_filter: "find P (filter Q xs) = find (\<lambda>x. Q x \<and> P x) xs"
  by (induction xs) auto

definition compiled_for :: "cpu \<Rightarrow> ct_func \<Rightarrow> bool" where
  "compiled_for c f \<longleftrightarrow> cf_addr f = addr24 (rPB c) (rPC c) \<and> cf_fn f \<noteq> None \<and> \<not> cf_extern f \<and> entry_match f c"

lemma native_build_fields [simp]:
  "native (native_build funcs en ovls s) = sort_key cf_addr (filter (\<lambda>f. cf_fn f \<noteq> None \<and> \<not> cf_extern f) funcs)"
  "cpu (native_build funcs en ovls s) = cpu s" "native_on (native_build funcs en ovls s) = native_on s"
  by (simp_all add: native_build_def overlay_init_def)

lemma native_lookup_finds:
  assumes "native s = sort_key cf_addr (filter (\<lambda>f. cf_fn f \<noteq> None \<and> \<not> cf_extern f) funcs)"
  shows "native_lookup s = (if native_on s \<and> fl_e (cpu s) = 0 then find (compiled_for (cpu s)) funcs else None)"
proof -
  define P where "P = (\<lambda>f :: ct_func. cf_fn f \<noteq> None \<and> \<not> cf_extern f)"
  let ?t = "sort_key cf_addr (filter P funcs)" and ?at = "addr24 (rPB (cpu s)) (rPC (cpu s))" and ?m = "\<lambda>f. entry_match f (cpu s)"
  have "native_scan (cpu s) ?at (drop (first_from cf_addr ?t ?at 0 (length ?t)) ?t)
      = find ?m (filter (\<lambda>f. cf_addr f = ?at) ?t)"
    using native_scan_find[OF refl] sorted_table.scan_finds[OF sorted_sort_table[of cf_addr "filter P funcs"], of ?at] by simp
  also have "filter (\<lambda>f. cf_addr f = ?at) ?t = filter (\<lambda>f. cf_addr f = ?at) (filter P funcs)" by (rule sort_key_stable)
  finally have e: "native_scan (cpu s) ?at (drop (first_from cf_addr ?t ?at 0 (length ?t)) ?t) = find (compiled_for (cpu s)) funcs"
    by (simp add: find_filter P_def compiled_for_def conj_ac cong: find_cong)
  have "?t = [] \<Longrightarrow> find (compiled_for (cpu s)) funcs = None"
    using e by simp
  then show ?thesis using e assms by (auto simp: native_lookup_def Let_def P_def)
qed

section \<open>Why a function did not run natively\<close>

lemma u8_bit: "is_bit b \<Longrightarrow> bit b n \<longleftrightarrow> n = 0 \<and> b = 1"
  by (auto simp: is_bit_def bit_1_iff)

lemma key_marks: "bit (0x80000000 :: int) n \<longleftrightarrow> n = 31" "bit (0x8000000 :: int) n \<longleftrightarrow> n = 27"
  using bit_exp_iff[of 31 n, where 'a = int] bit_exp_iff[of 27 n, where 'a = int] by auto

lemma entry_key_bits:
  assumes "is_bit (fl_m c)" "is_bit (fl_x c)" "is_bit (fl_e c)"
  shows "bit (entry_key c) n \<longleftrightarrow>
    (if n < 16 then bit (rPC c) n else if n < 24 then bit (rPB c) (n - 16) else if n = 24 then fl_m c = 1 else if n = 25 then fl_x c = 1
     else if n = 26 then fl_e c = 1 else if n < 31 then False else if n = 31 then True else if n < 40 then bit (rDB c) (n - 32)
     else n < 56 \<and> bit (rDP c) (n - 40))"
  by (auto simp: entry_key_def bit_simps u8_bit assms key_marks dest: bit_imp_le_length)

lemma entry_key_fields:
  assumes "is_bit (fl_m c)" "is_bit (fl_x c)" "is_bit (fl_e c)"
  shows "to32 (entry_key c) AND 0xFFFFFF = addr24 (rPB c) (rPC c)" "to8 (drop_bit 24 (entry_key c) AND 1) = fl_m c"
    "to8 (drop_bit 25 (entry_key c) AND 1) = fl_x c" "to8 (drop_bit 26 (entry_key c) AND 1) = fl_e c"
    "to8 (drop_bit 32 (entry_key c)) = rDB c" "to16 (drop_bit 40 (entry_key c)) = rDP c"
    "entry_key c AND PROF_REST = 0"
proof -
  note b = entry_key_bits[OF assms]
  have m: "(0xFFFFFF :: u32) = mask 24" by (simp add: mask_eq_exp_minus_1)
  have one: "(x :: u64) AND 1 = (if bit x 0 then 1 else 0)" for x by (simp add: and_one_eq bit_0 mod_2_eq_odd)
  show "to32 (entry_key c) AND 0xFFFFFF = addr24 (rPB c) (rPC c)"
    unfolding m by (rule bit_word_eqI) (auto simp: bit_simps b addr24_def dest: bit_imp_le_length)
  show "to8 (drop_bit 24 (entry_key c) AND 1) = fl_m c" "to8 (drop_bit 25 (entry_key c) AND 1) = fl_x c"
    "to8 (drop_bit 26 (entry_key c) AND 1) = fl_e c"
    using assms by (auto simp: one bit_simps b is_bit_def)
  show "to8 (drop_bit 32 (entry_key c)) = rDB c" "to16 (drop_bit 40 (entry_key c)) = rDP c"
    by (rule bit_word_eqI; auto simp: bit_simps b dest: bit_imp_le_length)+
  show "entry_key c AND PROF_REST = 0"
    by (rule bit_word_eqI) (auto simp: bit_simps b PROF_REST_def key_marks)
qed

definition here :: "cpu \<Rightarrow> ct_func \<Rightarrow> bool" where
  "here c f \<longleftrightarrow> cf_addr f = addr24 (rPB c) (rPC c) \<and> cf_fn f \<noteq> None"

text \<open>What a reason says of the tables at the entry of \<open>c\<close>, called or handed over to: of the bytes in WRAM and the table of
  overlays for the two overlay reasons, of the generated table for the others.\<close>

definition reason_true :: "ct_func list \<Rightarrow> 'a ovl_state_scheme \<Rightarrow> bool \<Rightarrow> not_native \<Rightarrow> bool" where
  "reason_true funcs s rest r = (let c = cpu s; ovls = filter (overlay_at (addr24 (rPB c) (rPC c)) (fl_m c) (fl_x c)) (ovl s);
       plain = (\<not> rest \<and> fl_e c = 0 \<and> ovls = []) in case r of
     Outside_call \<Rightarrow> \<not> rest \<and> addr24 (rPB c) (rPC c) = 0 \<and> fl_m c = 0 \<and> fl_x c = 0 \<and> fl_e c = 0
   | Handed_over_known \<Rightarrow> rest \<and> list_ex (here c) funcs
   | Handed_over \<Rightarrow> rest \<and> \<not> list_ex (here c) funcs
   | Emulation \<Rightarrow> \<not> rest \<and> fl_e c \<noteq> 0
   | Overlay_runs \<Rightarrow> \<not> rest \<and> fl_e c = 0 \<and> ovls \<noteq> [] \<and> list_all (\<lambda>f. matches f s) ovls
   | Overlay_stale \<Rightarrow> \<not> rest \<and> fl_e c = 0 \<and> list_ex (\<lambda>f. \<not> matches f s) ovls
   | Not_recompiled \<Rightarrow> plain \<and> \<not> list_ex (here c) funcs
   | Unexplained \<Rightarrow> plain \<and> list_ex (compiled_for c) funcs
   | Dbdp_differ \<Rightarrow> plain \<and> \<not> list_ex (compiled_for c) funcs \<and>
       list_ex (\<lambda>f. here c f \<and> \<not> cf_extern f \<and> cf_m f = fl_m c \<and> cf_x f = fl_x c) funcs
   | Extern_hook \<Rightarrow> plain \<and> list_ex (\<lambda>f. here c f \<and> cf_extern f) funcs \<and>
       \<not> list_ex (\<lambda>f. here c f \<and> \<not> cf_extern f \<and> cf_m f = fl_m c \<and> cf_x f = fl_x c) funcs
   | Other_mx \<Rightarrow> plain \<and> list_ex (here c) funcs \<and>
       \<not> list_ex (\<lambda>f. here c f \<and> (cf_extern f \<or> cf_m f = fl_m c \<and> cf_x f = fl_x c)) funcs)"

text \<open>The key of the entry, or of the hand-over of \<open>shadow_rest\<close>.\<close>

definition key_at :: "cpu \<Rightarrow> bool \<Rightarrow> u64" where
  "key_at c rest = (if rest then entry_key c OR PROF_REST else entry_key c)"

lemma rest_bits: "bit PROF_REST n \<longleftrightarrow> n = 27"
  unfolding PROF_REST_def by (auto simp: bit_simps key_marks)

lemma key_at_fields:
  assumes "is_bit (fl_m c)" "is_bit (fl_x c)" "is_bit (fl_e c)"
  shows "to32 (key_at c rest) AND 0xFFFFFF = addr24 (rPB c) (rPC c)" "to8 (drop_bit 24 (key_at c rest) AND 1) = fl_m c"
    "to8 (drop_bit 25 (key_at c rest) AND 1) = fl_x c" "to8 (drop_bit 26 (key_at c rest) AND 1) = fl_e c"
    "to8 (drop_bit 32 (key_at c rest)) = rDB c" "to16 (drop_bit 40 (key_at c rest)) = rDP c"
    "key_at c rest AND PROF_REST = (if rest then PROF_REST else 0)"
proof -
  note b = entry_key_fields[OF assms]
  have m: "(0xFFFFFF :: u32) = mask 24" by (simp add: mask_eq_exp_minus_1)
  have k: "bit (key_at c rest) n \<longleftrightarrow> bit (entry_key c) n \<or> rest \<and> n = 27" for n
    by (auto simp: key_at_def bit_simps rest_bits)
  have a: "to32 (key_at c rest) AND 0xFFFFFF = to32 (entry_key c) AND 0xFFFFFF"
    unfolding m by (rule bit_word_eqI) (auto simp: bit_simps k)
  have f: "drop_bit n (key_at c rest) AND 1 = drop_bit n (entry_key c) AND 1" if "n \<noteq> 27" for n
    using that by (intro bit_word_eqI) (auto simp: bit_simps bit_1_iff k)
  have h: "drop_bit n (key_at c rest) = drop_bit n (entry_key c)" if "27 < n" for n
    using that by (intro bit_word_eqI) (auto simp: bit_simps k)
  show "to32 (key_at c rest) AND 0xFFFFFF = addr24 (rPB c) (rPC c)" "to8 (drop_bit 24 (key_at c rest) AND 1) = fl_m c"
    "to8 (drop_bit 25 (key_at c rest) AND 1) = fl_x c" "to8 (drop_bit 26 (key_at c rest) AND 1) = fl_e c"
    "to8 (drop_bit 32 (key_at c rest)) = rDB c" "to16 (drop_bit 40 (key_at c rest)) = rDP c"
    using b by (simp_all add: a f h)
  have "bit (entry_key c AND PROF_REST) n = False" for n using b(7) by simp
  then show "key_at c rest AND PROF_REST = (if rest then PROF_REST else 0)"
    by (intro bit_word_eqI) (auto simp: bit_simps k rest_bits)
qed

lemma key_at_outside:
  assumes "is_bit (fl_m c)" "is_bit (fl_x c)" "is_bit (fl_e c)"
  shows "key_at c rest AND 0xFFFFFF = 0 \<and> key_at c rest AND 0x7F000000 = 0 \<longleftrightarrow>
    \<not> rest \<and> addr24 (rPB c) (rPC c) = 0 \<and> fl_m c = 0 \<and> fl_x c = 0 \<and> fl_e c = 0"
proof -
  have k: "bit (key_at c rest) n \<longleftrightarrow> bit (entry_key c) n \<or> rest \<and> n = 27" for n
    by (auto simp: key_at_def bit_simps rest_bits)
  have h: "bit (0x7F000000 :: u64) n \<longleftrightarrow> 24 \<le> n \<and> n < 31" for n
  proof -
    have e: "(0x7F000000 :: u64) = push_bit 24 (mask 7)" by (simp add: mask_eq_exp_minus_1)
    show ?thesis unfolding e by (auto simp: bit_push_bit_iff bit_mask_iff simp del: push_bit_of_Suc_0)
  qed
  have "key_at c rest AND 0xFFFFFF = 0 \<longleftrightarrow> to32 (key_at c rest) AND 0xFFFFFF = 0"
  proof -
    have e: "(0xFFFFFF :: u64) = mask 24" "(0xFFFFFF :: u32) = mask 24" by (simp_all add: mask_eq_exp_minus_1)
    have "key_at c rest AND mask 24 = to64 (to32 (key_at c rest) AND mask 24)"
      by (rule bit_word_eqI) (auto simp: bit_simps)
    moreover have "to32 (key_at c rest) AND mask 24 = to32 (key_at c rest AND mask 24)"
      by (rule bit_word_eqI) (auto simp: bit_simps)
    ultimately show ?thesis unfolding e by (metis unsigned_0)
  qed
  moreover have "key_at c rest AND 0x7F000000 = 0 \<longleftrightarrow> \<not> rest \<and> fl_m c = 0 \<and> fl_x c = 0 \<and> fl_e c = 0"
  proof -
    have l: "n < 31 \<Longrightarrow> n < 64" for n :: nat by simp
    have "key_at c rest AND 0x7F000000 = 0 \<longleftrightarrow> (\<forall>n. \<not> (bit (key_at c rest) n \<and> 24 \<le> n \<and> n < 31))"
      unfolding bit_eq_iff[of "key_at c rest AND 0x7F000000"] bit_and_iff h by simp (use l in blast)
    also have "\<dots> \<longleftrightarrow> (\<forall>n\<in>{24, 25, 26, 27, 28, 29, 30}. \<not> bit (key_at c rest) n)"
    proof -
      have "24 \<le> n \<and> n < 31 \<longleftrightarrow> n \<in> {24, 25, 26, 27, 28, 29, 30}" for n :: nat by auto
      then show ?thesis by blast
    qed
    also have "\<dots> \<longleftrightarrow> \<not> rest \<and> fl_m c \<noteq> 1 \<and> fl_x c \<noteq> 1 \<and> fl_e c \<noteq> 1"
      by (auto simp: k entry_key_bits[OF assms])
    finally show ?thesis using assms by (auto simp: is_bit_def)
  qed
  ultimately show ?thesis using key_at_fields(1)[OF assms, of rest] by auto
qed

lemma not_compiled_cases:
  "not_compiled_reason funcs (addr24 (rPB c) (rPC c)) (fl_m c) (fl_x c) (rDB c) (rDP c) =
     (if \<not> list_ex (here c) funcs then Not_recompiled else if list_ex (compiled_for c) funcs then Unexplained
      else if list_ex (\<lambda>f. here c f \<and> \<not> cf_extern f \<and> cf_m f = fl_m c \<and> cf_x f = fl_x c) funcs then Dbdp_differ
      else if list_ex (\<lambda>f. here c f \<and> cf_extern f) funcs then Extern_hook else Other_mx)"
proof -
  let ?fs = "filter (\<lambda>f. cf_addr f = addr24 (rPB c) (rPC c) \<and> cf_fn f \<noteq> None) funcs"
  let ?st = "filter (\<lambda>f. \<not> cf_extern f \<and> cf_m f = fl_m c \<and> cf_x f = fl_x c) ?fs"
  have "?fs = [] \<longleftrightarrow> \<not> list_ex (here c) funcs"
    "(\<exists>f\<in>set ?st. dbdp_match f (rDB c) (rDP c)) \<longleftrightarrow> list_ex (compiled_for c) funcs"
    "?st \<noteq> [] \<longleftrightarrow> list_ex (\<lambda>f. here c f \<and> \<not> cf_extern f \<and> cf_m f = fl_m c \<and> cf_x f = fl_x c) funcs"
    "(\<exists>f\<in>set ?fs. cf_extern f) \<longleftrightarrow> list_ex (\<lambda>f. here c f \<and> cf_extern f) funcs"
    unfolding list_ex_iff compiled_for_def here_def entry_match_def dbdp_match_def filter_empty_conv set_filter by blast+
  then show ?thesis unfolding not_compiled_reason_def Let_def by simp
qed

lemma reason_is_true:
  assumes "wf_cpu (cpu s)" "cache_fresh s" "sorted (map of_addr (ovl s))"
  shows "reason_true funcs s rest (fst (not_native_reason funcs (key_at (cpu s) rest) s))"
proof -
  let ?c = "cpu s" and ?k = "key_at (cpu s) rest" and ?a = "addr24 (rPB (cpu s)) (rPC (cpu s))"
  have b: "is_bit (fl_m ?c)" "is_bit (fl_x ?c)" "is_bit (fl_e ?c)" using assms(1) by (simp_all add: wf_cpu_def)
  note f = key_at_fields[OF b] and o = key_at_outside[OF b]
  have r: "PROF_REST \<noteq> 0" by (simp add: PROF_REST_def)
  show ?thesis
  proof (cases "?k AND 0xFFFFFF = 0 \<and> ?k AND 0x7F000000 = 0")
    case True
    then have "fst (not_native_reason funcs ?k s) = Outside_call" by (simp add: not_native_reason_def Let_def)
    then show ?thesis using True o by (simp add: reason_true_def)
  next
    case False
    show ?thesis
    proof (cases rest)
      case True
      then have "fst (not_native_reason funcs ?k s) = (if list_ex (here ?c) funcs then Handed_over_known else Handed_over)"
        using False r by (auto simp: not_native_reason_def Let_def f list_ex_iff here_def)
      then show ?thesis using True by (simp add: reason_true_def)
    next
      case plain: False
      show ?thesis
      proof (cases "fl_e ?c = 0")
        case False
        then have "fst (not_native_reason funcs ?k s) = Emulation"
          using plain \<open>\<not> (?k AND 0xFFFFFF = 0 \<and> ?k AND 0x7F000000 = 0)\<close> by (simp add: not_native_reason_def Let_def f)
        then show ?thesis using plain False by (simp add: reason_true_def)
      next
        case True
        let ?any = "list_ex (overlay_at ?a (fl_m ?c) (fl_x ?c)) (ovl s)"
          and ?stale = "list_ex (\<lambda>f. overlay_at ?a (fl_m ?c) (fl_x ?c) f \<and> \<not> matches f s) (ovl s)"
        have "fst (not_native_reason funcs ?k s) = (if ?any then if ?stale then Overlay_stale else Overlay_runs
            else not_compiled_reason funcs ?a (fl_m ?c) (fl_x ?c) (rDB ?c) (rDP ?c))"
          using plain True \<open>\<not> (?k AND 0xFFFFFF = 0 \<and> ?k AND 0x7F000000 = 0)\<close> overlay_state_finds[OF assms(2,3), of ?a "fl_m ?c" "fl_x ?c"]
          by (auto simp: not_native_reason_def Let_def f case_prod_beta)
        moreover have "filter (overlay_at ?a (fl_m ?c) (fl_x ?c)) (ovl s) = [] \<longleftrightarrow> \<not> ?any"
          "list_ex (\<lambda>f. \<not> matches f s) (filter (overlay_at ?a (fl_m ?c) (fl_x ?c)) (ovl s)) \<longleftrightarrow> ?stale"
          "list_all (\<lambda>f. matches f s) (filter (overlay_at ?a (fl_m ?c) (fl_x ?c)) (ovl s)) \<longleftrightarrow> \<not> ?stale"
          by (auto simp: filter_empty_conv list_ex_iff list_all_iff)
        moreover have "list_ex (\<lambda>f. here ?c f \<and> (cf_extern f \<or> cf_m f = fl_m ?c \<and> cf_x f = fl_x ?c)) funcs \<longleftrightarrow>
            list_ex (\<lambda>f. here ?c f \<and> cf_extern f) funcs \<or>
            list_ex (\<lambda>f. here ?c f \<and> \<not> cf_extern f \<and> cf_m f = fl_m ?c \<and> cf_x f = fl_x ?c) funcs"
          unfolding list_ex_iff by blast
        ultimately show ?thesis using plain True by (simp add: reason_true_def Let_def not_compiled_cases)
      qed
    qed
  qed
qed

text \<open>C15. Dispatch and its report. With the table that was built, the lookup of recompiled functions, a binary search and a
  scan, gives the first function of the generated table that takes no extern hook and was compiled for the entry at
  \<open>PB:PC\<close> with its M, X, DB and DP, in native mode and with native dispatch on. And whatever the profile reports for an
  entry, called or handed over to, is true: outside any call, in emulation mode, an overlay whose bytes in
  WRAM are now those it was compiled from, one whose bytes differ, or what the generated table holds for the
  address; in particular it says unexplained only where the lookup finds a function. The state of the overlays is any that
  starting, WRAM stores (short of a page counter wrapping), lookups and checks reach.\<close>

theorem dispatch_explained:
  assumes "wf_cpu (cpu s)" "cache_reach ovls s" "\<forall>f\<in>set ovls. entry_ok f"
    and "native s = sort_key cf_addr (filter (\<lambda>f. cf_fn f \<noteq> None \<and> \<not> cf_extern f) funcs)"
  shows "native_lookup s = (if native_on s \<and> fl_e (cpu s) = 0 then find (compiled_for (cpu s)) funcs else None) \<and>
    reason_true funcs s False (fst (not_native_reason funcs (entry_key (cpu s)) s)) \<and>
    reason_true funcs s True (fst (not_native_reason funcs (entry_key (cpu s) OR PROF_REST) s))"
proof -
  have "cache_fresh s" "sorted (map of_addr (ovl s))" using cache_reach_inv[OF assms(2,3)] by simp_all
  note r = reason_is_true[OF assms(1) this, where funcs = funcs]
  show ?thesis using native_lookup_finds[OF assms(4)] r[of False] r[of True] by (simp add: key_at_def)
qed

definition demo_func :: ct_func where
  "demo_func = \<lparr>cf_addr = 0xC00102, cf_m = 1, cf_x = 0, cf_size = 8, cf_db = - 1, cf_dp = 0x100, cf_extern = False, cf_fn = Some 7\<rparr>"

definition sched_zero :: sched_cpu where
  "sched_zero = charge_state.extend charge_zero \<lparr>skip_check = False, nmis = 0, int_depth = 0, native_on = True, native = [],
     overlay_strict = False, prof_native = 0, prof_interp = 0, prof = replicate PROF_SLOTS (0, 0), prof_shadow = [],
     last_at = 0, mv_at = 0xFFFFFFFF\<rparr>"

text \<open>Compiled for another DP, and an overlay whose byte has changed.\<close>

definition dispatch_demo :: "u16 \<Rightarrow> u8 \<Rightarrow> u16 \<Rightarrow> sched_cpu" where
  "dispatch_demo dp pb pc = wram_store 0x1200 7 (native_build [demo_func] True [tiny_func]
     (sched_zero\<lparr>cpu := cpu_init\<lparr>rPB := pb, rPC := pc, fl_m := 1, fl_x := 0, rDP := dp\<rparr>\<rparr>))"

lemma dispatch_demo_ok:
  "wf_cpu (cpu (dispatch_demo dp pb pc)) \<and> cache_reach [tiny_func] (dispatch_demo dp pb pc) \<and> native_on (dispatch_demo dp pb pc) \<and>
   native (dispatch_demo dp pb pc) = [demo_func] \<and> ovl (dispatch_demo dp pb pc) = [tiny_func] \<and> wram (dispatch_demo dp pb pc) 0x1200 = 7"
proof -
  let ?s = "sched_zero\<lparr>cpu := cpu_init\<lparr>rPB := pb, rPC := pc, fl_m := 1, fl_x := 0, rDP := dp\<rparr>\<rparr>"
  let ?n = "native_build [demo_func] True [tiny_func] ?s"
  have g: "ct_wram_gen ?n p = 0" for p by (simp add: native_build_def overlay_init_def sched_zero_def charge_state.defs charge_zero_def frame_state.defs frame_zero_simps)
  have r: "cache_reach [tiny_func] ?n" unfolding native_build_def by (rule cache_reach.init)
  have "cache_reach [tiny_func] (dispatch_demo dp pb pc)" unfolding dispatch_demo_def by (rule cache_reach.store[OF r]) (simp add: g)
  moreover have "wf_cpu (cpu (dispatch_demo dp pb pc))" by (simp add: dispatch_demo_def wf_cpu_def cpu_init_def)
  moreover have "native_on (dispatch_demo dp pb pc) \<and> native (dispatch_demo dp pb pc) = [demo_func]"
    by (simp add: dispatch_demo_def wram_store_def wram_journal_def Let_def demo_func_def sched_zero_def charge_state.defs)
  moreover have "ovl (dispatch_demo dp pb pc) = [tiny_func]" by (simp add: dispatch_demo_def native_build_def overlay_init_def tiny_func_def)
  moreover have "wram (dispatch_demo dp pb pc) 0x1200 = 7" by (simp add: dispatch_demo_def wram_store_def Let_def)
  ultimately show ?thesis by blast
qed

theorem dispatch_explained_witness:
  "native_lookup (dispatch_demo 0x100 0xC0 0x102) = Some demo_func \<and> native_lookup (dispatch_demo 0 0xC0 0x102) = None \<and>
   reason_true [demo_func] (dispatch_demo 0 0xC0 0x102) False (fst (not_native_reason [demo_func] (entry_key (cpu (dispatch_demo 0 0xC0 0x102))) (dispatch_demo 0 0xC0 0x102))) \<and>
   reason_true [demo_func] (dispatch_demo 0 0x7E 0x1200) False Overlay_stale"
proof -
  have ok: "\<forall>f\<in>set [tiny_func]. entry_ok f" by (simp add: entry_ok_def tiny_func_def)
  have t: "[demo_func] = sort_key cf_addr (filter (\<lambda>f. cf_fn f \<noteq> None \<and> \<not> cf_extern f) [demo_func])" by (simp add: demo_func_def)
  have d: "native_lookup (dispatch_demo dp pb pc) = (if fl_e (cpu (dispatch_demo dp pb pc)) = 0 then find (compiled_for (cpu (dispatch_demo dp pb pc))) [demo_func] else None) \<and>
    reason_true [demo_func] (dispatch_demo dp pb pc) False (fst (not_native_reason [demo_func] (entry_key (cpu (dispatch_demo dp pb pc))) (dispatch_demo dp pb pc)))"
    for dp pb pc
    using dispatch_explained[of "dispatch_demo dp pb pc" "[tiny_func]" "[demo_func]"] dispatch_demo_ok[of dp pb pc] ok t by simp
  have c: "cpu (dispatch_demo dp pb pc) = cpu_init\<lparr>rPB := pb, rPC := pc, fl_m := 1, fl_x := 0, rDP := dp\<rparr>" for dp pb pc
    by (simp add: dispatch_demo_def)
  have "wram (dispatch_demo 0 0x7E 0x1200) 0x1200 = 7" using dispatch_demo_ok by blast
  then have m: "\<not> matches tiny_func (dispatch_demo 0 0x7E 0x1200)" by (auto simp: matches_def tiny_func_def fnv_step_def upt_rec)
  have a: "addr24 0xC0 0x102 = 0xC00102" "addr24 0x7E 0x1200 = 0x7E1200" by (simp_all add: addr24_def)
  have "reason_true [demo_func] (dispatch_demo 0 0x7E 0x1200) False Overlay_stale"
    using dispatch_demo_ok[of 0 "0x7E" "0x1200"] m by (simp add: reason_true_def c a overlay_at_def Let_def cpu_init_def) (simp add: tiny_func_def)
  then show ?thesis using d[of "0x100" "0xC0" "0x102"] d[of 0 "0xC0" "0x102"]
    by (simp add: c a compiled_for_def entry_match_def demo_func_def cpu_init_def)
qed

section \<open>The profile counts\<close>

text \<open>Slot \<open>n\<close> of the probe sequence of a key; every key is found along it before any free slot.\<close>

definition probe :: "u64 \<Rightarrow> nat \<Rightarrow> nat" where "probe key n = (prof_hash key + n) mod PROF_SLOTS"

definition prof_ok :: "(u64 \<times> u64) list \<Rightarrow> bool" where
  "prof_ok t \<longleftrightarrow> length t = PROF_SLOTS \<and> (\<forall>i<PROF_SLOTS. fst (t ! i) = 0 \<longrightarrow> snd (t ! i) = 0) \<and> (\<forall>i<PROF_SLOTS. fst (t ! i) \<noteq> 0 \<longrightarrow>
     (\<exists>n<PROF_SLOTS. i = probe (fst (t ! i)) n \<and> (\<forall>m<n. fst (t ! probe (fst (t ! i)) m) \<noteq> 0 \<and> fst (t ! probe (fst (t ! i)) m) \<noteq> fst (t ! i))))"

text \<open>What the table says of a key.\<close>

definition prof_count :: "(u64 \<times> u64) list \<Rightarrow> u64 \<Rightarrow> u64" where
  "prof_count t key = (case find (\<lambda>e. fst e = key) t of Some e \<Rightarrow> snd e | None \<Rightarrow> 0)"

lemma prof_hash_bound: "prof_hash key < PROF_SLOTS"
proof -
  have "(x :: u32) AND 8191 \<le> 8191" for x by (rule word_and_le1)
  then have "prof_hash key \<le> 8191" unfolding prof_hash_def word_le_nat_alt by fastforce
  then show ?thesis by (simp add: PROF_SLOTS_def)
qed

lemma probe_bound: "probe key n < PROF_SLOTS" by (simp add: probe_def PROF_SLOTS_def)

lemma probe_next: "Suc (probe key n) mod PROF_SLOTS = probe key (Suc n)"
  unfolding probe_def by (simp add: mod_simps)

lemma probe_0: "probe key 0 = prof_hash key" using prof_hash_bound by (simp add: probe_def)

lemma prof_put_from:
  "prof_put n (probe key k) key t =
     (case find (\<lambda>m. fst (t ! probe key m) = key \<or> fst (t ! probe key m) = 0) [k..<k + n] of
        Some m \<Rightarrow> t[probe key m := (key, snd (t ! probe key m) + 1)] | None \<Rightarrow> t)"
proof (induction n arbitrary: k)
  case (Suc n)
  have "[k..<k + Suc n] = k # [Suc k..<Suc k + n]" by (simp add: upt_conv_Cons del: upt_Suc)
  then show ?case using Suc[of "Suc k"] by (simp add: probe_next del: upt_Suc)
qed simp

lemma prof_put_cases:
  obtains (full) "prof_put PROF_SLOTS (prof_hash key) key t = t" "\<forall>m<PROF_SLOTS. fst (t ! probe key m) \<noteq> key \<and> fst (t ! probe key m) \<noteq> 0"
  | (put) n where "n < PROF_SLOTS" "prof_put PROF_SLOTS (prof_hash key) key t = t[probe key n := (key, snd (t ! probe key n) + 1)]"
      "fst (t ! probe key n) = key \<or> fst (t ! probe key n) = 0" "\<forall>m<n. fst (t ! probe key m) \<noteq> key \<and> fst (t ! probe key m) \<noteq> 0"
proof (cases "find (\<lambda>m. fst (t ! probe key m) = key \<or> fst (t ! probe key m) = 0) [0..<PROF_SLOTS]")
  case None
  moreover from this have "\<forall>m<PROF_SLOTS. fst (t ! probe key m) \<noteq> key \<and> fst (t ! probe key m) \<noteq> 0" by (simp add: find_None_iff)
  ultimately show thesis using full prof_put_from[of PROF_SLOTS key 0 t] unfolding probe_0 by simp
next
  case (Some n)
  then have "n < PROF_SLOTS \<and> (fst (t ! probe key n) = key \<or> fst (t ! probe key n) = 0) \<and>
      (\<forall>m<n. \<not> (fst (t ! probe key m) = key \<or> fst (t ! probe key m) = 0))"
    by (auto simp: find_Some_iff)
  then show thesis using put[of n] prof_put_from[of PROF_SLOTS key 0 t] Some unfolding probe_0 by auto
qed

lemma prof_unique:
  assumes "prof_ok t" "i < PROF_SLOTS" "j < PROF_SLOTS" "fst (t ! i) = fst (t ! j)" "fst (t ! i) \<noteq> 0"
  shows "i = j"
proof -
  obtain n where n: "i = probe (fst (t ! i)) n" "\<forall>m<n. fst (t ! probe (fst (t ! i)) m) \<noteq> fst (t ! i)"
    using assms unfolding prof_ok_def by blast
  obtain k where k: "j = probe (fst (t ! i)) k" "\<forall>m<k. fst (t ! probe (fst (t ! i)) m) \<noteq> fst (t ! i)"
    using assms unfolding prof_ok_def by metis
  have "\<not> n < k" using k(2) n(1) by metis
  moreover have "\<not> k < n" using n(2) k(1) assms(4) by metis
  ultimately show ?thesis using n(1) k(1) by simp
qed

lemma prof_count_at:
  assumes "prof_ok t" "i < PROF_SLOTS" "fst (t ! i) = key" "key \<noteq> 0"
  shows "prof_count t key = snd (t ! i)"
proof -
  have l: "length t = PROF_SLOTS" using assms(1) by (simp add: prof_ok_def)
  have "t ! i \<in> set t" using assms(2) l by simp
  then have "find (\<lambda>e. fst e = key) t \<noteq> None" unfolding find_None_iff using assms(3) by blast
  then obtain e where e: "find (\<lambda>e. fst e = key) t = Some e" by blast
  then obtain j where j: "j < length t" "fst (t ! j) = key" "e = t ! j" by (auto simp: find_Some_iff)
  then have "j = i" using prof_unique[OF assms(1)] assms l by metis
  then show ?thesis using e j by (simp add: prof_count_def)
qed

lemma prof_count_none: "\<forall>i<length t. fst (t ! i) \<noteq> key \<Longrightarrow> prof_count t key = 0"
  by (auto simp: prof_count_def find_Some_iff split: option.splits)

text \<open>An absent key is absent along its probe up to the first free slot.\<close>

lemma prof_absent:
  assumes "prof_ok t" "key \<noteq> 0" "n < PROF_SLOTS" "fst (t ! probe key n) = 0" "\<forall>m<n. fst (t ! probe key m) \<noteq> key"
  shows "\<forall>i<PROF_SLOTS. fst (t ! i) \<noteq> key"
proof (intro allI impI notI)
  fix i
  assume i: "i < PROF_SLOTS" "fst (t ! i) = key"
  then obtain k where k: "i = probe key k" "\<forall>m<k. fst (t ! probe key m) \<noteq> 0" using assms(1,2) unfolding prof_ok_def by metis
  have "\<not> n < k" using k(2) assms(4) by metis
  moreover have "k \<noteq> n" using i(2) k(1) assms(2,4) by metis
  ultimately have "k < n" by simp
  then show False using assms(5) i(2) k(1) by metis
qed

lemma prof_put_ok:
  assumes "prof_ok t" "key \<noteq> 0"
  defines "t' \<equiv> prof_put PROF_SLOTS (prof_hash key) key t"
  shows "prof_ok t'" "k \<noteq> key \<Longrightarrow> k \<noteq> 0 \<Longrightarrow> prof_count t' k = prof_count t k"
    "prof_count t' key = prof_count t key + 1 \<or> t' = t \<and> (\<forall>i<PROF_SLOTS. fst (t ! i) \<noteq> 0 \<and> fst (t ! i) \<noteq> key)"
proof -
  have l: "length t = PROF_SLOTS" using assms(1) by (simp add: prof_ok_def)
  have c: "prof_ok t' \<and> (k \<noteq> key \<longrightarrow> k \<noteq> 0 \<longrightarrow> prof_count t' k = prof_count t k) \<and>
    (prof_count t' key = prof_count t key + 1 \<or> t' = t \<and> (\<forall>i<PROF_SLOTS. fst (t ! i) \<noteq> 0 \<and> fst (t ! i) \<noteq> key))"
  proof (cases rule: prof_put_cases[of key t])
    case full
    have "\<exists>m<PROF_SLOTS. probe key m = i" if "i < PROF_SLOTS" for i
    proof (intro exI conjI)
      show "(i + (PROF_SLOTS - prof_hash key)) mod PROF_SLOTS < PROF_SLOTS" by (simp add: PROF_SLOTS_def)
      have "prof_hash key + (i + (PROF_SLOTS - prof_hash key)) = i + PROF_SLOTS" using prof_hash_bound[of key] by linarith
      then show "probe key ((i + (PROF_SLOTS - prof_hash key)) mod PROF_SLOTS) = i"
        using that unfolding probe_def by (simp add: mod_simps)
    qed
    then show ?thesis using full assms(1) unfolding t'_def by metis
  next
    case (put n)
    define i0 where "i0 = probe key n"
    have i0: "i0 < PROF_SLOTS" by (simp add: i0_def probe_bound)
    have t': "t' = t[i0 := (key, snd (t ! i0) + 1)]" using put(2) by (simp add: t'_def i0_def)
    have at: "t' ! i = (if i = i0 then (key, snd (t ! i0) + 1) else t ! i)" "length t' = PROF_SLOTS" if "i < PROF_SLOTS" for i
      using that l i0 by (simp_all add: t')
    have new: "prof_count t' key = snd (t ! i0) + 1" if "prof_ok t'"
      using prof_count_at[OF that i0] assms(2) at[OF i0] by simp
    have others: "prof_count t' k = prof_count t k" if "prof_ok t'" "k \<noteq> key" "k \<noteq> 0" "fst (t ! i0) \<noteq> k"
    proof (cases "\<exists>i<PROF_SLOTS. fst (t ! i) = k")
      case True
      then obtain i where i: "i < PROF_SLOTS" "fst (t ! i) = k" by blast
      then have "i \<noteq> i0" using that(4) by blast
      then have "t' ! i = t ! i" using at(1)[OF i(1)] by simp
      then show ?thesis using prof_count_at[OF assms(1) i that(3)] prof_count_at[OF that(1) i(1) _ that(3)] i(2) by simp
    next
      case False
      then have "\<forall>i<length t. fst (t ! i) \<noteq> k" "\<forall>i<length t'. fst (t' ! i) \<noteq> k" using l at(1) at(2)[OF i0] that(2) by auto
      then show ?thesis using prof_count_none by metis
    qed
    show ?thesis
    proof (cases "fst (t ! i0) = 0")
      case False
      then have k: "fst (t ! i0) = key" using put(3) by (simp add: i0_def)
      then have "fst (t' ! i) = fst (t ! i)" if "i < PROF_SLOTS" for i using at(1)[OF that] by simp
      moreover have "snd (t' ! i) = 0" if "i < PROF_SLOTS" "fst (t ! i) = 0" for i
        using assms(1,2) at(1)[OF that(1)] that k unfolding prof_ok_def by auto
      ultimately have ok: "prof_ok t'" using assms(1) at(2)[OF i0] unfolding prof_ok_def by (auto simp: probe_bound)
      then show ?thesis using new[OF ok] others[OF ok] prof_count_at[OF assms(1) i0 k assms(2)] k by auto
    next
      case True
      have absent: "\<forall>i<PROF_SLOTS. fst (t ! i) \<noteq> key"
        using prof_absent[OF assms(1,2) put(1)] True put(4) by (simp add: i0_def)
      have free: "snd (t ! i0) = 0" using assms(1) i0 True by (simp add: prof_ok_def)
      have ok: "prof_ok t'"
        unfolding prof_ok_def
      proof (intro conjI allI impI)
        show "length t' = PROF_SLOTS" using at(2)[OF i0] .
        show "snd (t' ! i) = 0" if "i < PROF_SLOTS" "fst (t' ! i) = 0" for i
          using that at(1)[OF that(1)] assms(1,2) by (auto simp: prof_ok_def split: if_splits)
        fix i
        assume i: "i < PROF_SLOTS" "fst (t' ! i) \<noteq> 0"
        have same: "fst (t' ! probe k m) = fst (t ! probe k m)" if "fst (t ! probe k m) \<noteq> 0" for k m
          using at(1)[OF probe_bound[of k m]] that True by auto
        show "\<exists>n<PROF_SLOTS. i = probe (fst (t' ! i)) n \<and>
            (\<forall>m<n. fst (t' ! probe (fst (t' ! i)) m) \<noteq> 0 \<and> fst (t' ! probe (fst (t' ! i)) m) \<noteq> fst (t' ! i))"
        proof (cases "i = i0")
          case True
          then show ?thesis using put(1,4) at(1)[OF i0] same[of key] by (intro exI[of _ n]) (simp add: i0_def)
        next
          case False
          then have e: "t' ! i = t ! i" using at(1)[OF i(1)] by simp
          then obtain k where "k < PROF_SLOTS" "i = probe (fst (t ! i)) k"
            "\<forall>m<k. fst (t ! probe (fst (t ! i)) m) \<noteq> 0 \<and> fst (t ! probe (fst (t ! i)) m) \<noteq> fst (t ! i)"
            using assms(1) i unfolding prof_ok_def by metis
          then show ?thesis using same by (intro exI[of _ k]) (simp add: e)
        qed
      qed
      have "prof_count t key = 0" using prof_count_none absent l by metis
      then show ?thesis using ok new[OF ok] others[OF ok] True free by auto
    qed
  qed
  then show "prof_ok t'" "k \<noteq> key \<Longrightarrow> k \<noteq> 0 \<Longrightarrow> prof_count t' k = prof_count t k"
    "prof_count t' key = prof_count t key + 1 \<or> t' = t \<and> (\<forall>i<PROF_SLOTS. fst (t ! i) \<noteq> 0 \<and> fst (t ! i) \<noteq> key)" by blast+
qed

text \<open>C16. The profile counts. Charging an instruction adds one to the count of the innermost call not yet returned
  from (the newest entry of the shadow stack whose S is not below the stack pointer, else the key of no call)
  and to no other, unless all 8192 slots are taken by other keys; the table stays one in which every key is found
  along its probe sequence, and the shadow stack never has more than 256 entries.\<close>

theorem prof_charge_counts:
  assumes "prof_ok (prof s)" "length (prof_shadow s) \<le> PROF_DEPTH" "list_all (\<lambda>e. fst e \<noteq> 0) (prof_shadow s)"
  defines "key \<equiv> (case find (\<lambda>e. rS (cpu s) \<le> snd e) (prof_shadow s) of Some e \<Rightarrow> fst e | None \<Rightarrow> 0x80000000)"
  shows "let t = prof_charge s; u = shadow_push (cpu s) t in
    prof_ok (prof t) \<and> length (prof_shadow u) \<le> PROF_DEPTH \<and>
    (prof_count (prof t) key = prof_count (prof s) key + 1 \<or> list_all (\<lambda>e. fst e \<noteq> 0 \<and> fst e \<noteq> key) (prof s)) \<and>
    (\<forall>k. k = 0 \<or> k = key \<or> prof_count (prof t) k = prof_count (prof s) k)"
proof -
  let ?es = "dropWhile (\<lambda>e. rS (cpu s) > snd e) (prof_shadow s)"
  have f: "find (\<lambda>e. rS (cpu s) \<le> snd e) es = (case dropWhile (\<lambda>e. rS (cpu s) > snd e) es of e # _ \<Rightarrow> Some e | [] \<Rightarrow> None)" for es :: "(u64 \<times> u16) list"
    by (induction es) (auto simp: not_less)
  have k: "(case ?es of (k, _) # _ \<Rightarrow> k | [] \<Rightarrow> push_bit 31 1) = key" 
  proof -
    have "(case es of (k, _) # _ \<Rightarrow> k | [] \<Rightarrow> push_bit 31 1) =
        (case (case es of e # _ \<Rightarrow> Some e | [] \<Rightarrow> None) of Some e \<Rightarrow> fst e | None \<Rightarrow> 0x80000000)" for es :: "(u64 \<times> u16) list"
      by (cases es) auto
    then show ?thesis unfolding key_def f .
  qed
  have "key \<noteq> 0"
  proof (cases "find (\<lambda>e. rS (cpu s) \<le> snd e) (prof_shadow s)")
    case (Some e)
    then have "e \<in> set (prof_shadow s)" by (auto simp: find_Some_iff)
    then show ?thesis using Some assms(3) by (auto simp: key_def list_all_iff)
  qed (simp add: key_def)
  note p = prof_put_ok[OF assms(1) this]
  have t: "prof (prof_charge s) = prof_put PROF_SLOTS (prof_hash key) key (prof s)" "prof_shadow (prof_charge s) = ?es"
    by (simp_all add: prof_charge_def shadow_settle_def Let_def k)
  have "length (prof_shadow (shadow_push (cpu s) (prof_charge s))) \<le> PROF_DEPTH"
  proof -
    have "length ?es \<le> PROF_DEPTH" using assms(2) length_dropWhile_le[of _ "prof_shadow s"] order.trans by blast
    then show ?thesis by (auto simp: shadow_push_def shadow_push_key_def shadow_settle_def Let_def t(2) PROF_DEPTH_def)
  qed
  moreover have "prof_count (prof (prof_charge s)) key = prof_count (prof s) key + 1 \<or> list_all (\<lambda>e. fst e \<noteq> 0 \<and> fst e \<noteq> key) (prof s)"
    using p(3) assms(1) unfolding t(1) prof_ok_def list_all_length by metis
  ultimately show ?thesis using p(1,2) unfolding Let_def t(1) by blast
qed

theorem prof_charge_counts_witness:
  "prof_count (prof (prof_charge (sched_zero\<lparr>prof_shadow := [(0x80C08000, 0x1EFF)], cpu := cpu_init\<lparr>rS := 0x1EFD\<rparr>\<rparr>))) 0x80C08000 = 1"
proof -
  let ?s = "sched_zero\<lparr>prof_shadow := [(0x80C08000, 0x1EFF)], cpu := cpu_init\<lparr>rS := 0x1EFD\<rparr>\<rparr>"
  have z: "prof ?s = replicate PROF_SLOTS (0, 0)" "prof_shadow ?s = [(0x80C08000, 0x1EFF)]" "rS (cpu ?s) = 0x1EFD"
    by (simp_all add: sched_zero_def charge_state.defs)
  have "prof_ok (prof ?s)" by (simp add: z prof_ok_def)
  moreover have "prof_count (prof ?s) 0x80C08000 = 0" unfolding z by (rule prof_count_none) simp
  moreover have "\<not> list_all (\<lambda>e. fst e \<noteq> 0 \<and> fst e \<noteq> (0x80C08000 :: u64)) (prof ?s)" unfolding z by (simp add: PROF_SLOTS_def list_all_iff in_set_replicate)
  ultimately show ?thesis using prof_charge_counts[of ?s] by (simp add: z PROF_DEPTH_def Let_def)
qed

section \<open>Generated code resumes in the context it was interrupted in\<close>

text \<open>An environment whose register table and devices are those of a machine.\<close>

definition runs_on :: "('a sched_cpu_scheme) sched_env \<Rightarrow> ('a sched_cpu_scheme) machine \<Rightarrow> bool" where
  "runs_on E M \<longleftrightarrow> machine_steady M \<and> se_video E = m_video M \<and> (\<exists>n. machine_hooks M n = Inr (se_hooks E))"

lemma runs_on_steady: "runs_on E M \<Longrightarrow> hooks_steady (se_hooks E) \<and> video_steady (se_video E)"
  using machine_hooks_steady by (auto simp: runs_on_def machine_steady_def)

lemma charge_finish_cpu:
  assumes "runs_on E M"
  shows "keeps (at_cpu c) (charge_finish E)"
proof -
  have f: "keeps (at_cpu c) cyc_finish" by (rule hoareI) (auto simp: cyc_finish_def Let_def split: if_splits sum.splits)
  show ?thesis unfolding charge_finish_def env_charge_def
    using runs_on_steady[OF assms] by (intro keeps_intro f cpu_uncharged.keeps_charge) simp_all
qed

lemma same_context_trans: "same_context a b \<Longrightarrow> same_context b c \<Longrightarrow> same_context a c"
  by (simp add: same_context_def)

lemma tick_interrupts_context:
  assumes "runs_on E M" "tick_interrupts fuel E at s = Inr (x, t)"
  shows "same_context (cpu t) (cpu s) \<and> \<not> need_nmi (pnd t) \<and> \<not> take_irq t"
  using assms(2)
proof (induction fuel arbitrary: s)
  case (Suc fuel)
  show ?case
  proof (cases "\<not> need_nmi (pnd s) \<and> \<not> take_irq s")
    case True
    then show ?thesis using Suc.prems by (simp add: bnd_gets ret_def same_context_def)
  next
    case False
    then obtain u v w where u: "enter_interrupt E s = Inr ((), u)" "run_until fuel E (\<lambda>t. int_depth t \<le> int_depth s) u = Inr ((), v)"
      and c: "same_context (cpu v) (cpu s)" and w: "charge_finish E v = Inr ((), w)" "tick_interrupts fuel E at w = Inr (x, t)"
      using Suc.prems by (auto simp: bnd_gets thn_def bnd_Inr split: if_splits)
    have "cpu w = cpu v" using hoareD[OF charge_finish_cpu[OF assms(1)] refl w(1)] .
    then show ?thesis using Suc.IH[OF w(2)] same_context_trans c by metis
  qed
qed simp

definition tick_same :: "'a charge_state_scheme \<Rightarrow> 'a charge_state_scheme \<Rightarrow> bool" where
  "tick_same s t \<longleftrightarrow> cpu t = cpu s \<and> pnd t = pnd s \<and> take_irq t = take_irq s"

lemma valid_same: "tick_same s (snd (valid k s))"
  by (simp add: tick_same_def valid_def Let_def)

lemma stale_from_same: "tick_same s (snd (stale_from as k s))"
proof (induction "as" arbitrary: k s)
  case (Cons a as)
  then show ?case using valid_same[of s "act_idx a"] by (auto simp: case_prod_beta tick_same_def)
qed (simp add: tick_same_def)

lemma overlay_bail_Some: "overlay_bail fuel E a at s \<noteq> Inr (None, t)"
  by (auto simp: overlay_bail_def bnd_gets thn_def bnd_Inr ret_def)

lemma cyc_begin_same: "cpu (cyc_begin_compiled c at op s) = cpu s" "pnd (cyc_begin_compiled c at op s) = pnd s"
  "take_irq (cyc_begin_compiled c at op s) = take_irq s"
  by (simp_all add: cyc_begin_compiled_def cyc_begin_def Let_def)

lemma tick_rest_None:
  assumes "tick_rest fuel E at op v = Inr (None, t)"
  shows "\<exists>w. tick_same v w \<and> t = cyc_begin_compiled (cpu w) at op w"
proof -
  define v1 where "v1 = (if op = 0x40 then v\<lparr>int_depth := int_depth v - 1\<rparr> else v)"
  define v2 where "v2 = (if (op = 0x54 \<or> op = 0x44) \<and> at = last_at v1 then v1 else v1\<lparr>prof_native := prof_native v1 + 1\<rparr>)"
  define v3 where "v3 = v2\<lparr>last_at := at, insn_i := fl_i (cpu v2) \<noteq> 0\<rparr>"
  have v3: "tick_same v v3" by (simp add: tick_same_def v1_def v2_def v3_def)
  have "bnd (if ct_wram_hit v3 then thn (upd (\<lambda>s. s\<lparr>ct_wram_hit := False\<rparr>)) (\<lambda>s. Inr (overlay_stale_active s)) else ret None)
      (\<lambda>a. case a of Some a \<Rightarrow> overlay_bail fuel E a at
         | None \<Rightarrow> thn (upd (\<lambda>s. cyc_begin_compiled (cpu s) at op s)) (ret None)) v3 = Inr (None, t)"
    using assms by (simp only: tick_rest_def thn_modify bnd_gets flip: v1_def v2_def v3_def)
  moreover have "tick_same v (snd (overlay_stale_active (v3\<lparr>ct_wram_hit := False\<rparr>)))"
    using stale_from_same[of "v3\<lparr>ct_wram_hit := False\<rparr>" "ct_ovl_act v3" 0] v3 by (simp add: overlay_stale_active_def tick_same_def)
  ultimately show ?thesis using v3
    by (cases "ct_wram_hit v3"; cases "overlay_stale_active (v3\<lparr>ct_wram_hit := False\<rparr>)"; cases "fst (overlay_stale_active (v3\<lparr>ct_wram_hit := False\<rparr>))")
      (auto simp: thn_modify bnd_def overlay_bail_Some)
qed

text \<open>C4. Generated code resumes exactly where it was interrupted. A tick that returns, whatever interrupts were taken
  at the boundary, nested ones and native or interpreted handlers included, leaves \<open>PB:PC\<close> at the instruction about
  to run and S, M, X and E as the generated code had them, with no interrupt due; a handler that
  comes back to anything else is the fatal error.\<close>

theorem tick_resumes:
  assumes "runs_on E M" "tick fuel E at op s = Inr (None, t)"
  shows "rPB (cpu t) = to8 (drop_bit 16 at) \<and> rPC (cpu t) = to16 at \<and> rS (cpu t) = rS (cpu s) \<and> fl_m (cpu t) = fl_m (cpu s) \<and>
    fl_x (cpu t) = fl_x (cpu s) \<and> fl_e (cpu t) = fl_e (cpu s) \<and> \<not> need_nmi (pnd t) \<and> \<not> take_irq t"
proof -
  let ?s = "s\<lparr>cpu := (cpu s)\<lparr>rPB := to8 (drop_bit 16 at), rPC := to16 at\<rparr>\<rparr>"
  obtain u v where u: "charge_finish E ?s = Inr ((), u)" and v: "tick_interrupts fuel E at u = Inr ((), v)"
    and r: "tick_rest fuel E at op v = Inr (None, t)"
    using assms(2) by (auto simp: tick_def thn_modify thn_def bnd_Inr)
  obtain w where w: "tick_same v w" and t: "t = cyc_begin_compiled (cpu w) at op w" using tick_rest_None[OF r] by blast
  have "cpu u = cpu ?s" using hoareD[OF charge_finish_cpu[OF assms(1)] refl u] .
  then show ?thesis using tick_interrupts_context[OF assms(1) v] w t by (simp add: cyc_begin_same tick_same_def same_context_def)
qed

text \<open>A tick at rest, on the idle machine.\<close>

definition idle_env :: "('a sched_cpu_scheme) hooks \<Rightarrow> ('a sched_cpu_scheme) sched_env" where
  "idle_env h = \<lparr>se_video = idle_video, se_hooks = h, se_interp = \<lparr>ct_externs = [], ct_jumptables = []\<rparr>,
     se_run = (\<lambda>_. ret ()), se_apu_soft_reset = id\<rparr>"

lemma sched_zero_fields: "cu_pending (cur sched_zero) = False" "pnd sched_zero = pend_reset" "take_irq sched_zero = False"
  "ct_wram_hit sched_zero = False"
  by (simp_all add: sched_zero_def charge_state.defs charge_zero_def frame_state.defs frame_zero_simps cur_zero_def)

lemma tick_zero_runs: "\<exists>t. tick 1 (idle_env h) 0xC00102 0xEA sched_zero = Inr (None, t)"
  by (simp add: tick_def thn_modify charge_finish_def bnd_def cyc_finish_def env_charge_def charge_def thn_def gets_def ret_def
      sched_zero_fields pend_reset_def tick_rest_def modify_def Let_def)

theorem tick_resumes_witness:
  "\<exists>h t. tick 1 (idle_env h) 0xC00102 0xEA sched_zero = Inr (None, t) \<and>
     rPB (cpu t) = 0xC0 \<and> rPC (cpu t) = 0x102 \<and> rS (cpu t) = rS (cpu sched_zero)"
proof -
  obtain h where h: "machine_hooks (idle_machine :: sched_cpu machine) 0 = Inr h" using machine_hooks_ok by blast
  have r: "runs_on (idle_env h) idle_machine" using h idle_machine_steady by (auto simp: runs_on_def idle_env_def intro: exI[of _ 0])
  obtain t where t: "tick 1 (idle_env h) 0xC00102 0xEA sched_zero = Inr (None, t)" using tick_zero_runs by blast
  have e: "to8 (drop_bit 16 (0xC00102 :: u32)) = 0xC0" "to16 (0xC00102 :: u32) = 0x102" by simp_all
  show ?thesis using tick_resumes[OF r t, unfolded e] t by blast
qed

end
