(* ===== verification/Ct_Invariant.thy ===== *)
theory Ct_Invariant
  imports Ct_Dispatch
begin

text \<open>
  Invariants of the whole program. What every bus access keeps, and what does not look at the fields the
  interpreter owns, every instruction keeps: the locale \<open>access_invariant\<close>. Its instance for the clock carries
  the position on the beam through the dispatcher of \<open>runtime/sched.c\<close>: interpreted instructions, interrupts,
  WAI, recompiled functions and the ticks they are made of.
\<close>

section \<open>What the bus keeps, instructions keep\<close>

named_theorems inv_intro \<open>rules that carry an invariant of the bus through an instruction\<close>

locale access_invariant =
  fixes I :: "('a interp_state_scheme) \<Rightarrow> bool" and h :: "('a interp_state_scheme) hooks"
  assumes rd8 [inv_intro]: "keeps I (read8 h a)" and wr8 [inv_intro]: "keeps I (write8 h a v)"
    and own: "I s \<Longrightarrow> I (s\<lparr>cpu := c\<rparr>)" "I s \<Longrightarrow> I (s\<lparr>ct_bus_fetch := b\<rparr>)" "I s \<Longrightarrow> I (s\<lparr>ct_cyc_cross := x\<rparr>)"
      "I s \<Longrightarrow> I (s\<lparr>ct_cyc_taken := x\<rparr>)" "I s \<Longrightarrow> I (s\<lparr>cur := k\<rparr>)" "I s \<Longrightarrow> I (s\<lparr>ct_bus_clocks := w\<rparr>)"
      "I s \<Longrightarrow> I (s\<lparr>ct_bus_n := w\<rparr>)" "I s \<Longrightarrow> I (s\<lparr>sys := x\<rparr>)" "I s \<Longrightarrow> I (s\<lparr>waiting := x\<rparr>)" "I s \<Longrightarrow> I (s\<lparr>shadow := fs\<rparr>)"
      "I s \<Longrightarrow> I (s\<lparr>interp_budget := n\<rparr>)" "I s \<Longrightarrow> I (s\<lparr>last_op := b\<rparr>)"
begin

definition env_ok :: "('a interp_state_scheme) interp_env \<Rightarrow> bool" where
  "env_ok env \<longleftrightarrow> (\<forall>e\<in>set (ct_externs env). keeps I (ext_hook e))"

lemma mod_own [inv_intro]:
  "keeps I (modify (\<lambda>s. s\<lparr>cpu := f (cpu s)\<rparr>))" "keeps I (set_fetch b)" "keeps I (modify (\<lambda>s. s\<lparr>ct_cyc_taken := x\<rparr>))"
  "keeps I (modify (\<lambda>s. s\<lparr>waiting := x\<rparr>))" "keeps I (modify (\<lambda>s. s\<lparr>sys := x\<rparr>))" "keeps I (modify (\<lambda>s. s\<lparr>last_op := b\<rparr>))"
  "keeps I (modify (\<lambda>s. s\<lparr>sys := x, shadow := fs, interp_budget := n\<rparr>))" "keeps I (modify (\<lambda>s. s\<lparr>shadow := fs, interp_budget := n\<rparr>))"
  "keeps I (modify (cyc_begin c at op))" "keeps I (modify (cyc_begin_interrupt c))" "keeps I (cpu_val g)" "keeps I (cpu_try t)"
  by (auto simp: hoare_def set_fetch_def cyc_begin_def cyc_begin_interrupt_def cpu_val_def cpu_try_def Let_def intro!: own split: sum.splits prod.splits)

lemma set_own [inv_intro]: "keeps I (set_pc pc)" "keeps I (set_pb pb)"
  unfolding set_pc_def set_pb_def by (intro inv_intro)+

lemma fetches [inv_intro]: "keeps I (fetch8 h)" "keeps I (fetch16 h)" "keeps I (fetch24 h)"
proof -
  show 8: "keeps I (fetch8 h)" unfolding fetch8_def by (intro keeps_intro inv_intro)
  show 16: "keeps I (fetch16 h)" unfolding fetch16_def by (intro keeps_intro 8)
  show "keeps I (fetch24 h)" unfolding fetch24_def by (intro keeps_intro 8 16)
qed

lemma accesses [inv_intro]: "keeps I (rd h e wide)" "keeps I (wr h e wide v)" "keeps I (wr_rmw h e wide v)" "keeps I (rd_bank0_16 h p)"
  "keeps I (rd_bank0_24 h p)" "keeps I (read_table h p)" "keeps I (push h b)" "keeps I (pull h)" "keeps I (pushw h v)" "keeps I (pullw h)"
  unfolding rd_def wr_def wr_rmw_def rd_bank0_24_def rd_bank0_16_def read_table_def push_def pull_def pushw_def pullw_def
  by (intro keeps_intro inv_intro)+

lemma crossing [inv_intro]: "keeps I (index_cross b i)"
  by (auto simp: index_cross_def hoare_def thn_modify intro: own)

lemma addressing [inv_intro]: "keeps I (ea h md)"
  by (cases md; simp only: ea.simps; intro keeps_intro inv_intro)

lemma operands [inv_intro]: "keeps I (operand h md wide)"
  unfolding operand_def by (intro keeps_intro inv_intro)

lemma memory_ops [inv_intro]: "keeps I (rmw_mem h r md)" "keeps I (alu_op h op md at)" "keeps I (bit_test h md)" "keeps I (load_index h g md)"
  "keeps I (store_reg h f wide md)" "keeps I (compare_reg h f wide md)" "keeps I (block_move h at stp)"
  unfolding rmw_mem_def alu_op_def bit_test_def load_index_def store_reg_def compare_reg_def block_move_def
  by (intro keeps_intro inv_intro)+

lemma loop_ticks [inv_intro]: "keeps I (loop_tick at pc)"
  by (auto simp: loop_tick_def hoare_def Let_def intro: own split: if_splits)

lemma branches [inv_intro]: "keeps I (add_pc off at)" "keeps I (branch h at b)"
  unfolding add_pc_def branch_def by (intro keeps_intro inv_intro)+

lemma frames_own [inv_intro]: "keeps I (push_frame at lng)"
  by (auto simp: push_frame_def hoare_def intro: own split: if_splits)

lemma find_in: "find P xs = Some x \<Longrightarrow> x \<in> set xs"
  by (metis find_Some_iff nth_mem)

lemma extern: "env_ok env \<Longrightarrow> hoare I (extern_hook env a k) (\<lambda>r s. I s \<and> (\<forall>f. r = Some f \<longrightarrow> keeps I f))"
proof (rule hoareI)
  fix s r t
  assume e: "env_ok env" and s: "I s" and r: "extern_hook env a k s = Inr (r, t)"
  have "t = s \<and> (r = None \<or> (\<exists>x\<in>set (ct_externs env). r = Some (ext_hook x)))"
  proof (cases "find (\<lambda>e. ext_addr e = a) (ct_externs env)")
    case None
    show ?thesis using r[unfolded extern_hook_def bnd_gets None option.case] unfolding ret_def by (cases "sys s"; simp only: if_True if_False sum.inject prod.inject; blast)
  next
    case (Some x)
    from find_in[OF this] show ?thesis using r[unfolded extern_hook_def bnd_gets Some option.case]
      by (cases "sys s"; cases "ext_kind x = k") auto
  qed
  then show "I t \<and> (\<forall>f. r = Some f \<longrightarrow> keeps I f)" using e s by (auto simp: env_ok_def)
qed

lemma extern_case:
  assumes "env_ok env" "\<And>f. keeps I f \<Longrightarrow> keeps I (g f)" "keeps I m"
  shows "keeps I (bnd (extern_hook env a k) (\<lambda>r. case r of Some f \<Rightarrow> g f | None \<Rightarrow> m))"
proof (rule hoare_bnd[OF extern[OF assms(1)]])
  fix r
  show "hoare (\<lambda>s. I s \<and> (\<forall>f. r = Some f \<longrightarrow> keeps I f)) (case r of Some f \<Rightarrow> g f | None \<Rightarrow> m) (\<lambda>_. I)"
  proof (rule hoareI)
    fix s x t
    assume s: "I s \<and> (\<forall>f. r = Some f \<longrightarrow> keeps I f)" and x: "(case r of Some f \<Rightarrow> g f | None \<Rightarrow> m) s = Inr (x, t)"
    then show "I t"
    proof (cases r)
      case None
      show ?thesis by (rule hoareD[OF assms(3) conjunct1[OF s] x[unfolded None option.case]])
    next
      case (Some f)
      with s have "keeps I f" by blast
      from hoareD[OF assms(2)[OF this] conjunct1[OF s] x[unfolded Some option.case]] show ?thesis .
    qed
  qed
qed

lemma table_check [inv_intro]: "keeps I (table_index env at)"
  by (auto simp: table_index_def hoare_def bnd_gets split: if_splits option.splits)

lemma jumps [inv_intro]:
  assumes "env_ok env"
  shows "keeps I (op_jml env h)" "keeps I (op_jmp_table env h at)" "keeps I (op_jsr env h at)" "keeps I (op_jsr_table env h at)" "keeps I (op_jsl env h at)"
  unfolding op_jml_def op_jmp_table_def op_jsr_def op_jsr_table_def op_jsl_def
  by (intro extern_case[OF assms] keeps_intro inv_intro; assumption?)+

lemma returns [inv_intro]: "keeps I (op_rts_sys h at)" "keeps I (op_rtl_sys h at)" "keeps I (op_rti_sys h at)" "keeps I (op_wai at)"
proof -
  have s: "keeps I (\<lambda>s. case shadow s of [] \<Rightarrow> Inr ((), s) | f # fs \<Rightarrow>
      if sys s then Inr ((), s) else if P f s then Inl (E f s) else if Q f s then Inl (F f s) else Inr ((), s\<lparr>shadow := fs\<rparr>))" for P Q E F
    by (auto simp: hoare_def intro: own split: list.splits if_splits)
  show "keeps I (op_rts_sys h at)" "keeps I (op_rtl_sys h at)" "keeps I (op_rti_sys h at)" "keeps I (op_wai at)"
    unfolding op_rts_sys_def op_rtl_sys_def op_rti_sys_def op_wai_def by (intro keeps_intro inv_intro s)+
qed

text \<open>The groups of the switch.\<close>

lemma groups:
  assumes "env_ok env"
  shows "step_rmw h op m = Some f \<Longrightarrow> keeps I f" "step_tsb h op m = Some f \<Longrightarrow> keeps I f" "step_bit h op = Some f \<Longrightarrow> keeps I f"
    "step_stack h op m x = Some f \<Longrightarrow> keeps I f" "step_flags h op = Some f \<Longrightarrow> keeps I f"
    "step_branch h at op = Some f \<Longrightarrow> keeps I f" "step_jump env h at op = Some f \<Longrightarrow> keeps I f" "step_misc h at op = Some f \<Longrightarrow> keeps I f"
  unfolding step_rmw_def step_tsb_def step_bit_def step_stack_def step_flags_def step_branch_def step_jump_def step_misc_def Let_def
  using assms by (auto split: if_splits option.splits intro!: keeps_intro inv_intro)

lemma first_some_keeps: "\<forall>x\<in>set xs. \<forall>f. x = Some f \<longrightarrow> keeps I f \<Longrightarrow> first_some xs = Some f \<Longrightarrow> keeps I f"
  by (induction xs rule: first_some.induct) auto

lemma index_group: "step_index h op m x = Some f \<Longrightarrow> keeps I f"
  unfolding step_index_def Let_def by (erule first_some_keeps[rotated]) (auto intro: inv_intro)

lemma one_step [inv_intro]:
  assumes "env_ok env"
  shows "keeps I (step env h at op)"
proof -
  have "keeps I (if is_alu op then alu_op h op (the (alu_mode op)) at
     else case first_some
       [step_rmw h op m, step_tsb h op m, step_bit h op, step_index h op m x,
        map_option cpu_do (step_count op x), map_option cpu_do (step_transfer op m x),
        step_stack h op m x, step_flags h op, step_branch h at op, step_jump env h at op, step_misc h at op] of
       Some a \<Rightarrow> a | None \<Rightarrow> die (Op_unsupported at op))" (is "keeps I (if _ then _ else case ?fs of Some a \<Rightarrow> a | None \<Rightarrow> _)") for m x
  proof -
    have "keeps I f" if "?fs = Some f" for f
      by (rule first_some_keeps[OF _ that]) (use groups[OF assms] index_group in \<open>auto intro: inv_intro\<close>)
    then show ?thesis by (cases "?fs") (auto intro: keeps_intro inv_intro)
  qed
  then show ?thesis unfolding step_def by (intro keeps_intro) (auto split: prod.splits)
qed

lemma finish [inv_intro]: "keeps I cyc_finish"
  by (auto simp: hoare_def cyc_finish_def Let_def intro!: own split: if_splits sum.splits)

text \<open>System mode, the strict mode, and the way from generated code into both.\<close>

lemma system_mode [inv_intro]:
  shows "env_ok env \<Longrightarrow> keeps I (interp_step env h)" "keeps I (interp_interrupt h nmi)" "keeps I interp_wake" "keeps I (interp_reset h)"
proof -
  show "env_ok env \<Longrightarrow> keeps I (interp_step env h)" unfolding interp_step_def by (intro keeps_intro inv_intro)
  show "keeps I (interp_interrupt h nmi)" unfolding interp_interrupt_def Let_def by (intro keeps_intro inv_intro)
  show "keeps I interp_wake" unfolding interp_wake_def by (intro inv_intro)
  show "keeps I (interp_reset h)" unfolding interp_reset_def by (intro keeps_intro inv_intro)
qed

lemma strict_mode [inv_intro]:
  assumes "env_ok env"
  shows "keeps I (call_loop cap env h s0)" "keeps I (interp_call env h entry)" "keeps I (rest_loop fuel env h u)"
proof -
  show c: "keeps I (call_loop cap env h s0)" for cap s0
    by (induction cap; simp only: call_loop.simps; intro keeps_intro inv_intro assms; assumption)
  show i: "keeps I (interp_call env h entry)" for entry
    unfolding interp_call_def by (intro keeps_intro inv_intro c)
  show "keeps I (rest_loop fuel env h u)"
    by (induction fuel; simp only: rest_loop.simps; intro keeps_intro i; assumption)
qed

end

section \<open>Through the dispatcher\<close>

text \<open>An invariant of the clock and the scheduler's registers alone, that accesses, charging and native code keep.\<close>

locale scheduler_invariant =
  fixes I :: "('a sched_cpu_scheme) \<Rightarrow> bool" and E :: "('a sched_cpu_scheme) sched_env"
  assumes view: "I s \<Longrightarrow> tm t = tm s \<Longrightarrow> vr t = vr s \<Longrightarrow> I t"
    and bus_rd: "keeps I (read8 (se_hooks E) a)" and bus_wr: "keeps I (write8 (se_hooks E) a v)"
    and charging [inv_intro]: "keeps I (charge (se_video E) (se_hooks E) n)" "keeps I (wai_cycle (se_video E) (se_hooks E))"
    and native_code [inv_intro]: "keeps I (se_run E k)"
    and extern_hooks: "x \<in> set (ct_externs (se_interp E)) \<Longrightarrow> keeps I (ext_hook x)"

sublocale scheduler_invariant \<subseteq> access_invariant I "se_hooks E"
  by unfold_locales (simp_all add: bus_rd bus_wr, (erule view; simp)+)

context scheduler_invariant
begin

lemma hooks_env: "env_ok (se_interp E)"
  by (simp add: env_ok_def extern_hooks)

lemma own_fields [inv_intro]: "(\<And>s. tm (f s) = tm s \<and> vr (f s) = vr s) \<Longrightarrow> keeps I (modify f)"
  by (rule keeps_modify) (metis view)

lemma own_pend [inv_intro]: "keeps I (pnd_do f)"
  unfolding pnd_do_def by (rule own_fields) simp

lemma shadow_fields: "tm (shadow_push c s) = tm s" "vr (shadow_push c s) = vr s" "tm (shadow_rest c s0 s) = tm s" "vr (shadow_rest c s0 s) = vr s"
  "tm (prof_charge s) = tm s" "vr (prof_charge s) = vr s"
  by (simp_all add: shadow_push_def shadow_push_key_def shadow_settle_def shadow_rest_def prof_charge_def Let_def split: list.split)

lemma charges [inv_intro]: "keeps I (env_charge E clocks)" "keeps I (charge_finish E)"
  unfolding charge_finish_def env_charge_def by (intro keeps_intro inv_intro)+

lemma keeps_enter [inv_intro]: "keeps I (enter_interrupt E)"
  unfolding enter_interrupt_def by (intro keeps_intro inv_intro) (simp_all add: shadow_fields)

lemma valid_fields: "tm (snd (valid k s)) = tm s" "vr (snd (valid k s)) = vr s"
  by (simp_all add: valid_def Let_def)

lemma lookup_fields: "tm (snd (lookup_from n at k s)) = tm s \<and> vr (snd (lookup_from n at k s)) = vr s"
  by (induction n arbitrary: k s) (auto simp: Let_def case_prod_beta valid_fields)

lemma stale_fields: "tm (snd (stale_from as k s)) = tm s \<and> vr (snd (stale_from as k s)) = vr s"
  by (induction "as" arbitrary: k s) (auto simp: Let_def case_prod_beta valid_fields)

lemma overlays [inv_intro]: "keeps I (\<lambda>s. Inr (overlay_lookup s))" "keeps I (\<lambda>s. Inr (overlay_stale_active s))"
  "keeps I (overlay_enter f k s0)" "keeps I (modify (overlay_leave i))"
proof -
  show "keeps I (\<lambda>s. Inr (overlay_lookup s))"
  proof (rule hoareI)
    fix s x t assume "I s" "Inr (overlay_lookup s) = Inr (x, t)"
    moreover have "tm (snd (overlay_lookup s)) = tm s" "vr (snd (overlay_lookup s)) = vr s"
      by (simp_all add: overlay_lookup_def Let_def lookup_fields)
    ultimately show "I t" using view by (metis sum.inject(2) snd_conv)
  qed
  show "keeps I (\<lambda>s. Inr (overlay_stale_active s))"
    by (rule hoareI, erule view) (auto simp: overlay_stale_active_def dest: arg_cong[where f = "\<lambda>r. tm (snd r)"] arg_cong[where f = "\<lambda>r. vr (snd r)"] simp: stale_fields)
  show "keeps I (overlay_enter f k s0)"
    by (rule hoareI, erule view) (auto simp: overlay_enter_def Let_def set_watch_def split: if_splits)
  show "keeps I (modify (overlay_leave i))"
    by (rule own_fields) (simp add: overlay_leave_def set_watch_def)
qed

lemma keeps_overlay [inv_intro]: "keeps I (run_overlay E f)"
proof -
  have "keeps I (case of_fn f of Some n \<Rightarrow> se_run E n | None \<Rightarrow> ret ())" by (cases "of_fn f") (simp_all add: keeps_ret native_code)
  then show ?thesis unfolding run_overlay_def by (auto intro!: keeps_intro inv_intro split: prod.split)
qed

lemma keeps_tails [inv_intro]: "keeps I (tail_loop fuel E)"
proof (induction fuel)
  case (Suc fuel)
  have "keeps I (case t of Tail_fn n \<Rightarrow> thn (upd (\<lambda>s. s\<lparr>ct_tail_fn := No_tail\<rparr>)) (thn (se_run E n) (tail_loop fuel E)) | _ \<Rightarrow> ret ())" for t
    by (cases t) (auto intro!: keeps_intro inv_intro Suc.IH)
  then show ?case by (simp only: tail_loop.simps; intro keeps_intro; assumption?)
qed (simp only: tail_loop.simps keeps_die)

lemma keeps_native [inv_intro]: "keeps I run \<Longrightarrow> keeps I (exec_native fuel E run)"
  unfolding exec_native_def by (intro keeps_intro inv_intro) (simp_all add: shadow_fields)

lemma keeps_interp [inv_intro]: "keeps I (exec_interp E)"
  unfolding exec_interp_def by (intro keeps_intro inv_intro hooks_env) (simp_all add: shadow_fields)

lemma keeps_wait [inv_intro]: "keeps I (exec_wai E)"
  unfolding exec_wai_def by (intro keeps_intro inv_intro) simp_all

lemma keeps_insn [inv_intro]: "keeps I (exec_insn fuel E)"
proof -
  have n: "keeps I (exec_native fuel E (case cf_fn f of Some n \<Rightarrow> se_run E n | None \<Rightarrow> ret ()))" for f
    by (rule keeps_native) (cases "cf_fn f"; simp add: keeps_ret native_code)
  have o: "keeps I (case v of Some f \<Rightarrow> exec_native fuel E (run_overlay E f) | None \<Rightarrow> exec_interp E)" for v
    by (cases v) (simp_all add: inv_intro)
  have "keeps I (case f of Some f \<Rightarrow> exec_native fuel E (case cf_fn f of Some n \<Rightarrow> se_run E n | None \<Rightarrow> ret ())
   | None \<Rightarrow> bnd (gets native_on) (\<lambda>on. bnd (if on then (\<lambda>s. Inr (overlay_lookup s)) else ret None) (\<lambda>v. case v of
       Some f \<Rightarrow> exec_native fuel E (run_overlay E f)
     | None \<Rightarrow> exec_interp E)))" for f
    by (cases f) (auto intro!: keeps_intro inv_intro n o)
  then show ?thesis unfolding exec_insn_def by (intro keeps_intro)
qed

lemma keeps_one [inv_intro]: "keeps I (exec_one fuel E)"
  unfolding exec_one_def by (intro keeps_intro inv_intro) simp

lemma keeps_until [inv_intro]: "keeps I (run_until fuel E stop)"
  by (induction fuel; simp only: run_until.simps; intro keeps_intro keeps_one; assumption)

lemma keeps_ticks [inv_intro]: "keeps I (tick_interrupts fuel E at)"
  by (induction fuel; simp only: tick_interrupts.simps; intro keeps_intro inv_intro; assumption)

lemma keeps_bail [inv_intro]: "keeps I (overlay_bail fuel E a at)"
  unfolding overlay_bail_def Let_def by (intro keeps_intro inv_intro) simp

lemma keeps_tick: "keeps I (tick fuel E at op)"
proof -
  have c: "keeps I (case a of Some a \<Rightarrow> overlay_bail fuel E a at
         | None \<Rightarrow> thn (upd (\<lambda>s. cyc_begin_compiled (cpu s) at op s)) (ret None))" for a
    by (cases a) (auto intro!: keeps_intro inv_intro simp: cyc_begin_compiled_def cyc_begin_def Let_def)
  have "keeps I (tick_rest fuel E at op)"
    unfolding tick_rest_def by (intro keeps_intro inv_intro c) simp_all
  then show ?thesis unfolding tick_def by (intro keeps_intro inv_intro)
qed

lemma keeps_hook: "keeps I (exec_hook fuel E u)"
  unfolding exec_hook_def by (intro keeps_intro inv_intro) (simp add: shadow_fields)

end

section \<open>The beam and the registers\<close>

text \<open>Generated code and extern hooks are outside the model: an environment whose own keep the invariant, and a machine whose
  devices leave clock and CPU alone.\<close>

definition outside_keeps :: "('a sched_cpu_scheme \<Rightarrow> bool) \<Rightarrow> ('a sched_cpu_scheme) sched_env \<Rightarrow> bool" where
  "outside_keeps I E \<longleftrightarrow> hooks_steady (se_hooks E) \<and> video_steady (se_video E) \<and> (\<forall>n. keeps I (se_run E n)) \<and>
     (\<forall>x\<in>set (ct_externs (se_interp E)). keeps I (ext_hook x))"

definition kept_env :: "('a sched_cpu_scheme \<Rightarrow> bool) \<Rightarrow> ('a sched_cpu_scheme) sched_env \<Rightarrow> ('a sched_cpu_scheme) sched_env" where
  "kept_env I E = (if outside_keeps I E then E else idle_env no_hooks)"

lemma kept_env_simp: "outside_keeps I E \<Longrightarrow> kept_env I E = E"
  by (simp add: kept_env_def)

lemma kept_env_keeps:
  "hooks_steady (se_hooks (kept_env I E))" "video_steady (se_video (kept_env I E))" "keeps I (se_run (kept_env I E) n)"
  "x \<in> set (ct_externs (se_interp (kept_env I E))) \<Longrightarrow> keeps I (ext_hook x)"
  by (cases "outside_keeps I E"; simp add: kept_env_def; simp add: outside_keeps_def idle_env_def no_hooks_steady idle_video_steady keeps_ret)+

definition beam_since :: "nat \<Rightarrow> 'a sched_cpu_scheme \<Rightarrow> bool" where
  "beam_since c s \<longleftrightarrow> on_beam s \<and> c \<le> sched_clock s"

lemma beam_since_tm: "tm t = tm s \<Longrightarrow> beam_since c t = beam_since c s"
  using on_beam_tm[of t s] by (simp add: beam_since_def sched_clock_def)

lemma keeps_beam_since: "(\<And>m. keeps (at_tm m) f) \<Longrightarrow> keeps (beam_since c) f"
  unfolding hoare_def using beam_since_tm by blast

lemma charging_beam_since:
  assumes "hooks_steady h" "video_steady V"
  shows "keeps (beam_since c) (charge V h n)" "keeps (beam_since c) (wai_cycle V h)"
proof -
  show "keeps (beam_since c) (charge V h n)"
  proof (rule hoareI)
    fix s x t assume "beam_since c s" "charge V h n s = Inr (x, t)"
    then show "beam_since c t" using charge_beam[OF assms, of s n t] by (simp add: beam_since_def)
  qed
  show "keeps (beam_since c) (wai_cycle V h)"
  proof (rule hoareI)
    fix s x t assume "beam_since c s" "wai_cycle V h s = Inr (x, t)"
    then show "beam_since c t" using charge_beam[OF assms, of s n t] by (simp add: beam_since_def)
  qed
qed

interpretation on_time: scheduler_invariant "beam_since c" "kept_env (beam_since c) E" for c E
proof (unfold_locales, goal_cases)
  case (1 s t)
  then show ?case using beam_since_tm by blast
next
  case (2 a)
  show ?case by (intro keeps_beam_since steady_tm keeps_read8 kept_env_keeps)
next
  case (3 a v)
  show ?case by (intro keeps_beam_since steady_tm keeps_write8 kept_env_keeps)
qed (auto intro: kept_env_keeps charging_beam_since)

interpretation in_range: scheduler_invariant typed_regs "kept_env typed_regs E" for E
proof (unfold_locales, goal_cases)
  case (1 s t)
  then show ?case by (simp add: typed_regs_def)
next
  case (2 a)
  show ?case by (rule regs_typed.steady_keeps[OF keeps_read8[OF kept_env_keeps(1)]])
next
  case (3 a v)
  show ?case by (rule regs_typed.steady_keeps[OF keeps_write8[OF kept_env_keeps(1)]])
qed (auto intro: kept_env_keeps regs_charged.keeps_charge regs_charged.keeps_wai)

text \<open>Native code that keeps the clock on the beam, whatever its clock.\<close>

definition native_on_beam :: "('a sched_cpu_scheme) sched_env \<Rightarrow> bool" where
  "native_on_beam E \<longleftrightarrow> (\<forall>c n. keeps (beam_since c) (se_run E n)) \<and>
     (\<forall>c. \<forall>x\<in>set (ct_externs (se_interp E)). keeps (beam_since c) (ext_hook x))"

text \<open>C1. The program stays on the beam: through any number of interpreted instructions, interrupts, idle cycles of WAI and
  recompiled functions, through every tick and every hand-over of generated code, as long as what is outside the
  model (the devices, generated functions, extern hooks) does, frame and line are those of the master clock in closed
  form, exactly the line events that have come are done, and the clock goes on.\<close>

theorem scheduler_keeps_beam:
  assumes "runs_on E M" "native_on_beam E" "on_beam s"
    and "run_until fuel E stop s = Inr ((), t) \<or> tick fuel E at op s = Inr (r, t) \<or> exec_hook fuel E u s = Inr ((), t)"
  shows "on_beam t \<and> beam (int (sched_clock t)) = (frames (tm t) - field_base (tm t), line (tm t)) \<and> sched_clock s \<le> sched_clock t"
proof -
  have "outside_keeps (beam_since c) E" for c
    using assms(2) runs_on_steady[OF assms(1)] by (simp add: outside_keeps_def native_on_beam_def)
  then have e: "kept_env (beam_since c) E = E" for c by (rule kept_env_simp)
  note k = on_time.keeps_until[where c = "sched_clock s" and E = E, unfolded e] on_time.keeps_tick[where c = "sched_clock s" and E = E, unfolded e]
    on_time.keeps_hook[where c = "sched_clock s" and E = E, unfolded e]
  have s: "beam_since (sched_clock s) s" using assms(3) by (simp add: beam_since_def)
  have "beam_since (sched_clock s) t" using assms(4) hoareD[OF k(1) s] hoareD[OF k(2) s] hoareD[OF k(3) s] by blast
  then have "on_beam t" "sched_clock s \<le> sched_clock t" by (simp_all add: beam_since_def)
  moreover from this have "in_time (tm t)" by (simp add: on_beam_def)
  ultimately show ?thesis using in_time_beam by (simp add: sched_clock_def)
qed

lemma idle_runs_on: "\<exists>h. runs_on (idle_env h) (idle_machine :: ('a sched_cpu_scheme) machine)"
proof -
  obtain h where "machine_hooks (idle_machine :: ('a sched_cpu_scheme) machine) 0 = Inr h" using machine_hooks_ok by blast
  then have "runs_on (idle_env h) (idle_machine :: ('a sched_cpu_scheme) machine)"
    using idle_machine_steady by (auto simp: runs_on_def idle_env_def intro: exI[of _ 0])
  then show ?thesis by blast
qed

lemma sched_zero_on_beam: "on_beam sched_zero"
  using line10_on_beam by (simp add: on_beam_def sched_zero_def charge_state.defs)

theorem scheduler_keeps_beam_witness:
  "\<exists>h t. tick 1 (idle_env h) 0xC00102 0xEA sched_zero = Inr (None, t) \<and> on_beam t \<and> sched_clock sched_zero \<le> sched_clock t"
proof -
  obtain h where h: "runs_on (idle_env h) (idle_machine :: sched_cpu machine)" using idle_runs_on by blast
  obtain t where t: "tick 1 (idle_env h) 0xC00102 0xEA sched_zero = Inr (None, t)" using tick_zero_runs by blast
  have n: "native_on_beam (idle_env h)" by (simp add: native_on_beam_def idle_env_def keeps_ret)
  show ?thesis using scheduler_keeps_beam[OF h n sched_zero_on_beam disjI2[OF disjI1[OF t]]] t by blast
qed

text \<open>What a run of the program is made of: steps of the CPU loop, the reset button, and the pads set by the frontend.\<close>

inductive sched_run :: "('a sched_cpu_scheme) sched_env \<Rightarrow> 'a sched_cpu_scheme \<Rightarrow> 'a sched_cpu_scheme \<Rightarrow> bool" for E s where
  begun: "sched_run E s s"
| loop_step: "sched_run E s t \<Longrightarrow> cpu_step fuel E t = Inr ((), u) \<Longrightarrow> sched_run E s u"
| reset_button: "sched_run E s t \<Longrightarrow> soft_reset E t = Inr ((), u) \<Longrightarrow> sched_run E s u"
| pads_set: "sched_run E s t \<Longrightarrow> sched_set_joypad port buttons t = Inr ((), u) \<Longrightarrow> sched_run E s u"

lemma cleared_ok: "regs_ok (regs_cleared r) \<longleftrightarrow> htime r < 0x200 \<and> vtime r < 0x200 \<and> lat_h r \<le> 339"
  by (simp add: regs_ok_def regs_cleared_def)

lemma sched_init_typed: "sched_init funcs en ovls s = Inr ((), t) \<Longrightarrow> typed_regs t"
  by (auto simp: sched_init_def thn_modify walk_reset_def pnd_do_def tm_do_def vr_do_def typed_regs_def regs_ok_def regs_cleared_def thn_def bnd_Inr)

lemma kept_typed [inv_intro]:
  "keeps typed_regs (tm_do f)" "keeps typed_regs (pnd_do g)" "(\<And>s. vr (k s) = vr s) \<Longrightarrow> keeps typed_regs (modify k)"
  "typed r \<Longrightarrow> keeps typed_regs (vr_do r)"
  by (auto simp: hoare_def tm_do_def pnd_do_def vr_do_def typed_regs_def typed_def)

lemma soft_reset_typed:
  assumes "hooks_steady (se_hooks E)" "video_steady (se_video E)" "still (se_apu_soft_reset E)"
  shows "keeps typed_regs (soft_reset E)"
proof -
  have c: "keeps typed_regs (bnd cyc_finish (\<lambda>_. ret ()))"
    by (intro keeps_intro) (auto simp: hoare_def cyc_finish_def typed_regs_def Let_def split: if_splits sum.splits)
  have h: "keeps typed_regs (case v_frame_hook (se_video E) of Some f \<Rightarrow> bnd (gets (\<lambda>s. frames (tm s))) f | None \<Rightarrow> ret ())"
    by (cases "v_frame_hook (se_video E)"; simp only: option.case; intro keeps_intro regs_typed.steady_keeps video_steadyD(5)[OF assms(2)]; assumption)
  have a: "vr (snes_hw_soft_reset (se_apu_soft_reset E) s) = vr s" for s
    using assms(3) by (simp add: snes_hw_soft_reset_def still_def ppu_do_def)
  have t: "typed (\<lambda>r. (regs_cleared r)\<lparr>rdnmi_set := False\<rparr>)"
    by (simp add: typed_def regs_ok_def regs_cleared_def)
  have r: "keeps typed_regs (read8 (se_hooks E) x)" for x by (rule regs_typed.steady_keeps[OF keeps_read8[OF assms(1)]])
  show ?thesis unfolding soft_reset_def walk_reset_def
    by (intro keeps_intro inv_intro c h t r)
      (simp_all add: a cyc_done_def interp_wake_def overlay_reset_active_def set_watch_def charge_restarted_def hoare_def typed_regs_def)
qed

text \<open>C17. The scheduler's registers keep their types: from power-on, through any run of instructions, interrupts, register
  accesses, DMA and line events, presses of the reset button and changes of the pads, the NMI and IRQ flags are bit 7 or
  nothing, the timer targets have nine bits, the latched dot is on the line, and the automatic joypad read is in one of its
  36 states and busy only when it was enabled.\<close>

theorem registers_in_range:
  assumes "runs_on E M" "still (se_apu_soft_reset E)"
    and "\<forall>n. keeps typed_regs (se_run E n)" "\<forall>x\<in>set (ct_externs (se_interp E)). keeps typed_regs (ext_hook x)"
    and "sched_init funcs en ovls s = Inr ((), s0)" "sched_run E s0 t"
  shows "regs_ok (vr t)"
proof -
  have st: "hooks_steady (se_hooks E)" "video_steady (se_video E)" using runs_on_steady[OF assms(1)] by simp_all
  have "outside_keeps typed_regs E" using assms(3,4) st by (simp add: outside_keeps_def)
  then have e: "kept_env typed_regs E = E" by (rule kept_env_simp)
  have 1: "keeps typed_regs (cpu_step fuel E)" for fuel
    unfolding cpu_step_def cpu_start_def
    by (intro keeps_intro inv_intro regs_typed.keeps_begin_line regs_typed.keeps_advance st in_range.keeps_one[where E = E, unfolded e])
  have 2: "keeps typed_regs (sched_set_joypad port b)" for port b
    unfolding sched_set_joypad_def by (intro keeps_intro inv_intro typed_intro)
  have "typed_regs t" using assms(6)
  proof (induction rule: sched_run.induct)
    case begun
    show ?case by (rule sched_init_typed[OF assms(5)])
  qed (erule (1) hoareD[OF 1] hoareD[OF soft_reset_typed[OF st assms(2)]] hoareD[OF 2])+
  then show ?thesis by (simp add: typed_regs_def)
qed

theorem registers_in_range_witness:
  "\<exists>s0 t. sched_init [] False [] sched_zero = Inr ((), s0) \<and> sched_set_joypad 0 0x8000 s0 = Inr ((), t) \<and> regs_ok (vr t)"
proof -
  obtain h where h: "runs_on (idle_env h) (idle_machine :: sched_cpu machine)" using idle_runs_on by blast
  have a: "still (se_apu_soft_reset (idle_env h))" by (simp add: idle_env_def still_def)
  have n: "\<forall>n. keeps typed_regs (se_run (idle_env h) n)" "\<forall>x\<in>set (ct_externs (se_interp (idle_env h))). keeps typed_regs (ext_hook x)"
    by (simp_all add: idle_env_def keeps_ret)
  obtain s0 where s0: "sched_init [] False [] sched_zero = Inr ((), s0)"
    by (simp add: sched_init_def thn_modify walk_reset_def pnd_do_def tm_do_def vr_do_def thn_def bnd_def)
  obtain t where t: "sched_set_joypad 0 0x8000 s0 = Inr ((), t)" by (simp add: sched_set_joypad_def vr_do_def)
  from registers_in_range[OF h a n s0 pads_set[OF begun t]] s0 t show ?thesis by blast
qed

end
