(* ===== verification/Ct_Wait.thy ===== *)
theory Ct_Wait
  imports Ct_Invariant
begin

text \<open>
  A program that waits for an interrupt is woken by it. Total correctness of the idle cycles of WAI:
  they return, with devices that do and no timer in H mode; the NMI of the vertical blank comes up in
  one of them, and the cycles after it sample it, through the transfers in between, and end the wait.
\<close>

section \<open>Actions that return\<close>

definition sure :: "('s \<Rightarrow> bool) \<Rightarrow> ('s, 'a) act \<Rightarrow> ('a \<Rightarrow> 's \<Rightarrow> bool) \<Rightarrow> bool" where
  "sure P m Q \<longleftrightarrow> (\<forall>s. P s \<longrightarrow> (\<exists>x t. m s = Inr (x, t) \<and> Q x t))"

abbreviation surely :: "('s \<Rightarrow> bool) \<Rightarrow> ('s, 'a) act \<Rightarrow> bool" where
  "surely P m \<equiv> sure P m (\<lambda>_. P)"

named_theorems sure_intro \<open>rules that carry an invariant through an action that returns\<close>

lemma sureI: "(\<And>s. P s \<Longrightarrow> \<exists>x t. m s = Inr (x, t) \<and> Q x t) \<Longrightarrow> sure P m Q"
  by (simp add: sure_def)

lemma sureD: "sure P m Q \<Longrightarrow> P s \<Longrightarrow> \<exists>x t. m s = Inr (x, t) \<and> Q x t"
  by (simp add: sure_def)

lemma sure_weaken: "sure P m Q \<Longrightarrow> (\<And>x s. Q x s \<Longrightarrow> R x s) \<Longrightarrow> sure P m R"
  by (fastforce simp: sure_def)

lemma sure_bnd: "sure P m R \<Longrightarrow> (\<And>x. sure (R x) (f x) Q) \<Longrightarrow> sure P (bnd m f) Q"
  by (fastforce simp: sure_def)

lemma sure_thn: "sure P m (\<lambda>_. R) \<Longrightarrow> sure R k Q \<Longrightarrow> sure P (thn m k) Q"
  by (fastforce simp: sure_def)

lemma surely_bnd [sure_intro]: "surely P m \<Longrightarrow> (\<And>x. surely P (f x)) \<Longrightarrow> surely P (bnd m f)"
  by (rule sure_bnd)

lemma surely_thn [sure_intro]: "surely P m \<Longrightarrow> surely P k \<Longrightarrow> surely P (thn m k)"
  by (rule sure_thn)

lemma surely_basic [sure_intro]: "surely P (ret x)" "surely P (gets f)"
  by (simp_all add: sure_def ret_def gets_def)

lemma surely_if [sure_intro]: "surely P m \<Longrightarrow> surely P k \<Longrightarrow> surely P (if b then m else k)"
  by simp

lemma surely_when [sure_intro]: "surely P m \<Longrightarrow> surely P (whenM b m)"
  by (simp add: whenM_def surely_basic)

lemma sure_modify: "(\<And>s. P s \<Longrightarrow> Q (f s)) \<Longrightarrow> sure P (modify f) (\<lambda>_. Q)"
  by (simp add: sure_def modify_def)

lemma sure_gets: "(\<And>s. P s \<Longrightarrow> Q (f s) s) \<Longrightarrow> sure P (gets f) Q"
  by (simp add: sure_def gets_def)

section \<open>Frames in a span of clocks\<close>

lemma line_begin_frames: "f \<le> g \<Longrightarrow> line_begin f 0 \<le> line_begin g 0"
proof -
  assume "f \<le> g"
  then have "f div 2 \<le> g div 2" "g div 2 - f div 2 \<le> g - f" by presburger+
  then show ?thesis using \<open>f \<le> g\<close> by (simp add: line_begin_def)
qed

lemma frame_ends: "l < 262 \<Longrightarrow> line_begin f l + int (line_clocks b (f + b) l) \<le> line_begin (f + 1) 0"
proof -
  assume l: "l < 262"
  have "f div 2 \<le> (f + 1) div 2" "(f + 1) div 2 = f div 2 + (if odd f then 1 else 0)" by presburger+
  then show ?thesis using l by (auto simp: line_begin_def line_clocks_def sched_consts)
qed

text \<open>A position in time is before the end of its frame.\<close>

lemma in_time_frame:
  assumes "in_time m"
  shows "int (line_start m + hclock m) < line_begin (frames m - field_base m + 1) 0"
proof -
  have a: "int (line_start m) = line_begin (frames m - field_base m) (line m)" "line m < 262" "hclock m < tm_line_clocks m"
    using assms by (simp_all add: in_time_def placed_def sched_consts(2))
  show ?thesis using frame_ends[OF a(2), of "frames m - field_base m" "field_base m"] a(1,3) by (simp add: tm_line_clocks_def)
qed

section \<open>A walk returns\<close>

lemma irq_clock_off:
  assumes "n AND 0x10 = 0"
  shows "\<exists>at. irq_clock_for n h v l = Inr at"
proof -
  have 4: "\<not> bit n 4" using assms and_exp_eq_0_iff_not_bit[of n 4] by simp
  have three: "bit (3 :: int) k \<longleftrightarrow> k = 0 \<or> k = 1" for k
    using bit_mask_iff[where 'a = int, of 2 k] by (auto simp: mask_eq_exp_minus_1 less_2_cases_iff)
  have two: "bit (2 :: int) k \<longleftrightarrow> k = 1" for k using bit_exp_iff[where 'a = int, of 1 k] by auto
  have "drop_bit 4 n AND 3 = (if bit n 5 then 2 else 0 :: u8)"
    by (rule bit_word_eqI) (use 4 in \<open>auto simp: bit_simps three two intro!: gr0I\<close>)
  then show ?thesis by (simp add: irq_clock_for_def Let_def)
qed

text \<open>What passing time does to a walk, transfers apart.\<close>

locale surely_passing =
  fixes E :: walk_env and J :: "walk \<times> pend \<Rightarrow> bool"
  assumes no_timer: "we_nmitimen E AND 0x10 = 0"
    and by_event: "J (w, p) \<Longrightarrow> walk_event E (fst (walk_next E w)) (snd (walk_next E w)) (w, p) = Inr s \<Longrightarrow> J s"
    and by_time: "J (w, p) \<Longrightarrow> J (w\<lparr>w_t := t\<rparr>, p)"
begin

lemma event_returns: "\<exists>s. walk_event E k e (w, p) = Inr s"
proof (cases k)
  case Ev_line
  then show ?thesis using irq_clock_off[OF no_timer, of "we_htime E" "we_vtime E" "w_line (next_line e w)"]
    by (auto simp: walk_event_def Let_def)
qed (auto simp: walk_event_def)

lemma surely_loop: "J (w, p) \<Longrightarrow> \<exists>x s. walk_loop E endc smp (w, p) = Inr (x, s) \<and> J s"
proof (induction "(to_go endc w, undone w)" arbitrary: endc smp w p rule: wf_induct[OF wf_lex_prod[OF wf_less wf_less]])
  case 1
  let ?k = "fst (walk_next E w)" and ?e = "snd (walk_next E w)"
  show ?case
  proof (cases "endc < ?e")
    case True
    then show ?thesis using by_time[OF 1(2)] by (simp add: walk_loop.simps case_prod_beta)
  next
    case False
    obtain w' p' where ev: "walk_event E ?k ?e (w, p) = Inr (w', p')" using event_returns by (metis surj_pair)
    let ?endc = "if ?k = Ev_refresh then endc + REFRESH_CLOCKS else endc"
    have "to_go ?endc w' < to_go endc w \<or> to_go ?endc w' = to_go endc w \<and> undone w' < undone w"
      using walk_event_progress[OF ev] False by simp
    then have "\<exists>x s. walk_loop E ?endc smp' (w', p') = Inr (x, s) \<and> J s" for smp'
      using 1(1) by_event[OF 1(2) ev] by auto
    then show ?thesis using False by (simp add: walk_loop.simps[of E endc smp w p] case_prod_beta ev)
  qed
qed

lemma surely_pass [sure_intro]: "surely J (walk_pass E clocks smp)" "surely J (pass E clocks)"
proof -
  show p: "surely J (walk_pass E c n)" for c n
    using surely_loop by (auto simp: sure_def walk_pass_def)
  show "surely J (pass E clocks)" unfolding pass_def by (intro sure_intro p)
qed

end

locale surely_walking = surely_passing +
  assumes by_book: "J (w, p) \<Longrightarrow> J (w\<lparr>w_dma_lo := t\<rparr>, p)" "J (w, p) \<Longrightarrow> J (w\<lparr>w_dma_hi := t\<rparr>, p)"
    and by_flags: "J (w, p) \<Longrightarrow> J (w, p\<lparr>p_delay := False\<rparr>)" "J (w, p) \<Longrightarrow> J (w, p\<lparr>p_hdma := False\<rparr>)"
      "J (w, p) \<Longrightarrow> J (w, p\<lparr>p_init := False\<rparr>)" "J (w, p) \<Longrightarrow> J (w, p\<lparr>p_dma := False\<rparr>)"
begin

lemma surely_put [sure_intro]:
  "surely J (put_p (p_delay_update (\<lambda>_. False)))" "surely J (put_p (p_hdma_update (\<lambda>_. False)))"
  "surely J (put_p (p_init_update (\<lambda>_. False)))" "surely J (put_p (p_dma_update (\<lambda>_. False)))"
  "surely J (put_p (if b then p_hdma_update (\<lambda>_. False) else p_init_update (\<lambda>_. False)))"
  "surely J (put_w (w_dma_lo_update (\<lambda>_. t)))" "surely J (put_w (w_dma_hi_update (\<lambda>_. t)))"
  unfolding put_p_def put_w_def by (auto simp: sure_def modify_def by_flags by_book)

lemma surely_dma_pending [sure_intro]: "surely J (walk_dma_pending E)"
  unfolding walk_dma_pending_def get_p_def by (intro sure_intro)

lemma surely_bytes [sure_intro]: "surely J (walk_bytes E n)"
  by (induction n; simp only: walk_bytes.simps; intro sure_intro; (assumption)?)

lemma surely_channels [sure_intro]: "surely J (walk_channels E ns count)"
  by (induction ns arbitrary: count; simp only: walk_channels.simps; intro sure_intro; (assumption)?)

lemma surely_transfer [sure_intro]: "surely J (run_transfer E count)"
  unfolding run_transfer_def get_p_def get_w_def Let_def by (intro sure_intro)

lemma surely_pending [sure_intro]: "surely J (walk_pending E speed)"
  unfolding walk_pending_def get_p_def get_w_def Let_def by (intro sure_intro)

end

locale surely_cycling = surely_walking +
  assumes by_cycle: "J (w, p) \<Longrightarrow> J (w, sample_lines l i p)" "J (w, p) \<Longrightarrow> J (w, after_access k p)"
      "J (w, p) \<Longrightarrow> J (w\<lparr>undo_from := f\<rparr>, p)"
begin

lemma surely_start [sure_intro]: "surely J (walk_cycle_start E speed i)"
  unfolding walk_cycle_start_def put_p_def
  by (intro sure_intro sure_modify) (auto simp: by_cycle)

lemma surely_cycle [sure_intro]: "surely J (walk_cycle E i c)"
proof -
  obtain clk kind idx where c: "c = (clk, kind, idx)" by (metis prod_cases3)
  have "surely J (put_w (\<lambda>w. if w_edge w \<and> undo_from w < 0 \<and> 0 \<le> idx \<and> kind = CY_WRITE then w\<lparr>undo_from := idx\<rparr> else w))"
    "surely J (put_p (after_access idx))"
    by (auto simp: sure_def put_w_def put_p_def modify_def by_cycle)
  then show ?thesis unfolding walk_cycle_def c Let_def prod.case by (intro sure_intro)
qed

lemma surely_cycles: "surely J (walk_cycles E i cs smp)"
  by (induction cs arbitrary: smp; simp only: walk_cycles.simps; intro sure_intro; (assumption)?)

end

section \<open>The NMI in a walk\<close>

text \<open>NMI enabled, no timer in H mode and no HDMA channel: the walks the theorem is about, as an instance for any \<open>E\<close>.\<close>

definition nmi_walks :: "walk_env \<Rightarrow> bool" where
  "nmi_walks E \<longleftrightarrow> we_nmitimen E AND 0x10 = 0 \<and> we_nmitimen E AND 0x80 \<noteq> 0 \<and> \<not> we_hdma_enabled E"

definition nmi_env :: "walk_env \<Rightarrow> walk_env" where
  "nmi_env E = (if nmi_walks E then E else E\<lparr>we_nmitimen := 0x80, we_hdma_enabled := False\<rparr>)"

lemma nmi_env_simp: "nmi_walks E \<Longrightarrow> nmi_env E = E"
  by (simp add: nmi_env_def)

lemma nmi_env_fields: "we_nmitimen (nmi_env E) AND 0x10 = 0" "we_nmitimen (nmi_env E) AND 0x80 \<noteq> 0" "\<not> we_hdma_enabled (nmi_env E)"
  by (simp_all add: nmi_env_def nmi_walks_def)

text \<open>The NMI points up to a position; an NMI on its way; and how many cycles it is away at most.\<close>

definition nmi_points :: "int \<Rightarrow> nat \<Rightarrow> bool \<Rightarrow> int" where
  "nmi_points f l d = f + (if SCHED_VBLANK_LINE < l \<or> l = SCHED_VBLANK_LINE \<and> d then 1 else 0)"

definition alarm :: "pend \<Rightarrow> bool" where
  "alarm p \<longleftrightarrow> nmi_count p \<noteq> 0 \<or> need_nmi p"

definition noticed :: "int \<Rightarrow> walk \<times> pend \<Rightarrow> bool" where
  "noticed n = (\<lambda>(w, p). w_line w < SCHED_LINES \<and> (alarm p \<or> nmi_points (w_frame w) (w_line w) (w_nmi_done w) = n))"

definition transfers :: "pend \<Rightarrow> nat" where
  "transfers p = of_bool (p_hdma p) + of_bool (p_init p) + of_bool (p_dma p)"

definition due :: "nat \<Rightarrow> pend \<Rightarrow> bool" where
  "due r p \<longleftrightarrow> need_nmi p \<or> 0 < nmi_count p \<and> transfers p + nmi_count p \<le> r"

definition due_after_transfer :: "nat \<Rightarrow> pend \<Rightarrow> bool" where
  "due_after_transfer r p \<longleftrightarrow> need_nmi p \<or> 0 < nmi_count p \<and> 0 < transfers p \<and> transfers p + nmi_count p \<le> r"

lemma event_pend:
  assumes "walk_event (nmi_env E) k e (w, p) = Inr (w', p')"
  shows "p' = p \<or> p' = p\<lparr>p_delay := True\<rparr> \<or> p' = p\<lparr>nmi_count := 1\<rparr> \<or> p' = p\<lparr>irq_line := True\<rparr>"
  using assms nmi_env_fields[of E] unfolding walk_event_def by (cases k) (auto simp: Let_def split: sum.splits)

lemma event_position:
  assumes "walk_event E k e (w, p) = Inr (w', p')"
  shows "k \<noteq> Ev_line \<and> w_line w' = w_line w \<and> w_frame w' = w_frame w \<or> k = Ev_line \<and> \<not> w_nmi_done w' \<and>
    w_line w' = (if w_line w + 1 = SCHED_LINES then 0 else w_line w + 1) \<and>
    w_frame w' = (if w_line w + 1 = SCHED_LINES then w_frame w + 1 else w_frame w)"
  using assms unfolding walk_event_def by (cases k) (auto simp: next_line_def Let_def split: sum.splits)

lemma due_event:
  assumes "walk_event (nmi_env E) k e (w, p) = Inr (w', p')"
  shows "due r p \<Longrightarrow> due r p'" "due_after_transfer r p \<Longrightarrow> due_after_transfer r p'" "alarm p \<Longrightarrow> alarm p'"
  using event_pend[OF assms] by (auto simp: due_def due_after_transfer_def alarm_def transfers_def)

lemma transfers_flags: "transfers (p\<lparr>p_delay := False\<rparr>) = transfers p" "transfers (p\<lparr>p_hdma := False\<rparr>) \<le> transfers p"
  "transfers (p\<lparr>p_init := False\<rparr>) \<le> transfers p" "transfers (p\<lparr>p_dma := False\<rparr>) \<le> transfers p"
  by (simp_all add: transfers_def)

lemma due_le: "due r p \<Longrightarrow> need_nmi q = need_nmi p \<Longrightarrow> nmi_count q = nmi_count p \<Longrightarrow> transfers q \<le> transfers p \<Longrightarrow> due r q"
  by (auto simp: due_def)

lemma due_flags:
  assumes "due r p"
  shows "due r (p\<lparr>p_delay := False\<rparr>)" "due r (p\<lparr>p_hdma := False\<rparr>)" "due r (p\<lparr>p_init := False\<rparr>)" "due r (p\<lparr>p_dma := False\<rparr>)"
  by (rule due_le[OF assms]; simp add: transfers_flags)+

interpretation returning: surely_cycling "nmi_env E" "\<lambda>_. True" for E
  by unfold_locales (simp_all add: nmi_env_fields)

interpretation transferring: surely_passing "nmi_env E" "\<lambda>(w, p). due_after_transfer r p" for E r
proof (unfold_locales, goal_cases)
  case (2 w p s)
  then show ?case by (cases s) (auto dest: due_event)
qed (simp_all add: nmi_env_fields)

interpretation nearing: surely_walking "nmi_env E" "\<lambda>(w, p). due r p" for E r
proof (unfold_locales, goal_cases)
  case (2 w p s)
  then show ?case by (cases s) (auto dest: due_event)
qed (simp_all add: nmi_env_fields due_flags)

interpretation noticing: surely_cycling "nmi_env E" "noticed n" for E n
proof (unfold_locales, goal_cases)
  case (2 w p s)
  obtain w' p' where s: "s = (w', p')" by fastforce
  let ?k = "fst (walk_next (nmi_env E) w)" and ?e = "snd (walk_next (nmi_env E) w)"
  have ev: "walk_event (nmi_env E) ?k ?e (w, p) = Inr (w', p')" using 2(2) s by simp
  note w = walk_event_walk[OF ev]
  have l: "w_line w < 262" using 2(1) by (simp add: noticed_def sched_consts)
  show ?case
  proof (cases "alarm p")
    case True
    then have a: "alarm p'" by (rule due_event(3)[OF ev])
    have "w_line w' < 262"
      using event_position[OF ev] l by (auto simp: sched_consts)
    then show ?thesis using a by (simp add: s noticed_def sched_consts)
  next
    case False
    then have n: "nmi_points (w_frame w) (w_line w) (w_nmi_done w) = n" using 2(1) by (simp add: noticed_def)
    show ?thesis
    proof (cases ?k)
      case Ev_line
      have d: "w_nmi_done w" if "w_line w = 225"
      proof (rule ccontr)
        assume "\<not> w_nmi_done w"
        then have le: "?e \<le> w_ls w + 6" using walk_next_le(5)[of w "nmi_env E"] that by (simp add: sched_consts)
        have "?e = w_ls w + walk_line_clocks (nmi_env E) w"
          using Ev_line by (cases rule: walk_next_cases[of "nmi_env E" w]) simp_all
        then show False using le line_clocks_bounds(1)[of "we_field_base (nmi_env E)" "w_frame w" "w_line w"]
          by (simp add: walk_line_clocks_def)
      qed
      have "nmi_points (w_frame w') (w_line w') (w_nmi_done w') = n" "w_line w' < 262"
        using event_position[OF ev] Ev_line n d l by (auto simp: nmi_points_def sched_consts split: if_splits)
      then show ?thesis by (simp add: s noticed_def sched_consts)
    next
      case Ev_nmi
      then have "p' = p\<lparr>nmi_count := 1\<rparr>" "w_line w' = w_line w" using ev w(4) nmi_env_fields(2)[of E] by (auto simp: walk_event_def)
      then show ?thesis using l by (simp add: s noticed_def alarm_def sched_consts)
    qed (use event_position[OF ev] w(1-3,5) l n in \<open>simp_all add: s noticed_def sched_consts nmi_points_def\<close>)
  qed
qed (auto simp: nmi_env_fields noticed_def alarm_def sample_lines_def after_access_def Let_def)

text \<open>A cycle that transfers leaves one transfer less; any other samples the NMI.\<close>

lemma after_transfer_put:
  assumes "due_after_transfer r p" "p_hdma p \<or> p_init p \<or> p_dma p"
  shows "p_hdma p \<Longrightarrow> due (r - 1) (p\<lparr>p_hdma := False\<rparr>)" "\<not> p_hdma p \<Longrightarrow> p_init p \<Longrightarrow> due (r - 1) (p\<lparr>p_init := False\<rparr>)"
    "\<not> (p_hdma p \<or> p_init p) \<Longrightarrow> due (r - 1) (p\<lparr>p_dma := False\<rparr>)"
  using assms by (auto simp: due_def due_after_transfer_def transfers_def)

lemma transfer_done: "sure (\<lambda>(w, p). due_after_transfer r p \<and> (p_hdma p \<or> p_init p \<or> p_dma p)) (run_transfer (nmi_env E) count) (\<lambda>_ (w, p). due (r - 1) p)"
proof (rule sureI)
  fix s :: "walk \<times> pend"
  assume a: "case s of (w, p) \<Rightarrow> due_after_transfer r p \<and> (p_hdma p \<or> p_init p \<or> p_dma p)"
  obtain w p where s: "s = (w, p)" by fastforce
  note a = a[unfolded s prod.case]
  let ?J = "\<lambda>(w :: walk, p). due (r - 1) p"
  note near = nearing.surely_pass nearing.surely_put nearing.surely_dma_pending nearing.surely_channels
  show "\<exists>x t. run_transfer (nmi_env E) count s = Inr (x, t) \<and> ?J t"
  proof (cases "p_hdma p \<or> p_init p")
    case True
    let ?p = "(if p_hdma p then p_hdma_update (\<lambda>_. False) else p_init_update (\<lambda>_. False)) p"
    have d: "?J (w, ?p)" using after_transfer_put(1,2)[OF a[THEN conjunct1] a[THEN conjunct2]] True by auto
    define k where "k = (if p_hdma p then hdma_cost p else init_cost p)"
    let ?m = "thn (pass (nmi_env E) k) (ret (count + k))"
    have "surely ?J ?m" by (intro sure_intro near)
    moreover have "run_transfer (nmi_env E) count s = ?m (w, ?p)"
      using True by (simp add: run_transfer_def get_p_def bnd_gets put_p_def thn_modify s Let_def k_def)
    ultimately show ?thesis using sureD[of ?J ?m "\<lambda>_. ?J"] d by simp
  next
    case False
    have d: "?J (w, p\<lparr>p_dma := False\<rparr>)" using after_transfer_put(3)[OF a[THEN conjunct1] a[THEN conjunct2]] False by simp
    let ?m = "thn (bnd (get_w w_t) (\<lambda>t. put_w (w_dma_lo_update (\<lambda>_. t))))
         (thn (pass (nmi_env E) 8) (bnd (walk_dma_pending (nmi_env E)) (\<lambda>a.
           bnd (walk_channels (nmi_env E) (dma_sizes p) (count + 8 + a)) (\<lambda>count.
           thn (bnd (get_w w_t) (\<lambda>t. put_w (w_dma_hi_update (\<lambda>_. t)))) (ret count)))))"
    have "surely ?J ?m" unfolding get_w_def by (intro sure_intro near)
    moreover have "run_transfer (nmi_env E) count s = ?m (w, p\<lparr>p_dma := False\<rparr>)"
      using False by (simp add: run_transfer_def get_p_def bnd_gets put_p_def thn_modify s)
    ultimately show ?thesis using sureD[of ?J ?m "\<lambda>_. ?J"] d by simp
  qed
qed

text \<open>Passing time keeps the pending transfers.\<close>

definition waiting_transfer :: "nat \<Rightarrow> walk \<times> pend \<Rightarrow> bool" where
  "waiting_transfer r = (\<lambda>(w, p). due_after_transfer r p \<and> (p_hdma p \<or> p_init p \<or> p_dma p))"

interpretation locked: surely_passing "nmi_env E" "waiting_transfer r" for E r
proof (unfold_locales, goal_cases)
  case (2 w p s)
  obtain w' p' where s: "s = (w', p')" by fastforce
  have ev: "walk_event (nmi_env E) (fst (walk_next (nmi_env E) w)) (snd (walk_next (nmi_env E) w)) (w, p) = Inr (w', p')"
    using 2(2) s by simp
  show ?case using 2(1) due_event(2)[OF ev, of r] event_pend[OF ev] by (auto simp: waiting_transfer_def s)
qed (simp_all add: nmi_env_fields waiting_transfer_def)

lemma pending_lock:
  "sure (\<lambda>(w, p). due r p) (walk_pending (nmi_env E) speed) (\<lambda>lock (w, p). if lock then due (r - 1) p else due r p)"
proof (rule sureI)
  fix s :: "walk \<times> pend"
  assume a: "case s of (w, p) \<Rightarrow> due r p"
  obtain w p where s: "s = (w, p)" by fastforce
  have a: "due r p" using a s by simp
  let ?Q = "\<lambda>lock (w :: walk, p). if lock then due (r - 1) p else due r p"
  show "\<exists>x t. walk_pending (nmi_env E) speed s = Inr (x, t) \<and> ?Q x t"
  proof (cases "(p_hdma p \<or> p_init p \<or> p_dma p) \<and> \<not> p_delay p")
    case True
    define m where "m = (let sync = 8 - w_t w mod 8 in
       thn (pass (nmi_env E) sync) (bnd (run_transfer (nmi_env E) sync) (\<lambda>count.
       thn (pass (nmi_env E) (speed - count mod speed)) (ret True))))"
    have e: "walk_pending (nmi_env E) speed s = m s"
      using True by (auto simp: walk_pending_def get_p_def get_w_def bnd_gets s m_def)
    have t: "sure (waiting_transfer r) (run_transfer (nmi_env E) n) (\<lambda>_ (w, p). due (r - 1) p)" for n
      using transfer_done[of r E n] by (simp add: waiting_transfer_def)
    have q: "sure (\<lambda>(w, p). due (r - 1) p) (thn (pass (nmi_env E) n) (ret True)) ?Q" for n
      by (rule sure_thn[OF nearing.surely_pass(2)]) (auto simp: sure_def ret_def)
    have "sure (waiting_transfer r) m ?Q" unfolding m_def Let_def
      by (rule sure_thn[OF locked.surely_pass(2)], rule sure_bnd[OF t q])
    moreover have "waiting_transfer r s" using a True by (auto simp: waiting_transfer_def s due_def due_after_transfer_def transfers_def)
    ultimately show ?thesis unfolding e by (rule sureD)
  next
    case False
    then show ?thesis using a due_flags(1)[OF a]
      by (auto simp: walk_pending_def get_p_def bnd_gets put_p_def thn_modify s ret_def)
  qed
qed

lemma sample_fields:
  "need_nmi (sample_lines l i p) \<longleftrightarrow> need_nmi p \<or> nmi_count p = 1 \<and> \<not> l"
  "nmi_count (sample_lines l i p) = (if nmi_count p = 1 \<and> l then 1 else nmi_count p - 1)"
  "transfers (sample_lines l i p) = transfers p"
  by (simp_all add: sample_lines_def Let_def transfers_def)

lemma start_nearer: "sure (\<lambda>(w, p). due (Suc r) p) (walk_cycle_start (nmi_env E) speed i) (\<lambda>_ (w, p). due r p)"
  unfolding walk_cycle_start_def put_p_def
proof (rule sure_bnd[OF pending_lock sure_modify], clarify)
  fix lock and w :: walk and p
  assume a: "if lock then due (Suc r - 1) p else due (Suc r) p"
  show "due r (sample_lines lock i p)"
    using a by (auto simp: due_def sample_fields split: if_splits)
qed

lemma start_seen: "sure (\<lambda>(w, p). due 0 p) (walk_cycle_start (nmi_env E) speed i) (\<lambda>_ (w, p). due 0 p)"
  unfolding walk_cycle_start_def put_p_def
  by (rule sure_bnd[OF pending_lock sure_modify]) (auto simp: due_def sample_fields split: if_splits)

text \<open>The idle cycle of WAI.\<close>

lemma wai_walk_sure:
  assumes "nmi_walks E"
  shows "\<exists>seen w' p'. wai_walk E i (w, p) = Inr (seen, w', p') \<and>
    (noticed n (w, p) \<longrightarrow> noticed n (w', p')) \<and> (due (Suc r) p \<longrightarrow> due r p') \<and> (due 0 p \<longrightarrow> seen \<and> due 0 p')"
proof -
  note e = nmi_env_simp[OF assms]
  note start = returning.surely_start[of E 6 i, unfolded e]
  obtain w1 p1 where 1: "walk_cycle_start E 6 i (w, p) = Inr ((), w1, p1)"
    using sureD[OF start, of "(w, p)"] by fastforce
  obtain x w' p' where 2: "walk_pass E 6 6 (w1, p1) = Inr (x, w', p')"
    using sureD[OF returning.surely_pass(1)[of E 6 6, unfolded e], of "(w1, p1)"] by fastforce
  have "noticed n (w', p')" if "noticed n (w, p)"
    using sureD[OF noticing.surely_start[of n E 6 i, unfolded e] that] sureD[OF noticing.surely_pass(1)[of n E 6 6, unfolded e], of "(w1, p1)"] 1 2 by auto
  moreover have d: "due k p'" if "due k p1" for k
    using sureD[OF nearing.surely_pass(1)[of k E 6 6, unfolded e], of "(w1, p1)"] that 2 by auto
  moreover have "due r p1" if "due (Suc r) p"
    using sureD[OF start_nearer[of r E 6 i, unfolded e], of "(w, p)"] that 1 by auto
  moreover have z: "due 0 p1" if "due 0 p"
    using sureD[OF start_seen[of E 6 i, unfolded e], of "(w, p)"] that 1 by auto
  moreover have "wai_walk E i (w, p) = Inr (need_nmi p1 \<or> irq_line p1, w', p')"
    using 1 2 by (simp add: wai_walk_def get_p_def bnd_gets ret_def thn_def)
  moreover have "need_nmi p1" if "due 0 p" using z[OF that] by (auto simp: due_def)
  ultimately show ?thesis by blast
qed

section \<open>Devices that return\<close>

text \<open>What the vendored devices and the callers' hooks leave alone besides the clock and the CPU: they return, and touch
  neither \<open>$4200\<close>, nor what is pending, nor DMA, nor the wait.\<close>

definition looks_same :: "'a charge_state_scheme \<Rightarrow> 'a charge_state_scheme \<Rightarrow> bool" where
  "looks_same s t \<longleftrightarrow> nmitimen (vr t) = nmitimen (vr s) \<and> pnd t = pnd s \<and> dma t = dma s \<and> waiting t = waiting s \<and> wai_over t = wai_over s"

definition devices_return :: "('a charge_state_scheme) video \<Rightarrow> bool" where
  "devices_return V \<longleftrightarrow> (\<forall>s. (\<forall>n. looks_same s (ppu_drawTo (v_ppu V) n s)) \<and> looks_same s (v_begin V s) \<and>
     (\<forall>n. looks_same s (v_run_line V n s)) \<and> (\<forall>n. looks_same s (v_apu_catch_up V n s)) \<and>
     (\<forall>f n. v_frame_hook V = Some f \<longrightarrow> (\<exists>t. f n s = Inr ((), t) \<and> looks_same s t)) \<and>
     (\<exists>t. v_yield_frame V s = Inr ((), t) \<and> looks_same s t))"

section \<open>Idle cycles return\<close>

text \<open>\<open>rests n p b\<close>: at the WAI, with \<open>$4200\<close> at \<open>n\<close>, HDMA off, \<open>wai_over\<close> at \<open>b\<close>, and pending what was in \<open>p\<close> but for a timer IRQ or an
  NMI that came.\<close>

definition pend_later :: "pend \<Rightarrow> pend \<Rightarrow> bool" where
  "pend_later p q \<longleftrightarrow> q\<lparr>irq_line := False, nmi_count := 0\<rparr> = p\<lparr>irq_line := False, nmi_count := 0\<rparr> \<and> (nmi_count q = nmi_count p \<or> nmi_count q = 1)"

definition rests :: "u8 \<Rightarrow> pend \<Rightarrow> bool \<Rightarrow> 'a charge_state_scheme \<Rightarrow> bool" where
  "rests n p b s \<longleftrightarrow> nmitimen (vr s) = n \<and> \<not> snes_hdma_enabled (dma s) \<and> waiting s \<and> wai_over s = b \<and> pend_later p (pnd s)"

lemma rests_same: "looks_same s t \<Longrightarrow> rests n p b t = rests n p b s"
  by (simp add: rests_def looks_same_def)

lemma rests_begin: "nmitimen (vr s) = n \<Longrightarrow> \<not> snes_hdma_enabled (dma s) \<Longrightarrow> waiting s \<Longrightarrow> rests n (pnd s) (wai_over s) s"
  by (simp add: rests_def pend_later_def)

lemma rests_event:
  "rests n p b s \<Longrightarrow> rests n p b (s\<lparr>pnd := (pnd s)\<lparr>irq_line := True\<rparr>\<rparr>)"
  "rests n p b s \<Longrightarrow> rests n p b (s\<lparr>pnd := (pnd s)\<lparr>nmi_count := 1\<rparr>\<rparr>)"
  by (simp_all add: rests_def pend_later_def)

lemma surely_same: "(\<And>s. looks_same s (f s)) \<Longrightarrow> surely (rests n p b) (modify f)"
  by (rule sure_modify) (use rests_same in blast)

lemma surely_same_act: "(\<And>s. \<exists>t. m s = Inr ((), t) \<and> looks_same s t) \<Longrightarrow> surely (rests n p b) m"
  by (rule sureI) (use rests_same in blast)

lemma surely_tm [sure_intro]: "surely (rests n p b) (tm_do f)"
  unfolding tm_do_def by (rule surely_same) (simp add: looks_same_def)

lemma surely_vr: "(\<And>r. nmitimen (f r) = nmitimen r) \<Longrightarrow> surely (rests n p b) (vr_do f)"
  unfolding vr_do_def by (rule sure_modify) (simp add: rests_def)

lemma surely_line [sure_intro]: "surely (rests n p b) get_line"
  unfolding get_line_def by (intro sure_intro)

lemma surely_devices:
  assumes "devices_return V"
  shows "surely (rests n p b) (modify (ppu_drawTo (v_ppu V) k))" "surely (rests n p b) (modify (v_begin V))"
    "surely (rests n p b) (modify (v_run_line V ln))" "surely (rests n p b) (modify (v_apu_catch_up V ln))"
    "v_frame_hook V = Some f \<Longrightarrow> surely (rests n p b) (f j)" "surely (rests n p b) (v_yield_frame V)"
  using assms unfolding devices_return_def by (auto intro!: surely_same surely_same_act)

lemma autojoy_keeps_nmitimen: "nmitimen (autojoy_update t r) = nmitimen r"
proof (induction t r rule: autojoy_update.induct)
  case (1 t r)
  have "nmitimen (autojoy_run r) = nmitimen r" by (simp add: autojoy_run_def Let_def)
  then show ?case using 1 by (simp add: autojoy_update.simps[of t r])
qed

text \<open>HDMA without a channel.\<close>

lemma hdma_still_off: "(\<And>c. ch_hdmaActive (f c) = ch_hdmaActive c) \<Longrightarrow> snes_hdma_enabled (upd_chan i f d) = snes_hdma_enabled d"
proof -
  assume f: "\<And>c. ch_hdmaActive (f c) = ch_hdmaActive c"
  have "ch_hdmaActive (channel (upd_chan i f d) k) = ch_hdmaActive (channel d k)" for k by (simp add: upd_chan_def f)
  then show ?thesis by (simp add: snes_hdma_enabled_def)
qed

lemma surely_dma_do:
  "(\<And>d. snes_hdma_enabled (f d) = snes_hdma_enabled d) \<Longrightarrow> surely (rests n p b) (dma_do f)"
  unfolding dma_do_def by (rule sure_modify) (simp add: rests_def)

lemma surely_chans:
  fixes h :: "('b charge_state_scheme) hooks"
  assumes "i < 8"
  shows "surely (rests n p b) (init_chan h i)" "surely (rests n p b) (hdma_chan h i)"
proof -
  have off: "\<not> ch_hdmaActive (channel (dma s) i)" if "rests n p b s" for s :: "'b charge_state_scheme"
    using that assms by (auto simp: rests_def snes_hdma_enabled_def)
  have u: "surely (rests n p b) (chan_do i f :: ('b charge_state_scheme, unit) act)" if "\<And>c. ch_hdmaActive (f c) = ch_hdmaActive c" for f
    unfolding chan_do_def using that by (intro surely_dma_do hdma_still_off)
  have m: "surely (rests n p b) (thn (chan_do i (\<lambda>c. c\<lparr>ch_doTransfer := False\<rparr>)) (thn (chan_do i (\<lambda>c. c\<lparr>ch_terminated := False\<rparr>)) (ret False)) :: ('b charge_state_scheme, bool) act)"
    by (intro sure_intro u) simp_all
  show "surely (rests n p b) (init_chan h i)"
  proof (rule sureI)
    fix s :: "'b charge_state_scheme" assume s: "rests n p b s"
    have "init_chan h i s = thn (chan_do i (\<lambda>c. c\<lparr>ch_doTransfer := False\<rparr>)) (thn (chan_do i (\<lambda>c. c\<lparr>ch_terminated := False\<rparr>)) (ret False)) s"
      using off[OF s] by (simp add: init_chan_def chan_get_def bnd_gets bnd_assoc thn_def ret_def bnd_def split: sum.splits)
    then show "\<exists>x t. init_chan h i s = Inr (x, t) \<and> rests n p b t" using sureD[OF m s] by simp
  qed
  show "surely (rests n p b) (hdma_chan h i)"
    by (rule sureI) (use off in \<open>auto simp: hdma_chan_def chan_get_def bnd_gets ret_def\<close>)
qed

lemma surely_any:
  assumes "\<And>i. i \<in> set is \<Longrightarrow> surely P (f i)"
  shows "surely P (any_chan f is)"
  using assms by (induction "is") (auto simp only: any_chan.simps list.set_intros intro!: sure_intro)

lemma surely_hdma [sure_intro]: "surely (rests n p b) (dma_doHdma (h :: ('b charge_state_scheme) hooks))" "surely (rests n p b) (dma_initHdma h)"
proof -
  have r: "surely (rests n p b) (hdma_round f)" if f: "\<And>i. i < 8 \<Longrightarrow> surely (rests n p b) (f i)" for f :: "nat \<Rightarrow> ('b charge_state_scheme, bool) act"
  proof -
    have "surely (rests n p b) (any_chan f [0..<8])" using f by (intro surely_any) simp
    then show ?thesis unfolding hdma_round_def
      by (intro sure_intro surely_dma_do) (simp_all add: snes_hdma_enabled_def)
  qed
  show "surely (rests n p b) (dma_doHdma h)" "surely (rests n p b) (dma_initHdma h)"
    unfolding dma_doHdma_def dma_initHdma_def by (intro r surely_chans; assumption)+
qed

text \<open>The clock of an access, and the start of a line.\<close>

definition nmi_on :: "u8 \<Rightarrow> bool" where
  "nmi_on n \<longleftrightarrow> n AND 0x10 = 0 \<and> n AND 0x80 \<noteq> 0"

lemma rests_walks: "rests n p b s \<Longrightarrow> nmi_on n \<Longrightarrow> nmi_walks (env_of s)"
  by (simp add: rests_def nmi_on_def nmi_walks_def env_of_def)

lemma surely_access_clock:
  assumes "nmi_on n"
  shows "surely (rests n p b) access_clock"
proof (rule sureI)
  fix s :: "'a charge_state_scheme" assume s: "rests n p b s"
  let ?k = "ct_bus_n s - 1"
  obtain x w q where "walk_insn ?k s = Inr (x, w, q)"
    using sureD[OF returning.surely_cycles[of "env_of s" "insn_i s" "cyc_cycles s 160 ?k" "w_t (walk_init (tm s))"], of "(walk_init (tm s), pnd s)"]
      nmi_env_simp[OF rests_walks[OF s assms]] by (auto simp: walk_insn_def Let_def)
  then show "\<exists>x t. access_clock s = Inr (x, t) \<and> rests n p b t"
    using s by (simp add: access_clock_def)
qed

lemma surely_begin_tm:
  assumes "nmi_on n"
  shows "surely (rests n p b) (bnd (gets irq_clock) (\<lambda>r. case r of Inl e \<Rightarrow> die e | Inr at \<Rightarrow> tm_do (begin_tm at)))"
proof (rule sureI)
  fix s :: "'a charge_state_scheme" assume s: "rests n p b s"
  obtain at where "irq_clock s = Inr at"
    using irq_clock_off[of n "htime (vr s)" "vtime (vr s)" "line (tm s)"] s assms by (auto simp: irq_clock_def rests_def nmi_on_def)
  then show "\<exists>x t. bnd (gets irq_clock) (\<lambda>r. case r of Inl e \<Rightarrow> die e | Inr at \<Rightarrow> tm_do (begin_tm at)) s = Inr (x, t) \<and> rests n p b t"
    using sureD[OF surely_tm s] by (simp add: bnd_gets)
qed

lemma surely_start_line:
  assumes "nmi_on n" "devices_return V"
  shows "surely (rests n p b) (begin_line V h)"
proof -
  note d = surely_devices(1-4,6)[OF assms(2)]
  have f: "surely (rests n p b) (start_frame V h)"
    unfolding start_frame_def by (intro sure_intro surely_vr d) simp
  have v: "surely (rests n p b) (start_vblank V)"
    unfolding start_vblank_def draw_rest_def
    by (intro sure_intro surely_vr surely_same d) (simp_all add: looks_same_def snes_oam_vblank_reload_def ppu_do_def autojoy_arm_def Let_def)
  show ?thesis unfolding begin_line_def start_line_def
    by (intro sure_intro surely_begin_tm surely_vr f v d assms(1)) (rule autojoy_keeps_nmitimen)
qed

lemma surely_edge:
  assumes "devices_return V" "v_frame_hook V = Some f"
  shows "surely (rests n p b) (edge_hook f)"
proof -
  have u: "looks_same s (fold undo_write ks s)" "looks_same s (fold redo_write ks s)" for s :: "'a charge_state_scheme" and ks
    by (induction ks arbitrary: s) (auto simp: looks_same_def undo_write_def redo_write_def Let_def)
  show ?thesis unfolding edge_hook_def
    by (intro sure_intro surely_same u surely_devices(5)[OF assms])
qed

lemma surely_advance_event:
  assumes "nmi_on n" "devices_return V"
  shows "surely (rests n p b) (advance_event V h k)"
proof -
  note d = surely_devices(1-4,6)[OF assms(2)]
  have apu: "surely (rests n p b) (apu_sync V 0)"
    unfolding apu_sync_def by (intro sure_intro surely_access_clock assms(1) d)
  have e: "surely (rests n p b) (case v_frame_hook V of Some f \<Rightarrow> edge_hook f | None \<Rightarrow> ret ())"
    using surely_edge[OF assms(2)] by (cases "v_frame_hook V") (auto intro: sure_intro)
  have i: "surely (rests n p b) (pnd_do (\<lambda>p. p\<lparr>irq_line := True\<rparr>))" "surely (rests n p b) (pnd_do (\<lambda>p. p\<lparr>nmi_count := 1\<rparr>))"
    unfolding pnd_do_def by (rule sure_modify; rule rests_event; assumption)+
  show ?thesis
    unfolding advance_event_def adv_line_def draw_rest_def
    by (cases k; simp only: adv.case; intro sure_intro surely_vr surely_start_line apu e i d assms) simp_all
qed

text \<open>The event loop returns: its fuel is enough, and no event fails.\<close>

lemma surely_advance:
  assumes "hooks_steady h" "video_steady V" "nmi_on n" "devices_return V"
  shows "surely (rests n p b) (advance V h clocks)"
proof (rule sureI)
  fix s :: "'a charge_state_scheme" assume s: "rests n p b s"
  define s1 where "s1 = s\<lparr>tm := (tm s)\<lparr>hclock := hclock (tm s) + clocks\<rparr>\<rparr>"
  have s1: "rests n p b s1" using s rests_same[of s s1] by (simp add: looks_same_def s1_def)
  note ev = surely_advance_event[OF assms(3,4), of p b h]
  obtain u where u: "(adv_step V h)\<^sup>*\<^sup>* s1 u"
    "let k = adv_next (vr u) (tm u) in if k = Adv_none then advance_loop (adv_fuel (tm s1)) V h s1 = Inr ((), u)
       else \<exists>e. advance_event V h k u = Inl e \<and> advance_loop (adv_fuel (tm s1)) V h s1 = Inl e"
    using advance_loop_over[OF assms(1,2) adv_measure_fuel, of s1] unfolding adv_over_def by blast
  have "rests n p b u" using u(1) s1
  proof (induction rule: rtranclp_induct)
    case (step v w)
    from step(2) obtain k where "advance_event V h k v = Inr ((), w)" by (rule adv_stepE) blast
    then show ?case using sureD[OF ev step(3)[OF step(4)], of k] by auto
  qed
  moreover have "adv_next (vr u) (tm u) = Adv_none"
  proof (rule ccontr)
    assume "\<not> ?thesis"
    then show False using u(2) sureD[OF ev \<open>rests n p b u\<close>, of "adv_next (vr u) (tm u)"] by (auto simp: Let_def)
  qed
  ultimately show "\<exists>x t. advance V h clocks s = Inr (x, t) \<and> rests n p b t"
    using u(2) by (simp add: advance_def tm_do_def thn_modify bnd_gets s1_def[symmetric] Let_def)
qed

lemma surely_commit:
  assumes "hooks_steady h" "video_steady V" "nmi_on n" "devices_return V"
  shows "surely (rests n p b) (walk_commit V h w start t)"
  unfolding walk_commit_def by (intro sure_intro surely_advance assms)

section \<open>A step at the WAI\<close>

text \<open>Waiting with the NMI on, HDMA off and the timer not in H mode.\<close>

definition awaits_nmi :: "'a charge_state_scheme \<Rightarrow> bool" where
  "awaits_nmi s \<longleftrightarrow> on_beam s \<and> interp_waiting s \<and> nmi_on (nmitimen (vr s)) \<and> \<not> snes_hdma_enabled (dma s)"

definition nmis_past :: "timing \<Rightarrow> int" where
  "nmis_past m = nmi_points (frames m) (line m) (nmi_done m)"

lemma pend_later_fields:
  assumes "pend_later p q"
  shows "due r p \<Longrightarrow> due r q" "alarm p \<Longrightarrow> alarm q"
proof -
  have e: "q\<lparr>irq_line := False, nmi_count := 0\<rparr> = p\<lparr>irq_line := False, nmi_count := 0\<rparr>" and c: "nmi_count q = nmi_count p \<or> nmi_count q = 1"
    using assms by (simp_all add: pend_later_def)
  have f: "need_nmi q = need_nmi p" "p_hdma q = p_hdma p" "p_init q = p_init p" "p_dma q = p_dma p"
    using arg_cong[OF e, of need_nmi] arg_cong[OF e, of p_hdma] arg_cong[OF e, of p_init] arg_cong[OF e, of p_dma] by simp_all
  show "due r p \<Longrightarrow> due r q" "alarm p \<Longrightarrow> alarm q" using c by (auto simp: due_def alarm_def transfers_def f)
qed

lemma wai_skip_points:
  assumes "hooks_steady h" "video_steady V" "on_beam s" "wai_skip V h s = Inr (x, t)"
  shows "nmis_past (tm t) = nmis_past (tm s)"
  using wai_skip_quiet[OF assms(4)]
proof (elim disjE exE conjE)
  fix k assume k: "quiet_tm k (tm s)" "advance V h k s = Inr (x, t)"
  have "placed (tm s)" using assms(3) by (simp add: on_beam_def in_time_def)
  from advance_quiet[OF assms(1,2) this k] show ?thesis by (auto simp: nmis_past_def)
qed simp

text \<open>After a committed walk, the NMI points are those of the walk.\<close>

lemma commit_points:
  assumes "in_time m" "settled E w" "line m = w_line w" "frames m = w_frame w" "line_start m = w_ls w" "w_ls w + hclock m = w_t w"
  shows "nmis_past m = nmi_points (w_frame w) (w_line w) (w_nmi_done w)"
proof -
  have "nmi_done m \<longleftrightarrow> w_nmi_done w" if "w_line w = SCHED_VBLANK_LINE"
  proof -
    have "nmi_done m \<longleftrightarrow> 6 \<le> hclock m" "w_nmi_done w \<longleftrightarrow> w_ls w + 6 \<le> w_t w"
      using assms(1-3) that by (simp_all add: in_time_def settled_def)
    then show ?thesis using assms(6) by linarith
  qed
  then show ?thesis using assms(3,4) by (auto simp: nmis_past_def nmi_points_def)
qed

lemma idle_step:
  assumes "hooks_steady h" "video_steady V" "devices_return V" "awaits_nmi s"
  shows "\<exists>t. wai_cycle V h s = Inr ((), t) \<and> awaits_nmi t \<and> sched_clock s + 6 \<le> sched_clock t \<and> field_base (tm t) = field_base (tm s) \<and>
    (alarm (pnd t) \<or> nmis_past (tm t) = nmis_past (tm s)) \<and> (\<forall>r. due (Suc r) (pnd s) \<longrightarrow> due r (pnd t)) \<and>
    (due 0 (pnd s) \<longrightarrow> wai_over t)"
proof -
  let ?n = "nmitimen (vr s)"
  have s: "on_beam s" "waiting s" "nmi_on ?n" "\<not> snes_hdma_enabled (dma s)" using assms(4) by (simp_all add: awaits_nmi_def interp_waiting_def)
  have r: "rests ?n (pnd s) (wai_over s) s" using s by (intro rests_begin) simp_all
  obtain u where u: "wai_skip V h s = Inr ((), u)" "rests ?n (pnd s) (wai_over s) u"
  proof -
    have "surely (rests ?n (pnd s) (wai_over s)) (wai_skip V h)"
      unfolding wai_skip_def Let_def by (intro sure_intro surely_advance assms s)
    from sureD[OF this r] that show thesis by auto
  qed
  have ub: "on_beam u" "nmis_past (tm u) = nmis_past (tm s)" "field_base (tm u) = field_base (tm s)" "sched_clock s \<le> sched_clock u"
    using wai_skip_on_beam[OF assms(1,2) s(1) u(1)] wai_skip_points[OF assms(1,2) s(1) u(1)] by simp_all
  have un: "nmitimen (vr u) = ?n" "pend_later (pnd s) (pnd u)" "wai_over u = wai_over s" using u(2) by (simp_all add: rests_def)
  have E: "nmi_walks (env_of u)" using rests_walks[OF u(2) s(3)] .
  let ?w0 = "walk_init (tm u)" and ?i = "fl_i (cpu u) \<noteq> 0"
  obtain seen w p where w: "wai_walk (env_of u) ?i (?w0, pnd u) = Inr (seen, w, p)"
    using wai_walk_sure[OF E] by blast
  define u1 where "u1 = (if seen then u\<lparr>pnd := p, wai_over := True\<rparr> else u\<lparr>pnd := p\<rparr>)"
  have u1: "rests ?n p (wai_over u1) u1" using u(2) by (auto simp: rests_def u1_def pend_later_def)
  obtain t where t: "walk_commit V h w (w_t ?w0) (w_t w) u1 = Inr ((), t)" "rests ?n p (wai_over u1) t"
    using sureD[OF surely_commit[OF assms(1,2) s(3) assms(3), where w = w and start = "w_t ?w0" and t = "w_t w"] u1] by auto
  have i: "wai_idle V h u = Inr ((), t)"
    using t(1) by (simp add: wai_idle_def bnd_gets Let_def w pnd_do_def thn_modify whenM_def thn_def u1_def bnd_def ret_def split: if_splits)
  then have c: "wai_cycle V h s = Inr ((), t)" using u(1) by (simp add: wai_cycle_def)
  from wai_cycle_on_beam[OF assms(1,2) s(1) c] have tb: "on_beam t" "sched_clock s + 6 \<le> sched_clock t" "field_base (tm t) = field_base (tm s)" by simp_all
  have pt: "pend_later p (pnd t)" "wai_over t = wai_over u1" using t(2) by (simp_all add: rests_def)
  have at: "awaits_nmi t" using t(2) tb(1) s(3) by (simp add: awaits_nmi_def rests_def interp_waiting_def)
  have seen: "due 0 (pnd u) \<Longrightarrow> wai_over u1" "due (Suc r) (pnd u) \<Longrightarrow> due r p"
    "noticed k (?w0, pnd u) \<Longrightarrow> noticed k (w, p)" for r k
    using wai_walk_sure[OF E, of ?i ?w0 "pnd u" k r] w by (auto simp: u1_def)
  have "alarm (pnd t) \<or> nmis_past (tm t) = nmis_past (tm u)"
  proof -
    have "placed (tm u)" using ub(1) by (simp add: on_beam_def in_time_def)
    then have "noticed (nmis_past (tm u)) (?w0, pnd u)" by (simp add: noticed_def nmis_past_def placed_def walk_init_def)
    then have n: "noticed (nmis_past (tm u)) (w, p)" by (rule seen(3))
    have e: "tm u1 = tm u" "sched_clock u1 = sched_clock u" "w_t ?w0 = sched_clock u1"
      by (simp_all add: u1_def sched_clock_def)
    note ww = wai_walk_on_beam[OF ub(1) w]
    have "on_beam u1" using ub(1) on_beam_tm[OF e(1)] by simp
    from commit_on_beam[OF assms(1,2) this t(1)[unfolded e(3)] ww(1,2)] ww(3,4)
    have "line (tm t) = w_line w" "frames (tm t) = w_frame w" "line_start (tm t) = w_ls w" "sched_clock t = w_t w"
      by (simp_all add: e)
    then have "nmis_past (tm t) = nmi_points (w_frame w) (w_line w) (w_nmi_done w)"
      using tb(1) by (intro commit_points[OF _ ww(2)]) (simp_all add: on_beam_def sched_clock_def)
    then show ?thesis using n pend_later_fields(2)[OF pt(1)] by (auto simp: noticed_def)
  qed
  then have 1: "alarm (pnd t) \<or> nmis_past (tm t) = nmis_past (tm s)" by (simp add: ub(2))
  have 2: "\<forall>r. due (Suc r) (pnd s) \<longrightarrow> due r (pnd t)"
    using pend_later_fields(1)[OF un(2)] seen(2) pend_later_fields(1)[OF pt(1)] by blast
  have 3: "due 0 (pnd s) \<longrightarrow> wai_over t" using pend_later_fields(1)[OF un(2), of 0] seen(1) pt(2) by blast
  show ?thesis using c at tb 1 2 3 by blast
qed

section \<open>The wait ends\<close>

definition wakes :: "('a sched_cpu_scheme) sched_env \<Rightarrow> 'a sched_cpu_scheme \<Rightarrow> bool" where
  "wakes E s \<longleftrightarrow> (\<exists>fuel t. run_until fuel E (\<lambda>t. \<not> interp_waiting t) s = Inr ((), t) \<and> on_beam t)"

lemma wakes_now:
  assumes "on_beam s" "\<not> interp_waiting s"
  shows "wakes E s"
proof -
  have "run_until (Suc 0) E (\<lambda>t. \<not> interp_waiting t) s = Inr ((), s)" using assms(2) by (simp add: bnd_gets ret_def)
  then show ?thesis using assms(1) unfolding wakes_def by blast
qed

lemma wakes_later:
  assumes "interp_waiting s" "\<And>fuel. exec_one fuel E s = Inr ((), u)" "wakes E u"
  shows "wakes E s"
proof -
  obtain fuel t where t: "run_until fuel E (\<lambda>t. \<not> interp_waiting t) u = Inr ((), t)" "on_beam t" using assms(3) by (auto simp: wakes_def)
  have "run_until (Suc fuel) E (\<lambda>t. \<not> interp_waiting t) s = Inr ((), t)"
    using assms(1,2) t(1) by (simp add: bnd_gets)
  then show ?thesis using t(2) unfolding wakes_def by blast
qed

definition env_returns :: "('a sched_cpu_scheme) sched_env \<Rightarrow> bool" where
  "env_returns E \<longleftrightarrow> hooks_steady (se_hooks E) \<and> video_steady (se_video E) \<and> devices_return (se_video E)"

text \<open>A step of the CPU loop at the WAI.\<close>

lemma waiting_step:
  assumes "env_returns E" "awaits_nmi s"
  obtains u where "wai_over s" "\<And>fuel. exec_one fuel E s = Inr ((), u)" "on_beam u" "\<not> interp_waiting u"
  | u where "\<not> wai_over s" "\<And>fuel. exec_one fuel E s = Inr ((), u)" "awaits_nmi u" "sched_clock s + 6 \<le> sched_clock u"
      "field_base (tm u) = field_base (tm s)" "alarm (pnd u) \<or> nmis_past (tm u) = nmis_past (tm s)"
      "\<And>r. due (Suc r) (pnd s) \<Longrightarrow> due r (pnd u)" "due 0 (pnd s) \<Longrightarrow> wai_over u"
proof -
  let ?s = "s\<lparr>skip_check := False\<rparr>"
  have e: "tm ?s = tm s" by simp
  have s: "awaits_nmi ?s" using assms(2) on_beam_tm[OF e] by (simp add: awaits_nmi_def interp_waiting_def)
  have w: "interp_waiting s" "interp_waiting ?s" using assms(2) by (simp_all add: awaits_nmi_def interp_waiting_def)
  obtain u where u: "wai_cycle (se_video E) (se_hooks E) ?s = Inr ((), u)" "awaits_nmi u" "sched_clock s + 6 \<le> sched_clock u"
      "field_base (tm u) = field_base (tm s)" "alarm (pnd u) \<or> nmis_past (tm u) = nmis_past (tm s)"
      "\<And>r. due (Suc r) (pnd s) \<Longrightarrow> due r (pnd u)" "due 0 (pnd s) \<Longrightarrow> wai_over u"
    using idle_step[of "se_hooks E" "se_video E" ?s] assms(1) s by (auto simp: env_returns_def sched_clock_def)
  have x: "exec_one fuel E s = exec_wai E ?s" for fuel using w by (simp add: exec_one_def bnd_gets thn_modify)
  show thesis
  proof (cases "wai_over s")
    case True
    let ?u = "u\<lparr>wai_over := False, waiting := False, take_irq := prev_irq (pnd u)\<rparr>"
    have "exec_wai E ?s = Inr ((), ?u)"
      using u(1) True by (simp add: exec_wai_def bnd_gets whenM_def thn_modify interp_wake_def modify_def)
    moreover have t: "tm ?u = tm u" by simp
    then have "on_beam ?u" using u(2) on_beam_tm[OF t] by (simp add: awaits_nmi_def)
    ultimately show thesis using that(1)[of ?u] True x by (simp add: interp_waiting_def)
  next
    case False
    have "exec_wai E ?s = Inr ((), u)" using u(1) False by (simp add: exec_wai_def bnd_gets whenM_def ret_def)
    then show thesis using that(2)[of u] False x u(2-) by simp
  qed
qed

lemma over_wakes:
  assumes "env_returns E" "awaits_nmi s" "wai_over s"
  shows "wakes E s"
  using waiting_step[OF assms(1,2)]
proof cases
  case (1 u)
  then show ?thesis using assms(2) wakes_now[of u E] wakes_later[of s E u] by (simp add: awaits_nmi_def)
next
  case (2 u)
  then show ?thesis using assms(3) by simp
qed

lemma due_wakes:
  assumes "env_returns E"
  shows "awaits_nmi s \<Longrightarrow> due r (pnd s) \<Longrightarrow> wakes E s"
proof (induction r arbitrary: s)
  case (0 s)
  show ?case using waiting_step[OF assms 0(1)]
  proof cases
    case (2 u)
    then have "wakes E u" using over_wakes[OF assms] 0(2) by blast
    then show ?thesis using wakes_later[OF _ 2(2)] 0(1) by (simp add: awaits_nmi_def)
  qed (use over_wakes[OF assms 0(1)] in blast)
next
  case (Suc r s)
  show ?case using waiting_step[OF assms Suc.prems(1)]
  proof cases
    case (2 u)
    then have "wakes E u" using Suc by blast
    then show ?thesis using wakes_later[OF _ 2(2)] Suc.prems(1) by (simp add: awaits_nmi_def)
  qed (use over_wakes[OF assms Suc.prems(1)] in blast)
qed

lemma alarm_wakes:
  assumes "env_returns E" "awaits_nmi s" "alarm (pnd s)"
  shows "wakes E s"
proof (rule due_wakes[OF assms(1,2)])
  show "due (transfers (pnd s) + nmi_count (pnd s)) (pnd s)" using assms(3) by (auto simp: due_def alarm_def)
qed

text \<open>Until the next NMI point the clock is before the end of its frame.\<close>

lemma clock_before:
  assumes "on_beam s"
  shows "int (sched_clock s) < line_begin (nmis_past (tm s) - field_base (tm s) + 1) 0"
proof -
  let ?f = "frames (tm s) - field_base (tm s)" and ?g = "nmis_past (tm s) - field_base (tm s)"
  have "frames (tm s) \<le> nmis_past (tm s)" by (simp add: nmis_past_def nmi_points_def)
  then have "?f + 1 \<le> ?g + 1" by simp
  then have "line_begin (?f + 1) 0 \<le> line_begin (?g + 1) 0" using line_begin_frames by blast
  then show ?thesis using in_time_frame[of "tm s"] assms by (simp add: on_beam_def sched_clock_def)
qed

lemma awaits_wakes:
  assumes "env_returns E"
  shows "awaits_nmi s \<Longrightarrow> wakes E s"
proof (induction "nat (line_begin (nmis_past (tm s) - field_base (tm s) + 1) 0 - int (sched_clock s))" arbitrary: s rule: less_induct)
  case less
  show ?case using waiting_step[OF assms less.prems]
  proof cases
    case (2 u)
    have "wakes E u"
    proof (cases "alarm (pnd u)")
      case True
      then show ?thesis by (rule alarm_wakes[OF assms 2(3)])
    next
      case False
      have "int (sched_clock s) < line_begin (nmis_past (tm s) - field_base (tm s) + 1) 0"
        using less.prems by (intro clock_before) (simp add: awaits_nmi_def)
      then show ?thesis using less.hyps[OF _ 2(3)] 2(4-6) False by simp
    qed
    then show ?thesis using wakes_later[OF _ 2(2)] less.prems by (simp add: awaits_nmi_def)
  qed (use over_wakes[OF assms less.prems] in blast)
qed

text \<open>C2. WAI always ends. A program waiting in WAI with the NMI enabled, no HDMA channel and the timer not in H mode, at whatever
  position of whatever frame and with whatever general DMA pending, wakes: no step of the CPU loop on the way fails, the
  loop is left after finitely many steps, and the scheduler is then on the beam. The devices and the callers' hooks need only
  return and leave scheduler, DMA and wait alone.\<close>

theorem wai_ends:
  assumes "runs_on E M" "devices_return (se_video E)" "on_beam s" "interp_waiting s"
    and "nmitimen (vr s) AND 0x80 \<noteq> 0" "nmitimen (vr s) AND 0x10 = 0" "\<not> snes_hdma_enabled (dma s)"
  shows "\<exists>fuel t. run_until fuel E (\<lambda>t. \<not> interp_waiting t) s = Inr ((), t) \<and> on_beam t"
proof -
  have "env_returns E" using runs_on_steady[OF assms(1)] assms(2) by (simp add: env_returns_def)
  moreover have "awaits_nmi s" using assms(3-) by (simp add: awaits_nmi_def nmi_on_def)
  ultimately have "wakes E s" by (rule awaits_wakes)
  then show ?thesis by (simp add: wakes_def)
qed

definition waiting_zero :: sched_cpu where
  "waiting_zero = sched_zero\<lparr>waiting := True, vr := vregs_zero\<lparr>nmitimen := 0x81\<rparr>\<rparr>"

theorem wai_ends_witness:
  "\<exists>h fuel t. run_until fuel (idle_env h) (\<lambda>t. \<not> interp_waiting t) waiting_zero = Inr ((), t) \<and> on_beam t"
proof -
  obtain h where h: "runs_on (idle_env h) (idle_machine :: sched_cpu machine)" using idle_runs_on by blast
  have d: "devices_return (se_video (idle_env h))" by (simp add: devices_return_def idle_env_def idle_video_def looks_same_def ret_def)
  have e: "tm waiting_zero = tm sched_zero" by (simp add: waiting_zero_def)
  have b: "on_beam waiting_zero" using sched_zero_on_beam on_beam_tm[OF e] by simp
  have w: "interp_waiting waiting_zero" "nmitimen (vr waiting_zero) AND 0x80 \<noteq> 0" "nmitimen (vr waiting_zero) AND 0x10 = 0"
    by (simp_all add: waiting_zero_def interp_waiting_def)
  have n: "\<not> snes_hdma_enabled (dma waiting_zero)"
    by (simp add: waiting_zero_def sched_zero_def charge_state.defs charge_zero_def frame_state.defs frame_zero_simps snes_hdma_enabled_def dma_zero_def chan_reset_def)
  show ?thesis using wai_ends[OF h d b w n] by blast
qed

end
