(* ===== verification/Ct_Replay.thy ===== *)
theory Ct_Replay
  imports Ct_Prelude
begin

text \<open>
  Input replay scripts, \<open>runtime/replay.c\<close>: the parser of spans and \<open>reset\<close> lines, the recorder that
  writes the same format, and what a script holds at a frame. A file is its text, opening and closing
  it is I/O; memory does not run out. The functions of the C library (\<open>sscanf\<close> with the formats used here,
  \<open>strtok\<close>, \<open>strtoul\<close>, \<open>fgets\<close>, \<open>printf\<close> of \<open>%ld\<close>) are written out; \<open>long\<close> has 64 bits and
  a number out of its range is the nearest one in it.
\<close>

section \<open>The C library\<close>

definition is_space :: "char \<Rightarrow> bool" where
  "is_space c \<longleftrightarrow> c = CHR '' '' \<or> 9 \<le> (of_char c :: nat) \<and> (of_char c :: nat) \<le> 13"

definition is_digit :: "char \<Rightarrow> bool" where
  "is_digit c \<longleftrightarrow> 48 \<le> (of_char c :: nat) \<and> (of_char c :: nat) \<le> 57"

definition digit :: "char \<Rightarrow> nat" where "digit c = of_char c - 48"

definition hex_digit :: "char \<Rightarrow> nat option" where
  "hex_digit c = (let n = of_char c in if 48 \<le> n \<and> n \<le> 57 then Some (n - 48)
     else if 65 \<le> n \<and> n \<le> 70 then Some (n - 55) else if 97 \<le> n \<and> n \<le> 102 then Some (n - 87) else None)"

definition skip_space :: "string \<Rightarrow> string" where "skip_space = dropWhile is_space"

text \<open>An optional sign; whether it is a minus, and the rest.\<close>

definition scan_sign :: "string \<Rightarrow> bool \<times> string" where
  "scan_sign s = (case s of [] \<Rightarrow> (False, [])
     | c # r \<Rightarrow> if c = CHR ''-'' then (True, r) else if c = CHR ''+'' then (False, r) else (False, s))"

definition LONG_MAX :: int where "LONG_MAX = 2 ^ 63 - 1"

definition to_long :: "int \<Rightarrow> int" where "to_long n = max (- LONG_MAX - 1) (min LONG_MAX n)"

text \<open>\<open>%ld\<close>: the number and what follows it.\<close>

definition scan_long :: "string \<Rightarrow> (int \<times> string) option" where
  "scan_long s = (let (neg, r) = scan_sign (skip_space s); ds = takeWhile is_digit r; n = int (foldl (\<lambda>n c. 10 * n + digit c) 0 ds)
     in if ds = [] then None else Some (to_long (if neg then - n else n), dropWhile is_digit r))"

text \<open>Literal text, and \<open>%<n>s\<close>.\<close>

fun scan_lit :: "string \<Rightarrow> string \<Rightarrow> string option" where
  "scan_lit [] s = Some s"
| "scan_lit (c # cs) [] = None"
| "scan_lit (c # cs) (d # s) = (if c = d then scan_lit cs s else None)"

definition scan_word :: "nat \<Rightarrow> string \<Rightarrow> (string \<times> string) option" where
  "scan_word n s = (let r = skip_space s; w = take n (takeWhile (\<lambda>c. \<not> is_space c) r)
     in if w = [] then None else Some (w, drop (length w) r))"

text \<open>\<open>strtok(s, "+")\<close>, called until it returns NULL.\<close>

function strtok_plus :: "string \<Rightarrow> string list" where
  "strtok_plus s = (let r = dropWhile (\<lambda>c. c = CHR ''+'') s in
     if r = [] then [] else takeWhile (\<lambda>c. c \<noteq> CHR ''+'') r # strtok_plus (dropWhile (\<lambda>c. c \<noteq> CHR ''+'') r))"
  by pat_completeness auto
termination
proof (relation "measure length")
  fix s r :: string
  assume r: "r = dropWhile (\<lambda>c. c = CHR ''+'') s" "r \<noteq> []"
  then have "hd r \<noteq> CHR ''+''" using hd_dropWhile[of "\<lambda>c. c = CHR ''+''" s] by simp
  then have "dropWhile (\<lambda>c. c \<noteq> CHR ''+'') r = dropWhile (\<lambda>c. c \<noteq> CHR ''+'') (tl r)" using r(2) by (cases r) simp_all
  then have "length (dropWhile (\<lambda>c. c \<noteq> CHR ''+'') r) < length r"
    using length_dropWhile_le[of "\<lambda>c. c \<noteq> CHR ''+''" "tl r"] r(2) by (cases r) simp_all
  moreover have "length r \<le> length s" unfolding r(1) by (rule length_dropWhile_le)
  ultimately show "(dropWhile (\<lambda>c. c \<noteq> CHR ''+'') r, s) \<in> measure length" by simp
qed simp

declare strtok_plus.simps [simp del]

text \<open>\<open>strtoul(s, &end, 16)\<close>: the value and \<open>end\<close>.\<close>

definition hex_prefix :: "string \<Rightarrow> string" where
  "hex_prefix s = (case s of c # d # e # r \<Rightarrow>
     if c = CHR ''0'' \<and> (d = CHR ''x'' \<or> d = CHR ''X'') \<and> hex_digit e \<noteq> None then e # r else s | _ \<Rightarrow> s)"

definition strtoul16 :: "string \<Rightarrow> nat \<times> string" where
  "strtoul16 s = (let (neg, r) = scan_sign (skip_space s); h = hex_prefix r; ds = takeWhile (\<lambda>c. hex_digit c \<noteq> None) h;
       n = foldl (\<lambda>n c. 16 * n + the (hex_digit c)) 0 ds; v = (if n < 2 ^ 64 then (if neg then (2 ^ 64 - n) mod 2 ^ 64 else n) else 2 ^ 64 - 1)
     in if ds = [] then (0, s) else (v, dropWhile (\<lambda>c. hex_digit c \<noteq> None) h))"

text \<open>\<open>fgets\<close> of at most \<open>n\<close> characters, called until the end of the file.\<close>

fun fgets :: "nat \<Rightarrow> string \<Rightarrow> string \<times> string" where
  "fgets 0 s = ([], s)"
| "fgets (Suc n) [] = ([], [])"
| "fgets (Suc n) (c # s) = (if c = CHR 0x0A then ([c], s) else let (l, r) = fgets n s in (c # l, r))"

lemma fgets_shorter: "length (snd (fgets n s)) \<le> length s"
proof (induction n s rule: fgets.induct)
  case (3 n c s)
  then show ?case by (cases "c = CHR 0x0A") (simp_all add: case_prod_beta)
qed simp_all

function file_lines :: "string \<Rightarrow> string list" where
  "file_lines s = (if s = [] then [] else let (l, r) = fgets 255 s in l # file_lines r)"
  by pat_completeness auto
termination
proof (relation "measure length")
  fix s x l r
  assume s: "(s :: string) \<noteq> []" and x: "x = fgets 255 s" "(l, r) = x"
  obtain c s' where c: "s = c # s'" using s by (cases s) simp_all
  have "length (snd (fgets (Suc 254) (c # s'))) \<le> length s'"
    using fgets_shorter[of 254 s'] unfolding fgets.simps(3) by (cases "c = CHR 0x0A") (simp_all add: case_prod_beta)
  moreover have "Suc 254 = 255" by simp
  moreover have "snd (fgets 255 s) = r" using x by (metis snd_conv)
  ultimately show "(r, s) \<in> measure length" using c by simp
qed simp

declare file_lines.simps [simp del]

text \<open>\<open>printf\<close> of \<open>%ld\<close>.\<close>

fun decimal :: "nat \<Rightarrow> string" where
  "decimal n = (if n < 10 then [char_of (48 + n)] else decimal (n div 10) @ [char_of (48 + n mod 10)])"

declare decimal.simps [simp del]

definition print_long :: "int \<Rightarrow> string" where
  "print_long n = (if n < 0 then CHR ''-'' # decimal (nat (- n)) else decimal (nat n))"

section \<open>Scripts\<close>

record replay_span =
  sp_from :: int
  sp_to :: int
  sp_buttons :: u16

record replay =
  spans :: "replay_span list"
  resets :: "int list"

definition no_script :: replay where "no_script = \<lparr>spans = [], resets = []\<rparr>"

definition names :: "(string \<times> u16) list" where
  "names = [(''b'', 0x8000), (''y'', 0x4000), (''select'', 0x2000), (''start'', 0x1000),
     (''up'', 0x0800), (''down'', 0x0400), (''left'', 0x0200), (''right'', 0x0100),
     (''a'', 0x0080), (''x'', 0x0040), (''l'', 0x0020), (''r'', 0x0010)]"

fun named_buttons :: "string list \<Rightarrow> u16 \<Rightarrow> u16 option" where
  "named_buttons [] b = Some b"
| "named_buttons (t # ts) b = (case map_of names t of None \<Rightarrow> None | Some v \<Rightarrow> named_buttons ts (b OR v))"

definition parse_buttons :: "string \<Rightarrow> u16 option" where
  "parse_buttons s = (if take 2 s = ''0x''
     then let (v, e) = strtoul16 (drop 2 s) in if e \<noteq> [] \<or> v > 0xFFFF then None else Some (word_of_nat v)
     else named_buttons (strtok_plus s) 0)"

definition scan_span :: "string \<Rightarrow> (int \<times> int \<times> string) option" where
  "scan_span s = Option.bind (scan_long s) (\<lambda>(a, s). Option.bind (scan_lit ''-'' s) (\<lambda>s.
     Option.bind (scan_long s) (\<lambda>(b, s). Option.bind (scan_lit '':'' s) (\<lambda>s.
     Option.bind (scan_word 127 s) (\<lambda>(w, s). Some (a, b, w))))))"

definition replay_add :: "string \<Rightarrow> replay \<Rightarrow> replay option" where
  "replay_add spec r = (case scan_span spec of None \<Rightarrow> None
     | Some (from_, to_, w) \<Rightarrow> if from_ < 1 \<or> to_ < from_ then None
         else map_option (\<lambda>b. r\<lparr>spans := spans r @ [\<lparr>sp_from = from_, sp_to = to_, sp_buttons = b\<rparr>]\<rparr>) (parse_buttons w))"

definition replay_add_reset :: "int \<Rightarrow> replay \<Rightarrow> replay" where
  "replay_add_reset f r = r\<lparr>resets := resets r @ [f]\<rparr>"

text \<open>\<open>sscanf(line, " reset %ld %c", ...) == 1\<close>.\<close>

definition scan_reset :: "string \<Rightarrow> int option" where
  "scan_reset l = Option.bind (scan_lit ''reset'' (skip_space l)) (\<lambda>s. Option.bind (scan_long s) (\<lambda>(f, s).
     if skip_space s = [] then Some f else None))"

definition load_line :: "string \<Rightarrow> replay \<Rightarrow> replay option" where
  "load_line line r = (let l = takeWhile (\<lambda>c. c \<noteq> CHR ''#'') (takeWhile (\<lambda>c. c \<noteq> CHR 0x00) line) in
     case scan_reset l of
       Some f \<Rightarrow> if f \<ge> 1 then Some (replay_add_reset f r)
                 else (case scan_word 159 l of None \<Rightarrow> Some r | Some (tok, _) \<Rightarrow> replay_add tok r)
     | None \<Rightarrow> (case scan_word 159 l of None \<Rightarrow> Some r | Some (tok, _) \<Rightarrow> replay_add tok r))"

text \<open>Whether every line was good, and the script up to the first bad one.\<close>

fun load_lines :: "string list \<Rightarrow> replay \<Rightarrow> bool \<times> replay" where
  "load_lines [] r = (True, r)"
| "load_lines (l # ls) r = (case load_line l r of None \<Rightarrow> (False, r) | Some r' \<Rightarrow> load_lines ls r')"

definition replay_load :: "string \<Rightarrow> replay \<Rightarrow> bool \<times> replay" where
  "replay_load file = load_lines (file_lines file)"

definition replay_buttons :: "replay \<Rightarrow> int \<Rightarrow> u16" where
  "replay_buttons r f = foldl (\<lambda>b s. if f \<ge> sp_from s \<and> f \<le> sp_to s then b OR sp_buttons s else b) 0 (spans r)"

definition replay_reset :: "replay \<Rightarrow> int \<Rightarrow> bool" where
  "replay_reset r f \<longleftrightarrow> f \<in> set (resets r)"

section \<open>The recorder\<close>

record replay_rec =
  rec_file :: string
  rec_on :: bool
  rec_from :: int
  rec_last :: int
  rec_buttons :: u16

definition rec_header :: "string \<Rightarrow> string" where
  "rec_header source = ''# Pad 1 input recorded by '' @ source @ '', one span per run of held buttons.'' @ [CHR 0x0A]
     @ ''# Replay: ct_boot --script FILE --frames N (N on the last line).'' @ [CHR 0x0A]"

definition replay_rec_open :: "string \<Rightarrow> replay_rec" where
  "replay_rec_open source = \<lparr>rec_file = rec_header source, rec_on = True, rec_from = 0, rec_last = 0, rec_buttons = 0\<rparr>"

fun button_names :: "(string \<times> u16) list \<Rightarrow> u16 \<Rightarrow> string \<Rightarrow> string" where
  "button_names [] b sep = []"
| "button_names ((t, v) # ns) b sep = (if b AND v \<noteq> 0 then sep @ t @ button_names ns b ''+'' else button_names ns b sep)"

definition span_line :: "int \<Rightarrow> int \<Rightarrow> u16 \<Rightarrow> string" where
  "span_line a b v = print_long a @ ''-'' @ print_long b @ '':'' @ button_names names v [] @ [CHR 0x0A]"

definition flush_span :: "replay_rec \<Rightarrow> replay_rec" where
  "flush_span w = (if rec_buttons w = 0 then w
     else w\<lparr>rec_file := rec_file w @ span_line (rec_from w) (rec_last w) (rec_buttons w)\<rparr>)"

definition replay_rec_frame :: "int \<Rightarrow> u16 \<Rightarrow> replay_rec \<Rightarrow> replay_rec" where
  "replay_rec_frame f buttons w = (if \<not> rec_on w then w else
     let b = buttons AND 0xFFF0;
         w1 = (if b \<noteq> rec_buttons w \<or> f \<noteq> rec_last w + 1 then (flush_span w)\<lparr>rec_buttons := b, rec_from := f\<rparr> else w)
     in w1\<lparr>rec_last := f\<rparr>)"

definition replay_rec_close :: "replay_rec \<Rightarrow> replay_rec" where
  "replay_rec_close w = (if \<not> rec_on w then w else
     let w1 = flush_span w in w1\<lparr>rec_file := rec_file w1 @ ''# frames '' @ print_long (rec_last w1) @ [CHR 0x0A], rec_on := False\<rparr>)"

section \<open>Numbers and lines are read back\<close>

lemma decimal_induct:
  assumes "\<And>n. n < 10 \<Longrightarrow> P n" "\<And>n. \<not> n < 10 \<Longrightarrow> P (n div 10) \<Longrightarrow> P n"
  shows "P (n :: nat)"
  by (induction n rule: less_induct) (metis assms div_less_dividend not_less one_less_numeral_iff semiring_norm(76) zero_less_numeral dual_order.strict_trans2)

lemma digit_char: "d < 10 \<Longrightarrow> is_digit (char_of (48 + d))" "d < 10 \<Longrightarrow> digit (char_of (48 + d)) = d"
  by (simp_all add: is_digit_def digit_def)

lemma decimal_nonempty: "decimal n \<noteq> []" by (subst decimal.simps) simp

lemma decimal_digits: "c \<in> set (decimal n) \<Longrightarrow> is_digit c"
proof (induction n arbitrary: c rule: decimal_induct)
  case (1 n)
  then show ?case using digit_char(1)[of n] by (simp add: decimal.simps[of n])
next
  case (2 n)
  then show ?case using digit_char(1)[of "n mod 10"] by (auto simp: decimal.simps[of n])
qed

lemma decimal_value: "foldl (\<lambda>n c. 10 * n + digit c) 0 (decimal n) = n"
proof (induction n rule: decimal_induct)
  case (1 n)
  then show ?case using digit_char(2)[of n] by (simp add: decimal.simps[of n])
next
  case (2 n)
  then show ?case using digit_char(2)[of "n mod 10"] by (simp add: decimal.simps[of n])
qed

lemma length_decimal: "n < 10 ^ Suc k \<Longrightarrow> length (decimal n) \<le> Suc k"
proof (induction k arbitrary: n)
  case 0
  then show ?case by (simp add: decimal.simps[of n])
next
  case (Suc k)
  then have "n div 10 < 10 ^ Suc k" by (simp add: less_mult_imp_div_less mult.commute)
  then show ?case using Suc.IH by (subst decimal.simps) simp
qed

lemma digit_not: "is_digit c \<Longrightarrow> \<not> is_space c \<and> c \<noteq> CHR ''-'' \<and> c \<noteq> CHR ''+'' \<and> c \<noteq> CHR ''#'' \<and> c \<noteq> CHR ''r'' \<and> c \<noteq> CHR 0x00 \<and> c \<noteq> CHR 0x0A"
  by (auto simp: is_digit_def is_space_def)

lemma takeWhile_run: "(\<And>c. c \<in> set a \<Longrightarrow> P c) \<Longrightarrow> b = [] \<or> \<not> P (hd b) \<Longrightarrow> takeWhile P (a @ b) = a \<and> dropWhile P (a @ b) = b"
  by (cases b) (auto simp: takeWhile_append dropWhile_append)

lemma scan_long_printed:
  assumes "0 \<le> n" "n \<le> LONG_MAX" "s = [] \<or> \<not> is_digit (hd s)"
  shows "scan_long (print_long n @ s) = Some (n, s)"
proof -
  let ?d = "decimal (nat n)"
  obtain c r where d: "?d = c # r" using decimal_nonempty by (cases ?d) auto
  then have c: "is_digit c" using decimal_digits[of c "nat n"] by simp
  have t: "takeWhile is_digit (?d @ s) = ?d" "dropWhile is_digit (?d @ s) = s"
    using takeWhile_run[of ?d is_digit s] decimal_digits assms(3) by blast+
  have "scan_sign (skip_space (?d @ s)) = (False, ?d @ s)"
    using digit_not[OF c] by (simp add: d skip_space_def scan_sign_def)
  then show ?thesis using assms(1,2) decimal_nonempty
    by (simp add: scan_long_def print_long_def t decimal_value to_long_def LONG_MAX_def)
qed

lemma fgets_newline: "CHR 0x0A \<notin> set l \<Longrightarrow> length l < n \<Longrightarrow> fgets n (l @ CHR 0x0A # s) = (l @ [CHR 0x0A], s)"
proof (induction l arbitrary: n)
  case Nil
  then show ?case by (cases n) simp_all
next
  case (Cons c l)
  then obtain k where k: "n = Suc k" by (cases n) simp_all
  show ?case using Cons by (auto simp: k)
qed

lemma file_lines_line: "CHR 0x0A \<notin> set l \<Longrightarrow> length l < 255 \<Longrightarrow> file_lines (l @ CHR 0x0A # s) = (l @ [CHR 0x0A]) # file_lines s"
  by (simp add: file_lines.simps[of "l @ CHR 0x0A # s"] fgets_newline)

lemma file_lines_nil: "file_lines [] = []" by (simp add: file_lines.simps)

lemma load_comment: "load_line (CHR ''#'' # l) r = Some r"
  by (simp add: load_line_def scan_reset_def scan_word_def skip_space_def)

section \<open>Button names are read back\<close>

definition name_char :: "char \<Rightarrow> bool" where
  "name_char c \<longleftrightarrow> c = CHR ''+'' \<or> 97 \<le> (of_char c :: nat) \<and> (of_char c :: nat) \<le> 122"

lemma name_char_not: "name_char c \<Longrightarrow> \<not> is_space c \<and> c \<noteq> CHR ''#'' \<and> c \<noteq> CHR 0x00 \<and> c \<noteq> CHR 0x0A \<and> c \<noteq> CHR ''0''"
  by (auto simp: name_char_def is_space_def)

definition good_name :: "string \<times> u16 \<Rightarrow> bool" where
  "good_name p \<longleftrightarrow> fst p \<noteq> [] \<and> list_all name_char (fst p) \<and> CHR ''+'' \<notin> set (fst p) \<and>
     map_of names (fst p) = Some (snd p) \<and> (\<exists>k. snd p = 2 ^ k)"

lemma good_names: "list_all good_name names"
proof -
  have e: "0x8000 = (2 ^ 15 :: u16)" "0x4000 = (2 ^ 14 :: u16)" "0x2000 = (2 ^ 13 :: u16)" "0x1000 = (2 ^ 12 :: u16)"
    "0x800 = (2 ^ 11 :: u16)" "0x400 = (2 ^ 10 :: u16)" "0x200 = (2 ^ 9 :: u16)" "0x100 = (2 ^ 8 :: u16)"
    "0x80 = (2 ^ 7 :: u16)" "0x40 = (2 ^ 6 :: u16)" "0x20 = (2 ^ 5 :: u16)" "0x10 = (2 ^ 4 :: u16)" by simp_all
  have "list_all (\<lambda>p. \<exists>k. snd p = 2 ^ k) names"
    unfolding names_def e by (simp del: power_numeral) blast
  moreover have "list_all (\<lambda>p. fst p \<noteq> [] \<and> list_all name_char (fst p) \<and> CHR ''+'' \<notin> set (fst p)) names"
    by (simp add: names_def name_char_def)
  moreover have "list_all (\<lambda>p. map_of names (fst p) = Some (snd p)) names" by (simp add: names_def)
  ultimately show ?thesis by (simp add: list_all_iff good_name_def)
qed

lemma button_names_chars: "list_all good_name ns \<Longrightarrow> list_all name_char sep \<Longrightarrow> list_all name_char (button_names ns b sep)"
  by (induction ns b sep rule: button_names.induct) (auto simp: good_name_def name_char_def)

lemma button_names_plus: "button_names ns b ''+'' = [] \<or> hd (button_names ns b ''+'') = CHR ''+''"
  by (induction ns) (auto split: if_splits)

lemma length_button_names: "length (button_names ns b sep) \<le> length sep + (\<Sum>p\<leftarrow>ns. Suc (length (fst p)))"
  by (induction ns b sep rule: button_names.induct) auto

lemma strtok_nil: "strtok_plus [] = []" by (simp add: strtok_plus.simps)

lemma strtok_word:
  assumes "t \<noteq> []" "CHR ''+'' \<notin> set t" "s = [] \<or> hd s = CHR ''+''"
  shows "strtok_plus (t @ s) = t # strtok_plus s" "strtok_plus (CHR ''+'' # t @ s) = t # strtok_plus s"
proof -
  have w: "takeWhile (\<lambda>c. c \<noteq> CHR ''+'') (t @ s) = t" "dropWhile (\<lambda>c. c \<noteq> CHR ''+'') (t @ s) = s"
    using takeWhile_run[of t "\<lambda>c. c \<noteq> CHR ''+''" s] assms(2,3) by metis+
  have d: "dropWhile (\<lambda>c. c = CHR ''+'') (t @ s) = t @ s" using assms(1,2) by (cases t) auto
  show "strtok_plus (t @ s) = t # strtok_plus s" "strtok_plus (CHR ''+'' # t @ s) = t # strtok_plus s"
    using assms(1) by (simp_all add: strtok_plus.simps[of "t @ s"] strtok_plus.simps[of "CHR ''+'' # t @ s"] Let_def d w)
qed

lemma strtok_button_names:
  "list_all good_name ns \<Longrightarrow> sep = [] \<or> sep = ''+'' \<Longrightarrow>
     strtok_plus (button_names ns b sep) = map fst (filter (\<lambda>p. b AND snd p \<noteq> 0) ns)"
proof (induction ns b sep rule: button_names.induct)
  case (2 t v ns b sep)
  have t: "t \<noteq> []" "CHR ''+'' \<notin> set t" using 2(3) by (simp_all add: good_name_def)
  note w = strtok_word[OF t button_names_plus]
  show ?case using 2 w by (auto)
qed (simp add: strtok_nil)

lemma and_exp: "(b :: u16) AND 2 ^ k = (if bit b k then 2 ^ k else 0)"
  by (rule bit_word_eqI) (auto simp: bit_simps)

lemma named_back:
  "list_all good_name ns \<Longrightarrow> named_buttons (map fst (filter (\<lambda>p. b AND snd p \<noteq> 0) ns)) acc = Some (acc OR (b AND foldr (\<lambda>p v. snd p OR v) ns 0))"
proof (induction ns arbitrary: acc)
  case (Cons p ns)
  then obtain k where p: "snd p = 2 ^ k" "map_of names (fst p) = Some (snd p)" by (auto simp: good_name_def)
  have e: "acc OR (b AND (snd p OR v)) = (acc OR (b AND snd p)) OR (b AND v)" for v
    by (rule bit_word_eqI) (auto simp: bit_simps)
  show ?case
  proof (cases "b AND snd p = 0")
    case True
    then show ?thesis using Cons by (simp add: e)
  next
    case False
    then have "b AND snd p = snd p" unfolding p(1) by (simp add: and_exp split: if_splits)
    then show ?thesis using Cons False p(2) by (simp add: e)
  qed
qed simp

lemma parse_button_names:
  assumes "v AND 0xFFF0 = v"
  shows "parse_buttons (button_names names v []) = Some v"
proof -
  have o: "foldr (\<lambda>p v. snd p OR v) names 0 = 0xFFF0" by (simp add: names_def)
  have "list_all name_char (button_names names v [])" using button_names_chars[OF good_names, of "[]"] by simp
  then have "take 2 (button_names names v []) \<noteq> ''0x''"
    by (cases "button_names names v []") (auto simp: name_char_def)
  then show ?thesis
    unfolding parse_buttons_def strtok_button_names[OF good_names disjI1[OF refl]] named_back[OF good_names] o by (simp add: assms)
qed

section \<open>A recording replays\<close>

definition good_span :: "replay_span \<Rightarrow> bool" where
  "good_span s \<longleftrightarrow> 1 \<le> sp_from s \<and> sp_from s \<le> sp_to s \<and> sp_to s \<le> LONG_MAX \<and> sp_buttons s \<noteq> 0 \<and> sp_buttons s AND 0xFFF0 = sp_buttons s"

definition line_of :: "replay_span \<Rightarrow> string" where
  "line_of s = span_line (sp_from s) (sp_to s) (sp_buttons s)"

lemma print_long_chars:
  assumes "0 \<le> n" "n \<le> LONG_MAX"
  shows "c \<in> set (print_long n) \<Longrightarrow> is_digit c" "print_long n \<noteq> []" "length (print_long n) \<le> 19"
proof -
  have "nat n < 10 ^ Suc 18" using assms by (simp add: LONG_MAX_def)
  then show "length (print_long n) \<le> 19" using length_decimal[of "nat n" 18] assms(1) by (simp add: print_long_def)
qed (use assms decimal_digits decimal_nonempty in \<open>auto simp: print_long_def\<close>)

lemma button_names_word:
  assumes "v \<noteq> 0" "v AND 0xFFF0 = v"
  shows "button_names names v [] \<noteq> []" "length (button_names names v []) \<le> 44"
    "\<And>c. c \<in> set (button_names names v []) \<Longrightarrow> name_char c"
proof -
  show "button_names names v [] \<noteq> []"
  proof
    assume "button_names names v [] = []"
    then have "parse_buttons [] = Some v" using parse_button_names[OF assms(2)] by simp
    then show False using assms(1) by (simp add: parse_buttons_def strtok_nil)
  qed
  show "length (button_names names v []) \<le> 44"
    using length_button_names[of names v "[]"] by (simp add: names_def)
  show "\<And>c. c \<in> set (button_names names v []) \<Longrightarrow> name_char c"
    using button_names_chars[OF good_names, of "[]" v] by (simp add: list_all_iff)
qed

lemma scan_span_line:
  assumes "good_span s"
  defines "n \<equiv> button_names names (sp_buttons s) []"
  shows "scan_span (print_long (sp_from s) @ ''-'' @ print_long (sp_to s) @ '':'' @ n) = Some (sp_from s, sp_to s, n)"
proof -
  have b: "sp_buttons s \<noteq> 0" "sp_buttons s AND 0xFFF0 = sp_buttons s" and r: "0 \<le> sp_from s" "sp_from s \<le> LONG_MAX" "0 \<le> sp_to s" "sp_to s \<le> LONG_MAX"
    using assms by (simp_all add: good_span_def)
  note n = button_names_word[OF b, folded n_def]
  have d: "\<not> is_digit (CHR ''-'')" "\<not> is_digit (CHR '':'')" by (simp_all add: is_digit_def)
  have w: "takeWhile (\<lambda>c. \<not> is_space c) n = n" "skip_space n = n"
    using n(3) name_char_not by (auto simp: skip_space_def takeWhile_eq_all_conv dropWhile_eq_self_iff n(1))
  have "scan_word 127 n = Some (n, [])" using n(1,2) by (simp add: scan_word_def w)
  moreover have "scan_long (print_long (sp_from s) @ ''-'' @ x) = Some (sp_from s, ''-'' @ x)" for x
    by (rule scan_long_printed) (use r d in simp_all)
  moreover have "scan_long (print_long (sp_to s) @ '':'' @ n) = Some (sp_to s, '':'' @ n)"
    by (rule scan_long_printed) (use r d in simp_all)
  ultimately show ?thesis by (simp add: scan_span_def)
qed

lemma load_span_line:
  assumes "good_span s"
  shows "load_line (line_of s) r = Some (r\<lparr>spans := spans r @ [s]\<rparr>)" "\<exists>l. line_of s = l @ [CHR 0x0A] \<and> CHR 0x0A \<notin> set l \<and> length l < 255"
proof -
  define n where "n = button_names names (sp_buttons s) []"
  define l where "l = print_long (sp_from s) @ ''-'' @ print_long (sp_to s) @ '':'' @ n"
  have b: "sp_buttons s \<noteq> 0" "sp_buttons s AND 0xFFF0 = sp_buttons s" and r: "0 \<le> sp_from s" "sp_from s \<le> LONG_MAX" "0 \<le> sp_to s" "sp_to s \<le> LONG_MAX"
    using assms by (simp_all add: good_span_def)
  note n = button_names_word[OF b, folded n_def]
  note p = print_long_chars[OF r(1,2)] print_long_chars[OF r(3,4)]
  have e: "line_of s = l @ [CHR 0x0A]" by (simp add: line_of_def span_line_def l_def n_def)
  have chars: "\<not> is_space c \<and> c \<noteq> CHR ''#'' \<and> c \<noteq> CHR 0x00 \<and> c \<noteq> CHR 0x0A" if "c \<in> set l" for c
    using that p(1,4) n(3) digit_not name_char_not unfolding l_def by (fastforce simp: is_space_def)
  have len: "length l \<le> 84" using p(3,6) n(2) by (simp add: l_def)
  obtain c l' where c: "l = c # l'" "is_digit c" using p(1,2) by (cases "print_long (sp_from s)") (auto simp: l_def)
  have nl: "is_space (CHR 0x0A)" by (simp add: is_space_def)
  have t: "takeWhile (\<lambda>c. c \<noteq> CHR ''#'') (takeWhile (\<lambda>c. c \<noteq> CHR 0x00) (line_of s)) = l @ [CHR 0x0A]"
    unfolding e using chars by (auto simp: takeWhile_eq_all_conv)
  have s: "skip_space (l @ x) = l @ x" for x using c digit_not by (simp add: skip_space_def)
  have "scan_reset (l @ [CHR 0x0A]) = None" unfolding scan_reset_def s using digit_not[OF c(2)] c(1) by (auto)
  moreover have "scan_word 159 (l @ [CHR 0x0A]) = Some (l, [CHR 0x0A])"
  proof -
    have "takeWhile (\<lambda>c. \<not> is_space c) (l @ [CHR 0x0A]) = l" using takeWhile_run[of l "\<lambda>c. \<not> is_space c" "[CHR 0x0A]"] chars nl by auto
    moreover have "l \<noteq> []" using c(1) by simp
    ultimately show ?thesis using len by (simp add: scan_word_def s)
  qed
  moreover have "replay_add l r = Some (r\<lparr>spans := spans r @ [s]\<rparr>)"
  proof -
    have "scan_span l = Some (sp_from s, sp_to s, n)" unfolding l_def n_def by (rule scan_span_line[OF assms])
    then show ?thesis using assms parse_button_names[OF b(2), folded n_def] by (simp add: replay_add_def good_span_def)
  qed
  ultimately show "load_line (line_of s) r = Some (r\<lparr>spans := spans r @ [s]\<rparr>)" by (simp add: load_line_def t)
  show "\<exists>l. line_of s = l @ [CHR 0x0A] \<and> CHR 0x0A \<notin> set l \<and> length l < 255" using e chars len by (intro exI[of _ l]) auto
qed

lemma file_lines_spans:
  "list_all good_span ds \<Longrightarrow> file_lines (concat (map line_of ds) @ s) = map line_of ds @ file_lines s"
proof (induction ds)
  case (Cons d ds)
  then obtain l where l: "line_of d = l @ [CHR 0x0A]" "CHR 0x0A \<notin> set l" "length l < 255" using load_span_line(2)[of d] by auto
  show ?case using Cons file_lines_line[OF l(2,3)] by (simp add: l(1))
qed simp

lemma load_spans: "list_all good_span ds \<Longrightarrow> load_lines (map line_of ds @ ls) r = load_lines ls (r\<lparr>spans := spans r @ ds\<rparr>)"
  by (induction ds arbitrary: r) (simp_all add: load_span_line(1))

lemma replay_load_recorded:
  assumes "list_all good_span ds" "0 \<le> n" "n \<le> LONG_MAX" "CHR 0x0A \<notin> set source" "length source \<le> 190"
  shows "replay_load (rec_header source @ concat (map line_of ds) @ ''# frames '' @ print_long n @ [CHR 0x0A]) no_script
    = (True, \<lparr>spans = ds, resets = []\<rparr>)"
proof -
  define h1 h2 where "h1 = ''# Pad 1 input recorded by '' @ source @ '', one span per run of held buttons.''"
    and "h2 = ''# Replay: ct_boot --script FILE --frames N (N on the last line).''"
  define e where "e = ''# frames '' @ print_long n"
  have h: "rec_header source @ x = h1 @ CHR 0x0A # h2 @ CHR 0x0A # x" for x by (simp add: rec_header_def h1_def h2_def)
  have nl: "CHR 0x0A \<notin> set h1" "CHR 0x0A \<notin> set h2" "CHR 0x0A \<notin> set e"
    using assms(4) print_long_chars(1)[OF assms(2,3), of "CHR 0x0A"] by (auto simp: h1_def h2_def e_def is_digit_def)
  have len: "length h1 < 255" "length h2 < 255" "length e < 255"
    using assms(5) print_long_chars(3)[OF assms(2,3)] by (simp_all add: h1_def h2_def e_def)
  have "load_line (h1 @ x) r = Some r" "load_line (h2 @ x) r = Some r" "load_line (e @ x) r = Some r" for x r
    unfolding h1_def h2_def e_def append_Cons by (rule load_comment)+
  moreover have "file_lines (e @ [CHR 0x0A]) = [e @ [CHR 0x0A]]" using file_lines_line[OF nl(3) len(3), of "[]"] by (simp add: file_lines_nil)
  moreover have "rec_header source @ concat (map line_of ds) @ ''# frames '' @ print_long n @ [CHR 0x0A]
      = h1 @ CHR 0x0A # h2 @ CHR 0x0A # (concat (map line_of ds) @ (e @ [CHR 0x0A]))"
    unfolding h e_def by simp
  ultimately show ?thesis
    unfolding replay_load_def by (simp only: file_lines_line[OF nl(1) len(1)] file_lines_line[OF nl(2) len(2)] file_lines_spans[OF assms(1)])
      (simp add: load_spans assms(1) no_script_def)
qed

text \<open>What the spans written so far and the open one hold is what was recorded.\<close>

definition held :: "replay_span list \<Rightarrow> int \<Rightarrow> u16" where
  "held ds f = replay_buttons \<lparr>spans = ds, resets = []\<rparr> f"

lemma held_Nil [simp]: "held [] f = 0" by (simp add: held_def replay_buttons_def)

lemma held_append: "held (ds @ es) f = held ds f OR held es f"
proof -
  define g where "g = (\<lambda>b (s :: replay_span). if f \<ge> sp_from s \<and> f \<le> sp_to s then b OR sp_buttons s else b)"
  have e: "foldl g b es = b OR foldl g 0 es" for b
  proof (induction es arbitrary: b)
    case (Cons s es)
    show ?case using Cons[of "g b s"] Cons[of "g 0 s"] by (auto simp: g_def or.assoc)
  qed simp
  show ?thesis using e[of "foldl g 0 ds"] by (simp add: held_def replay_buttons_def g_def)
qed

lemma held_single: "held [s] f = (if sp_from s \<le> f \<and> f \<le> sp_to s then sp_buttons s else 0)"
  by (simp add: held_def replay_buttons_def)

lemma held_later: "\<forall>s\<in>set ds. sp_to s < f \<Longrightarrow> held ds f = 0"
proof (induction ds)
  case (Cons s ds)
  then show ?case using held_append[of "[s]" ds f] by (simp add: held_single)
qed simp

definition open_span :: "replay_rec \<Rightarrow> replay_span list" where
  "open_span w = (if rec_buttons w = 0 then [] else [\<lparr>sp_from = rec_from w, sp_to = rec_last w, sp_buttons = rec_buttons w\<rparr>])"

definition recorded :: "string \<Rightarrow> (int \<times> u16) list \<Rightarrow> replay_rec \<Rightarrow> replay_span list \<Rightarrow> bool" where
  "recorded source fs w ds \<longleftrightarrow> rec_on w \<and> rec_file w = rec_header source @ concat (map line_of ds) \<and>
     rec_last w = (if fs = [] then 0 else fst (last fs)) \<and> list_all good_span (ds @ open_span w) \<and>
     (\<forall>s\<in>set (ds @ open_span w). sp_to s \<le> rec_last w) \<and>
     (\<forall>f. held (ds @ open_span w) f = (case map_of fs f of None \<Rightarrow> 0 | Some b \<Rightarrow> b AND 0xFFF0))"

lemma flush_file: "rec_file (flush_span w) = rec_file w @ concat (map line_of (open_span w))"
  by (simp add: flush_span_def open_span_def line_of_def)

lemma flush_rest [simp]: "rec_on (flush_span w) = rec_on w" "rec_last (flush_span w) = rec_last w" "rec_from (flush_span w) = rec_from w"
  "rec_buttons (flush_span w) = rec_buttons w"
  by (simp_all add: flush_span_def)

lemma recorded_frame:
  assumes r: "recorded source fs w ds" and f: "rec_last w < f" "1 \<le> f" "f \<le> LONG_MAX" "map_of fs f = None"
  shows "\<exists>es. recorded source (fs @ [(f, b)]) (replay_rec_frame f b w) es"
proof -
  define v where "v = b AND 0xFFF0"
  define w' where "w' = replay_rec_frame f b w"
  define new where "new = (v \<noteq> rec_buttons w \<or> f \<noteq> rec_last w + 1)"
  define es where "es = (if new then ds @ open_span w else ds)"
  have v: "v AND 0xFFF0 = v" by (simp add: v_def and.assoc)
  have w': "rec_on w'" "rec_last w' = f" "rec_buttons w' = v" "rec_from w' = (if new then f else rec_from w)"
    "rec_file w' = rec_header source @ concat (map line_of es)"
  proof -
    have "w' = (if new then (flush_span w)\<lparr>rec_buttons := v, rec_from := f\<rparr> else w)\<lparr>rec_last := f\<rparr>"
      using r by (simp add: w'_def replay_rec_frame_def Let_def v_def new_def recorded_def)
    then show "rec_on w'" "rec_last w' = f" "rec_buttons w' = v" "rec_from w' = (if new then f else rec_from w)"
      "rec_file w' = rec_header source @ concat (map line_of es)"
      using r by (cases new; simp add: recorded_def es_def flush_file new_def)+
  qed
  have o: "open_span w' = (if v = 0 then [] else [\<lparr>sp_from = rec_from w', sp_to = f, sp_buttons = v\<rparr>])" by (simp add: open_span_def w'(2,3))
  have all: "held (es @ open_span w') g = held (ds @ open_span w) g OR (if g = f then v else 0)" for g
  proof (cases new)
    case True
    then have e: "es = ds @ open_span w" "rec_from w' = f" using w'(4) by (simp_all add: es_def)
    have "held (open_span w') g = (if g = f then v else 0)" by (auto simp: o e(2) held_single)
    then show ?thesis by (simp only: e(1) held_append[of "ds @ open_span w"])
  next
    case False
    then have e: "rec_buttons w = v" "rec_last w = f - 1" "rec_from w' = rec_from w" "es = ds" using w'(4) by (auto simp: new_def es_def)
    have "v \<noteq> 0 \<Longrightarrow> rec_from w \<le> f - 1" using r by (simp add: recorded_def open_span_def e good_span_def)
    then have "held (open_span w') g = held (open_span w) g OR (if g = f then v else 0)"
      by (auto simp: open_span_def e w'(2,3) held_single)
    then show ?thesis by (simp only: e(4) held_append or.assoc)
  qed
  have "held (ds @ open_span w) f = 0" using r f(1) by (intro held_later) (force simp: recorded_def)
  then have h: "held (es @ open_span w') g = (case map_of (fs @ [(f, b)]) g of None \<Rightarrow> 0 | Some b \<Rightarrow> b AND 0xFFF0)" for g
    using all[of g] r f(4) by (auto simp: recorded_def v_def map_add_def split: option.splits)
  have "1 \<le> rec_from w' \<and> rec_from w' \<le> f" if "v \<noteq> 0"
    using r f(1,2) w'(4) that by (auto simp: recorded_def open_span_def good_span_def new_def split: if_splits)
  then have "list_all good_span (open_span w')" using f(3) v by (auto simp: o good_span_def)
  moreover have "list_all good_span es" using r by (simp add: recorded_def es_def)
  ultimately have g: "list_all good_span (es @ open_span w')" by simp
  have to_: "\<forall>s\<in>set (es @ open_span w'). sp_to s \<le> f"
    using r f(1) by (auto simp: recorded_def es_def o split: if_splits intro: order.trans less_imp_le)
  have "recorded source (fs @ [(f, b)]) w' es" using w' h g to_ by (simp add: recorded_def)
  then show ?thesis unfolding w'_def by blast
qed

lemma recorded_open: "recorded source [] (replay_rec_open source) []"
  by (simp add: recorded_def replay_rec_open_def open_span_def)

lemma recorded_frames:
  assumes "sorted_wrt (<) (map fst fs)" "\<forall>p\<in>set fs. 1 \<le> fst p \<and> fst p \<le> LONG_MAX"
  shows "\<exists>ds. recorded source fs (foldl (\<lambda>w (f, b). replay_rec_frame f b w) (replay_rec_open source) fs) ds"
  using assms
proof (induction fs rule: rev_induct)
  case Nil
  then show ?case using recorded_open by (auto intro: exI[of _ "[]"])
next
  case (snoc p fs)
  obtain f b where p: "p = (f, b)" by fastforce
  have before: "f' < f" if "(f', b') \<in> set fs" for f' b' using snoc.prems(1) that by (force simp: p sorted_wrt_append)
  have f: "1 \<le> f" "f \<le> LONG_MAX" using snoc.prems(2) by (simp_all add: p)
  obtain ds where ds: "recorded source fs (foldl (\<lambda>w (f, b). replay_rec_frame f b w) (replay_rec_open source) fs) ds"
    using snoc by (auto simp: sorted_wrt_append)
  let ?w = "foldl (\<lambda>w (f, b). replay_rec_frame f b w) (replay_rec_open source) fs"
  have "rec_last ?w < f"
  proof (cases "fs = []")
    case False
    then have "(fst (last fs), snd (last fs)) \<in> set fs" by simp
    then show ?thesis using ds before False by (auto simp: recorded_def simp del: prod.collapse)
  qed (use ds f in \<open>simp add: recorded_def\<close>)
  moreover have "map_of fs f = None" by (auto simp: map_of_eq_None_iff dest: before)
  ultimately show ?case using recorded_frame[OF ds _ f] by (simp add: p)
qed

lemma recording_loads:
  assumes "sorted_wrt (<) (map fst fs)" "\<forall>p\<in>set fs. 1 \<le> fst p \<and> fst p \<le> LONG_MAX"
    and "CHR 0x0A \<notin> set source" "length source \<le> 190"
  shows "\<exists>r. replay_load (rec_file (replay_rec_close (foldl (\<lambda>w (f, b). replay_rec_frame f b w) (replay_rec_open source) fs))) no_script = (True, r) \<and>
    (\<forall>f. \<not> replay_reset r f \<and> replay_buttons r f = (case map_of fs f of None \<Rightarrow> 0 | Some b \<Rightarrow> b AND 0xFFF0))"
proof -
  define w where "w = foldl (\<lambda>w (f, b). replay_rec_frame f b w) (replay_rec_open source) fs"
  obtain ds where ds: "recorded source fs w ds" using recorded_frames[OF assms(1,2)] by (auto simp: w_def)
  have n: "0 \<le> rec_last w" "rec_last w \<le> LONG_MAX"
    using ds assms(2) by (auto simp: recorded_def LONG_MAX_def dest!: bspec[OF _ last_in_set] split: if_splits)
  have "rec_file (replay_rec_close w) = rec_header source @ concat (map line_of (ds @ open_span w)) @ ''# frames '' @ print_long (rec_last w) @ [CHR 0x0A]"
    using ds by (simp add: replay_rec_close_def Let_def flush_file recorded_def)
  then have "replay_load (rec_file (replay_rec_close w)) no_script = (True, \<lparr>spans = ds @ open_span w, resets = []\<rparr>)"
    using replay_load_recorded[OF _ n assms(3,4), of "ds @ open_span w"] ds by (simp only: recorded_def)
  then show ?thesis using ds unfolding w_def[symmetric] by (intro exI conjI) (auto simp: recorded_def replay_reset_def held_def)
qed

text \<open>A recording replays: what the recorder writes for frames in order is a script \<open>replay_load\<close> takes
  whole, without resets, and that holds at every recorded frame the twelve buttons held there and at any
  other none.\<close>

theorem recording_replays:
  assumes "sorted_wrt (<) (map fst fs)" "\<forall>p\<in>set fs. 1 \<le> fst p \<and> fst p \<le> LONG_MAX"
    and "CHR 0x0A \<notin> set source" "length source \<le> 190"
  shows "\<exists>r. replay_load (rec_file (replay_rec_close (foldl (\<lambda>w (f, b). replay_rec_frame f b w) (replay_rec_open source) fs))) no_script = (True, r) \<and>
    (\<forall>f. \<not> replay_reset r f \<and> replay_buttons r f = (case map_of fs f of None \<Rightarrow> 0 | Some b \<Rightarrow> b AND 0xFFF0))"
  using recording_loads[OF assms] .

theorem recording_replays_witness:
  "\<exists>r. replay_load (rec_file (replay_rec_close (foldl (\<lambda>w (f, b). replay_rec_frame f b w) (replay_rec_open ''ct_sdl --record'')
       [(1, 0), (2, 0x108F), (3, 0x1080), (4, 0x1000), (6, 0x1000)]))) no_script = (True, r) \<and>
    replay_buttons r 3 = 0x1080 \<and> replay_buttons r 5 = 0"
  using recording_replays[of "[(1, 0), (2, 0x108F), (3, 0x1080), (4, 0x1000), (6, 0x1000)]" "''ct_sdl --record''"]
  by (force simp: LONG_MAX_def)

end
