(* ===== verification/Ct_Audio.thy ===== *)
theory Ct_Audio
  imports Ct_Prelude
begin

text \<open>
  The audio ring of \<open>runtime/sched.c\<close>: \<open>dsp_out\<close>, which the DSP calls once per stereo sample, and
  \<open>sched_audio_take\<close>, with which the frontend takes the samples of a frame. What the two promise each other
  is the locale \<open>bounded_queue\<close>: a queue that drops its oldest entries when it is full.
\<close>

section \<open>The ring\<close>

type_synonym sample = "16 word \<times> 16 word"

definition AUDIO_RING :: nat where "AUDIO_RING = 8192"

record audio =
  ring :: "sample list"
  ring_head :: nat
  ring_len :: nat

definition dsp_out :: "sample \<Rightarrow> audio \<Rightarrow> audio" where
  "dsp_out x a = a\<lparr>ring := (ring a)[ring_head a := x], ring_head := (ring_head a + 1) mod AUDIO_RING,
     ring_len := (if ring_len a < AUDIO_RING then ring_len a + 1 else ring_len a)\<rparr>"

text \<open>The copying loop, from slot \<open>at\<close>.\<close>

fun copy_out :: "sample list \<Rightarrow> nat \<Rightarrow> nat \<Rightarrow> sample list" where
  "copy_out r at 0 = []"
| "copy_out r at (Suc n) = r ! at # copy_out r ((at + 1) mod AUDIO_RING) n"

text \<open>The count is the length of the samples returned; \<open>max\<close> (here \<open>most\<close>) is not negative (the callers pass constants).\<close>

definition sched_audio_take :: "nat \<Rightarrow> audio \<Rightarrow> sample list \<times> audio" where
  "sched_audio_take most a =
     (let n = min (ring_len a) most; at = (ring_head a + AUDIO_RING - ring_len a) mod AUDIO_RING
      in (copy_out (ring a) at n, a\<lparr>ring_len := ring_len a - n\<rparr>))"

text \<open>\<open>ring_head = ring_len = 0\<close> in \<open>sched_init\<close>; the slots keep what they held.\<close>

definition audio_init :: "audio \<Rightarrow> audio" where
  "audio_init a = a\<lparr>ring_head := 0, ring_len := 0\<rparr>"

section \<open>The contract\<close>

text \<open>What a producer and a consumer do, and the queue they should see.\<close>

datatype 'a queue_op = Put 'a | Take nat

fun queue_spec :: "nat \<Rightarrow> 'a queue_op list \<Rightarrow> 'a list \<Rightarrow> 'a list \<times> 'a list" where
  "queue_spec cap [] q = ([], q)"
| "queue_spec cap (Put x # ops) q = queue_spec cap ops (drop (length q + 1 - cap) (q @ [x]))"
| "queue_spec cap (Take n # ops) q = (let (out, q') = queue_spec cap ops (drop n q) in (take n q @ out, q'))"

locale bounded_queue =
  fixes put :: "'a \<Rightarrow> 's \<Rightarrow> 's" and get :: "nat \<Rightarrow> 's \<Rightarrow> 'a list \<times> 's"
    and content :: "'s \<Rightarrow> 'a list" and ok :: "'s \<Rightarrow> bool" and cap :: nat
  assumes put_ok: "ok s \<Longrightarrow> ok (put x s)"
    and put_content: "ok s \<Longrightarrow> content (put x s) = drop (length (content s) + 1 - cap) (content s @ [x])"
    and get_ok: "ok s \<Longrightarrow> ok (snd (get n s))"
    and get_result: "ok s \<Longrightarrow> fst (get n s) = take n (content s)"
    and get_content: "ok s \<Longrightarrow> content (snd (get n s)) = drop n (content s)"
begin

fun run :: "'a queue_op list \<Rightarrow> 's \<Rightarrow> 'a list \<times> 's" where
  "run [] s = ([], s)"
| "run (Put x # ops) s = run ops (put x s)"
| "run (Take n # ops) s = (let (xs, s1) = get n s; (out, s2) = run ops s1 in (xs @ out, s2))"

lemma run_spec:
  "ok s \<Longrightarrow> queue_spec cap ops (content s) = (fst (run ops s), content (snd (run ops s))) \<and> ok (snd (run ops s))"
proof (induction ops arbitrary: s)
  case (Cons op ops)
  show ?case
  proof (cases op)
    case (Put x)
    then show ?thesis using Cons.IH[OF put_ok[OF Cons.prems]] put_content[OF Cons.prems] by simp
  next
    case (Take n)
    then show ?thesis using Cons.IH[OF get_ok[OF Cons.prems]] get_content[OF Cons.prems] get_result[OF Cons.prems]
      by (simp add: case_prod_beta)
  qed
qed simp

end

text \<open>While the puts fit, the queue drops nothing.\<close>

fun fits :: "nat \<Rightarrow> 'a queue_op list \<Rightarrow> nat \<Rightarrow> bool" where
  "fits cap [] n = True"
| "fits cap (Put x # ops) n = (n < cap \<and> fits cap ops (n + 1))"
| "fits cap (Take k # ops) n = fits cap ops (n - k)"

fun puts :: "'a queue_op list \<Rightarrow> 'a list" where
  "puts [] = []"
| "puts (Put x # ops) = x # puts ops"
| "puts (Take k # ops) = puts ops"

lemma fits_lossless: "fits cap ops (length q) \<Longrightarrow> queue_spec cap ops q = (out, q') \<Longrightarrow> out @ q' = q @ puts ops"
proof (induction cap ops q arbitrary: out rule: queue_spec.induct)
  case (2 cap x ops q)
  have d: "drop (length q + 1 - cap) (q @ [x]) = q @ [x]" using 2 by simp
  then show ?case using 2(1)[of out] 2(2,3) by simp
next
  case (3 cap n ops q)
  obtain o1 q1 where r: "queue_spec cap ops (drop n q) = (o1, q1)" by fastforce
  have e: "out = take n q @ o1" "q' = q1" using 3(3) r by auto
  have "o1 @ q' = drop n q @ puts ops" using 3(1)[of o1] 3(2) r e(2) by simp
  then have "(take n q @ o1) @ q' = (take n q @ drop n q) @ puts ops" by (simp only: append_assoc)
  then show ?case by (simp add: e(1))
qed simp

section \<open>The ring keeps the contract\<close>

definition ring_ok :: "audio \<Rightarrow> bool" where
  "ring_ok a \<longleftrightarrow> length (ring a) = AUDIO_RING \<and> ring_head a < AUDIO_RING \<and> ring_len a \<le> AUDIO_RING"

definition slot :: "audio \<Rightarrow> nat \<Rightarrow> nat" where
  "slot a i = (ring_head a + AUDIO_RING - ring_len a + i) mod AUDIO_RING"

definition held_samples :: "audio \<Rightarrow> sample list" where
  "held_samples a = map (\<lambda>i. ring a ! slot a i) [0..<ring_len a]"

lemma ring_pos: "0 < AUDIO_RING" by (simp add: AUDIO_RING_def)

lemma mod_below:
  fixes h n d :: nat
  assumes "h < n" "d \<le> n"
  shows "(h + n - d) mod n = (if h < d then h + n - d else h - d)"
proof (cases "h < d")
  case False
  then have e: "h + n - d = (h - d) + n" by simp
  show ?thesis unfolding e mod_add_self2 using False assms by simp
qed (use assms in simp)

lemma slot_eq:
  assumes "ring_ok a" "i \<le> ring_len a"
  shows "slot a i = (if ring_head a < ring_len a - i then ring_head a + AUDIO_RING - (ring_len a - i) else ring_head a - (ring_len a - i))"
proof -
  have "ring_head a + AUDIO_RING - ring_len a + i = ring_head a + AUDIO_RING - (ring_len a - i)"
    using assms by (simp add: ring_ok_def)
  moreover have "ring_len a - i \<le> AUDIO_RING" "ring_head a < AUDIO_RING" using assms by (auto simp: ring_ok_def)
  ultimately show ?thesis unfolding slot_def by (simp only: mod_below)
qed

lemma copy_out_map: "copy_out r at n = map (\<lambda>i. r ! ((at + i) mod AUDIO_RING)) [0..<n]" if "at < AUDIO_RING"
  using that
proof (induction n arbitrary: at)
  case (Suc n)
  have "(at + 1) mod AUDIO_RING < AUDIO_RING" using ring_pos by simp
  from Suc.IH[OF this]
  have "copy_out r ((at + 1) mod AUDIO_RING) n = map (\<lambda>i. r ! ((at + Suc i) mod AUDIO_RING)) [0..<n]"
    by (simp add: mod_simps)
  then show ?case using Suc.prems by (simp add: upt_conv_Cons map_Suc_upt[symmetric] comp_def del: upt_Suc)
qed simp

lemma put_held:
  assumes a: "ring_ok a"
  shows "held_samples (dsp_out x a) = drop (length (held_samples a) + 1 - AUDIO_RING) (held_samples a @ [x])"
proof (rule nth_equalityI)
  let ?b = "dsp_out x a" and ?d = "ring_len a + 1 - AUDIO_RING"
  have l: "ring_len ?b + ?d = ring_len a + 1" using a by (auto simp: dsp_out_def ring_ok_def)
  then show len: "length (held_samples ?b) = length (drop (length (held_samples a) + 1 - AUDIO_RING) (held_samples a @ [x]))"
    by (simp add: held_samples_def)
  fix i
  assume "i < length (held_samples ?b)"
  then have i: "i < ring_len ?b" by (simp add: held_samples_def)
  have s: "slot ?b i = slot a (i + ?d)"
  proof -
    let ?n = AUDIO_RING
    have h: "ring_head ?b = (ring_head a + 1) mod ?n" by (simp add: dsp_out_def)
    have "ring_len ?b \<le> ?n" using a by (simp add: dsp_out_def ring_ok_def)
    then have "(ring_head a + 1) mod ?n + ?n - ring_len ?b + i = ((ring_head a + 1) mod ?n) + (?n - ring_len ?b + i)" by simp
    then have "slot ?b i = (((ring_head a + 1) mod ?n) + (?n - ring_len ?b + i)) mod ?n" by (simp only: slot_def h)
    also have "\<dots> = (ring_head a + 1 + (?n - ring_len ?b + i)) mod ?n" by (simp add: mod_simps)
    also have "ring_head a + 1 + (?n - ring_len ?b + i) = ring_head a + ?n - ring_len a + (i + ?d)"
      using a l by (auto simp: ring_ok_def dsp_out_def split: if_splits)
    finally show ?thesis by (simp add: slot_def)
  qed
  have j: "i + ?d \<le> ring_len a" using i l by simp
  have "length (held_samples a) = ring_len a" by (simp add: held_samples_def)
  then have r: "drop (length (held_samples a) + 1 - AUDIO_RING) (held_samples a @ [x]) ! i = (held_samples a @ [x]) ! (i + ?d)"
    using ring_pos by (simp only: add.commute[of i]) (rule nth_drop, simp)
  show "held_samples ?b ! i = drop (length (held_samples a) + 1 - AUDIO_RING) (held_samples a @ [x]) ! i" unfolding r
  proof (cases "i + ?d = ring_len a")
    case True
    then have "slot ?b i = ring_head a" unfolding s using slot_eq[OF a j] by simp
    then have "held_samples ?b ! i = x" using i a by (simp add: held_samples_def dsp_out_def ring_ok_def)
    then show "held_samples ?b ! i = (held_samples a @ [x]) ! (i + ?d)" using True by (simp add: held_samples_def nth_append)
  next
    case False
    then have lt: "i + ?d < ring_len a" using j by simp
    have "slot a (i + ?d) \<noteq> ring_head a"
      unfolding slot_eq[OF a j] using lt a i l by (auto simp: ring_ok_def dsp_out_def split: if_splits)
    then have "ring ?b ! slot ?b i = ring a ! slot a (i + ?d)" unfolding s by (simp add: dsp_out_def)
    then show "held_samples ?b ! i = (held_samples a @ [x]) ! (i + ?d)" using i lt by (simp add: held_samples_def nth_append)
  qed
qed

lemma take_held:
  assumes a: "ring_ok a"
  shows "fst (sched_audio_take n a) = take n (held_samples a)" "held_samples (snd (sched_audio_take n a)) = drop n (held_samples a)"
proof -
  let ?at = "(ring_head a + AUDIO_RING - ring_len a) mod AUDIO_RING"
  have "copy_out (ring a) ?at k = map (\<lambda>i. ring a ! slot a i) [0..<k]" for k
    using copy_out_map[of ?at "ring a" k] ring_pos by (simp add: slot_def mod_simps)
  then show "fst (sched_audio_take n a) = take n (held_samples a)"
    by (simp add: sched_audio_take_def held_samples_def Let_def take_map take_upt min_def)
  let ?k = "min (ring_len a) n"
  have "slot (snd (sched_audio_take n a)) i = slot a (i + ?k)" for i
    using a by (simp add: slot_def sched_audio_take_def Let_def ring_ok_def add.commute add.left_commute)
  then have "held_samples (snd (sched_audio_take n a)) = map (\<lambda>i. ring a ! slot a (i + ?k)) [0..<ring_len a - ?k]"
    by (simp add: held_samples_def sched_audio_take_def Let_def)
  also have "\<dots> = map (\<lambda>i. ring a ! slot a i) [?k..<ring_len a]"
    by (rule nth_equalityI) (auto simp: add.commute min_def)
  finally show "held_samples (snd (sched_audio_take n a)) = drop n (held_samples a)"
    by (simp add: held_samples_def drop_map drop_upt min_def split: if_splits)
qed

interpretation audio_queue: bounded_queue dsp_out sched_audio_take held_samples ring_ok AUDIO_RING
proof (unfold_locales, goal_cases)
  case (1 s x)
  then show ?case using ring_pos by (auto simp: ring_ok_def dsp_out_def)
next
  case (3 s n)
  then show ?case by (auto simp: ring_ok_def sched_audio_take_def Let_def)
qed (simp_all add: put_held take_held)

section \<open>Samples come out in order\<close>

text \<open>The DSP and the frontend, in any order of calls.\<close>

fun audio_run :: "sample queue_op list \<Rightarrow> audio \<Rightarrow> sample list \<times> audio" where
  "audio_run [] a = ([], a)"
| "audio_run (Put x # ops) a = audio_run ops (dsp_out x a)"
| "audio_run (Take n # ops) a = (let (xs, b) = sched_audio_take n a; (out, c) = audio_run ops b in (xs @ out, c))"

lemma audio_run_queue: "audio_run ops a = audio_queue.run ops a"
  by (induction ops a rule: audio_run.induct) (auto simp: split: prod.splits)

text \<open>C24. From power-on, whatever calls of the DSP and the frontend come in whatever order, the samples taken are those
  of a queue of 8192 entries that drops its oldest when it is full: in order, none twice; and while
  the frontend keeps up, what was taken and what is still held is exactly what the DSP put out.\<close>

theorem audio_in_order:
  assumes "length (ring a) = AUDIO_RING"
  shows "queue_spec AUDIO_RING ops [] = (fst (audio_run ops (audio_init a)), held_samples (snd (audio_run ops (audio_init a)))) \<and>
    (fits AUDIO_RING ops 0 \<longrightarrow> fst (audio_run ops (audio_init a)) @ held_samples (snd (audio_run ops (audio_init a))) = puts ops)"
proof -
  have ok: "ring_ok (audio_init a)" using assms ring_pos by (simp add: ring_ok_def audio_init_def)
  have e: "held_samples (audio_init a) = []" by (simp add: held_samples_def audio_init_def)
  have q: "queue_spec AUDIO_RING ops [] = (fst (audio_run ops (audio_init a)), held_samples (snd (audio_run ops (audio_init a))))"
    using audio_queue.run_spec[OF ok, of ops] by (simp add: e audio_run_queue)
  show ?thesis using q fits_lossless[of AUDIO_RING ops "[]", OF _ q] by simp
qed

theorem audio_in_order_witness:
  "let a = audio_init \<lparr>ring = replicate AUDIO_RING (0, 0), ring_head = 7, ring_len = 3\<rparr>
   in fst (audio_run [Put (1, 2), Put (3, 4), Take 1, Put (5, 6), Take 4] a) @ held_samples (snd (audio_run [Put (1, 2), Put (3, 4), Take 1, Put (5, 6), Take 4] a)) =
      [(1, 2), (3, 4), (5, 6)]"
  using audio_in_order[of "\<lparr>ring = replicate AUDIO_RING (0, 0), ring_head = 7, ring_len = 3\<rparr>" "[Put (1, 2), Put (3, 4), Take 1, Put (5, 6), Take 4]"]
  by (simp add: AUDIO_RING_def Let_def)

end
