(* ===== verification/Ct_Frontend.thy ===== *)
theory Ct_Frontend
  imports Ct_Wait Ct_Input Ct_Replay Ct_Audio Ct_Png
begin

text \<open>
  The SDL frontend, \<open>frontend/main.c\<close>: the events of a frame to pad 1, the recorder, the audio
  queue, the pacing, and the frame hook that runs them at the edge of a frame, over the scheduler's state. What SDL
  answers is an argument: the events of the frame with the controllers as they are at each, the
  buttons and axes, the level of the audio queue, the clock. The resampler and its rate control (floating point,
  \<open>runtime/resample.c\<close>) are an argument too: how many samples come out of a frame. Diagnostics on stderr are left out.
\<close>

section \<open>State\<close>

datatype exit_reason = Before_loop | Sdl_quit | Ctrl_Q | Frames_reached int

text \<open>The controller is the handle of an open one; \<open>fe_queued\<close> counts the samples given to \<open>SDL_QueueAudio\<close>,
  \<open>fe_delay\<close> and \<open>fe_texture\<close> are what SDL was last given to wait for and to show.\<close>

record frontend = sched_cpu +
  fe_audio :: audio
  fe_keys :: key_filter
  fe_pad :: "nat option"
  fe_live :: u16
  fe_script :: replay
  fe_rec :: replay_rec
  fe_running :: bool
  fe_exit :: exit_reason
  fe_exit_frame :: int
  fe_underruns :: int
  fe_dropped :: int
  fe_playing :: bool
  fe_queued :: nat
  fe_next :: u64
  fe_delay :: u32
  fe_texture :: "nat \<Rightarrow> u8"
  fe_png :: u32

section \<open>What SDL answers\<close>

record sdl_pads =
  num_joysticks :: nat
  is_controller :: "nat \<Rightarrow> bool"
  controller_open :: "nat \<Rightarrow> nat option"
  attached :: "nat \<Rightarrow> bool"

datatype sdl_event =
    Quit
  | Keyboard (kb_down: bool) (kb_scancode: nat) (kb_ctrl: bool) (kb_repeat: bool)
  | Pad_button_down | Pad_button_up | Pad_added | Pad_removed | Other_event

record sdl =
  num_scancodes :: nat
  scancode :: "sdl_key \<Rightarrow> nat"
  perf_freq :: u64
  audio_device :: bool
  sdl_events :: "int \<Rightarrow> (sdl_event \<times> sdl_pads) list"
  sdl_button :: "int \<Rightarrow> nat \<Rightarrow> sdl_button \<Rightarrow> bool"
  sdl_axis :: "int \<Rightarrow> nat \<Rightarrow> sdl_axis \<Rightarrow> int"
  queue_level :: "int \<Rightarrow> u32"
  queue_level_after :: "int \<Rightarrow> u32"
  samples_out :: "int \<Rightarrow> sample list \<Rightarrow> int"
  perf_counter :: "int \<Rightarrow> u64"
  png_writable :: "int \<Rightarrow> bool"

section \<open>Input\<close>

definition open_controller :: "sdl_pads \<Rightarrow> nat option" where
  "open_controller w = (case find (is_controller w) [0..<num_joysticks w] of None \<Rightarrow> None | Some k \<Rightarrow> controller_open w k)"

text \<open>An event in the loop of \<open>poll_input\<close>, in its order.\<close>

definition poll_event :: "sdl \<Rightarrow> int \<Rightarrow> sdl_event \<times> sdl_pads \<Rightarrow> 'a frontend_scheme \<Rightarrow> 'a frontend_scheme" where
  "poll_event S f = (\<lambda>(ev, w) s.
     if ev = Quit then s\<lparr>fe_exit := Sdl_quit, fe_running := False\<rparr>
     else case ev of
       Keyboard down sc ctrl rep \<Rightarrow>
         if down \<and> sc = scancode S SC_Q \<and> ctrl then s\<lparr>fe_exit := Ctrl_Q, fe_running := False\<rparr>
         else if \<not> rep then s\<lparr>fe_keys := key_filter_key (num_scancodes S) sc down f (fe_keys s)\<rparr> else s
     | Pad_button_down \<Rightarrow> s\<lparr>fe_keys := key_filter_button (num_scancodes S) f (fe_keys s)\<rparr>
     | Pad_added \<Rightarrow> if fe_pad s = None then s\<lparr>fe_pad := open_controller w\<rparr> else s
     | Pad_removed \<Rightarrow> (case fe_pad s of Some p \<Rightarrow> if \<not> attached w p then s\<lparr>fe_pad := open_controller w\<rparr> else s | None \<Rightarrow> s)
     | _ \<Rightarrow> s)"

definition poll_input :: "sdl \<Rightarrow> int \<Rightarrow> 'a frontend_scheme \<Rightarrow> 'a frontend_scheme" where
  "poll_input S f s =
     (let s1 = fold (poll_event S f) (sdl_events S f) (s\<lparr>fe_keys := (fe_keys s)\<lparr>controller := fe_pad s \<noteq> None\<rparr>\<rparr>);
          b = input_keyboard (\<lambda>k. key_filter.held (fe_keys s1) (scancode S k))
      in s1\<lparr>fe_live := (case fe_pad s1 of Some p \<Rightarrow> b OR input_controller (sdl_button S f p) (sdl_axis S f p) | None \<Rightarrow> b)\<rparr>)"

definition set_input :: "int \<Rightarrow> ('a frontend_scheme, unit) act" where
  "set_input f = bnd (gets (\<lambda>s. fe_live s OR replay_buttons (fe_script s) f)) (\<lambda>b.
     thn (sched_set_joypad 0 b) (modify (\<lambda>s. s\<lparr>fe_rec := replay_rec_frame f b (fe_rec s)\<rparr>)))"

section \<open>Audio and pacing\<close>

definition AUDIO_BUFFER :: nat where "AUDIO_BUFFER = 960"
definition AUDIO_TARGET :: nat where "AUDIO_TARGET = 2 * AUDIO_BUFFER + 800"
definition FRAME_NS :: u64 where "FRAME_NS = 16639267"

definition queue_audio :: "sdl \<Rightarrow> int \<Rightarrow> 'a frontend_scheme \<Rightarrow> 'a frontend_scheme" where
  "queue_audio S f s =
     (let (xs, ring) = sched_audio_take 4096 (fe_audio s); s1 = s\<lparr>fe_audio := ring\<rparr> in
      if \<not> audio_device S then s1
      else let level = unat (queue_level S f) div 4; out = samples_out S f xs;
               s2 = (if fe_playing s1 \<and> level = 0 then s1\<lparr>fe_underruns := fe_underruns s1 + 1\<rparr> else s1);
               s3 = (if level > 4 * AUDIO_TARGET then s2\<lparr>fe_dropped := fe_dropped s2 + 1\<rparr>
                     else if out > 0 then s2\<lparr>fe_queued := fe_queued s2 + nat out\<rparr> else s2)
           in if \<not> fe_playing s3 \<and> unat (queue_level_after S f) div 4 \<ge> AUDIO_TARGET then s3\<lparr>fe_playing := True\<rparr> else s3)"

text \<open>The wait for the frame's time slot: the delay asked for, and the next slot.\<close>

definition pace :: "u64 \<Rightarrow> u64 \<Rightarrow> u64 \<Rightarrow> u32 \<times> u64" where
  "pace freq now turn =
     (let turn = turn + freq * FRAME_NS div 1000000000 in
      if now < turn then (to32 ((turn - now) * 1000 div freq), turn)
      else (0, if now - turn > freq div 10 then now else turn))"

section \<open>The frame hook\<close>

definition frame_bytes :: "(nat \<Rightarrow> u8) \<Rightarrow> u8 list" where
  "frame_bytes p = map p [0..<256 * 224 * 4]"

definition on_frame :: "sdl \<Rightarrow> bool \<Rightarrow> bool \<Rightarrow> int \<Rightarrow> ('a frontend_scheme, unit) act" where
  "on_frame S dump fast f =
     thn (modify (\<lambda>s. s\<lparr>fe_exit_frame := f\<rparr>)) (thn (modify (queue_audio S f)) (thn (modify (\<lambda>s. s\<lparr>fe_texture := present s\<rparr>))
    (thn (whenM dump (modify (\<lambda>s. s\<lparr>fe_png := snd (png_dump_frame (png_writable S f) (frame_bytes (present s)) (fe_png s))\<rparr>)))
    (thn (whenM (\<not> fast) (modify (\<lambda>s. let (d, turn) = pace (perf_freq S) (perf_counter S f) (fe_next s) in s\<lparr>fe_delay := d, fe_next := turn\<rparr>)))
    (thn (modify (poll_input S f)) (set_input (f + 1)))))))"

definition script_reset :: "int \<Rightarrow> 'a frontend_scheme \<Rightarrow> bool" where
  "script_reset f s = replay_reset (fe_script s) f"

text \<open>Before the loop of \<open>main\<close>, the condition it goes on with, and what follows it.\<close>

definition fe_start :: "sdl \<Rightarrow> u64 \<Rightarrow> ('a frontend_scheme, unit) act" where
  "fe_start S now = thn (modify (\<lambda>s. s\<lparr>fe_keys := key_filter_init, fe_next := now\<rparr>)) (thn (modify (poll_input S 0)) (set_input 1))"

definition fe_goes_on :: "int \<Rightarrow> 'a frontend_scheme \<Rightarrow> bool" where
  "fe_goes_on limit s \<longleftrightarrow> fe_running s \<and> (limit < 0 \<or> frames (tm s) < limit)"

definition rendered :: "(nat \<Rightarrow> u8) \<Rightarrow> bool" where
  "rendered p \<longleftrightarrow> list_ex (\<lambda>k. p (4 * k) OR p (4 * k + 1) OR p (4 * k + 2) \<noteq> 0) [0..<256 * 224]"

definition fe_end :: "int \<Rightarrow> bool \<Rightarrow> bool \<Rightarrow> 'a frontend_scheme \<Rightarrow> int \<times> 'a frontend_scheme" where
  "fe_end limit no_underrun require_render s =
     (let s1 = (if fe_running s then s\<lparr>fe_exit := Frames_reached limit\<rparr> else s); s2 = s1\<lparr>fe_exit_frame := frames (tm s1)\<rparr> in
      (if no_underrun \<and> fe_underruns s2 \<noteq> 0 then 1 else if require_render \<and> \<not> rendered (present s2) then 1 else 0, s2))"

text \<open>The title of the window: 21 bytes of the ROM header without the spaces and zeros at their end.\<close>

fun cut_title :: "u8 list \<Rightarrow> nat \<Rightarrow> u8 list" where
  "cut_title t 0 = t"
| "cut_title t (Suc k) = (if t ! k = 0x20 \<or> t ! k = 0 then cut_title (t[k := 0]) k else t)"

definition title :: "'a bus_state_scheme \<Rightarrow> u8 list" where
  "title s = takeWhile (\<lambda>c. c \<noteq> 0) (cut_title (map (\<lambda>k. rom s (0xFFC0 + word_of_nat k)) [0..<21]) 21)"

section \<open>The pace\<close>

text \<open>Frames at clock readings, each with the clock when its wait is over: the delays asked for, and the slot after the last.\<close>

fun paced :: "u64 \<Rightarrow> u64 \<Rightarrow> (u64 \<times> u64) list \<Rightarrow> u32 list \<times> u64" where
  "paced freq turn [] = ([], turn)"
| "paced freq turn ((now, done) # fs) =
     (let (w, turn') = pace freq now turn; (ws, last_turn) = paced freq turn' fs in (w # ws, last_turn))"

text \<open>\<open>SDL_Delay\<close> waits at least the milliseconds asked for, and a frame comes after the wait of the one before.\<close>

fun waited :: "u64 \<Rightarrow> u64 \<Rightarrow> u64 \<Rightarrow> (u64 \<times> u64) list \<Rightarrow> bool" where
  "waited freq turn prev [] \<longleftrightarrow> True"
| "waited freq turn prev ((now, done) # fs) \<longleftrightarrow> prev \<le> now \<and> now \<le> done \<and>
     unat (fst (pace freq now turn)) * unat freq \<le> 1000 * (unat done - unat now) \<and> waited freq (snd (pace freq now turn)) done fs"

definition frame_step :: "u64 \<Rightarrow> nat" where
  "frame_step freq = unat freq * 16639267 div 1000000000"

lemma frame_step_bound: "1000 * frame_step freq \<le> 17 * unat freq"
  unfolding frame_step_def by linarith

lemma step_word: "unat freq * 16639267 < 2 ^ 64 \<Longrightarrow> unat (freq * FRAME_NS div 1000000000) = frame_step freq"
  by (simp add: frame_step_def FRAME_NS_def unat_div unat_word_ariths)

lemma pace_step:
  assumes f: "0 < unat freq" "unat freq * 16639267 < 2 ^ 64" and n: "unat now + unat freq < 2 ^ 64" "prev \<le> now" "1000 * unat turn \<le> 1000 * unat prev + unat freq"
    and r: "pace freq now turn = (w, turn')"
  shows "unat turn + frame_step freq \<le> unat turn'" "unat w \<le> 18" "unat now \<le> unat turn' + unat freq div 10"
    "1000 * unat turn' \<le> 1000 * unat now + unat w * unat freq + unat freq"
proof -
  define e where "e = turn + freq * FRAME_NS div 1000000000"
  have p: "unat prev \<le> unat now" using n(2) by (simp add: word_le_nat_alt)
  have s: "unat turn + frame_step freq < 2 ^ 64" using n p frame_step_bound[of freq] by linarith
  have e: "unat e = unat turn + frame_step freq"
  proof -
    have "unat (turn + q) = unat turn + unat q" if "unat turn + unat q < 2 ^ 64" for q using that by (simp add: unat_word_ariths)
    then show ?thesis using s unfolding e_def by (metis step_word[OF f(2)])
  qed
  have r: "(w, turn') = (if now < e then (to32 ((e - now) * 1000 div freq), e) else (0, if now - e > freq div 10 then now else e))"
    using r[symmetric] unfolding pace_def Let_def e_def .
  have "unat turn + frame_step freq \<le> unat turn' \<and> unat w \<le> 18 \<and> unat now \<le> unat turn' + unat freq div 10 \<and>
    1000 * unat turn' \<le> 1000 * unat now + unat w * unat freq + unat freq"
  proof (cases "now < e")
    case True
    then have lt: "unat now < unat e" by (simp add: word_less_nat_alt)
    have d: "unat (e - now) = unat e - unat now" using lt by (simp add: unat_sub_if')
    have b: "1000 * (unat e - unat now) \<le> 18 * unat freq" using e n(3) p frame_step_bound[of freq] by linarith
    have m: "unat ((e - now) * 1000) = 1000 * (unat e - unat now)"
    proof -
      have "unat (x * 1000) = 1000 * unat x" if "1000 * unat x < 2 ^ 64" for x :: u64
        using that by (simp add: unat_word_ariths mult.commute)
      moreover have "1000 * (unat e - unat now) < 2 ^ 64" using b f(2) by simp
      ultimately show ?thesis using d by metis
    qed
    define k where "k = 1000 * (unat e - unat now) div unat freq"
    have k: "k \<le> 18" using b f(1) unfolding k_def by (metis div_le_mono nonzero_mult_div_cancel_right not_less0)
    have kf: "1000 * (unat e - unat now) < k * unat freq + unat freq"
      unfolding k_def using f(1) by (metis add.commute dividend_less_div_times)
    have w: "w = to32 ((e - now) * 1000 div freq)" "turn' = e" using r True by simp_all
    have "unat ((e - now) * 1000 div freq) = k" unfolding unat_div m k_def ..
    then have "unat w = k mod 2 ^ 32" unfolding w(1) by (simp add: unsigned_ucast_eq take_bit_eq_mod)
    then have wk: "unat w = k" using k by simp
    have "1000 * unat e \<le> 1000 * unat now + k * unat freq + unat freq" using kf lt by linarith
    then show ?thesis using e k lt by (simp add: wk w(2))
  next
    case False
    then have le: "unat e \<le> unat now" by (simp add: word_less_nat_alt)
    have d: "unat (now - e) = unat now - unat e" using le by (simp add: unat_sub_if')
    show ?thesis
    proof (cases "freq div 10 < now - e")
      case True
      then show ?thesis using False r e le by simp
    next
      case late: False
      then have "unat now - unat e \<le> unat freq div 10" by (simp add: word_less_nat_alt d unat_div)
      then show ?thesis using False late r e le by simp
    qed
  qed
  then show "unat turn + frame_step freq \<le> unat turn'" "unat w \<le> 18" "unat now \<le> unat turn' + unat freq div 10"
    "1000 * unat turn' \<le> 1000 * unat now + unat w * unat freq + unat freq" by simp_all
qed

text \<open>C38. The pace of the frontend. Against any clock that only goes on, and whose 64 bits do not wrap up to a second after the last
  reading, at any frequency below 1.1 THz, where the product of \<open>main.c:241\<close> would wrap, with \<open>SDL_Delay\<close> waiting no less than it is asked to,
  frames are shown no faster than the 60.0988 Hz of the console, over any number of them and to within the millisecond of a delay, however
  slow some were; no wait is longer than 18 ms; and the slots are never more than a tenth of a second behind the clock, so that a stall is
  not followed by a sprint.\<close>

theorem frames_paced:
  assumes "0 < unat freq" "unat freq * 16639267 < 2 ^ 64" "waited freq turn prev fs" "1000 * unat turn \<le> 1000 * unat prev + unat freq"
    and "\<forall>(now, done)\<in>set fs. unat done + unat freq < 2 ^ 64" "paced freq turn fs = (ws, turn')"
  shows "1000 * (unat turn + length fs * frame_step freq) \<le> 1000 * unat (last (prev # map snd fs)) + unat freq \<and>
    (\<forall>w\<in>set ws. unat w \<le> 18) \<and> (fs \<noteq> [] \<longrightarrow> unat (fst (last fs)) \<le> unat turn' + unat freq div 10)"
  using assms(3-6)
proof (induction fs arbitrary: turn prev ws)
    case (Cons p fs)
    obtain now "done" where p: "p = (now, done)" by fastforce
    obtain w s1 where w: "pace freq now turn = (w, s1)" by fastforce
    obtain ws1 where ws: "paced freq s1 fs = (ws1, turn')" "ws = w # ws1"
      using Cons.prems(4) by (auto simp: p w split: prod.splits)
    have c: "prev \<le> now" "now \<le> done" "unat w * unat freq \<le> 1000 * (unat done - unat now)" "waited freq s1 done fs"
      using Cons.prems(1) by (simp_all add: p w)
    have d: "unat now \<le> unat done" "unat done + unat freq < 2 ^ 64" using c(2) Cons.prems(3) by (simp_all add: p word_le_nat_alt)
    note st = pace_step[OF assms(1,2) _ c(1) Cons.prems(2) w]
    have s1: "1000 * unat s1 \<le> 1000 * unat done + unat freq" using st(4) c(3) d by linarith
    have "1000 * (unat s1 + length fs * frame_step freq) \<le> 1000 * unat (last (done # map snd fs)) + unat freq \<and>
      (\<forall>w\<in>set ws1. unat w \<le> 18) \<and> (fs \<noteq> [] \<longrightarrow> unat (fst (last fs)) \<le> unat turn' + unat freq div 10)"
      using Cons.prems(3) by (intro Cons.IH[OF c(4) s1 _ ws(1)]) simp
    moreover have "fs = [] \<Longrightarrow> turn' = s1" using ws(1) by simp
    ultimately show ?case using st d by (auto simp: p ws(2) algebra_simps)
qed simp

text \<open>Four frames at a nanosecond clock: two in time, a stall of half a second, and the frame after it.\<close>

theorem frames_paced_witness:
  "\<exists>ws turn. paced 1000000000 0 [(5000000, 17000000), (20000000, 34000000), (534000000, 534000000), (540000000, 551000000)] = (ws, turn) \<and>
     ws = [11, 13, 0, 10] \<and> 1000 * (4 * 16639267 :: nat) \<le> 1000 * 551000000 + 1000000000"
proof -
  let ?fs = "[(5000000, 17000000), (20000000, 34000000), (534000000, 534000000), (540000000, 551000000)] :: (u64 \<times> u64) list"
  have w: "paced 1000000000 0 ?fs = ([11, 13, 0, 10], 550639267)" "waited 1000000000 0 0 ?fs"
    by (simp_all add: pace_def FRAME_NS_def Let_def)
  have s: "frame_step 1000000000 = 16639267" by (simp add: frame_step_def)
  have "1000 * (4 * 16639267 :: nat) \<le> 1000 * 551000000 + 1000000000"
    using frames_paced[OF _ _ w(2) _ _ w(1)] by (simp add: s)
  then show ?thesis using w(1) by blast
qed

section \<open>The hook and the scheduler\<close>

text \<open>What the hook changes of the scheduler's state: pad 1.\<close>

definition pad_only :: "u16 \<Rightarrow> 'a frontend_scheme \<Rightarrow> 'a frontend_scheme \<Rightarrow> bool" where
  "pad_only b s t \<longleftrightarrow> sched_cpu.truncate t = (sched_cpu.truncate s)\<lparr>vr := (vr s)\<lparr>pad := (pad (vr s))(0 := b)\<rparr>\<rparr>"

lemma part_fields:
  assumes "sched_cpu.truncate t = sched_cpu.truncate s"
  shows "vr t = vr s" "present t = present s"
proof -
  have "vr (sched_cpu.truncate t) = vr (sched_cpu.truncate s)" "present (sched_cpu.truncate t) = present (sched_cpu.truncate s)" using assms by simp_all
  then show "vr t = vr s" "present t = present s" by (simp_all add: sched_cpu.truncate_def)
qed

lemma pad_only_fields:
  assumes "pad_only b s t"
  shows "vr t = (vr s)\<lparr>pad := (pad (vr s))(0 := b)\<rparr>" "tm t = tm s" "cpu t = cpu s" "pnd t = pnd s" "dma t = dma s"
    "waiting t = waiting s" "wai_over t = wai_over s"
proof -
  let ?u = "(sched_cpu.truncate s)\<lparr>vr := (vr s)\<lparr>pad := (pad (vr s))(0 := b)\<rparr>\<rparr>"
  have e: "sched_cpu.truncate t = ?u" using assms unfolding pad_only_def .
  have "vr (sched_cpu.truncate t) = vr ?u" "tm (sched_cpu.truncate t) = tm ?u" "cpu (sched_cpu.truncate t) = cpu ?u"
    "pnd (sched_cpu.truncate t) = pnd ?u" "dma (sched_cpu.truncate t) = dma ?u" "waiting (sched_cpu.truncate t) = waiting ?u"
    "wai_over (sched_cpu.truncate t) = wai_over ?u"
    unfolding e by (rule refl)+
  then show "vr t = (vr s)\<lparr>pad := (pad (vr s))(0 := b)\<rparr>" "tm t = tm s" "cpu t = cpu s" "pnd t = pnd s" "dma t = dma s"
    "waiting t = waiting s" "wai_over t = wai_over s"
    by (simp_all add: sched_cpu.truncate_def)
qed

text \<open>The frontend's own state, which the scheduler does not touch.\<close>

definition same_frontend :: "'a frontend_scheme \<Rightarrow> 'a frontend_scheme \<Rightarrow> bool" where
  "same_frontend s t \<longleftrightarrow> fe_live t = fe_live s \<and> fe_script t = fe_script s \<and> fe_rec t = fe_rec s \<and> fe_keys t = fe_keys s \<and> fe_pad t = fe_pad s"

definition fe_kept :: "'a frontend_scheme \<Rightarrow> 'a frontend_scheme \<Rightarrow> bool" where
  "fe_kept s t \<longleftrightarrow> sched_cpu.truncate t = sched_cpu.truncate s \<and> fe_script t = fe_script s \<and> fe_rec t = fe_rec s"

lemma fe_kept_trans: "fe_kept s t \<Longrightarrow> fe_kept t u \<Longrightarrow> fe_kept s u"
  by (simp add: fe_kept_def)

lemma poll_event_kept: "fe_kept s (poll_event S f e s)"
  by (auto simp: fe_kept_def sched_cpu.truncate_def poll_event_def split: prod.splits sdl_event.splits option.splits)

lemma poll_kept: "fe_kept s (poll_input S f s)"
proof -
  let ?s = "s\<lparr>fe_keys := (fe_keys s)\<lparr>controller := fe_pad s \<noteq> None\<rparr>\<rparr>"
  have "fe_kept r (fold (poll_event S f) es r)" for es and r :: "'a frontend_scheme"
  proof (induction es arbitrary: r)
    case (Cons e es)
    show ?case using fe_kept_trans[OF poll_event_kept Cons.IH] by simp
  qed (simp add: fe_kept_def)
  from this[of ?s "sdl_events S f"] show ?thesis by (simp add: poll_input_def Let_def fe_kept_def sched_cpu.truncate_def)
qed

text \<open>A hook returns; what it does to pad 1 and to the recording.\<close>

definition pad_input :: "int \<Rightarrow> 'a frontend_scheme \<Rightarrow> u16" where
  "pad_input f s = fe_live s OR replay_buttons (fe_script s) f"

lemma set_input_result: "set_input f s = Inr ((), s\<lparr>vr := (vr s)\<lparr>pad := (pad (vr s))(0 := pad_input f s)\<rparr>,
    fe_rec := replay_rec_frame f (pad_input f s) (fe_rec s)\<rparr>)"
  by (simp add: set_input_def bnd_gets sched_set_joypad_def whenM_def vr_do_def thn_modify pad_input_def modify_def)

lemma queue_audio_kept: "fe_kept s (queue_audio S f s)"
  by (simp add: fe_kept_def sched_cpu.truncate_def queue_audio_def case_prod_beta Let_def)

text \<open>What the player holds: the keys the filter lets through, and the open controller.\<close>

definition live_input :: "sdl \<Rightarrow> int \<Rightarrow> 'a frontend_scheme \<Rightarrow> u16" where
  "live_input S f s = input_keyboard (\<lambda>k. key_filter.held (fe_keys s) (scancode S k)) OR
     (case fe_pad s of Some p \<Rightarrow> input_controller (sdl_button S f p) (sdl_axis S f p) | None \<Rightarrow> 0)"

lemma poll_live: "fe_live (poll_input S f s) = live_input S f (poll_input S f s)"
  by (simp add: poll_input_def live_input_def Let_def split: option.splits)

lemma poll_event_shown: "fe_texture (poll_event S f e s) = fe_texture s \<and> fe_exit_frame (poll_event S f e s) = fe_exit_frame s"
  by (simp add: poll_event_def split: prod.splits sdl_event.splits option.splits)

lemma poll_shown: "fe_texture (poll_input S f s) = fe_texture s \<and> fe_exit_frame (poll_input S f s) = fe_exit_frame s"
proof -
  have "fe_texture (fold (poll_event S f) es r) = fe_texture r \<and> fe_exit_frame (fold (poll_event S f) es r) = fe_exit_frame r" for es and r :: "'a frontend_scheme"
    by (induction es arbitrary: r) (simp_all add: poll_event_shown)
  then show ?thesis by (simp add: poll_input_def Let_def)
qed

lemma exit_frame_kept: "fe_kept s (s\<lparr>fe_exit_frame := f\<rparr>)" by (simp add: fe_kept_def sched_cpu.truncate_def)

lemma on_frame_result:
  obtains t where "on_frame S d fast f s = Inr ((), t)" "pad_only (live_input S f t OR replay_buttons (fe_script s) (f + 1)) s t"
    "fe_script t = fe_script s" "fe_rec t = replay_rec_frame (f + 1) (pad (vr t) 0) (fe_rec s)"
    "pad (vr t) 0 = live_input S f t OR replay_buttons (fe_script s) (f + 1)" "fe_texture t = present s" "fe_exit_frame t = f"
proof -
  define s0 where "s0 = queue_audio S f (s\<lparr>fe_exit_frame := f\<rparr>)"
  define s1 where "s1 = s0\<lparr>fe_texture := present s0\<rparr>"
  define s2 where "s2 = (if d then s1\<lparr>fe_png := snd (png_dump_frame (png_writable S f) (frame_bytes (present s1)) (fe_png s1))\<rparr> else s1)"
  define s3 where "s3 = (if fast then s2 else let (d, turn) = pace (perf_freq S) (perf_counter S f) (fe_next s2) in s2\<lparr>fe_delay := d, fe_next := turn\<rparr>)"
  define u where "u = poll_input S f s3"
  define t where "t = u\<lparr>vr := (vr u)\<lparr>pad := (pad (vr u))(0 := pad_input (f + 1) u)\<rparr>, fe_rec := replay_rec_frame (f + 1) (pad_input (f + 1) u) (fe_rec u)\<rparr>"
  have "on_frame S d fast f s = set_input (f + 1) u"
    by (simp add: on_frame_def thn_modify whenM_def s0_def s1_def s2_def s3_def u_def)
  then have "on_frame S d fast f s = Inr ((), t)" by (simp add: set_input_result t_def)
  note o = this
  have k: "fe_kept s u"
  proof -
    have "fe_kept s (s\<lparr>fe_exit_frame := f\<rparr>)" "fe_kept s0 s1" "fe_kept s1 s2" "fe_kept s2 s3"
      by (simp_all add: fe_kept_def sched_cpu.truncate_def s1_def s2_def s3_def case_prod_beta)
    then show ?thesis unfolding u_def s0_def using fe_kept_trans queue_audio_kept poll_kept by metis
  qed
  have live: "fe_live u = live_input S f t" using poll_live[of S f s3] by (simp add: t_def u_def live_input_def)
  have "vr t = (vr u)\<lparr>pad := (pad (vr u))(0 := pad_input (f + 1) u)\<rparr>" "fe_script t = fe_script u"
    "fe_rec t = replay_rec_frame (f + 1) (pad_input (f + 1) u) (fe_rec u)" "fe_texture t = fe_texture u" "fe_exit_frame t = fe_exit_frame u"
    by (simp_all add: t_def)
  note e = this k[unfolded fe_kept_def]
  have pi: "pad_input (f + 1) u = live_input S f t OR replay_buttons (fe_script s) (f + 1)" using e by (simp add: pad_input_def live)
  have "sched_cpu.truncate t = (sched_cpu.truncate u)\<lparr>vr := (vr u)\<lparr>pad := (pad (vr u))(0 := pad_input (f + 1) u)\<rparr>\<rparr>"
    by (simp add: t_def sched_cpu.truncate_def)
  then have "pad_only (live_input S f t OR replay_buttons (fe_script s) (f + 1)) s t"
    using e part_fields[of u s] unfolding pad_only_def pi by simp
  moreover have p: "pad (vr t) 0 = pad_input (f + 1) u" using e(1) by simp
  moreover have "fe_exit_frame t = f"
  proof -
    have "fe_exit_frame s0 = f" by (simp add: s0_def queue_audio_def case_prod_beta Let_def)
    then show ?thesis using e(5) poll_shown[of S f s3] by (simp add: u_def s3_def s2_def s1_def case_prod_beta)
  qed
  moreover have "fe_texture t = present s"
  proof -
    have "fe_kept s s0" unfolding s0_def using fe_kept_trans queue_audio_kept by (metis (no_types, lifting) exit_frame_kept)
    then have "fe_texture s1 = present s" using part_fields(2)[of s0 s] by (simp add: s1_def fe_kept_def)
    then show ?thesis using e(4) poll_shown[of S f s3] by (simp add: u_def s3_def s2_def case_prod_beta)
  qed
  ultimately show thesis using that[OF o] e pi by simp
qed

text \<open>The machine of the frontend: its devices, with its hook at the edge of a frame.\<close>

definition with_frontend :: "sdl \<Rightarrow> bool \<Rightarrow> bool \<Rightarrow> ('a frontend_scheme) machine \<Rightarrow> ('a frontend_scheme) machine" where
  "with_frontend S dump fast M = M\<lparr>m_video := (m_video M)\<lparr>v_frame_hook := Some (on_frame S dump fast)\<rparr>\<rparr>"



end
