(* ===== verification/Ct_Boot.thy ===== *)
theory Ct_Boot
  imports Ct_Wait Ct_Replay Ct_Audio Ct_Png Ct_Wav
begin

text \<open>
  The boot probe, \<open>tools/ct_boot.c\<close>: what it does after every instruction (\<open>trace\<close>) and at every frame edge
  (\<open>boot_on_frame\<close>), the hashes it compares runs by, and its verdict, over the scheduler's state. A line it
  prints is a value of \<open>report\<close>; opening and writing files is I/O. The C integers that can wrap keep their
  width (\<open>tail_n\<close>, \<open>at_seen\<close>); counts of frames and prints are unbounded.
\<close>

section \<open>Options and state\<close>

text \<open>What \<open>main\<close> sets from the command line. A \<open>--log-entry\<close> without an address logs the bytes at DP.\<close>

record expect_wram =
  ew_frame :: int
  ew_addr :: u32
  ew_val :: nat
  ew_neq :: bool

record boot_opts =
  bo_expect_pc :: "u32 list"
  bo_expect_wram :: "expect_wram list"
  bo_watch :: "(u32 \<times> nat) list"
  bo_at :: "u32 list"
  bo_log :: "(u32 \<times> u16 option) list"
  bo_snap :: "u32 \<times> int"
  bo_wram_entries :: bool
  bo_first_exec :: bool
  bo_trace :: "(nat \<times> nat \<times> int) option"
  bo_poke :: "(int \<times> u32 \<times> u8) option"
  bo_profile_from :: int
  bo_wav :: bool
  bo_dump :: bool
  bo_hash_log :: bool
  bo_ref_log :: bool
  bo_dump_state :: bool
  bo_frames :: int

datatype report =
    First_exec u32 nat
  | Traced u32 nat u16 u16
  | Wram_entry u32 u8 u8
  | Snap nat "u32 \<Rightarrow> u8"
  | Entry u32 int nat nat cpu "u8 option list"
  | At u32 int nat nat
  | Watch nat int nat u32 "u8 list" "u8 list" u32
  | Wram_differs int u32 u8
  | Hashes int "u64 list"
  | Ref_hashes int u64 u64 bool
  | Dumped_state int

record boot = sched_cpu +
  bt_tail :: "(u32 \<times> cpu) list"
  bt_tail_n :: u32
  bt_hit :: "bool list"
  bt_seen :: "bool list"
  bt_ok :: "bool list"
  bt_watch_last :: "u8 list list"
  bt_prev_at :: u32
  bt_at_seen :: "32 word list"
  bt_snaps :: nat
  bt_entry_seen :: "u32 \<Rightarrow> u8"
  bt_last_at :: u32
  bt_seen_pc :: "u32 \<Rightarrow> u8"
  bt_out :: "report list"
  bt_audible :: int
  bt_dumped :: int
  bt_dumped_state :: bool
  bt_input :: replay
  bt_audio :: audio
  bt_png :: u32
  bt_wav :: bytes

definition TAIL :: nat where "TAIL = 64"

definition say :: "report list \<Rightarrow> 'a boot_scheme \<Rightarrow> 'a boot_scheme" where
  "say rs s = s\<lparr>bt_out := bt_out s @ rs\<rparr>"

section \<open>After every instruction\<close>

definition wram_bytes :: "'a bus_state_scheme \<Rightarrow> u32 \<Rightarrow> nat \<Rightarrow> u8 list" where
  "wram_bytes s a n = map (\<lambda>k. wram s (a + word_of_nat k)) [0..<n]"

text \<open>The body of the loop of \<open>check_watch\<close>.\<close>

definition check_one :: "boot_opts \<Rightarrow> u32 \<Rightarrow> nat \<Rightarrow> 'a boot_scheme \<Rightarrow> 'a boot_scheme" where
  "check_one B at k s =
     (let (a, n) = bo_watch B ! k; now = wram_bytes s a n; old = bt_watch_last s ! k in
      if old = now then s
      else (say [Watch k (frames (tm s)) (line (tm s)) (bt_prev_at s) old now at] s)\<lparr>bt_watch_last := (bt_watch_last s)[k := now]\<rparr>)"

definition check_watch :: "boot_opts \<Rightarrow> u32 \<Rightarrow> 'a boot_scheme \<Rightarrow> 'a boot_scheme" where
  "check_watch B at s = (fold (check_one B at) [0..<length (bo_watch B)] s)\<lparr>bt_prev_at := at\<rparr>"

definition trace_first :: "boot_opts \<Rightarrow> u32 \<Rightarrow> 'a boot_scheme \<Rightarrow> 'a boot_scheme" where
  "trace_first B at s =
     (let b = to8 (push_bit (unat (at AND 7)) (1 :: u32)); k = drop_bit 3 at in
      if bo_first_exec B \<and> bt_seen_pc s k AND b = 0
      then say [First_exec at (sched_clock s)] (s\<lparr>bt_seen_pc := (bt_seen_pc s)(k := bt_seen_pc s k OR b)\<rparr>)
      else s)"

definition trace_out :: "boot_opts \<Rightarrow> u32 \<Rightarrow> 'a boot_scheme \<Rightarrow> 'a boot_scheme" where
  "trace_out B at s = (case bo_trace B of None \<Rightarrow> s
     | Some (lo, hi, from_) \<Rightarrow> let t = sched_clock s in
         if lo \<le> t \<and> t \<le> hi \<and> frames (tm s) \<ge> from_ then say [Traced at t (rX (cpu s)) (rY (cpu s))] s else s)"

definition in_wram_bank :: "u32 \<Rightarrow> bool" where
  "in_wram_bank a \<longleftrightarrow> drop_bit 16 a = 0x7E \<or> drop_bit 16 a = 0x7F"

definition trace_entry :: "boot_opts \<Rightarrow> u32 \<Rightarrow> 'a boot_scheme \<Rightarrow> 'a boot_scheme" where
  "trace_entry B at s =
     (if bo_wram_entries B \<and> in_wram_bank at \<and> bt_last_at s \<noteq> 0xFFFFFFFF \<and> \<not> in_wram_bank (bt_last_at s)
      then let op = bus_peek (bt_last_at s) s; c = cpu s; k = at AND 0x1FFFF;
               b = to8 (push_bit (unat (push_bit 1 (to32 (fl_m c)) OR to32 (fl_x c))) (1 :: u32))
           in if op \<noteq> 0x60 \<and> op \<noteq> 0x6B \<and> op \<noteq> 0x40 \<and> bt_entry_seen s k AND b = 0
              then say [Wram_entry at (fl_m c) (fl_x c)] (s\<lparr>bt_entry_seen := (bt_entry_seen s)(k := bt_entry_seen s k OR b)\<rparr>)
              else s
      else s)\<lparr>bt_last_at := at\<rparr>"

definition trace_snap :: "boot_opts \<Rightarrow> u32 \<Rightarrow> 'a boot_scheme \<Rightarrow> 'a boot_scheme" where
  "trace_snap B at s =
     (if at = fst (bo_snap B) \<and> bt_snaps s < 256 \<and> frames (tm s) \<ge> snd (bo_snap B)
      then say [Snap (bt_snaps s) (wram s)] (s\<lparr>bt_snaps := bt_snaps s + 1\<rparr>) else s)"

definition entry_bytes :: "'a boot_scheme \<Rightarrow> u16 option \<Rightarrow> u8 option list" where
  "entry_bytes s mem = map (\<lambda>b. let a = (case mem of None \<Rightarrow> rDP (cpu s) | Some m \<Rightarrow> m) + word_of_nat b in
     if a < 0x2000 then Some (wram s (to32 a)) else None) [0..<16]"

definition trace_log :: "boot_opts \<Rightarrow> u32 \<Rightarrow> 'a boot_scheme \<Rightarrow> 'a boot_scheme" where
  "trace_log B at s = say (map (\<lambda>(pc, mem). Entry at (frames (tm s)) (line (tm s)) (sched_clock s) (cpu s) (entry_bytes s mem))
     (filter (\<lambda>(pc, mem). at = pc) (bo_log B))) s"

definition trace_at_one :: "boot_opts \<Rightarrow> u32 \<Rightarrow> nat \<Rightarrow> 'a boot_scheme \<Rightarrow> 'a boot_scheme" where
  "trace_at_one B at k s =
     (if at = bo_at B ! k
      then let n = bt_at_seen s ! k; s1 = s\<lparr>bt_at_seen := (bt_at_seen s)[k := n + 1]\<rparr> in
           if sint n < 20 then say [At at (frames (tm s)) (line (tm s)) (sched_clock s)] s1 else s1
      else s)"

definition trace_expect :: "boot_opts \<Rightarrow> u32 \<Rightarrow> 'a boot_scheme \<Rightarrow> 'a boot_scheme" where
  "trace_expect B at s = s\<lparr>bt_hit := map2 (\<lambda>pc hit. hit \<or> at = pc) (bo_expect_pc B) (bt_hit s)\<rparr>"

definition trace_tail :: "u32 \<Rightarrow> 'a boot_scheme \<Rightarrow> 'a boot_scheme" where
  "trace_tail at s = s\<lparr>bt_tail := (bt_tail s)[unat (bt_tail_n s) mod TAIL := (at, cpu s)], bt_tail_n := bt_tail_n s + 1\<rparr>"

definition trace :: "boot_opts \<Rightarrow> u32 \<Rightarrow> 'a boot_scheme \<Rightarrow> 'a boot_scheme" where
  "trace B at s =
     (let s = trace_log B at (trace_snap B at (trace_entry B at (trace_out B at (trace_first B at s))));
          s = fold (trace_at_one B at) [0..<length (bo_at B)] s;
          s = (if bo_watch B \<noteq> [] then check_watch B at s else s)
      in trace_tail at (trace_expect B at s))"

text \<open>What the fatal error prints: the last instructions, oldest first.\<close>

definition last_instructions :: "'a boot_scheme \<Rightarrow> (u32 \<times> cpu) list" where
  "last_instructions s = (let n = unat (bt_tail_n s) in map (\<lambda>k. bt_tail s ! (k mod TAIL)) [(if n > TAIL then n - TAIL else 0)..<n])"

section \<open>Hashes\<close>

definition FNV_PRIME :: u64 where "FNV_PRIME = 0x100000001B3"
definition HASH0 :: u64 where "HASH0 = 0xCBF29CE484222325"

definition fnv64 :: "u64 \<Rightarrow> u8 list \<Rightarrow> u64" where
  "fnv64 h p = foldl (\<lambda>h b. (h XOR to64 b) * FNV_PRIME) h p"

definition le16s :: "u16 list \<Rightarrow> u8 list" where
  "le16s ws = concat (map (\<lambda>w. [to8 w, to8 (drop_bit 8 w)]) ws)"

definition cpu_words :: "cpu \<Rightarrow> u16 list" where
  "cpu_words c = [rA c, rX c, rY c, rS c, rDP c, to16 (rDB c), to16 (rPB c), rPC c,
     to16 (fl_m c) OR push_bit 1 (to16 (fl_x c)) OR push_bit 2 (to16 (fl_e c)) OR push_bit 3 (to16 (fl_i c)) OR push_bit 4 (to16 (fl_d c))
       OR push_bit 5 (to16 (fl_c c)) OR push_bit 6 (to16 (fl_z c)) OR push_bit 7 (to16 (fl_v c)) OR push_bit 8 (to16 (fl_n c))]"

text \<open>The vendored APU as the hash sees it: \<open>apu_regs\<close>, its RAM, the DSP registers, and the bytes of its timers.\<close>

record apu_view =
  av_regs :: "u8 list"
  av_ram :: "u8 list"
  av_dsp :: "u8 list"
  av_timers :: "u8 list list"

definition apu_hash :: "apu_view \<Rightarrow> u64" where
  "apu_hash a = foldl fnv64 (fnv64 (fnv64 (fnv64 HASH0 (av_regs a)) (av_ram a)) (av_dsp a)) (av_timers a)"

definition state_hashes :: "apu_view \<Rightarrow> 'a boot_scheme \<Rightarrow> u64 list" where
  "state_hashes a s =
     [fnv64 HASH0 (le16s (cpu_words (cpu s))), fnv64 HASH0 (wram_bytes s 0 0x20000),
      fnv64 HASH0 (map (\<lambda>k. sram s (word_of_nat k)) [0..<0x2000]), fnv64 HASH0 (le16s (map (\<lambda>k. vram (ppu s) (word_of_nat k)) [0..<0x8000])),
      fnv64 HASH0 (le16s (map (\<lambda>k. cgram (ppu s) (word_of_nat k)) [0..<0x100])), fnv64 HASH0 (le16s (map (oam (ppu s)) [0..<0x110])),
      fnv64 HASH0 (map (present s) [0..<256 * 224 * 4]), apu_hash a]"

definition pixel15 :: "u8 \<Rightarrow> u8 \<Rightarrow> u8 \<Rightarrow> u16" where
  "pixel15 b g r = drop_bit 3 (to16 r) OR push_bit 5 (drop_bit 3 (to16 g)) OR push_bit 10 (drop_bit 3 (to16 b))"

definition frame_hash :: "'a boot_scheme \<Rightarrow> u64" where
  "frame_hash s = foldl (\<lambda>h k. fnv64 h (let c = pixel15 (present s (4 * k)) (present s (4 * k + 1)) (present s (4 * k + 2))
     in [to8 c, to8 (drop_bit 8 c)])) HASH0 [0..<256 * 224]"

definition nonblack :: "(nat \<Rightarrow> u8) \<Rightarrow> nat \<Rightarrow> bool" where
  "nonblack p n \<longleftrightarrow> list_ex (\<lambda>k. p (4 * k) OR p (4 * k + 1) OR p (4 * k + 2) \<noteq> 0) [0..<n div 4]"

section \<open>At every frame edge\<close>

definition check_expect :: "boot_opts \<Rightarrow> int \<Rightarrow> nat \<Rightarrow> 'a boot_scheme \<Rightarrow> 'a boot_scheme" where
  "check_expect B f k s =
     (let e = bo_expect_wram B ! k in
      if f \<noteq> ew_frame e then s
      else let v = wram s (ew_addr e); ok = (if ew_neq e then unat v \<noteq> ew_val e else unat v = ew_val e);
               s1 = s\<lparr>bt_seen := (bt_seen s)[k := True], bt_ok := (bt_ok s)[k := ok]\<rparr>
           in if ok then s1 else say [Wram_differs f (ew_addr e) v] s1)"

definition stereo :: "sample list \<Rightarrow> u16 list" where
  "stereo xs = concat (map (\<lambda>(l, r). [l, r]) xs)"

definition take_audio :: "boot_opts \<Rightarrow> 'a boot_scheme \<Rightarrow> 'a boot_scheme" where
  "take_audio B s =
     (let (xs, a) = sched_audio_take 2048 (bt_audio s); s1 = s\<lparr>bt_audio := a\<rparr>;
          s2 = (if list_ex (\<lambda>v. v \<noteq> 0) (stereo xs) then s1\<lparr>bt_audible := bt_audible s1 + 1\<rparr> else s1)
      in if bo_wav B then s2\<lparr>bt_wav := wav_write (stereo xs) (length xs) (bt_wav s2)\<rparr> else s2)"

definition dump_frame :: "boot_opts \<Rightarrow> bool \<Rightarrow> 'a boot_scheme \<Rightarrow> 'a boot_scheme" where
  "dump_frame B can_write s =
     (if \<not> bo_dump B then s
      else let (r, h) = png_dump_frame can_write (map (present s) [0..<256 * 224 * 4]) (bt_png s); s1 = s\<lparr>bt_png := h\<rparr> in
           if r > 0 then s1\<lparr>bt_dumped := bt_dumped s1 + 1\<rparr> else s1)"

definition poke_wram :: "boot_opts \<Rightarrow> int \<Rightarrow> 'a boot_scheme \<Rightarrow> 'a boot_scheme" where
  "poke_wram B f s = (case bo_poke B of None \<Rightarrow> s
     | Some (pf, a, v) \<Rightarrow> if f = pf then s\<lparr>wram := (wram s)(a := wram s a XOR v)\<rparr> else s)"

text \<open>The lines of \<open>--hash-log\<close> and \<open>--ref-log\<close>, and the dump of the memories at the last edge.\<close>

definition hash_line :: "boot_opts \<Rightarrow> ('a boot_scheme \<Rightarrow> apu_view) \<Rightarrow> int \<Rightarrow> 'a boot_scheme \<Rightarrow> 'a boot_scheme" where
  "hash_line B apu f s = (if bo_hash_log B then say [Hashes f (state_hashes (apu s) s)] s else s)"

definition dump_state :: "boot_opts \<Rightarrow> int \<Rightarrow> 'a boot_scheme \<Rightarrow> 'a boot_scheme" where
  "dump_state B f s = (if f = bo_frames B \<and> bo_dump_state B then say [Dumped_state f] (s\<lparr>bt_dumped_state := True\<rparr>) else s)"

definition ref_line :: "boot_opts \<Rightarrow> int \<Rightarrow> 'a boot_scheme \<Rightarrow> 'a boot_scheme" where
  "ref_line B f s = (if bo_ref_log B
     then say [Ref_hashes f (fnv64 0xCBF29CE484222325 (wram_bytes s 0 0x20000)) (frame_hash s) (edge_in_dma (tm s))] s else s)"

definition profile_start :: "boot_opts \<Rightarrow> int \<Rightarrow> 'a boot_scheme \<Rightarrow> 'a boot_scheme" where
  "profile_start B f s = (if bo_profile_from B \<noteq> 0 \<and> f + 1 = bo_profile_from B then sched_profile_clear s else s)"

definition boot_on_frame :: "boot_opts \<Rightarrow> ('a boot_scheme \<Rightarrow> apu_view) \<Rightarrow> (int \<Rightarrow> bool) \<Rightarrow> int \<Rightarrow> ('a boot_scheme, unit) act" where
  "boot_on_frame B apu can_write f =
     thn (modify (profile_start B f)) (thn (modify (poke_wram B f))
    (thn (modify (fold (check_expect B f) [0..<length (bo_expect_wram B)]))
    (thn (bnd (gets (\<lambda>s. replay_buttons (bt_input s) (f + 1))) (sched_set_joypad 0))
    (thn (modify (take_audio B)) (thn (modify (dump_frame B (can_write f)))
    (thn (modify (hash_line B apu f)) (thn (modify (dump_state B f)) (modify (ref_line B f)))))))))"

definition boot_script_reset :: "int \<Rightarrow> 'a boot_scheme \<Rightarrow> bool" where
  "boot_script_reset f s = replay_reset (bt_input s) f"

section \<open>The verdict\<close>

text \<open>The exit code of a run that was not stopped; the share of native instructions is compared in floating point, and the depth
  of the C stack is the host's.\<close>

record verdict_opts =
  vo_min_nmis :: int
  vo_require_render :: bool
  vo_require_audio :: bool
  vo_native_ok :: "u64 \<Rightarrow> u64 \<Rightarrow> bool"
  vo_stack_ok :: bool

definition reached :: "'a boot_scheme \<Rightarrow> bool" where
  "reached s \<longleftrightarrow> list_all id (bt_hit s) \<and> list_all id (bt_ok s)"

definition verdict :: "verdict_opts \<Rightarrow> 'a boot_scheme \<Rightarrow> int" where
  "verdict R s =
     (let lit_up = nonblack (present s) (256 * 224 * 4) in
      if nmis s \<ge> vo_min_nmis R \<and> (lit_up \<or> \<not> vo_require_render R) \<and> vo_native_ok R (prof_native s) (prof_native s + prof_interp s) \<and>
        (bt_audible s \<noteq> 0 \<or> \<not> vo_require_audio R) \<and> reached s \<and> vo_stack_ok R then 0 else 1)"

text \<open>Static storage before \<open>main\<close>, and what \<open>main\<close> sets before its loop.\<close>

definition boot_ready :: "boot_opts \<Rightarrow> 'a boot_scheme \<Rightarrow> 'a boot_scheme" where
  "boot_ready B s = s\<lparr>bt_tail := replicate TAIL (0, cpu_init), bt_tail_n := 0, bt_hit := replicate (length (bo_expect_pc B)) False,
     bt_seen := replicate (length (bo_expect_wram B)) False, bt_ok := replicate (length (bo_expect_wram B)) False,
     bt_watch_last := map (\<lambda>(a, n). replicate n 0) (bo_watch B), bt_prev_at := 0, bt_at_seen := replicate (length (bo_at B)) 0,
     bt_snaps := 0, bt_entry_seen := (\<lambda>_. 0), bt_last_at := 0xFFFFFFFF, bt_seen_pc := (\<lambda>_. 0), bt_out := [], bt_audible := 0,
     bt_dumped := 0, bt_dumped_state := False, bt_png := 0, bt_wav := (if bo_wav B then wav_open 32000 else [])\<rparr>"

definition boot_start :: "boot_opts \<Rightarrow> ('a boot_scheme, unit) act" where
  "boot_start B = thn (modify (boot_ready B)) (bnd (gets (\<lambda>s. replay_buttons (bt_input s) 1)) (sched_set_joypad 0))"

section \<open>A difference of one byte shows\<close>

lemma prime_odd: "(x :: u64) * FNV_PRIME = y * FNV_PRIME \<Longrightarrow> x = y"
proof -
  assume "x * FNV_PRIME = y * FNV_PRIME"
  then have "x * FNV_PRIME * 0xCE965057AFF6957B = y * FNV_PRIME * 0xCE965057AFF6957B" by simp
  moreover have "FNV_PRIME * 0xCE965057AFF6957B = 1" by (simp add: FNV_PRIME_def)
  ultimately show ?thesis by (simp add: mult.assoc)
qed

lemma xor_left: "(h :: u64) XOR a = h XOR b \<Longrightarrow> a = b"
proof -
  assume "h XOR a = h XOR b"
  then have "h XOR (h XOR a) = h XOR (h XOR b)" by simp
  then show ?thesis by (simp add: xor.assoc[symmetric])
qed

lemma fnv_inj: "fnv64 h p = fnv64 g p \<Longrightarrow> h = g"
proof (induction p arbitrary: h g)
  case (Cons b p)
  then have "(h XOR to64 b) * FNV_PRIME = (g XOR to64 b) * FNV_PRIME" by (simp add: fnv64_def)
  then have "h XOR to64 b = g XOR to64 b" by (rule prime_odd)
  then show ?case using xor_left[of "to64 b" h g] by (simp add: xor.commute)
qed (simp add: fnv64_def)

lemma fnv_append: "fnv64 h (p @ q) = fnv64 (fnv64 h p) q"
  by (simp add: fnv64_def)

lemma to64_inj: "to64 (a :: u8) = to64 b \<Longrightarrow> a = b"
  by (metis unat_zext(4) word_unat_eq_iff)

lemma fnv_one_byte:
  assumes "k < length p" "p ! k \<noteq> x"
  shows "fnv64 h (p[k := x]) \<noteq> fnv64 h p"
proof
  assume e: "fnv64 h (p[k := x]) = fnv64 h p"
  let ?a = "take k p" and ?b = "drop (Suc k) p"
  have "p[k := x] = ?a @ x # ?b" "p = ?a @ p ! k # ?b"
    using assms(1) by (simp_all add: upd_conv_take_nth_drop id_take_nth_drop[symmetric])
  then have "fnv64 (fnv64 (fnv64 h ?a) [x]) ?b = fnv64 (fnv64 (fnv64 h ?a) [p ! k]) ?b"
    using e fnv_append by (metis append_Cons append_Nil)
  from fnv_inj[OF this] have "(fnv64 h ?a XOR to64 x) * FNV_PRIME = (fnv64 h ?a XOR to64 (p ! k)) * FNV_PRIME" by (simp add: fnv64_def)
  from prime_odd[OF this] have "to64 x = to64 (p ! k)" by (rule xor_left)
  then show False using to64_inj assms(2) by blast
qed

text \<open>The byte of \<open>--poke-wram\<close> changes the WRAM hash of a state and no other.\<close>

lemma poke_hashes:
  assumes "bo_poke B = Some (f, a, v)" "a < 0x20000" "v \<noteq> 0"
  shows "state_hashes apu (poke_wram B f s) = (state_hashes apu s)[1 := fnv64 HASH0 (wram_bytes (poke_wram B f s) 0 0x20000)] \<and>
    state_hashes apu (poke_wram B f s) ! 1 \<noteq> state_hashes apu s ! 1"
proof -
  let ?t = "poke_wram B f s"
  have t: "?t = s\<lparr>wram := (wram s)(a := wram s a XOR v)\<rparr>" using assms(1) by (simp add: poke_wram_def)
  have n: "unat a < 0x20000" using assms(2) by (simp add: word_less_nat_alt)
  have w: "wram_bytes ?t 0 0x20000 = (wram_bytes s 0 0x20000)[unat a := wram s a XOR v]"
  proof (rule nth_equalityI)
    fix i assume "i < length (wram_bytes ?t 0 0x20000)"
    then have i: "i < 0x20000" by (simp add: wram_bytes_def)
    then have "unat (word_of_nat i :: u32) = i" by (simp add: unat_of_nat)
    then have "word_of_nat i = a \<longleftrightarrow> i = unat a" by (metis word_unat_eq_iff)
    then show "wram_bytes ?t 0 0x20000 ! i = (wram_bytes s 0 0x20000)[unat a := wram s a XOR v] ! i"
      using i n by (auto simp: wram_bytes_def t nth_list_update)
  qed (simp add: wram_bytes_def)
  have x: "h XOR a = h \<Longrightarrow> a = 0" for h a :: u8
  proof -
    assume "h XOR a = h"
    then have "h XOR (h XOR a) = 0" by simp
    then show "a = 0" by (simp add: xor.assoc[symmetric])
  qed
  have "wram s a XOR v \<noteq> wram s a" using x assms(3) by blast
  then have "fnv64 HASH0 (wram_bytes ?t 0 0x20000) \<noteq> fnv64 HASH0 (wram_bytes s 0 0x20000)"
    unfolding w using n by (intro fnv_one_byte) (simp_all add: wram_bytes_def del: upt_rec_numeral)
  then show ?thesis by (simp add: state_hashes_def t)
qed

definition demo_opts :: boot_opts where
  "demo_opts = \<lparr>bo_expect_pc = [0xC00102], bo_expect_wram = [\<lparr>ew_frame = 1, ew_addr = 0x10, ew_val = 0, ew_neq = True\<rparr>],
     bo_watch = [(0x10, 2)], bo_at = [], bo_log = [], bo_snap = (0xFFFFFFFF, 0), bo_wram_entries = False, bo_first_exec = False,
     bo_trace = None, bo_poke = Some (1, 0x10, 0xFF), bo_profile_from = 0, bo_wav = False, bo_dump = False, bo_hash_log = True,
     bo_ref_log = False, bo_dump_state = False, bo_frames = 60\<rparr>"

section \<open>What a run did\<close>

text \<open>A run of the probe: an instruction is traced or a frame ends, and in between the scheduler runs, which leaves the probe's state alone.
  The history has the state each was seen in.\<close>

datatype moment = Ran u32 | Edge int

definition bt_same :: "'a boot_scheme \<Rightarrow> 'a boot_scheme \<Rightarrow> bool" where
  "bt_same s t \<longleftrightarrow> bt_tail t = bt_tail s \<and> bt_tail_n t = bt_tail_n s \<and> bt_hit t = bt_hit s \<and> bt_seen t = bt_seen s \<and> bt_ok t = bt_ok s \<and>
     bt_watch_last t = bt_watch_last s \<and> bt_prev_at t = bt_prev_at s \<and> bt_at_seen t = bt_at_seen s \<and> bt_snaps t = bt_snaps s \<and>
     bt_entry_seen t = bt_entry_seen s \<and> bt_last_at t = bt_last_at s \<and> bt_seen_pc t = bt_seen_pc s \<and> bt_out t = bt_out s \<and>
     bt_audible t = bt_audible s \<and> bt_input t = bt_input s"

inductive probed ::
  "boot_opts \<Rightarrow> ('a boot_scheme \<Rightarrow> apu_view) \<Rightarrow> (int \<Rightarrow> bool) \<Rightarrow> 'a boot_scheme \<Rightarrow> (moment \<times> 'a boot_scheme) list \<Rightarrow> bool"
  for B apu w where
  begun: "boot_start B s = Inr ((), t) \<Longrightarrow> probed B apu w t []"
| insn: "probed B apu w s h \<Longrightarrow> bt_same s u \<Longrightarrow> probed B apu w (trace B at u) (h @ [(Ran at, u)])"
| edge: "probed B apu w s h \<Longrightarrow> bt_same s u \<Longrightarrow> boot_on_frame B apu w f u = Inr ((), t) \<Longrightarrow> probed B apu w t (h @ [(Edge f, u)])"

text \<open>What each hook leaves alone.\<close>

named_theorems hook_parts \<open>what the parts of the hooks leave alone\<close>

lemma say_parts [hook_parts]: "bt_hit (say r s) = bt_hit s" "bt_ok (say r s) = bt_ok s" "bt_tail (say r s) = bt_tail s" "bt_tail_n (say r s) = bt_tail_n s"
  "cpu (say r s) = cpu s" "wram (say r s) = wram s" "bt_watch_last (say r s) = bt_watch_last s"
  by (simp_all add: say_def)

definition rest_same :: "'a boot_scheme \<Rightarrow> 'a boot_scheme \<Rightarrow> bool" where
  "rest_same s t \<longleftrightarrow> bt_hit t = bt_hit s \<and> bt_ok t = bt_ok s \<and> bt_tail t = bt_tail s \<and> bt_tail_n t = bt_tail_n s \<and> cpu t = cpu s \<and> wram t = wram s"

lemma rest_refl: "rest_same s s" by (simp add: rest_same_def)

lemma rest_trans: "rest_same s t \<Longrightarrow> rest_same t u \<Longrightarrow> rest_same s u" by (simp add: rest_same_def)

lemma rest_fold: "(\<And>k s. rest_same s (f k s)) \<Longrightarrow> rest_same s (fold f ks s)"
proof (induction ks arbitrary: s)
  case (Cons k ks)
  show ?case using rest_trans[OF Cons.prems Cons.IH[OF Cons.prems]] by simp
qed (simp add: rest_refl)

lemma rest_say: "rest_same s (say r t) = rest_same s t"
  by (simp add: rest_same_def hook_parts)

lemma rest_log: "rest_same s (s\<lparr>bt_seen_pc := a\<rparr>)" "rest_same s (s\<lparr>bt_entry_seen := b\<rparr>)" "rest_same s (t\<lparr>bt_last_at := c\<rparr>) = rest_same s t"
  "rest_same s (s\<lparr>bt_snaps := n\<rparr>)" "rest_same s (s\<lparr>bt_at_seen := d\<rparr>)" "rest_same s (t\<lparr>bt_watch_last := e\<rparr>) = rest_same s t"
  "rest_same s (t\<lparr>bt_prev_at := f\<rparr>) = rest_same s t"
  by (simp_all add: rest_same_def)

lemmas rest_simps = rest_refl rest_say rest_log

lemma trace_parts: "rest_same s (trace_first B at s)" "rest_same s (trace_out B at s)" "rest_same s (trace_entry B at s)"
  "rest_same s (trace_snap B at s)" "rest_same s (trace_log B at s)" "rest_same s (trace_at_one B at k s)" "rest_same s (check_one B at k s)"
proof -
  show "rest_same s (trace_first B at s)" by (simp add: trace_first_def Let_def rest_simps)
  show "rest_same s (trace_out B at s)" by (simp add: trace_out_def Let_def rest_simps split: option.splits prod.splits)
  show "rest_same s (trace_entry B at s)" by (simp add: trace_entry_def Let_def rest_simps)
  show "rest_same s (trace_snap B at s)" by (simp add: trace_snap_def rest_simps)
  show "rest_same s (trace_log B at s)" by (simp add: trace_log_def rest_simps)
  show "rest_same s (trace_at_one B at k s)" by (simp add: trace_at_one_def Let_def rest_simps)
  show "rest_same s (check_one B at k s)" by (simp add: check_one_def Let_def rest_simps split: prod.splits)
qed

lemma check_watch_rest: "rest_same s (check_watch B at s)"
  using rest_fold[of "check_one B at" s, OF trace_parts(7)] by (simp add: check_watch_def rest_simps)

text \<open>What \<open>trace\<close> does before its last two parts.\<close>

definition trace_logs :: "boot_opts \<Rightarrow> u32 \<Rightarrow> 'a boot_scheme \<Rightarrow> 'a boot_scheme" where
  "trace_logs B at s =
     (let s = fold (trace_at_one B at) [0..<length (bo_at B)]
            (trace_log B at (trace_snap B at (trace_entry B at (trace_out B at (trace_first B at s)))))
      in if bo_watch B \<noteq> [] then check_watch B at s else s)"

lemma trace_split: "trace B at s = trace_tail at (trace_expect B at (trace_logs B at s))"
  by (simp add: trace_def trace_logs_def Let_def)

lemma trace_logs_rest: "rest_same s (trace_logs B at s)"
proof -
  let ?t = "trace_log B at (trace_snap B at (trace_entry B at (trace_out B at (trace_first B at s))))"
  let ?u = "fold (trace_at_one B at) [0..<length (bo_at B)] ?t"
  note parts = trace_parts(1-5)
  have "rest_same s ?t"
    by (rule rest_trans[OF parts(1) rest_trans[OF parts(2) rest_trans[OF parts(3) rest_trans[OF parts(4) parts(5)]]]])
  from rest_trans[OF this rest_fold[OF trace_parts(6)]] have u: "rest_same s ?u" .
  have "trace_logs B at s = (if bo_watch B \<noteq> [] then check_watch B at ?u else ?u)" by (simp only: trace_logs_def Let_def)
  then show ?thesis using u rest_trans[OF u check_watch_rest[of ?u B at]] by simp
qed

lemma trace_fields: "bt_hit (trace B at s) = map2 (\<lambda>pc hit. hit \<or> at = pc) (bo_expect_pc B) (bt_hit s)" "bt_ok (trace B at s) = bt_ok s"
  "bt_tail (trace B at s) = (bt_tail s)[unat (bt_tail_n s) mod TAIL := (at, cpu s)]" "bt_tail_n (trace B at s) = bt_tail_n s + 1"
  using trace_logs_rest[of s B at] by (simp_all add: trace_split trace_tail_def trace_expect_def rest_same_def)

text \<open>The check of the WRAM bytes at an edge.\<close>

definition met :: "expect_wram \<Rightarrow> 'a bus_state_scheme \<Rightarrow> bool" where
  "met e s \<longleftrightarrow> (if ew_neq e then unat (wram s (ew_addr e)) \<noteq> ew_val e else unat (wram s (ew_addr e)) = ew_val e)"

lemma check_expect_fields:
  "wram (check_expect B f k s) = wram s" "bt_hit (check_expect B f k s) = bt_hit s" "bt_tail (check_expect B f k s) = bt_tail s"
  "bt_tail_n (check_expect B f k s) = bt_tail_n s" "bt_input (check_expect B f k s) = bt_input s"
  "bt_ok (check_expect B f k s) = (if f = ew_frame (bo_expect_wram B ! k) then (bt_ok s)[k := met (bo_expect_wram B ! k) s] else bt_ok s)"
  by (simp_all add: check_expect_def Let_def say_def met_def)

lemma met_same: "wram t = wram s \<Longrightarrow> met e t = met e s" by (simp add: met_def)

lemma check_all:
  fixes s :: "'a boot_scheme" and B f
  assumes "n \<le> length (bt_ok s)"
  defines "t \<equiv> fold (check_expect B f) [0..<n] s"
  shows "wram t = wram s \<and> bt_hit t = bt_hit s \<and> bt_tail t = bt_tail s \<and> bt_tail_n t = bt_tail_n s \<and> bt_input t = bt_input s \<and>
    length (bt_ok t) = length (bt_ok s) \<and>
    (\<forall>k<length (bt_ok s). bt_ok t ! k = (if k < n \<and> f = ew_frame (bo_expect_wram B ! k) then met (bo_expect_wram B ! k) s else bt_ok s ! k))"
  using assms(1) unfolding t_def
proof (induction n)
  case (Suc n)
  let ?u = "fold (check_expect B f) [0..<n] s"
  have u: "wram ?u = wram s" "bt_hit ?u = bt_hit s" "bt_tail ?u = bt_tail s" "bt_tail_n ?u = bt_tail_n s" "bt_input ?u = bt_input s"
    "length (bt_ok ?u) = length (bt_ok s)"
    "\<And>k. k < length (bt_ok s) \<Longrightarrow> bt_ok ?u ! k = (if k < n \<and> f = ew_frame (bo_expect_wram B ! k) then met (bo_expect_wram B ! k) s else bt_ok s ! k)"
    using Suc by simp_all
  have e: "fold (check_expect B f) [0..<Suc n] s = check_expect B f n ?u" by simp
  have "bt_ok (check_expect B f n ?u) ! k =
      (if k < Suc n \<and> f = ew_frame (bo_expect_wram B ! k) then met (bo_expect_wram B ! k) s else bt_ok s ! k)" if "k < length (bt_ok s)" for k
  proof -
    have c: "bt_ok (check_expect B f n ?u) = (if f = ew_frame (bo_expect_wram B ! n) then (bt_ok ?u)[n := met (bo_expect_wram B ! n) s] else bt_ok ?u)"
      unfolding check_expect_fields met_same[OF u(1)] ..
    show ?thesis
    proof (cases "k = n")
      case True
      have "n < length (bt_ok ?u)" using Suc.prems u(6) by simp
      then show ?thesis unfolding c using True u(7)[OF that] by (cases "f = ew_frame (bo_expect_wram B ! n)") simp_all
    next
      case False
      then have "bt_ok (check_expect B f n ?u) ! k = bt_ok ?u ! k" unfolding c by simp
      moreover have "k < Suc n \<longleftrightarrow> k < n" using False by auto
      ultimately show ?thesis using u(7)[OF that] by simp
    qed
  qed
  moreover have "length (bt_ok (check_expect B f n ?u)) = length (bt_ok s)"
    using u(6) by (cases "f = ew_frame (bo_expect_wram B ! n)") (simp_all add: check_expect_fields)
  ultimately show ?case unfolding e check_expect_fields(1-5) u(1-5) by simp
qed simp

lemma take_audio_fields: "bt_hit (take_audio B s) = bt_hit s" "bt_ok (take_audio B s) = bt_ok s" "bt_tail (take_audio B s) = bt_tail s"
  "bt_tail_n (take_audio B s) = bt_tail_n s" "vr (take_audio B s) = vr s" "bt_input (take_audio B s) = bt_input s"
  by (simp_all add: take_audio_def case_prod_beta Let_def)

lemma dump_frame_fields: "bt_hit (dump_frame B c s) = bt_hit s" "bt_ok (dump_frame B c s) = bt_ok s" "bt_tail (dump_frame B c s) = bt_tail s"
  "bt_tail_n (dump_frame B c s) = bt_tail_n s" "vr (dump_frame B c s) = vr s" "bt_input (dump_frame B c s) = bt_input s"
  by (simp_all add: dump_frame_def case_prod_beta Let_def)

lemma line_fields: "bt_hit (hash_line B apu f s) = bt_hit s" "bt_ok (hash_line B apu f s) = bt_ok s" "bt_tail (hash_line B apu f s) = bt_tail s"
  "bt_tail_n (hash_line B apu f s) = bt_tail_n s" "vr (hash_line B apu f s) = vr s" "bt_input (hash_line B apu f s) = bt_input s"
  "bt_hit (dump_state B f s) = bt_hit s" "bt_ok (dump_state B f s) = bt_ok s" "bt_tail (dump_state B f s) = bt_tail s"
  "bt_tail_n (dump_state B f s) = bt_tail_n s" "vr (dump_state B f s) = vr s" "bt_input (dump_state B f s) = bt_input s"
  "bt_hit (ref_line B f s) = bt_hit s" "bt_ok (ref_line B f s) = bt_ok s" "bt_tail (ref_line B f s) = bt_tail s"
  "bt_tail_n (ref_line B f s) = bt_tail_n s" "vr (ref_line B f s) = vr s" "bt_input (ref_line B f s) = bt_input s"
  "bt_hit (profile_start B f s) = bt_hit s" "bt_ok (profile_start B f s) = bt_ok s" "bt_tail (profile_start B f s) = bt_tail s"
  "bt_tail_n (profile_start B f s) = bt_tail_n s" "wram (profile_start B f s) = wram s" "bt_input (profile_start B f s) = bt_input s"
  by (simp_all add: hash_line_def dump_state_def ref_line_def profile_start_def sched_profile_clear_def say_def)

lemma poke_fields: "bt_hit (poke_wram B f s) = bt_hit s" "bt_ok (poke_wram B f s) = bt_ok s" "bt_tail (poke_wram B f s) = bt_tail s"
  "bt_tail_n (poke_wram B f s) = bt_tail_n s" "bt_input (poke_wram B f s) = bt_input s"
  by (simp_all add: poke_wram_def split: option.splits prod.splits)

lemma poke_wram_same: "wram t = wram s \<Longrightarrow> wram (poke_wram B f t) = wram (poke_wram B f s)"
  by (auto simp: poke_wram_def split: option.splits prod.splits)

text \<open>The frame edge, in three steps: the checks, pad 1, and what is only written out.\<close>

definition edge_checks :: "boot_opts \<Rightarrow> int \<Rightarrow> 'a boot_scheme \<Rightarrow> 'a boot_scheme" where
  "edge_checks B f s = fold (check_expect B f) [0..<length (bo_expect_wram B)] (poke_wram B f (profile_start B f s))"

definition edge_pad :: "int \<Rightarrow> 'a boot_scheme \<Rightarrow> 'a boot_scheme" where
  "edge_pad f s = s\<lparr>vr := (vr s)\<lparr>pad := (pad (vr s))(0 := replay_buttons (bt_input s) (f + 1))\<rparr>\<rparr>"

definition edge_logs :: "boot_opts \<Rightarrow> ('a boot_scheme \<Rightarrow> apu_view) \<Rightarrow> bool \<Rightarrow> int \<Rightarrow> 'a boot_scheme \<Rightarrow> 'a boot_scheme" where
  "edge_logs B apu c f s = ref_line B f (dump_state B f (hash_line B apu f (dump_frame B c (take_audio B s))))"

lemma boot_on_frame_steps: "boot_on_frame B apu w f s = Inr ((), edge_logs B apu (w f) f (edge_pad f (edge_checks B f s)))"
proof -
  have p: "thn (bnd (gets (\<lambda>s. replay_buttons (bt_input s) (f + 1))) (sched_set_joypad 0)) k u = k (edge_pad f u)" for k :: "('a boot_scheme, unit) act" and u
    by (simp add: thn_def bnd_assoc bnd_gets sched_set_joypad_def whenM_def vr_do_def edge_pad_def bnd_def modify_def gets_def)
  show ?thesis unfolding boot_on_frame_def thn_modify p edge_checks_def edge_logs_def by (simp add: modify_def)
qed

text \<open>What the hashes of a line are taken of, and the lines of the hash log.\<close>

definition hashed :: "'a boot_scheme \<Rightarrow> cpu \<times> (u32 \<Rightarrow> u8) \<times> (u32 \<Rightarrow> u8) \<times> ppu_regs \<times> (nat \<Rightarrow> u8) \<times> 'a" where
  "hashed s = (cpu s, wram s, sram s, ppu s, present s, boot.more s)"

fun hash_log :: "report list \<Rightarrow> (int \<times> u64 list) list" where
  "hash_log [] = []"
| "hash_log (Hashes f hs # rs) = (f, hs) # hash_log rs"
| "hash_log (r # rs) = hash_log rs"

lemma hash_log_append: "hash_log (rs @ qs) = hash_log rs @ hash_log qs"
  by (induction rs rule: hash_log.induct) simp_all

lemma hashed_eq: "hashed t = hashed s \<Longrightarrow> state_hashes (view (boot.more t)) t = state_hashes (view (boot.more s)) s"
  by (simp add: hashed_def state_hashes_def wram_bytes_def)

lemma hashed_parts:
  "hashed (check_expect B f k s) = hashed s" "hash_log (bt_out (check_expect B f k s)) = hash_log (bt_out s)"
  "hashed (edge_pad f s) = hashed s" "bt_out (edge_pad f s) = bt_out s"
  "hashed (profile_start B f s) = hashed s" "bt_out (profile_start B f s) = bt_out s" "bt_out (poke_wram B f s) = bt_out s"
  "hashed (dump_frame B c (take_audio B s)) = hashed s" "bt_out (dump_frame B c (take_audio B s)) = bt_out s"
  by (simp_all add: hashed_def check_expect_def Let_def say_def hash_log_append edge_pad_def profile_start_def sched_profile_clear_def
      poke_wram_def dump_frame_def take_audio_def case_prod_beta split: option.splits)

lemma checks_hashed:
  fixes s :: "'a boot_scheme"
  shows "hashed (edge_checks B f s) = hashed (poke_wram B f (profile_start B f s))" "hash_log (bt_out (edge_checks B f s)) = hash_log (bt_out s)"
proof -
  have "hashed (fold (check_expect B f) ks u) = hashed u \<and> hash_log (bt_out (fold (check_expect B f) ks u)) = hash_log (bt_out u)"
    for ks and u :: "'a boot_scheme"
    by (induction ks arbitrary: u) (simp_all add: hashed_parts)
  then show "hashed (edge_checks B f s) = hashed (poke_wram B f (profile_start B f s))" "hash_log (bt_out (edge_checks B f s)) = hash_log (bt_out s)"
    by (simp_all add: edge_checks_def hashed_parts)
qed

lemma edge_logs_hashes:
  assumes "bo_hash_log B"
  shows "hash_log (bt_out (edge_logs B (\<lambda>s. view (boot.more s)) c f s)) = hash_log (bt_out s) @ [(f, state_hashes (view (boot.more s)) s)]"
    "wram (edge_logs B (\<lambda>s. view (boot.more s)) c f s) = wram s"
proof -
  let ?u = "dump_frame B c (take_audio B s)"
  have h: "state_hashes (view (boot.more ?u)) ?u = state_hashes (view (boot.more s)) s" by (rule hashed_eq) (simp add: hashed_parts)
  show "hash_log (bt_out (edge_logs B (\<lambda>s. view (boot.more s)) c f s)) = hash_log (bt_out s) @ [(f, state_hashes (view (boot.more s)) s)]"
    using assms by (simp add: edge_logs_def ref_line_def dump_state_def hash_line_def say_def hash_log_append h hashed_parts)
  have "wram ?u = wram s" using hashed_parts(8)[of B c s] by (simp add: hashed_def)
  then show "wram (edge_logs B (\<lambda>s. view (boot.more s)) c f s) = wram s"
    by (simp add: edge_logs_def ref_line_def dump_state_def hash_line_def say_def)
qed

text \<open>A run without the poke.\<close>

lemma unpoked_parts:
  "profile_start (B\<lparr>bo_poke := None\<rparr>) = profile_start B" "check_expect (B\<lparr>bo_poke := None\<rparr>) = check_expect B"
  "edge_logs (B\<lparr>bo_poke := None\<rparr>) = edge_logs B" "poke_wram (B\<lparr>bo_poke := None\<rparr>) f s = s"
  "bo_expect_wram (B\<lparr>bo_poke := None\<rparr>) = bo_expect_wram B" "bo_hash_log (B\<lparr>bo_poke := None\<rparr>) = bo_hash_log B"
  by (simp_all add: fun_eq_iff profile_start_def check_expect_def edge_logs_def ref_line_def dump_state_def hash_line_def dump_frame_def
      take_audio_def poke_wram_def)

text \<open>C39. A known difference is found, at its frame and nowhere else. With \<open>--poke-wram F:A:V\<close> and the hash log, the hook of a frame edge other than
  \<open>F\<close> does what it does without the option. At the edge of \<open>F\<close> the byte at \<open>A\<close> changes by \<open>V\<close>, and before the line of the hash log is taken: the
  line of that edge differs from that of the unpoked hook in the WRAM hash, the second of the eight, always, and in no other, so a comparison of the two runs'
  logs names WRAM at that frame. The vendored APU is outside the modelled state: its view is any function of the rest.\<close>

theorem poke_shows:
  fixes s :: "'a boot_scheme" and view :: "'a \<Rightarrow> apu_view"
  assumes "bo_poke B = Some (f, a, v)" "a < 0x20000" "v \<noteq> 0" "bo_hash_log B"
  shows "(\<exists>t t0 hs x. boot_on_frame B (\<lambda>s. view (boot.more s)) w f s = Inr ((), t) \<and>
      boot_on_frame (B\<lparr>bo_poke := None\<rparr>) (\<lambda>s. view (boot.more s)) w f s = Inr ((), t0) \<and>
      wram t0 = wram s \<and> wram t = (wram s)(a := wram s a XOR v) \<and> length hs = 8 \<and> x \<noteq> hs ! 1 \<and>
      hash_log (bt_out t0) = hash_log (bt_out s) @ [(f, hs)] \<and> hash_log (bt_out t) = hash_log (bt_out s) @ [(f, hs[1 := x])]) \<and>
    (\<forall>g. g \<noteq> f \<longrightarrow> boot_on_frame B (\<lambda>s. view (boot.more s)) w g s = boot_on_frame (B\<lparr>bo_poke := None\<rparr>) (\<lambda>s. view (boot.more s)) w g s)"
proof (intro conjI allI impI)
  let ?B = "B\<lparr>bo_poke := None\<rparr>" and ?apu = "\<lambda>s :: 'a boot_scheme. view (boot.more s)"
  let ?u = "edge_pad f (edge_checks B f s)" and ?nu = "edge_pad f (edge_checks ?B f s)" and ?p = "profile_start B f s"
  let ?h = "\<lambda>s :: 'a boot_scheme. state_hashes (view (boot.more s)) s"
  have u: "hashed ?u = hashed (poke_wram B f ?p)" "hashed ?nu = hashed ?p" "hash_log (bt_out ?u) = hash_log (bt_out s)" "hash_log (bt_out ?nu) = hash_log (bt_out s)"
    unfolding hashed_parts(3,4) checks_hashed unpoked_parts by (rule refl)+
  have p: "wram ?p = wram s" using hashed_parts(5)[of B f s] by (simp add: hashed_def)
  have k: "poke_wram B f ?p = ?p\<lparr>wram := (wram s)(a := wram s a XOR v)\<rparr>" using assms(1) p by (simp add: poke_wram_def)
  have w: "wram ?u = (wram s)(a := wram s a XOR v)" "wram ?nu = wram s" using u(1,2) p unfolding k by (simp_all add: hashed_def)
  have m: "boot.more (poke_wram B f ?p) = boot.more ?p" unfolding k by simp
  note d = poke_hashes[OF assms(1-3), of "view (boot.more ?p)" ?p]
  have h: "?h ?u = (?h ?nu)[1 := fnv64 HASH0 (wram_bytes (poke_wram B f ?p) 0 0x20000)]" "?h ?u ! 1 \<noteq> ?h ?nu ! 1"
    unfolding hashed_eq[OF u(1), of view] hashed_eq[OF u(2), of view] m by (rule conjunct1[OF d] conjunct2[OF d])+
  have l: "length (?h ?nu) = 8" by (simp add: state_hashes_def)
  let ?t = "edge_logs B ?apu (w f) f ?u" and ?nt = "edge_logs B ?apu (w f) f ?nu"
  let ?x = "fnv64 HASH0 (wram_bytes (poke_wram B f ?p) 0 0x20000)"
  have n: "?x \<noteq> ?h ?nu ! 1" using h l by simp
  have "boot_on_frame B ?apu w f s = Inr ((), ?t)" "boot_on_frame ?B ?apu w f s = Inr ((), ?nt)"
    by (simp_all add: boot_on_frame_steps unpoked_parts)
  moreover have "hash_log (bt_out ?nt) = hash_log (bt_out s) @ [(f, ?h ?nu)]" "hash_log (bt_out ?t) = hash_log (bt_out s) @ [(f, (?h ?nu)[1 := ?x])]"
    unfolding edge_logs_hashes(1)[OF assms(4)] u(3,4) h(1) by (rule refl)+
  moreover have "wram ?nt = wram s" "wram ?t = (wram s)(a := wram s a XOR v)" by (simp_all add: edge_logs_hashes[OF assms(4)] w)
  ultimately show "\<exists>t t0 hs x. boot_on_frame B ?apu w f s = Inr ((), t) \<and> boot_on_frame ?B ?apu w f s = Inr ((), t0) \<and>
      wram t0 = wram s \<and> wram t = (wram s)(a := wram s a XOR v) \<and> length hs = 8 \<and> x \<noteq> hs ! 1 \<and>
      hash_log (bt_out t0) = hash_log (bt_out s) @ [(f, hs)] \<and> hash_log (bt_out t) = hash_log (bt_out s) @ [(f, hs[1 := x])]"
    using l n by blast
  fix g assume "g \<noteq> f"
  then have "edge_checks B g s = edge_checks ?B g s" using assms(1) by (simp add: edge_checks_def unpoked_parts) (simp add: poke_wram_def)
  then show "boot_on_frame B ?apu w g s = boot_on_frame ?B ?apu w g s" by (simp add: boot_on_frame_steps unpoked_parts)
qed

theorem poke_shows_witness:
  "\<forall>s :: boot. \<exists>t hs x. boot_on_frame demo_opts (\<lambda>s. \<lparr>av_regs = [], av_ram = [], av_dsp = [], av_timers = []\<rparr>) (\<lambda>_. True) 1 s = Inr ((), t) \<and>
     x \<noteq> hs ! 1 \<and> hash_log (bt_out t) = hash_log (bt_out s) @ [(1, hs[1 := x])]"
proof
  fix s :: boot
  have p: "bo_poke demo_opts = Some (1, 0x10, 0xFF)" "bo_hash_log demo_opts" by (simp_all add: demo_opts_def)
  show "\<exists>t hs x. boot_on_frame demo_opts (\<lambda>s. \<lparr>av_regs = [], av_ram = [], av_dsp = [], av_timers = []\<rparr>) (\<lambda>_. True) 1 s = Inr ((), t) \<and>
     x \<noteq> hs ! 1 \<and> hash_log (bt_out t) = hash_log (bt_out s) @ [(1, hs[1 := x])]"
    using poke_shows[OF p(1) _ _ p(2), of "\<lambda>_. \<lparr>av_regs = [], av_ram = [], av_dsp = [], av_timers = []\<rparr>" "\<lambda>_. True" s] by fastforce
qed

lemma edge_logs_fields: "bt_hit (edge_logs B apu c f s) = bt_hit s" "bt_ok (edge_logs B apu c f s) = bt_ok s" "bt_tail (edge_logs B apu c f s) = bt_tail s"
  "bt_tail_n (edge_logs B apu c f s) = bt_tail_n s" "vr (edge_logs B apu c f s) = vr s" "bt_input (edge_logs B apu c f s) = bt_input s"
  by (simp_all add: edge_logs_def dump_frame_fields take_audio_fields line_fields)

lemma edge_fields:
  assumes "length (bt_ok s) = length (bo_expect_wram B)" "boot_on_frame B apu w f s = Inr ((), t)"
  shows "bt_hit t = bt_hit s" "bt_tail t = bt_tail s" "bt_tail_n t = bt_tail_n s" "bt_input t = bt_input s"
    "pad (vr t) 0 = replay_buttons (bt_input s) (f + 1)" "length (bt_ok t) = length (bt_ok s)"
    "\<And>k. k < length (bt_ok s) \<Longrightarrow> bt_ok t ! k =
       (if f = ew_frame (bo_expect_wram B ! k) then met (bo_expect_wram B ! k) (poke_wram B f s) else bt_ok s ! k)"
proof -
  let ?p = "poke_wram B f (profile_start B f s)"
  have t: "t = edge_logs B apu (w f) f (edge_pad f (edge_checks B f s))" using assms(2) by (simp add: boot_on_frame_steps)
  have m: "met e ?p = met e (poke_wram B f s)" for e
    by (rule met_same[OF poke_wram_same]) (simp add: line_fields)
  have "length (bo_expect_wram B) \<le> length (bt_ok ?p)" using assms(1) by (simp add: poke_fields line_fields)
  note c = check_all[OF this, of B f, folded edge_checks_def, unfolded poke_fields line_fields m]
  have e: "bt_hit (edge_pad f u) = bt_hit u" "bt_ok (edge_pad f u) = bt_ok u" "bt_tail (edge_pad f u) = bt_tail u"
    "bt_tail_n (edge_pad f u) = bt_tail_n u" "bt_input (edge_pad f u) = bt_input u" "pad (vr (edge_pad f u)) 0 = replay_buttons (bt_input u) (f + 1)"
    for u :: "'a boot_scheme"
    by (simp_all add: edge_pad_def)
  show "bt_hit t = bt_hit s" "bt_tail t = bt_tail s" "bt_tail_n t = bt_tail_n s" "bt_input t = bt_input s"
    "pad (vr t) 0 = replay_buttons (bt_input s) (f + 1)" "length (bt_ok t) = length (bt_ok s)"
    unfolding t edge_logs_fields e using c by simp_all
  show "bt_ok t ! k = (if f = ew_frame (bo_expect_wram B ! k) then met (bo_expect_wram B ! k) (poke_wram B f s) else bt_ok s ! k)"
    if "k < length (bt_ok s)" for k
    unfolding t edge_logs_fields e using c that assms(1) by simp
qed

text \<open>What the probe's flags and its tail hold after a run.\<close>

definition last_edge :: "int \<Rightarrow> (moment \<times> 'a boot_scheme) list \<Rightarrow> 'a boot_scheme option" where
  "last_edge f h = map_of (rev h) (Edge f)"

fun rans :: "(moment \<times> 'a boot_scheme) list \<Rightarrow> (u32 \<times> cpu) list" where
  "rans [] = []"
| "rans ((Ran at, u) # h) = (at, cpu u) # rans h"
| "rans ((Edge f, u) # h) = rans h"

lemma rans_append: "rans (g @ h) = rans g @ rans h"
  by (induction g rule: rans.induct) simp_all

definition flags_true :: "boot_opts \<Rightarrow> 'a boot_scheme \<Rightarrow> (moment \<times> 'a boot_scheme) list \<Rightarrow> bool" where
  "flags_true B s h \<longleftrightarrow> length (bt_hit s) = length (bo_expect_pc B) \<and> length (bt_ok s) = length (bo_expect_wram B) \<and>
     (\<forall>k<length (bt_hit s). bt_hit s ! k \<longleftrightarrow> (\<exists>u. (Ran (bo_expect_pc B ! k), u) \<in> set h)) \<and>
     (\<forall>k<length (bt_ok s). bt_ok s ! k \<longleftrightarrow> (\<exists>u. last_edge (ew_frame (bo_expect_wram B ! k)) h = Some u \<and>
        met (bo_expect_wram B ! k) (poke_wram B (ew_frame (bo_expect_wram B ! k)) u)))"

definition tail_true :: "'a boot_scheme \<Rightarrow> (u32 \<times> cpu) list \<Rightarrow> bool" where
  "tail_true s rs \<longleftrightarrow> length (bt_tail s) = TAIL \<and> bt_tail_n s = word_of_nat (length rs) \<and>
     (\<forall>k<length rs. length rs - TAIL \<le> k \<longrightarrow> bt_tail s ! (k mod TAIL) = rs ! k)"

lemma begun_fields:
  assumes "boot_start B s = Inr ((), t)"
  shows "bt_hit t = replicate (length (bo_expect_pc B)) False" "bt_ok t = replicate (length (bo_expect_wram B)) False"
    "bt_tail t = replicate TAIL (0, cpu_init)" "bt_tail_n t = 0" "bt_watch_last t = map (\<lambda>(a, n). replicate n 0) (bo_watch B)" "bt_out t = []"
    "bt_input t = bt_input s" "pad (vr t) 0 = replay_buttons (bt_input s) 1"
  using assms by (auto simp: boot_start_def thn_modify bnd_gets sched_set_joypad_def whenM_def vr_do_def modify_def boot_ready_def)

lemma flags_same: "bt_same s u \<Longrightarrow> flags_true B u h = flags_true B s h" "bt_same s u \<Longrightarrow> tail_true u rs = tail_true s rs"
  by (simp_all add: flags_true_def tail_true_def bt_same_def)

lemma flags_insn:
  assumes "flags_true B u h"
  shows "flags_true B (trace B at u) (h @ [(Ran at, u)])"
proof -
  have l: "length (bt_hit u) = length (bo_expect_pc B)" using assms by (simp add: flags_true_def)
  have e: "last_edge f (h @ [(Ran at, u)]) = last_edge f h" for f by (simp add: last_edge_def)
  have "bt_hit (trace B at u) ! k \<longleftrightarrow> (\<exists>v. (Ran (bo_expect_pc B ! k), v) \<in> set (h @ [(Ran at, u)]))"
    if "k < length (bo_expect_pc B)" for k
    using assms l that by (auto simp: trace_fields flags_true_def)
  then show ?thesis using assms l by (simp add: flags_true_def e trace_fields(2)) (simp add: trace_fields(1))
qed

lemma flags_edge:
  assumes "flags_true B u h" "boot_on_frame B apu w f u = Inr ((), t)"
  shows "flags_true B t (h @ [(Edge f, u)])"
proof -
  have l: "length (bt_ok u) = length (bo_expect_wram B)" using assms(1) by (simp add: flags_true_def)
  note t = edge_fields[OF l assms(2)]
  have e: "last_edge g (h @ [(Edge f, u)]) = (if g = f then Some u else last_edge g h)" for g by (simp add: last_edge_def)
  show ?thesis using assms(1) l t(7) by (simp add: flags_true_def t(1,6) e)
qed

lemma tail_insn:
  assumes "tail_true u rs" "length rs < 2 ^ 32"
  shows "tail_true (trace B at u) (rs @ [(at, cpu u)])"
proof -
  let ?n = "length rs"
  have n: "unat (bt_tail_n u) = ?n" "length (bt_tail u) = 64"
    using assms by (simp_all add: tail_true_def unat_of_nat TAIL_def)
  have "(bt_tail u)[?n mod 64 := (at, cpu u)] ! (k mod 64) = (rs @ [(at, cpu u)]) ! k" if k: "k < Suc ?n" "Suc ?n - 64 \<le> k" for k
  proof (cases "k = ?n")
    case True
    then show ?thesis using n(2) by (simp add: nth_list_update)
  next
    case False
    then have "k < ?n" "?n - 64 \<le> k" "?n < k + 64" using k by linarith+
    have "k mod 64 \<noteq> ?n mod 64"
    proof
      assume "k mod 64 = ?n mod 64"
      then have "64 dvd ?n - k" using \<open>k < ?n\<close> by (metis mod_eq_dvd_iff_nat less_imp_le_nat)
      then show False using \<open>k < ?n\<close> \<open>?n < k + 64\<close> by (auto dest!: dvd_imp_le)
    qed
    then show ?thesis using assms(1) \<open>k < ?n\<close> \<open>?n - 64 \<le> k\<close> by (simp add: tail_true_def TAIL_def nth_append)
  qed
  then show ?thesis using assms n by (simp add: tail_true_def trace_fields TAIL_def add.commute)
qed

lemma probed_flags: "probed B apu w s h \<Longrightarrow> flags_true B s h"
proof (induction rule: probed.induct)
  case (begun s t)
  then show ?case by (simp add: flags_true_def begun_fields[OF begun] last_edge_def)
next
  case (insn s h u at)
  then show ?case using flags_insn flags_same(1) by blast
next
  case (edge s h u f t)
  then show ?case using flags_edge flags_same(1) by blast
qed

lemma probed_tail: "probed B apu w s h \<Longrightarrow> length (rans h) < 2 ^ 32 \<Longrightarrow> tail_true s (rans h)"
proof (induction rule: probed.induct)
  case (begun s t)
  show ?case by (simp add: tail_true_def begun_fields[OF begun(1)])
next
  case (insn s h u at)
  then have "tail_true u (rans h)" by (simp add: rans_append flags_same(2))
  moreover have "length (rans h) < 2 ^ 32" using insn.prems by (simp add: rans_append)
  ultimately show ?case using tail_insn[of u "rans h"] by (simp only: rans_append rans.simps)
next
  case (edge s h u f t)
  have "length (bt_ok u) = length (bo_expect_wram B)"
    using probed_flags[OF edge.hyps(1)] edge.hyps(2) by (simp add: flags_true_def bt_same_def)
  note t = edge_fields[OF this edge.hyps(3)]
  have "tail_true u (rans h)" using edge by (simp add: rans_append flags_same(2))
  then show ?case by (simp add: tail_true_def t rans_append)
qed

text \<open>C23. The verdict is about the run. The probe's exit code is 0 exactly if enough NMIs were taken, the picture and the sound that were required
  came, the native share and the C stack are in bounds, every address of an \<open>--expect-pc\<close> ran at some time, and for every \<open>--expect-wram\<close> its
  frame ended with the byte as expected (after a poke at that edge).\<close>

theorem verdict_of_run:
  assumes "probed B apu w s h"
  shows "verdict R s = 0 \<longleftrightarrow> vo_min_nmis R \<le> nmis s \<and> (vo_require_render R \<longrightarrow> nonblack (present s) (256 * 224 * 4)) \<and>
    vo_native_ok R (prof_native s) (prof_native s + prof_interp s) \<and> (vo_require_audio R \<longrightarrow> bt_audible s \<noteq> 0) \<and> vo_stack_ok R \<and>
    (\<forall>pc\<in>set (bo_expect_pc B). \<exists>u. (Ran pc, u) \<in> set h) \<and>
    (\<forall>e\<in>set (bo_expect_wram B). \<exists>u. last_edge (ew_frame e) h = Some u \<and> met e (poke_wram B (ew_frame e) u))"
proof -
  note f = probed_flags[OF assms, unfolded flags_true_def]
  have "list_all id (bt_hit s) \<longleftrightarrow> (\<forall>pc\<in>set (bo_expect_pc B). \<exists>u. (Ran pc, u) \<in> set h)"
    using f by (simp add: list_all_length all_set_conv_all_nth)
  moreover have "list_all id (bt_ok s) \<longleftrightarrow> (\<forall>e\<in>set (bo_expect_wram B). \<exists>u. last_edge (ew_frame e) h = Some u \<and> met e (poke_wram B (ew_frame e) u))"
    using f by (simp add: list_all_length all_set_conv_all_nth)
  ultimately show ?thesis by (auto simp: verdict_def reached_def Let_def)
qed

text \<open>C40. What a fatal error prints. The ring of the last instructions gives, oldest first, exactly the last 64 instructions that ran (all, if fewer), each
  with the registers it started with, in a run of less than \<open>2 ^ 32\<close> instructions.\<close>

theorem tail_of_run:
  assumes "probed B apu w s h" "length (rans h) < 2 ^ 32"
  shows "last_instructions s = drop (length (rans h) - 64) (rans h)"
proof -
  let ?rs = "rans h"
  have t: "tail_true s ?rs" by (rule probed_tail[OF assms])
  have n: "unat (bt_tail_n s) = length ?rs" using t assms(2) by (simp add: tail_true_def unat_of_nat)
  have "(if length ?rs > TAIL then length ?rs - TAIL else 0) = length ?rs - 64" by (simp add: TAIL_def)
  then have "last_instructions s = map (\<lambda>k. bt_tail s ! (k mod TAIL)) [length ?rs - 64..<length ?rs]"
    by (simp add: last_instructions_def Let_def n)
  also have "\<dots> = map (\<lambda>k. ?rs ! k) [length ?rs - 64..<length ?rs]"
    using t by (intro map_cong) (simp_all add: tail_true_def TAIL_def)
  also have "\<dots> = drop (length ?rs - 64) ?rs" by (intro nth_equalityI) simp_all
  finally show ?thesis .
qed

text \<open>A run of one instruction and one frame.\<close>

definition boot_zero :: boot where
  "boot_zero = sched_cpu.extend sched_zero \<lparr>bt_tail = [], bt_tail_n = 0, bt_hit = [], bt_seen = [], bt_ok = [], bt_watch_last = [],
     bt_prev_at = 0, bt_at_seen = [], bt_snaps = 0, bt_entry_seen = (\<lambda>_. 0), bt_last_at = 0, bt_seen_pc = (\<lambda>_. 0), bt_out = [],
     bt_audible = 0, bt_dumped = 0, bt_dumped_state = False, bt_input = no_script,
     bt_audio = \<lparr>ring = replicate AUDIO_RING (0, 0), ring_head = 0, ring_len = 0\<rparr>, bt_png = 0, bt_wav = []\<rparr>"

definition no_apu :: apu_view where "no_apu = \<lparr>av_regs = [], av_ram = [], av_dsp = [], av_timers = []\<rparr>"

lemma demo_probed:
  obtains s t :: boot where "probed demo_opts (\<lambda>_. no_apu) (\<lambda>_. True) t [(Ran 0xC00102, s), (Edge 1, trace demo_opts 0xC00102 s)]"
    "wram s 0x10 = 0"
proof -
  let ?p = "probed demo_opts (\<lambda>_. no_apu) (\<lambda>_. True) :: boot \<Rightarrow> _" and ?z = "boot_ready demo_opts boot_zero"
  define s where "s = ?z\<lparr>vr := (vr ?z)\<lparr>pad := (pad (vr ?z))(0 := replay_buttons (bt_input ?z) 1)\<rparr>\<rparr>"
  have "boot_start demo_opts boot_zero = Inr ((), s)"
    by (simp add: boot_start_def thn_modify bnd_gets sched_set_joypad_def whenM_def vr_do_def modify_def s_def)
  from probed.begun[OF this] have 0: "?p s []" .
  have e: "bt_same u u" for u :: boot by (simp add: bt_same_def)
  from probed.insn[OF 0 e, of "0xC00102"] have 1: "?p (trace demo_opts 0xC00102 s) [(Ran 0xC00102, s)]" by simp
  from probed.edge[OF 1 e boot_on_frame_steps, of 1] obtain t where 2: "?p t [(Ran 0xC00102, s), (Edge 1, trace demo_opts 0xC00102 s)]" by auto
  have "wram s 0x10 = 0"
    by (simp add: s_def boot_ready_def boot_zero_def sched_cpu.defs sched_zero_def charge_state.defs charge_zero_def frame_state.defs frame_zero_simps)
  then show thesis using that 2 by blast
qed

theorem verdict_of_run_witness:
  "\<exists>(s :: boot) h R. probed demo_opts (\<lambda>_. no_apu) (\<lambda>_. True) s h \<and> verdict R s = 0"
proof -
  obtain s t :: boot where p: "probed demo_opts (\<lambda>_. no_apu) (\<lambda>_. True) t [(Ran 0xC00102, s), (Edge 1, trace demo_opts 0xC00102 s)]"
    and z: "wram s 0x10 = 0" by (rule demo_probed)
  let ?u = "trace demo_opts 0xC00102 s"
  have "wram ?u = wram s" using trace_logs_rest[of s demo_opts "0xC00102"]
    by (simp add: trace_split trace_tail_def trace_expect_def rest_same_def)
  then have "wram (poke_wram demo_opts 1 ?u) 0x10 = 0xFF" using z by (simp add: poke_wram_def demo_opts_def)
  then have m: "met \<lparr>ew_frame = 1, ew_addr = 0x10, ew_val = 0, ew_neq = True\<rparr> (poke_wram demo_opts 1 ?u)" by (simp add: met_def)
  define R where "R = \<lparr>vo_min_nmis = nmis t, vo_require_render = False, vo_require_audio = False, vo_native_ok = (\<lambda>_ _. True), vo_stack_ok = True\<rparr>"
  have "bo_expect_pc demo_opts = [0xC00102]" "bo_expect_wram demo_opts = [\<lparr>ew_frame = 1, ew_addr = 0x10, ew_val = 0, ew_neq = True\<rparr>]"
    by (simp_all add: demo_opts_def)
  then have "verdict R t = 0" using verdict_of_run[OF p, of R] m by (simp add: R_def last_edge_def)
  then show ?thesis using p by blast
qed

theorem tail_of_run_witness:
  "\<exists>(s :: boot) h. probed demo_opts (\<lambda>_. no_apu) (\<lambda>_. True) s h \<and> map fst (last_instructions s) = [0xC00102]"
proof -
  obtain s t :: boot where p: "probed demo_opts (\<lambda>_. no_apu) (\<lambda>_. True) t [(Ran 0xC00102, s), (Edge 1, trace demo_opts 0xC00102 s)]"
    by (rule demo_probed)
  show ?thesis using tail_of_run[OF p] p by fastforce
qed

section \<open>An instruction that runs very often\<close>

text \<open>\<open>--at\<close> prints the first 20 runs of an instruction, but its counter is an \<open>int\<close> that goes on counting: on
  run \<open>2 ^ 31 + 1\<close> it has wrapped and the instruction is printed again.\<close>

lemma at_prints_again:
  assumes "k < length (bo_at B)" "bo_at B ! k = at" "k < length (bt_at_seen s)" "bt_at_seen s ! k = word_of_nat (2 ^ 31)"
  shows "bt_out (trace_at_one B at k s) = bt_out s @ [At at (frames (tm s)) (line (tm s)) (sched_clock s)]"
proof -
  have "sint (word_of_nat (2 ^ 31) :: 32 word) < 20" by simp
  then show ?thesis using assms by (simp add: trace_at_one_def say_def sched_clock_def)
qed

end
