(* ===== verification/Ct_Session.thy ===== *)
theory Ct_Session
  imports Ct_Frontend Ct_Boot
begin

text \<open>
  A session in the frontend and its replay in the boot probe: with \<open>--record\<close>, \<open>ct_sdl\<close> writes what it sets on pad 1 for every
  frame, and \<open>ct_boot --script\<close> on the file sets the same.
\<close>

section \<open>A session\<close>

text \<open>Between two frame edges the scheduler runs, which leaves the frontend's state alone. The log has the frames in order with
  what pad 1 is set to.\<close>

inductive played ::
  "sdl \<Rightarrow> bool \<Rightarrow> bool \<Rightarrow> u64 \<Rightarrow> 'a frontend_scheme \<Rightarrow> 'a frontend_scheme \<Rightarrow> (int \<times> u16) list \<Rightarrow> bool"
  for S dump fast now s where
  begun: "fe_start S now s = Inr ((), t) \<Longrightarrow> played S dump fast now s t [(1, pad (vr t) 0)]"
| frame: "played S dump fast now s t log \<Longrightarrow> same_frontend t u \<Longrightarrow> on_frame S dump fast (int (length log)) u = Inr ((), v) \<Longrightarrow>
    played S dump fast now s v (log @ [(int (length log) + 1, pad (vr v) 0)])"

lemma fe_start_result:
  assumes "fe_start S now s = Inr ((), t)"
  shows "fe_rec t = replay_rec_frame 1 (pad (vr t) 0) (fe_rec s)"
proof -
  define u where "u = poll_input S 0 (s\<lparr>fe_keys := key_filter_init, fe_next := now\<rparr>)"
  have "set_input 1 u = Inr ((), t)" using assms by (simp add: fe_start_def thn_modify u_def)
  then have t: "t = u\<lparr>vr := (vr u)\<lparr>pad := (pad (vr u))(0 := pad_input 1 u)\<rparr>, fe_rec := replay_rec_frame 1 (pad_input 1 u) (fe_rec u)\<rparr>"
    by (simp add: set_input_result)
  have "fe_rec u = fe_rec s" using poll_kept[of "s\<lparr>fe_keys := key_filter_init, fe_next := now\<rparr>" S 0] by (simp add: u_def fe_kept_def)
  then show ?thesis by (simp add: t)
qed

lemma played_rec:
  assumes "played S dump fast now s t log"
  shows "fe_rec t = foldl (\<lambda>w (f, b). replay_rec_frame f b w) (fe_rec s) log \<and> map fst log = map (\<lambda>k. int k + 1) [0..<length log]"
  using assms
proof (induction rule: played.induct)
  case (begun t)
  then show ?case by (simp add: fe_start_result[OF begun])
next
  case (frame t log u v)
  obtain v' where v: "on_frame S dump fast (int (length log)) u = Inr ((), v')"
    "fe_rec v' = replay_rec_frame (int (length log) + 1) (pad (vr v') 0) (fe_rec u)"
    by (rule on_frame_result)
  have "fe_rec u = fe_rec t" using frame.hyps(2) by (simp add: same_frontend_def)
  then show ?case using frame.IH frame.hyps(3) v by simp
qed

section \<open>Its replay\<close>

lemma probe_pad:
  assumes "boot_on_frame B apu w f s = Inr ((), t)"
  shows "pad (vr t) 0 = replay_buttons (bt_input s) (f + 1)"
proof -
  have "bt_input (fold (check_expect B f) ks u) = bt_input u" for ks and u :: "'a boot_scheme"
    by (induction ks arbitrary: u) (simp_all add: check_expect_fields)
  then have "bt_input (edge_checks B f s) = bt_input s" by (simp add: edge_checks_def poke_fields line_fields)
  then show ?thesis using assms by (auto simp: boot_on_frame_steps edge_logs_fields edge_pad_def)
qed

text \<open>C9. A session reproduces. Whatever the player and SDL did, with keyboard, controllers coming and going, and a script played along, the file
  that \<open>--record\<close> has written when a session of any length ends is a script \<open>ct_boot\<close> accepts, and with it the probe sets on pad 1, before its
  first frame and at every frame edge, what the frontend had set for that frame, of the twelve buttons; it presses reset at no frame.\<close>

theorem session_reproduced:
  assumes "played S dump fast now s t log" "fe_rec s = replay_rec_open ''ct_sdl --record''" "int (length log) \<le> LONG_MAX"
  shows "\<exists>r. replay_load (rec_file (replay_rec_close (fe_rec t))) no_script = (True, r) \<and>
    (\<forall>(p :: 'b boot_scheme) q B. bt_input p = r \<longrightarrow> boot_start B p = Inr ((), q) \<longrightarrow> pad (vr q) 0 = snd (log ! 0) AND 0xFFF0) \<and>
    (\<forall>(p :: 'b boot_scheme) q B apu w k. bt_input p = r \<longrightarrow> Suc k < length log \<longrightarrow> boot_on_frame B apu w (int k + 1) p = Inr ((), q) \<longrightarrow>
       pad (vr q) 0 = snd (log ! Suc k) AND 0xFFF0) \<and>
    (\<forall>f. \<not> replay_reset r f)"
proof -
  note p = played_rec[OF assms(1)]
  have f: "fst (log ! k) = int k + 1" if "k < length log" for k
    using that p by (metis (no_types, lifting) add_0 diff_zero length_map length_upt nth_map nth_upt)
  have "sorted_wrt (<) (map fst log)" unfolding conjunct2[OF p] by (simp add: sorted_wrt_map sorted_wrt_upt sorted_wrt_iff_nth_less)
  moreover have "\<forall>x\<in>set log. 1 \<le> fst x \<and> fst x \<le> LONG_MAX"
  proof
    fix x assume "x \<in> set log"
    then obtain i where "i < length log" "log ! i = x" by (auto simp: in_set_conv_nth)
    then show "1 \<le> fst x \<and> fst x \<le> LONG_MAX" using f[of i] assms(3) by simp
  qed
  ultimately obtain r where r: "replay_load (rec_file (replay_rec_close (fe_rec t))) no_script = (True, r)"
    "\<And>f. \<not> replay_reset r f" "\<And>f. replay_buttons r f = (case map_of log f of None \<Rightarrow> 0 | Some b \<Rightarrow> b AND 0xFFF0)"
    using recording_loads[of log "''ct_sdl --record''"] p assms(2) by auto
  have "distinct (map fst log)" unfolding conjunct2[OF p] by (simp add: distinct_map inj_on_def)
  then have b: "replay_buttons r (int k + 1) = snd (log ! k) AND 0xFFF0" if "k < length log" for k
    using r(3) f[OF that] that by (metis map_of_is_SomeI nth_mem option.simps(5) prod.collapse)
  have n: "log \<noteq> []" using assms(1) by (cases rule: played.cases) simp_all
  have "pad (vr q) 0 = snd (log ! 0) AND 0xFFF0" if "bt_input p = r" "boot_start B p = Inr ((), q)" for p q :: "'b boot_scheme" and B
    using begun_fields(8)[OF that(2)] that(1) b[of 0] n by simp
  moreover have "pad (vr q) 0 = snd (log ! Suc k) AND 0xFFF0"
    if "bt_input p = r" "Suc k < length log" "boot_on_frame B apu w (int k + 1) p = Inr ((), q)" for p q :: "'b boot_scheme" and B apu w k
    using probe_pad[OF that(3)] that(1) b[OF that(2)] by (simp add: add.commute add.left_commute)
  ultimately show ?thesis using r(1,2) by blast
qed

text \<open>Two frames, with a span of a script played along.\<close>

definition frontend_zero :: frontend where
  "frontend_zero = sched_cpu.extend sched_zero \<lparr>fe_audio = \<lparr>ring = replicate AUDIO_RING (0, 0), ring_head = 0, ring_len = 0\<rparr>,
     fe_keys = key_filter_init, fe_pad = None, fe_live = 0, fe_script = \<lparr>spans = [\<lparr>sp_from = 2, sp_to = 5, sp_buttons = 0x1000\<rparr>], resets = []\<rparr>,
     fe_rec = replay_rec_open ''ct_sdl --record'', fe_running = True, fe_exit = Before_loop, fe_exit_frame = - 1, fe_underruns = 0,
     fe_dropped = 0, fe_playing = False, fe_queued = 0, fe_next = 0, fe_delay = 0, fe_texture = (\<lambda>_. 0), fe_png = 0\<rparr>"

theorem session_reproduced_witness:
  "\<forall>S. \<exists>t log r. played S False True 0 frontend_zero t log \<and> length log = 2 \<and>
     replay_load (rec_file (replay_rec_close (fe_rec t))) no_script = (True, r)"
proof
  fix S
  obtain s where s: "fe_start S 0 frontend_zero = Inr ((), s)"
    by (auto simp: fe_start_def thn_modify set_input_result)
  from played.begun[OF s] have 1: "played S False True 0 frontend_zero s [(1, pad (vr s) 0)]" .
  obtain t where t: "on_frame S False True 1 s = Inr ((), t)" by (rule on_frame_result)
  have e: "same_frontend s s" by (simp add: same_frontend_def)
  have 2: "played S False True 0 frontend_zero t [(1, pad (vr s) 0), (2, pad (vr t) 0)]"
    using played.frame[OF 1 e, of t] t by simp
  have r: "fe_rec frontend_zero = replay_rec_open ''ct_sdl --record''" by (simp add: frontend_zero_def sched_cpu.defs)
  show "\<exists>t log r. played S False True 0 frontend_zero t log \<and> length log = 2 \<and>
     replay_load (rec_file (replay_rec_close (fe_rec t))) no_script = (True, r)"
    using session_reproduced[OF 2 r] 2 by (fastforce simp: LONG_MAX_def)
qed

end
