(* ===== verification/Ct_Apart.thy ===== *)
theory Ct_Apart
  imports Ct_Machine Ct_CycleCheck
begin

text \<open>
  What the registers of the machine leave alone. Every handler of the table of \<open>Ct_Machine\<close> leaves the log of the CPU's accesses and
  the DMA registers as they are, but for \<open>$4300-$437F\<close>, \<open>$420B\<close> and \<open>$420C\<close>; and those leave the log up to the access being made, the DMA of
  a \<open>$420B\<close> write writing only after it. So the check of the cycle model and the account of a general DMA hold with the
  program's own table.
\<close>

section \<open>A property of all handlers of a table\<close>

text \<open>The index in the table is the register less \<open>$2000\<close>.\<close>

definition table_all :: "('s hw_read_fn \<Rightarrow> bool) \<Rightarrow> (u16 \<Rightarrow> 's hw_write_fn \<Rightarrow> bool) \<Rightarrow> 's hooks \<Rightarrow> bool" where
  "table_all R W h \<longleftrightarrow> (\<forall>i f. hw_rd h i = Some f \<longrightarrow> R f) \<and> (\<forall>i f. hw_wr h i = Some f \<longrightarrow> W (i + 0x2000) f)"

definition loop_all :: "('s hw_read_fn \<Rightarrow> bool) \<Rightarrow> (u16 \<Rightarrow> 's hw_write_fn \<Rightarrow> bool) \<Rightarrow> 's loop \<Rightarrow> bool" where
  "loop_all R W l \<longleftrightarrow> (\<forall>r f. fst (snd l) r = Some f \<longrightarrow> R f) \<and> (\<forall>r\<in>set (fst l). \<forall>f. snd (snd l) = Some f \<longrightarrow> W r f)"

lemma loop_allI:
  "(\<And>r f. rf r = Some f \<Longrightarrow> R f) \<Longrightarrow> (\<And>r f. r \<in> set rs \<Longrightarrow> wg = Some f \<Longrightarrow> W r f) \<Longrightarrow> loop_all R W (rs, rf, wg)"
  by (simp add: loop_all_def)

lemma no_hooks_all: "table_all R W no_hooks" by (simp add: table_all_def no_hooks_def)

lemma run_loops_eq: "list_all in_window ls \<Longrightarrow> run_loops ls h = Inr (foldl (\<lambda>h (rs, rf, wg). over_hooks rs rf wg h) h ls)"
proof (induction ls h rule: run_loops.induct)
  case (2 rs rf wg ls h)
  have "hook_all rs rf wg h = Inr (over_hooks rs rf wg h)" using 2(2) by (intro hook_all_table) (simp add: in_window_def)
  then show ?case using 2 by simp
qed simp

lemma over_hooks_all: "table_all R W h \<Longrightarrow> loop_all R W (rs, rf, wg) \<Longrightarrow> table_all R W (over_hooks rs rf wg h)"
  by (auto simp: table_all_def loop_all_def over_hooks_at split: if_splits)

lemma run_loops_all:
  "run_loops ls h = Inr h' \<Longrightarrow> list_all in_window ls \<Longrightarrow> table_all R W h \<Longrightarrow> list_all (loop_all R W) ls \<Longrightarrow> table_all R W h'"
proof -
  assume r: "run_loops ls h = Inr h'" "list_all in_window ls" and t: "table_all R W h" "list_all (loop_all R W) ls"
  have "table_all R W (foldl (\<lambda>h (rs, rf, wg). over_hooks rs rf wg h) h ls)"
    using t by (induction ls arbitrary: h) (auto intro!: over_hooks_all)
  then show ?thesis using r run_loops_eq by fastforce
qed

lemma hook_registers_all:
  assumes "hook_registers M h = Inr h'" "list_all (loop_all R W) setup_loops" "list_all (loop_all R W) (adapter_loops M h)"
    "list_all (loop_all R W) sched_loops"
  shows "table_all R W h'"
  by (rule run_loops_all[OF assms(1)[unfolded hook_registers_eq] _ no_hooks_all]) (simp_all add: loops_window assms(2-4))

section \<open>The log and the DMA registers\<close>

definition seen :: "'a dev_state_scheme \<Rightarrow> dma_regs \<times> u32 \<times> u32 \<times> (u32 \<Rightarrow> u8) \<times> u8 \<times> cyc_cur" where
  "seen s = (dma s, log_view s)"

definition sees :: "dma_regs \<times> u32 \<times> u32 \<times> (u32 \<Rightarrow> u8) \<times> u8 \<times> cyc_cur \<Rightarrow> 'a dev_state_scheme \<Rightarrow> bool" where
  "sees v s \<longleftrightarrow> seen s = v"

lemma keeps_sees: "(\<And>s. seen (f s) = seen s) \<Longrightarrow> keeps (sees v) (modify f)"
  by (rule keeps_modify) (simp add: sees_def)

lemmas seen_defs = seen_def log_view_def

lemma sees_pnd [keeps_intro]: "keeps (sees v) (pnd_do f)"
  unfolding pnd_do_def by (rule keeps_sees) (simp add: seen_defs)

lemma sees_vr [keeps_intro]: "keeps (sees v) (vr_do f)"
  unfolding vr_do_def by (rule keeps_sees) (simp add: seen_defs)

lemma sees_access_clock [keeps_intro]: "keeps (sees v) access_clock"
  by (rule hoareI) (auto simp: access_clock_def split: if_splits sum.splits prod.splits)

text \<open>The handlers of the bus and of the scheduler.\<close>

lemma sees_bus:
  "keeps (sees v) (bus_open_bus reg)" "keeps (sees v) (bus_readonly_write reg x)" "keeps (sees v) (bus_unused_write reg x)"
  "keeps (sees v) (math_write reg x)" "keeps (sees v) (math_read reg)" "keeps (sees v) (memsel_write reg x)"
  "keeps (sees v) (wram_port_write reg x)" "keeps (sees v) (wram_port_read reg)"
  unfolding bus_open_bus_def bus_readonly_write_def bus_unused_write_def math_write_def math_read_def memsel_write_def
    wram_port_write_def wram_port_read_def
  by (intro keeps_intro keeps_sees; simp add: seen_defs wram_store_def wram_journal_def Let_def)+

lemma sees_latch [keeps_intro]: "keeps (sees v) access_hv" "keeps (sees v) latch_counters" "keeps (sees v) (modify (snes_set_ppu2_mdr x))"
proof -
  show h: "keeps (sees v) access_hv" unfolding access_hv_def by (intro keeps_intro)
  show "keeps (sees v) latch_counters" unfolding latch_counters_def case_prod_unfold by (intro keeps_intro h)
  show "keeps (sees v) (modify (snes_set_ppu2_mdr x))" unfolding snes_set_ppu2_mdr_def by (rule keeps_sees) (simp add: seen_defs)
qed

lemma sees_regs:
  "keeps (sees v) (slhv_read reg)" "keeps (sees v) (ophct_read reg)" "keeps (sees v) (opvct_read reg)"
  "keeps (sees v) (stat78_read reg)" "keeps (sees v) (nmitimen_write reg x)" "keeps (sees v) (rdio_read reg)"
  "keeps (sees v) (wrio_write reg x)" "keeps (sees v) (htime_vtime_write reg x)" "keeps (sees v) (joy_read reg)"
  "keeps (sees v) (rdnmi_read reg)" "keeps (sees v) (timeup_read reg)" "keeps (sees v) (hvbjoy_read reg)"
  unfolding slhv_read_def ophct_read_def opvct_read_def stat78_read_def nmitimen_write_def rdio_read_def wrio_write_def
    htime_vtime_write_def joy_read_def rdnmi_read_def timeup_read_def hvbjoy_read_def case_prod_unfold bus_open_bus_def Let_def
  by (intro keeps_intro)+

text \<open>The handlers of the adapter, over devices that leave them alone too.\<close>

definition machine_apart :: "('a frame_state_scheme) machine \<Rightarrow> bool" where
  "machine_apart M \<longleftrightarrow> (\<forall>a x s. seen (ppu_write (v_ppu (m_video M)) a x s) = seen s) \<and>
     (\<forall>n s. seen (ppu_drawTo (v_ppu (m_video M)) n s) = seen s) \<and> (\<forall>n s. seen (v_apu_catch_up (m_video M) n s) = seen s) \<and>
     (\<forall>v. keeps (sees v) (m_in_step M))"

lemma seen_adapter: "seen (ppu_do f s) = seen s" "seen (vram_prefetch_increment s) = seen s" "seen (s\<lparr>ppu1_mdr := x\<rparr>) = seen s"
  "seen (snes_set_ppu2_mdr x s) = seen s" "seen (s\<lparr>oamadd_reload := y\<rparr>) = seen s" "seen (s\<lparr>vram_latch := y\<rparr>) = seen s"
  "seen (s\<lparr>hw_notes := z\<rparr>) = seen s"
  by (simp_all add: seen_defs ppu_do_def vram_prefetch_increment_def snes_set_ppu2_mdr_def Let_def)

lemma sees_ppu_read: "keeps (sees v) (ppu_reg_read dev reg)"
proof -
  have o: "keeps (sees v) (ppu1_out x)" for x unfolding ppu1_out_def by (intro keeps_intro keeps_sees seen_adapter)
  have c: "keeps (sees v) cgdata_read" unfolding cgdata_read_def case_prod_unfold Let_def
    by (intro keeps_intro keeps_sees) (simp add: seen_adapter)
  have r: "keeps (sees v) (vram_read b)" for b unfolding vram_read_def by (intro keeps_intro o keeps_sees seen_adapter)
  have a: "keeps (sees v) oamdata_read" unfolding oamdata_read_def Let_def by (intro keeps_intro o keeps_sees seen_adapter)
  show ?thesis unfolding ppu_reg_read_def by (intro keeps_intro o c r a sees_bus keeps_sees seen_adapter)
qed

lemma sees_ppu_write:
  assumes "machine_apart M"
  shows "keeps (sees v) (ppu_reg_write (machine_ppu M) reg x)"
proof -
  let ?d = "machine_ppu M"
  have p: "seen (ppu_write ?d a y s) = seen s" "seen (ppu_drawTo ?d n s) = seen s" for a y n s
    using assms by (simp_all add: machine_apart_def machine_ppu_def)
  have dot: "keeps (sees v) ppu_dot" unfolding ppu_dot_def Let_def by (intro keeps_intro)
  have "draw_before_write ?d = bnd (gets (\<lambda>s. drawX (ppu s) < 256)) (\<lambda>b. if b
      then bnd ppu_dot (\<lambda>dot. whenM (dot > 22) (modify (ppu_drawTo ?d (dot - 21)))) else ret ())"
  proof -
    have "snes_ppu_dot ?d = Some ppu_dot" by (simp add: machine_ppu_def)
    then show ?thesis by (simp add: draw_before_write_def)
  qed
  then have draw: "keeps (sees v) (draw_before_write ?d)" using dot p(2) by (auto intro!: keeps_intro keeps_sees)
  show ?thesis unfolding ppu_reg_write_def
    by (intro keeps_intro draw sees_bus keeps_sees) (simp add: oamadd_write_def Let_def seen_adapter p)
qed

lemma sees_apu:
  assumes "machine_apart M"
  shows "keeps (sees v) (apu_reg_read (Some (apu_sync (m_video M))) reg)"
    "keeps (sees v) (apu_reg_write (Some (apu_sync (m_video M))) (m_in_step M) reg x)"
proof -
  have i: "keeps (sees v) (m_in_step M)" using assms unfolding machine_apart_def by blast
  have a: "keeps (sees v) (apu_sync (m_video M) n)" for n
    unfolding apu_sync_def using assms by (intro keeps_intro keeps_sees) (simp add: machine_apart_def)
  show "keeps (sees v) (apu_reg_read (Some (apu_sync (m_video M))) reg)"
    unfolding apu_reg_read_def option.case by (intro keeps_intro a)
  show "keeps (sees v) (apu_reg_write (Some (apu_sync (m_video M))) (m_in_step M) reg x)"
    unfolding apu_reg_write_def option.case Let_def by (intro keeps_intro a i keeps_sees) (simp_all add: seen_defs)
qed

lemma sees_dma_read: "keeps (sees v) (dma_reg_read reg)"
  unfolding dma_reg_read_def by (intro keeps_intro sees_bus)

text \<open>The table, but for the DMA's own registers.\<close>

definition read_apart :: "('a dev_state_scheme) hw_read_fn \<Rightarrow> bool" where "read_apart f \<longleftrightarrow> (\<forall>reg v. keeps (sees v) (f reg))"

definition write_apart :: "('a dev_state_scheme) hw_write_fn \<Rightarrow> bool" where "write_apart f \<longleftrightarrow> (\<forall>reg x v. keeps (sees v) (f reg x))"

lemma dma_own_regs: "r \<in> set (regs 0x4300 0x437F) \<Longrightarrow> dma_own r" "dma_own 0x420B" "dma_own 0x420C"
  by (simp_all add: set_regs dma_own_def word_le_nat_alt word_less_nat_alt)

lemma loops_apart:
  assumes "machine_apart M" "W 0x420B (mdmaen_write (m_fuel M) (Some dma_start) h)" "W 0x420C hdmaen_write"
    "\<And>r. r \<in> set (regs 0x4300 0x437F) \<Longrightarrow> W r dma_reg_write"
    "\<And>r f. write_apart f \<Longrightarrow> W r f" "\<And>f. read_apart f \<Longrightarrow> R f"
  shows "list_all (loop_all R W) setup_loops" "list_all (loop_all R W) (adapter_loops M h)" "list_all (loop_all R W) sched_loops"
proof -
  have w: "write_apart f \<Longrightarrow> Some f = Some g \<Longrightarrow> W r g" and r: "read_apart k \<Longrightarrow> Some k = Some l \<Longrightarrow> R l" for f g k l r
    using assms(5,6) by auto
  have R: "read_apart bus_open_bus" "read_apart wram_port_read" "read_apart math_read" "read_apart (ppu_reg_read (machine_ppu M))"
    "read_apart (apu_reg_read (Some (apu_sync (m_video M))))" "read_apart dma_reg_read"
    "read_apart rdnmi_read" "read_apart timeup_read" "read_apart hvbjoy_read" "read_apart joy_read" "read_apart rdio_read"
    "read_apart slhv_read" "read_apart ophct_read" "read_apart opvct_read" "read_apart stat78_read"
    unfolding read_apart_def by (simp_all add: sees_bus sees_ppu_read sees_apu[OF assms(1)] sees_dma_read sees_regs)
  have W: "write_apart math_write" "write_apart bus_readonly_write" "write_apart wram_port_write" "write_apart bus_unused_write"
    "write_apart memsel_write" "write_apart (ppu_reg_write (machine_ppu M))"
    "write_apart (apu_reg_write (Some (apu_sync (m_video M))) (m_in_step M))"
    "write_apart nmitimen_write" "write_apart wrio_write" "write_apart htime_vtime_write"
    unfolding write_apart_def by (simp_all add: sees_bus sees_ppu_write[OF assms(1)] sees_apu[OF assms(1)] sees_regs)
  show "list_all (loop_all R W) setup_loops" unfolding setup_loops_def list.pred_inject
    by (intro conjI TrueI loop_allI) (auto split: if_splits intro: assms(5,6) R W)
  show "list_all (loop_all R W) sched_loops" unfolding sched_loops_def list.pred_inject
    by (intro conjI TrueI loop_allI) (auto intro: assms(5,6) R W)
  show "list_all (loop_all R W) (adapter_loops M h)" unfolding adapter_loops_def list.pred_inject
    by (intro conjI TrueI loop_allI) (auto intro: assms(2-6) R W)
qed

lemma hook_registers_dma:
  assumes "machine_apart M" "hook_registers M h = Inr h'"
  shows "hooks_dma h'"
proof -
  define W :: "u16 \<Rightarrow> ('a frame_state_scheme) hw_write_fn \<Rightarrow> bool" where "W = (\<lambda>r f. dma_own r \<or> write_apart f)"
  note l = loops_apart[where W = W and R = read_apart, OF assms(1)]
  have "table_all read_apart W h'"
    by (rule hook_registers_all[OF assms(2) l(1) l(2) l(3)]) (simp_all add: W_def dma_own_regs)
  then have t: "\<And>i f. hw_rd h' i = Some f \<Longrightarrow> read_apart f" "\<And>i f. hw_wr h' i = Some f \<Longrightarrow> \<not> dma_own (i + 0x2000) \<Longrightarrow> write_apart f"
    unfolding table_all_def W_def by blast+
  show ?thesis unfolding hooks_dma_def
  proof (intro conjI allI impI)
    fix i f reg s x t assume f: "hw_rd h' i = Some f" "f reg s = Inr (x, t)"
    have "keeps (sees (seen s)) (f reg)" using t(1)[OF f(1)] by (simp only: read_apart_def)
    from hoareD[OF this _ f(2)] show "dma t = dma s" by (simp add: sees_def seen_def)
  next
    fix i f reg v s x t assume f: "hw_wr h' i = Some f" "\<not> dma_own (i + 0x2000)" "f reg v s = Inr (x, t)"
    have "keeps (sees (seen s)) (f reg v)" using t(2)[OF f(1,2)] by (simp only: write_apart_def)
    from hoareD[OF this _ f(3)] show "dma t = dma s" by (simp add: sees_def seen_def)
  qed
qed

lemma machine_hooks_dma: "machine_apart M \<Longrightarrow> machine_hooks M n = Inr h \<Longrightarrow> hooks_dma h"
  by (cases n) (auto split: sum.splits intro: hook_registers_dma)

section \<open>The log during a DMA\<close>

lemma frames_view:
  assumes "\<And>v. keeps (\<lambda>s. log_view s = v) m"
  shows "frames_log K m"
proof -
  have "log_kept s t" if "m s = Inr (x, t)" for s x t
    using hoareD[OF assms[of "log_view s"] _ that] by (simp add: log_view_def log_kept_def same_log_def)
  then show ?thesis by (simp add: frames_log_def)
qed

lemma frames_sees: "(\<And>v. keeps (sees v) m) \<Longrightarrow> frames_log K m"
proof (rule frames_view)
  fix v :: "u32 \<times> u32 \<times> (u32 \<Rightarrow> u8) \<times> u8 \<times> cyc_cur"
  assume k: "\<And>v. keeps (sees v) m"
  show "keeps (\<lambda>s. log_view s = v) m"
  proof (rule hoareI)
    fix s x t assume v: "log_view s = v" and t: "m s = Inr (x, t)"
    show "log_view t = v" using hoareD[OF k[of "seen s"] _ t] v by (simp add: sees_def seen_def)
  qed
qed

text \<open>Accesses made after the first \<open>n0\<close> of the log.\<close>

definition later :: "'a cyc_state_scheme \<Rightarrow> nat \<Rightarrow> 'a cyc_state_scheme \<Rightarrow> bool" where
  "later s0 m s \<longleftrightarrow> same_log (unat (ct_bus_n s0)) s0 s \<and> unat (ct_bus_n s0) \<le> unat (ct_bus_n s) \<and>
     unat (ct_bus_n s) \<le> unat (ct_bus_n s0) + m"

lemma same_log_trans: "same_log n s t \<Longrightarrow> n \<le> k \<Longrightarrow> same_log k t u \<Longrightarrow> same_log n s u"
  by (simp add: same_log_def)

lemma later_quiet: "later s0 m s \<Longrightarrow> log_kept s t \<Longrightarrow> later s0 m t"
  unfolding later_def log_kept_def by (auto intro: same_log_trans)

lemma later_more: "later s0 m s \<Longrightarrow> m \<le> k \<Longrightarrow> later s0 k s"
  by (simp add: later_def)

lemma later_view: "log_view t = log_view s \<Longrightarrow> later s0 m t = later s0 m s"
  by (simp add: later_def same_log_def log_view_def)

lemma later_mem: "later s0 m (set_mdr w t) = later s0 m t" "later s0 m (t\<lparr>sram := f\<rparr>) = later s0 m t"
  "later s0 m (wram_store off w t) = later s0 m t"
  by (rule later_view, rule log_view_mem)+

lemma later_access:
  assumes "later s0 m s" "unat (ct_bus_n s0) + Suc m < 2 ^ 32"
  shows "later s0 (Suc m) (log_access ck e s)"
proof -
  have n: "unat (ct_bus_n s + 1) = Suc (unat (ct_bus_n s))" using assms by (simp add: later_def unat_word_ariths)
  have "(word_of_nat j :: u32) \<noteq> ct_bus_n s" if "j < unat (ct_bus_n s0)" for j
  proof -
    have "unat (word_of_nat j :: u32) = j" using that assms(2) by (simp add: unat_of_nat)
    then show ?thesis using that assms(1) by (auto simp: later_def)
  qed
  then have "same_log (unat (ct_bus_n s0)) s0 (log_access ck e s)"
    using assms(1) by (simp add: later_def same_log_def log_access_def Let_def)
  then show ?thesis using assms(1) n by (simp add: later_def log_access_def Let_def)
qed

lemma later_read8:
  assumes "hooks_frame K h" "unat (ct_bus_n s0) + Suc m + K < 2 ^ 32"
  shows "hoare (later s0 m) (read8 h a) (\<lambda>_. later s0 (Suc m))"
proof (rule hoareI)
  fix s v t assume s: "later s0 m s" and r: "read8 h a s = Inr (v, t)"
  have l: "later s0 (Suc m) (log_access ck e s)" for ck e using later_access[OF s] assms(2) by simp
  from r show "later s0 (Suc m) t"
  proof (cases rule: read8_cases)
    case (mem u)
    then show ?thesis using l by (simp add: later_mem)
  next
    case (hw u f i reg w)
    have u: "later s0 (Suc m) u" using l hw(1) by simp
    then have "unat (ct_bus_n u) + K < 2 ^ 32" using assms(2) by (simp add: later_def)
    from later_quiet[OF u hooks_frame_rd[OF assms(1) hw(2) this hw(3)]] show ?thesis
      using hw(4) by (simp add: later_mem)
  qed
qed

lemma later_write8:
  assumes "hooks_frame K h" "unat (ct_bus_n s0) + Suc m + K < 2 ^ 32"
  shows "hoare (later s0 m) (write8 h a v) (\<lambda>_. later s0 (Suc m))"
proof (rule hoareI)
  fix s x t assume s: "later s0 m s" and r: "write8 h a v s = Inr (x, t)"
  have l: "later s0 (Suc m) (set_mdr w (log_access ck e s))" for ck e w
    using later_access[OF s] assms(2) by (simp add: later_mem)
  from r show "later s0 (Suc m) t"
  proof (cases rule: write8_cases)
    case (wram u off)
    then show ?thesis using l by (simp add: later_mem)
  next
    case (sram u off)
    then show ?thesis using l by (simp add: later_mem)
  next
    case (hw u f i reg)
    have u: "later s0 (Suc m) u" using l hw(1) by simp
    then have "unat (ct_bus_n u) + K < 2 ^ 32" using assms(2) by (simp add: later_def)
    from later_quiet[OF u hooks_frame_wr[OF assms(1) hw(2) this hw(3)]] show ?thesis .
  qed
qed

lemma later_dma_do: "keeps (later s0 m) (dma_do f)"
  unfolding dma_do_def by (rule keeps_modify) (simp add: later_def same_log_def)

lemma later_doDma:
  assumes "hooks_frame K h" "unat (ct_bus_n s0) + m + 2 + K < 2 ^ 32"
  shows "hoare (later s0 m) (dma_doDma h) (\<lambda>_. later s0 (m + 2))"
proof -
  have t: "hoare (later s0 m) (dma_transferByte h a bank b fromB) (\<lambda>_. later s0 (m + 2))" for a bank b fromB
    using assms(2) unfolding dma_transferByte_def snes_readBBus_def snes_writeBBus_def
    by (auto intro!: hoare_bnd[OF later_read8[OF assms(1)]] hoare_weaken[OF later_write8[OF assms(1)]])
  have d: "hoare (later s0 m) (dma_do f) (\<lambda>_. later s0 (m + 2))" for f
    by (rule hoare_weaken[OF later_dma_do], erule later_more) simp
  show ?thesis unfolding dma_doDma_def Let_def chan_do_def
    by (rule hoare_bnd[OF keeps_gets]) (auto intro!: d[simplified] hoare_thn[OF later_dma_do] hoare_thn[OF t[simplified]] later_dma_do)
qed

lemma later_loop:
  assumes "hooks_frame K h"
  shows "unat (ct_bus_n s0) + m + 2 * fuel + K < 2 ^ 32 \<Longrightarrow> hoare (later s0 m) (dma_loop fuel h) (\<lambda>_. later s0 (m + 2 * fuel))"
proof (induction fuel arbitrary: m)
  case 0
  show ?case unfolding dma_loop.simps by (rule keeps_die)
next
  case (Suc fuel)
  have l: "hoare (later s0 (m + 2)) (dma_loop fuel h) (\<lambda>_. later s0 (m + 2 * Suc fuel))"
    using Suc.IH[of "m + 2"] Suc.prems by simp
  have r: "hoare (later s0 m) (ret ()) (\<lambda>_. later s0 (m + 2 * Suc fuel))" by (simp add: hoare_def later_more)
  have "hoare (later s0 m) (dma_doDma h) (\<lambda>_. later s0 (m + 2))" using Suc.prems by (intro later_doDma[OF assms]) simp
  note b = hoare_thn[OF this l]
  have "hoare (later s0 m) (if x then thn (dma_doDma h) (dma_loop fuel h) else ret ()) (\<lambda>_. later s0 (m + 2 * Suc fuel))" for x
    by (cases x) (simp_all only: if_True if_False b r)
  then show ?case unfolding dma_loop.simps by (intro hoare_bnd[OF keeps_gets])
qed

section \<open>A \<open>$420B\<close> write\<close>

text \<open>What is pending after it: the pause of the CPU, by the sizes of the channels started.\<close>

definition dma_pend :: "u8 \<Rightarrow> 'a sched_state_scheme \<Rightarrow> pend" where
  "dma_pend v s = (if v = 0 then pnd s
     else (pnd s)\<lparr>dma_sizes := map (start_size (dma s) v) [0..<8], dma_after := int (unat (ct_bus_n s)) - 1\<rparr>)"

lemma mdmaen_runs:
  "mdmaen_write fuel (Some dma_start) h reg v s =
     (case dma_loop fuel h (s\<lparr>pnd := dma_pend v s, dma := dma_startDma v False (dma s)\<rparr>) of Inl e \<Rightarrow> Inl e
      | Inr (x, t) \<Rightarrow> Inr ((), t\<lparr>ct_bus_clocks := ct_bus_clocks s, ct_bus_n := ct_bus_n s\<rparr>))"
proof -
  let ?s = "s\<lparr>pnd := dma_pend v s\<rparr>"
  have "thn (whenM (v \<noteq> 0) (dma_start (map (start_size (dma s) v) [0..<8]))) k s = k ?s" for k :: "('a sched_state_scheme, unit) act"
    by (simp add: whenM_def dma_start_def dma_pend_def pnd_do_def thn_def bnd_def gets_def modify_def ret_def)
  then show ?thesis
    by (simp add: mdmaen_write_def bnd_gets dma_do_def thn_modify thn_def bnd_def modify_def split: sum.splits prod.splits)
qed

lemma frames_mdmaen:
  assumes "hooks_frame K h"
  shows "frames_log (K + 2 * fuel) (mdmaen_write fuel (Some dma_start) h reg v)"
  unfolding frames_log_def
proof (intro allI impI)
  fix s x t assume n: "unat (ct_bus_n s) + (K + 2 * fuel) < 2 ^ 32" and r: "mdmaen_write fuel (Some dma_start) h reg v s = Inr (x, t)"
  let ?s = "s\<lparr>pnd := dma_pend v s, dma := dma_startDma v False (dma s)\<rparr>"
  obtain y u where u: "dma_loop fuel h ?s = Inr (y, u)" "t = u\<lparr>ct_bus_clocks := ct_bus_clocks s, ct_bus_n := ct_bus_n s\<rparr>"
    using r by (auto simp: mdmaen_runs split: sum.splits prod.splits)
  have "later s 0 ?s" by (simp add: later_def same_log_def)
  moreover have "unat (ct_bus_n s) + 0 + 2 * fuel + K < 2 ^ 32" using n by simp
  ultimately have "later s (0 + 2 * fuel) u" using hoareD[OF later_loop[OF assms]] u(1) by blast
  then show "log_kept s t" by (simp add: u(2) log_kept_def later_def same_log_def)
qed

lemma view_dma_regs: "keeps (\<lambda>s. log_view s = v) (dma_do f)" "keeps (\<lambda>s. log_view s = v) (bus_unused_write reg x)"
  unfolding dma_do_def bus_unused_write_def by (rule keeps_modify, simp add: log_view_def)+

lemma frames_dma_regs: "frames_log K (dma_reg_write reg x)" "frames_log K (hdmaen_write reg x)"
  unfolding dma_reg_write_def hdmaen_write_def by (rule frames_view, intro keeps_intro view_dma_regs)+

lemma hook_registers_frame:
  assumes "machine_apart M" "hooks_frame K h" "hook_registers M h = Inr h'"
  shows "hooks_frame (K + 2 * m_fuel M) h'"
proof -
  define R :: "('a frame_state_scheme) hw_read_fn \<Rightarrow> bool" where "R = (\<lambda>f. \<forall>reg. frames_log (K + 2 * m_fuel M) (f reg))"
  define W :: "u16 \<Rightarrow> ('a frame_state_scheme) hw_write_fn \<Rightarrow> bool" where "W = (\<lambda>r f. \<forall>reg v. frames_log (K + 2 * m_fuel M) (f reg v))"
  have w: "W r f" if "write_apart f" for r f using that unfolding W_def write_apart_def by (blast intro: frames_sees)
  have r: "R f" if "read_apart f" for f using that unfolding R_def read_apart_def by (blast intro: frames_sees)
  have m: "W 0x420B (mdmaen_write (m_fuel M) (Some dma_start) h)" using frames_mdmaen[OF assms(2)] by (simp add: W_def)
  have d: "W 0x420C hdmaen_write" "W r dma_reg_write" for r by (simp_all add: W_def frames_dma_regs)
  note l = loops_apart[where W = W and R = R, OF assms(1) m d(1) d(2) w r]
  have "table_all R W h'" by (rule hook_registers_all[OF assms(3) l(1) l(2) l(3)])
  then show ?thesis unfolding table_all_def R_def W_def hooks_frame_def by blast
qed

lemma machine_hooks_frame:
  assumes "machine_apart M"
  shows "machine_hooks M n = Inr h \<Longrightarrow> hooks_frame (2 * m_fuel M * Suc n) h"
proof (induction n arbitrary: h)
  case 0
  have "hooks_frame 0 (no_hooks :: ('a frame_state_scheme) hooks)" by (simp add: hooks_frame_def no_hooks_def)
  from hook_registers_frame[OF assms this] 0 show ?case by simp
next
  case (Suc n)
  then obtain k where "machine_hooks M n = Inr k" "hook_registers M k = Inr h" by (auto split: sum.splits)
  from hook_registers_frame[OF assms Suc.IH[OF this(1)] this(2)] show ?case by (simp add: algebra_simps)
qed

text \<open>The handlers of \<open>$420B\<close> and of the WRAM port.\<close>

lemma table_at:
  assumes "hook_registers M h = Inr h'"
  shows "hw_wr h' 0x220B = Some (mdmaen_write (m_fuel M) (Some dma_start) h)" "hw_wr h' 0x180 = Some wram_port_write"
proof -
  have "h' = foldl (\<lambda>h (rs, rf, wg). over_hooks rs rf wg h) no_hooks (setup_loops @ adapter_loops M h @ sched_loops)"
    using assms unfolding hook_registers_eq by (subst (asm) run_loops_eq) (simp_all add: loops_window)
  then show "hw_wr h' 0x220B = Some (mdmaen_write (m_fuel M) (Some dma_start) h)" "hw_wr h' 0x180 = Some wram_port_write"
    unfolding setup_loops_def adapter_loops_def sched_loops_def by (simp_all add: over_hooks_at set_regs)
qed

lemma dma_started:
  assumes "machine_apart M" "machine_hooks M n = Inr h" "8 * 65536 + 2 \<le> m_fuel M" "offs_ok (dma s)" "v \<noteq> 0"
  defines "d \<equiv> dma_startDma v False (dma s)"
  assumes "\<forall>b\<in>set (dma_bytes d). \<not> to_dma b"
  shows "mdmaen_write (m_fuel M) (Some dma_start) h reg v s =
     (case run_at h (zip (dma_bytes d) (dma_course (length (dma_bytes d)) d)) (s\<lparr>pnd := dma_pend v s\<rparr>) of Inl e \<Rightarrow> Inl e
      | Inr (x, t) \<Rightarrow> Inr ((), t\<lparr>dma := dma_done d, ct_bus_clocks := ct_bus_clocks s, ct_bus_n := ct_bus_n s\<rparr>))"
proof -
  let ?s = "s\<lparr>pnd := dma_pend v s\<rparr>"
  have e: "dma ?s = dma s" by simp
  have "dma_loop (m_fuel M) h (?s\<lparr>dma := d\<rparr>) = (case run_at h (zip (dma_bytes d) (dma_course (length (dma_bytes d)) d)) ?s of
      Inl e \<Rightarrow> Inl e | Inr (x, t) \<Rightarrow> Inr ((), t\<lparr>dma := dma_done d\<rparr>))"
    using dma_runs[OF machine_hooks_dma[OF assms(1,2)], of ?s v "m_fuel M"] assms(3-5,7) unfolding e d_def by blast
  then show ?thesis unfolding mdmaen_runs d_def[symmetric] by (auto split: sum.splits prod.splits)
qed

section \<open>The program's table\<close>

text \<open>C3. The check of the cycle model never has anything to report, with the program's own register table: from the beginning of
  an instruction, compiled or interpreted, and after any accesses of it that fit its template, no more than 64, whatever they did, a DMA started by
  them included, the clocks of the template's cycles are the clocks the opcode's count gives. The table is that of any depth of DMAs that write \<open>$420B\<close>, as
  long as their accesses cannot bring the 32-bit count of accesses round.\<close>

theorem cyc_check_quiet:
  assumes "machine_apart M" "machine_hooks M n = Inr h" "64 + 2 * m_fuel M * Suc n < 2 ^ 32"
    and "ct_bus_fetch s0 \<in> {0, 0x40}" and "length xs \<le> 64"
    and "run_accesses h xs (if compiled then cyc_begin_compiled c at op s0 else cyc_begin c at op s0) = Inr (u, s)"
    and "accesses_fit s"
  shows "cyc_check (s\<lparr>ct_cyc_cross := cross, ct_cyc_taken := taken\<rparr>) = Inr None"
  by (rule check_quiet[OF machine_hooks_frame[OF assms(1,2)] assms(3-7)])

text \<open>C19. A general DMA is its list of bytes, with the program's own register table. The handler of \<open>$420B\<close> is the one of \<open>snes_adapter.c\<close>;
  a write of it notes the pause of the CPU, by the sizes of the channels started, then does
  exactly the byte transfers of the channels in channel order (addresses stepped, held or decremented, B-bus pattern of the mode, a
  size of 0 meaning 65536), each with the channel registers as they stand at that byte, stops, leaves the registers
  as after the last byte, and its accesses are not charged to the instruction. The fuel of the loop is enough for the eight channels' longest transfers. Left out are
  transfers that write the DMA's own registers over the A-bus, which the hardware does not let a DMA reach and \<open>dma.c\<close> notes as not handled.\<close>

theorem general_dma:
  assumes "machine_apart M" "machine_hooks M n = Inr h" "hook_registers M h = Inr h'" "8 * 65536 + 2 \<le> m_fuel M"
    and "offs_ok (dma s)" "v \<noteq> 0" "\<forall>b\<in>set (dma_bytes (dma_startDma v False (dma s))). \<not> to_dma b"
  shows "let d = dma_startDma v False (dma s); bs = dma_bytes d in
    hw_wr h' 0x220B = Some (mdmaen_write (m_fuel M) (Some dma_start) h) \<and>
    mdmaen_write (m_fuel M) (Some dma_start) h 0x420B v s =
     (case run_at h (zip bs (dma_course (length bs) d)) (s\<lparr>pnd := dma_pend v s\<rparr>) of Inl e \<Rightarrow> Inl e
      | Inr (x, t) \<Rightarrow> Inr ((), t\<lparr>dma := dma_done d, ct_bus_clocks := ct_bus_clocks s, ct_bus_n := ct_bus_n s\<rparr>))"
  unfolding Let_def by (rule conjI[OF table_at(1)[OF assms(3)] dma_started[OF assms(1,2,4-7)]])

text \<open>Two bytes of WRAM to the WRAM port, on channel 0, by a machine of idle devices.\<close>

definition dma_machine :: "('a frame_state_scheme) machine" where
  "dma_machine = idle_machine\<lparr>m_fuel := 600000\<rparr>"

definition demo_dma :: dma_regs where "demo_dma = dma_zero\<lparr>channel := (\<lambda>_. chan_reset)(0 := demo_chan)\<rparr>"

lemma dma_machine_apart: "machine_apart (dma_machine :: ('a frame_state_scheme) machine)"
  by (simp add: machine_apart_def dma_machine_def idle_machine_def idle_video_def keeps_intro)

lemma port_transfer:
  assumes "hw_wr h 0x180 = Some wram_port_write"
  shows "\<exists>t. run_transfer1 h (a, 0x7E, 0x80, False) s = Inr ((), t) \<and>
    wram t = (wram s)(wram_port_addr s AND 0x1FFFF := wram s (to32 a)) \<and> wram_port_addr t = (wram_port_addr s + 1) AND 0x1FFFF"
proof -
  have l: "wram (log_access ck e s) = wram s" "wram_port_addr (log_access ck e s) = wram_port_addr s"
    "wram (set_mdr v s) = wram s" "wram_port_addr (set_mdr v s) = wram_port_addr s"
    "wram (wram_store q v s) = (wram s)(q := v)" "wram_port_addr (wram_store q v s) = wram_port_addr s"
    for ck e v q and s :: "'b bus_state_scheme"
    by (simp_all add: log_access_def set_mdr_def wram_store_def wram_journal_def Let_def)
  have d: "decode_addr (addr24 0x7E a AND 0xFFFFFF) = (R_WRAM, to32 a)"
  proof -
    have "addr24 0x7E a - 0x7E0000 = to32 a"
      using unat_addr24_minus[of "0x7E0000" "0x7E" a] by (simp add: word_le_nat_alt unat_addr24 word_unat_eq_iff)
    then show ?thesis by (simp add: decode_addr_def Let_def)
  qed
  have p: "decode_addr 0x2180 = (R_HW, 0x2180)" by (simp add: decode_addr_def Let_def)
  show ?thesis
    by (simp add: run_transfer1_def dma_transferByte_def snes_writeBBus_def bnd_def read8_def write8_def Let_def d[simplified] p l
        assms HW_BASE_def wram_port_write_def CT_WRAM_SIZE_def)
qed

lemma demo_bytes:
  defines "d \<equiv> dma_startDma 1 False demo_dma"
  shows "dma_bytes d = [(0x10, 0x7E, 0x80, False), (0x11, 0x7E, 0x80, False)]" "ch_aAdr (channel (dma_done d) 0) = 0x12" "offs_ok demo_dma"
proof -
  have c: "channel d 0 = demo_chan\<lparr>ch_dmaActive := True\<rparr>" "\<And>i. 0 < i \<Longrightarrow> \<not> ch_dmaActive (channel d i)"
    by (auto simp: d_def demo_dma_def dma_startDma_def Let_def demo_chan_def chan_reset_def bit_simps)
  have "map (\<lambda>i. chan_bytes (channel d i)) [Suc 0..<8] = map (\<lambda>_. []) [Suc 0..<8]"
    using c(2) by (intro map_cong) (auto simp: chan_bytes_def)
  then have "dma_bytes d = chan_bytes (channel d 0)"
    by (simp add: dma_bytes_def upt_conv_Cons del: upt_Suc)
  also have "\<dots> = map (byte_at (channel d 0)) [0..<2]"
    unfolding c(1) by (simp add: chan_bytes_def chan_len_def demo_chan_def chan_reset_def)
  also have "\<dots> = [byte_at (channel d 0) 0, byte_at (channel d 0) 1]" by (simp add: upt_rec)
  finally show "dma_bytes d = [(0x10, 0x7E, 0x80, False), (0x11, 0x7E, 0x80, False)]"
    unfolding c(1) by (simp add: byte_at_def moved_adr_def demo_chan_def chan_reset_def b_offset_def bAdrOffsets_def)
  show "ch_aAdr (channel (dma_done d) 0) = 0x12"
    using c(1) by (simp add: dma_done_def chan_done_def chan_len_def moved_adr_def demo_chan_def chan_reset_def)
  show "offs_ok demo_dma" by (simp add: offs_ok_def demo_dma_def demo_chan_def chan_reset_def)
qed

lemma stx_runs:
  fixes s :: "'a dev_state_scheme"
  assumes "hw_wr h 0x180 = Some wram_port_write" "wram s = (\<lambda>a. to8 a)" "wram_port_addr s = 0x100"
  shows "\<exists>t. run_at h [((0x10, 0x7E, 0x80, False), d1), ((0x11, 0x7E, 0x80, False), d2)] s = Inr ((), t) \<and> wram t 0x100 = 0x10 \<and> wram t 0x101 = 0x11"
proof -
  obtain t1 where 1: "run_transfer1 h (0x10, 0x7E, 0x80, False) (s\<lparr>dma := d1\<rparr>) = Inr ((), t1)"
    "wram t1 = (wram s)(0x100 := 0x10)" "wram_port_addr t1 = 0x101"
    using port_transfer[OF assms(1), of "0x10" "s\<lparr>dma := d1\<rparr>"] assms(2,3) by auto
  obtain t2 where 2: "run_transfer1 h (0x11, 0x7E, 0x80, False) (t1\<lparr>dma := d2\<rparr>) = Inr ((), t2)"
    "wram t2 = (wram t1)(0x101 := 0x11)"
    using port_transfer[OF assms(1), of "0x11" "t1\<lparr>dma := d2\<rparr>"] 1 assms(2) by auto
  show ?thesis using 1 2 by (simp add: dma_do_def thn_modify thn_def bnd_def)
qed

theorem general_dma_witness:
  "\<exists>h h' t. machine_hooks (dma_machine :: frame_state machine) 0 = Inr h \<and> hook_registers dma_machine h = Inr h' \<and>
    mdmaen_write 600000 (Some dma_start) h 0x420B 1 (frame_zero\<lparr>wram := (\<lambda>a. to8 a), wram_port_addr := 0x100, dma := demo_dma\<rparr>) = Inr ((), t) \<and>
    wram t 0x100 = 0x10 \<and> wram t 0x101 = 0x11 \<and> ch_aAdr (channel (dma t) 0) = 0x12"
proof -
  let ?M = "dma_machine :: frame_state machine" and ?s = "frame_zero\<lparr>wram := (\<lambda>a. to8 a), wram_port_addr := 0x100, dma := demo_dma\<rparr>"
  let ?d = "dma_startDma 1 False (dma ?s)"
  obtain h h' where h: "machine_hooks ?M 0 = Inr h" "machine_hooks ?M 1 = Inr h'" using machine_hooks_ok by metis
  then have h': "hook_registers ?M h = Inr h'" "hook_registers ?M no_hooks = Inr h" by simp_all
  have f: "m_fuel ?M = 600000" by (simp add: dma_machine_def)
  have ok: "offs_ok (dma ?s)" "\<forall>b\<in>set (dma_bytes ?d). \<not> to_dma b" using demo_bytes by (simp_all add: to_dma_def)
  have c: "zip (dma_bytes ?d) (dma_course (length (dma_bytes ?d)) ?d) = [((0x10, 0x7E, 0x80, False), dma_course 2 ?d ! 0), ((0x11, 0x7E, 0x80, False), dma_course 2 ?d ! 1)]"
    using demo_bytes(1) by (simp add: numeral_2_eq_2)
  obtain t where t: "run_at h (zip (dma_bytes ?d) (dma_course (length (dma_bytes ?d)) ?d)) (?s\<lparr>pnd := dma_pend 1 ?s\<rparr>) = Inr ((), t)"
    "wram t 0x100 = 0x10" "wram t 0x101 = 0x11"
    unfolding c using stx_runs[OF table_at(2)[OF h'(2)], of "?s\<lparr>pnd := dma_pend 1 ?s\<rparr>"] by auto
  have "mdmaen_write 600000 (Some dma_start) h 0x420B 1 ?s =
      Inr ((), t\<lparr>dma := dma_done ?d, ct_bus_clocks := ct_bus_clocks ?s, ct_bus_n := ct_bus_n ?s\<rparr>)"
    using general_dma[OF dma_machine_apart h(1) h'(1) _ ok(1) _ ok(2)] t(1) unfolding f Let_def by simp
  then show ?thesis using h(1) h'(1) t(2,3) demo_bytes(2) by auto
qed

text \<open>\<open>STX $420B\<close>, compiled at \<open>$C00000\<close>, which starts that DMA: its two transfers write the log after the instruction's one access.\<close>

lemma stx_template: "tmpl 0x8E = Some ''FOODw''"
  by (simp add: tmpl_def tmpl_rows_def tmpl_data_rows_def branch_ops_def tmpl_flow_rows_def)

theorem cyc_check_quiet_witness:
  "\<exists>h s. machine_hooks (dma_machine :: frame_state machine) 1 = Inr h \<and>
     run_accesses h [A_write 0x420B 1] (cyc_begin_compiled (cpu_init\<lparr>fl_x := 1\<rparr>) 0xC00000 0x8E
       (frame_zero\<lparr>wram := (\<lambda>a. to8 a), wram_port_addr := 0x100, dma := demo_dma\<rparr>)) = Inr ((), s) \<and>
     wram s 0x101 = 0x11 \<and> cyc_check (s\<lparr>ct_cyc_cross := False, ct_cyc_taken := False\<rparr>) = Inr None"
proof -
  let ?M = "dma_machine :: frame_state machine" and ?z = "frame_zero\<lparr>wram := (\<lambda>a. to8 a), wram_port_addr := 0x100, dma := demo_dma\<rparr>"
  let ?b = "cyc_begin_compiled (cpu_init\<lparr>fl_x := 1\<rparr>) 0xC00000 0x8E ?z"
  obtain k h where h: "machine_hooks ?M 0 = Inr k" "machine_hooks ?M 1 = Inr h" using machine_hooks_ok by metis
  then have h': "hook_registers ?M k = Inr h" "hook_registers ?M no_hooks = Inr k" by simp_all
  have f: "m_fuel ?M = 600000" by (simp add: dma_machine_def)
  define u where "u = set_mdr 1 (log_access 6 (to8 (6 OR CT_BUS_WRITE)) ?b)"
  have ub: "dma u = demo_dma" "wram u = (\<lambda>a. to8 a)" "wram_port_addr u = 0x100" "ct_bus_n u = 1" "ct_bus_log u 0 = 0x86" "cur u = cur ?b"
    "ct_bus_fetch u = 0"
    by (simp_all add: u_def accesses_dma set_mdr_def log_access_def Let_def cyc_begin_compiled_def cyc_begin_def CT_BUS_LOG_def CT_BUS_WRITE_def
        frame_zero_simps)
  let ?d = "dma_startDma 1 False (dma u)"
  have ok: "offs_ok (dma u)" "\<forall>b\<in>set (dma_bytes ?d). \<not> to_dma b" using demo_bytes unfolding ub(1) by (simp_all add: to_dma_def)
  have c: "zip (dma_bytes ?d) (dma_course (length (dma_bytes ?d)) ?d) = [((0x10, 0x7E, 0x80, False), dma_course 2 ?d ! 0), ((0x11, 0x7E, 0x80, False), dma_course 2 ?d ! 1)]"
    using demo_bytes(1) unfolding ub(1) by (simp add: numeral_2_eq_2)
  obtain t where t: "run_at k (zip (dma_bytes ?d) (dma_course (length (dma_bytes ?d)) ?d)) (u\<lparr>pnd := dma_pend 1 u\<rparr>) = Inr ((), t)"
    "wram t 0x101 = 0x11"
    unfolding c using stx_runs[OF table_at(2)[OF h'(2)], of "u\<lparr>pnd := dma_pend 1 u\<rparr>"] ub(2,3) by auto
  let ?s = "t\<lparr>dma := dma_done ?d, ct_bus_clocks := ct_bus_clocks u, ct_bus_n := ct_bus_n u\<rparr>"
  have m: "mdmaen_write 600000 (Some dma_start) k 0x420B 1 u = Inr ((), ?s)"
    using dma_started[OF dma_machine_apart h(1) _ ok(1) _ ok(2)] t(1) unfolding f by simp
  have w: "write8 h 0x420B 1 ?b = Inr ((), ?s)"
  proof -
    have "decode_addr 0x420B = (R_HW, 0x420B)" "bus_access_clocks 0x420B ?b = 6"
      by (simp_all add: decode_addr_def Let_def bus_access_clocks_def)
    then show ?thesis using table_at(1)[OF h'(1)] m by (simp add: write8_def Let_def HW_BASE_def f u_def)
  qed
  then have r: "run_accesses h [A_write 0x420B 1] ?b = Inr ((), ?s)" by (simp add: thn_def bnd_def)
  have kept: "log_kept u ?s"
    using frames_mdmaen[OF machine_hooks_frame[OF dma_machine_apart h(1)], of 600000 "0x420B" 1] m
    unfolding frames_log_def by (simp add: ub(4) f)
  then have s: "cur ?s = cur ?b" "ct_bus_n ?s = 1" "ct_bus_log ?s 0 = 0x86"
    using ub(4-6) by (auto simp: log_kept_def same_log_def)
  have k: "cu_op (cur ?s) = 0x8E" "cu_compiled (cur ?s)" "\<not> cu_x16 (cur ?s)"
    unfolding s(1) by (simp_all add: cyc_begin_compiled_def cyc_begin_def Let_def)
  have l: "logged ?s = 1" unfolding logged_def s(2) by (simp add: CT_BUS_LOG_def)
  have e: "entries ?s False 0 = [0]" "entries ?s True 0 = []"
    unfolding entries_def l log_is_fetch_def using s(3) by (simp_all add: CT_BUS_FETCH_def)
  have fit: "accesses_fit ?s"
    unfolding accesses_fit_def e k(1) stx_template using k(2,3) by (simp add: uses_def cyc_use_def Let_def)
  have "run_accesses h [A_write 0x420B 1] (if True then ?b else cyc_begin (cpu_init\<lparr>fl_x := 1\<rparr>) 0xC00000 0x8E ?z) = Inr ((), ?s)" using r by simp
  from cyc_check_quiet[OF dma_machine_apart h(2) _ _ _ this fit, of False False]
  have "cyc_check (?s\<lparr>ct_cyc_cross := False, ct_cyc_taken := False\<rparr>) = Inr None"
    by (simp add: f frame_zero_simps)
  then show ?thesis using h(2) r t(2) by auto
qed

end
