(* ===== verification/Spec2Isabelle.thy ===== *)
theory Spec2Isabelle
  imports Ct_InterpProps Ct_Png Ct_Wav Ct_Input Ct_Hooks Ct_Overlay Ct_SpcHost Ct_Session Ct_Dispatch Ct_Apart
begin

text \<open>
  Verification of ct-recomp, a static recompilation of a SNES game: the C runtime under \<open>src/runtime\<close>, the game's hooks, the
  SDL frontend and the boot tool, and the DMA of \<open>src/third_party/snes\<close>, which the runtime drives.

  \<^bold>\<open>The program.\<close> The recompiler (Python) turns the game's 65816 code into C functions made of the operations of \<open>ops.h\<close>.
  At every instruction boundary they call the scheduler (\<open>sched.c\<close>, \<open>tick\<close>), which charges the instruction to the clock, raises
  interrupts, and hands over to the interpreter (\<open>interp.c\<close>) where no compiled function fits: code of the game in WRAM is
  dispatched by a hash of its bytes (\<open>overlay.c\<close>). Every access goes over the bus (\<open>bus.c\<close>), whose register table calls
  the adapter (\<open>snes_adapter.c\<close>: PPU ports, APU ports, DMA) and the scheduler's own registers. An instruction in which a DMA, an
  HDMA, a refresh or an interrupt may fall is walked cycle by cycle, by the templates of \<open>cycles.c\<close>. The SPC700 is caught up to the
  CPU's clock (\<open>spc700_host.cpp\<close>). At the edge of a frame a hook runs: the frontend's (\<open>main.c\<close>), which takes input and records
  it (\<open>replay.c\<close>), queues audio and keeps the pace, or the boot tool's (\<open>ct_boot.c\<close>), which checks and logs a run.

  \<^bold>\<open>How it is modelled.\<close> The globals of each C file are a record, each extending the one below it in the order of the calls: \<open>bus_state\<close>,
  \<open>cyc_state\<close>, \<open>mach\<close> (the CPU), \<open>interp_state\<close>, \<open>ovl_state\<close>, \<open>dev_state\<close> (DMA), \<open>adapter_state\<close>, \<open>sched_state\<close>, \<open>frame_state\<close>,
  \<open>charge_state\<close>, \<open>sched_cpu\<close>, and on it \<open>frontend\<close> or \<open>boot\<close>; the operations of a component work on any extension of its record. A C
  function is an action \<open>state \<Rightarrow> fatal + value \<times> state\<close>; \<open>ct_fatal\<close>, which does not return, is the left side with its message as
  a value. Machine integers are words of their width, arrays functions of their index shown to stay in bounds. A handler of
  the register table has the whole state, as in C.

  \<^bold>\<open>The theories.\<close>
  \<^item> \<open>Ct_Prelude\<close>: the integer types, the fatal errors, actions and the rules that carry an invariant through them (\<open>keeps_intro\<close>).
  \<^item> \<open>Ct_Cpu\<close>, \<open>Ct_Hwlog\<close>, \<open>Ct_Bus\<close>, \<open>Ct_Ops\<close>: \<open>cpu.c\<close>, \<open>hwlog.c\<close>, \<open>bus.c\<close>, \<open>ops.h\<close>. The map stays in its arrays; a store to WRAM
    tracks its page; the RAM contract is the locale \<open>byte_ram\<close>, interpreted on the bus.
  \<^item> \<open>Ct_Cycles\<close>, \<open>Ct_CycleCheck\<close>: \<open>cycles.c\<close>, and the agreement of its two descriptions of every instruction, for a table that leaves the
    log of accesses alone (\<open>hooks_frame\<close>).
  \<^item> \<open>Ct_Interp\<close>, \<open>Ct_InterpWf\<close>, \<open>Ct_InterpProps\<close>: \<open>interp.c\<close>; the register invariant through it; its agreement with the operations of \<open>ops.h\<close>,
    which are translated on their own; arithmetic, stack and interrupts.
  \<^item> \<open>Ct_Hooks\<close>: \<open>game/ct/hooks.c\<close> and the block move (locale \<open>memory\<close>).
  \<^item> \<open>Ct_Search\<close>, \<open>Ct_Overlay\<close>: the binary search both tables use (locale \<open>sorted_table\<close>), \<open>overlay.c\<close>, with the cache of checked hashes
    (locale \<open>stamped\<close>) and the watched range of running functions.
  \<^item> \<open>Ct_Dma\<close>, \<open>Ct_Adapter\<close>: \<open>dma.c\<close>, \<open>snes_adapter.c\<close>. A general DMA as a list of byte transfers; the APU ports over any history of
    writes and cycles; OAM and VRAM ports.
  \<^item> \<open>Ct_Walk\<close>, \<open>Ct_Regs\<close>, \<open>Ct_Advance\<close>, \<open>Ct_Clock\<close>, \<open>Ct_Charge\<close>: the clock of \<open>sched.c\<close>: the walk of an instruction, the
    registers, the line events, the position of the beam as a closed form of the clock, and charging. What time passing keeps is proved once in the
    locales \<open>walk_order\<close>, \<open>passing_time\<close> and \<open>charging_time\<close>.
  \<^item> \<open>Ct_Machine\<close>, \<open>Ct_Apart\<close>: the register table as the program sets it up, and what its handlers leave alone, with the facts that rest on that:
    the cycle check and the general DMA on the program's own table.
  \<^item> \<open>Ct_Sched\<close>, \<open>Ct_Dispatch\<close>, \<open>Ct_Invariant\<close>, \<open>Ct_Wait\<close>: the dispatcher of \<open>sched.c\<close>: lookup and report, the profile, resuming after an
    interrupt; invariants of the whole program (locales \<open>access_invariant\<close>, \<open>scheduler_invariant\<close>); and that a WAI for the NMI ends.
  \<^item> \<open>Ct_Audio\<close>, \<open>Ct_SpcHost\<close>: the audio ring as a bounded queue (locale \<open>bounded_queue\<close>), \<open>spc700_host.cpp\<close>.
  \<^item> \<open>Ct_Codec\<close>, \<open>Ct_Png\<close>, \<open>Ct_Wav\<close>: byte encodings that read back (locale \<open>codec\<close>), \<open>png.c\<close>, \<open>wav.c\<close>.
  \<^item> \<open>Ct_Input\<close>, \<open>Ct_Replay\<close>, \<open>Ct_Frontend\<close>, \<open>Ct_Boot\<close>, \<open>Ct_Session\<close>: \<open>input.c\<close>, \<open>replay.c\<close>, \<open>main.c\<close>, \<open>ct_boot.c\<close>, and a session recorded in the
    one that the other reproduces.

  \<^bold>\<open>Bounds and fuel.\<close> The loop of line events (\<open>advance\<close>) has eight steps for every clock to pass, shown to be enough by a measure; the block move 65536 rounds, as
  many as its count has values; the DMA loop needs one step for each of at most \<open>8 * 65536\<close> bytes and two to stop, which \<open>dma_runs\<close> shows, and
  its fuel is a field of \<open>machine\<close>. The loop of the scheduler and of the interpreter may run for ever; their fuel is an argument, running out is
  an error of its own, and where it matters that they return (\<open>wai_ends\<close>) a fuel is shown to exist. The register table holds a handler that
  accesses the bus through the table: it is built for any depth of DMAs that start DMAs (\<open>machine_hooks\<close>).

  \<^bold>\<open>Parameters.\<close> The vendored PPU, APU, DSP and the ares SPC700 core, the generated functions, SDL, and what files hold are arguments. The
  hypotheses on them say what the code relies on: the devices leave the clock, the CPU, the log of accesses and the DMA registers alone (\<open>machine_steady\<close>,
  \<open>machine_apart\<close>), they return (\<open>devices_return\<close>), generated code keeps what every instruction keeps (\<open>env_ok\<close>). Each
  is met by an instance in a witness. \<open>qsort\<close> leaves the order of equal keys open; the model sorts stably.

  \<^bold>\<open>Not modelled.\<close> \<open>resample.c\<close> and the rate control of the audio, which are floating point; the coroutine the scheduler
  runs the CPU in, and \<open>note_stack\<close>, which measures the host's stack; command lines, opening and writing files, the window and the audio device;
  the profile's printed report; the Python recompiler, whose output is modelled by the operations it is made of; the vendored cores.
\<close>

end
